(* ===== verification/Prelude.thy ===== *)
theory Prelude
  imports Main "HOL-Library.Word"
begin

text \<open>
  What every component shares: the faults a C program can run into and the result type that
  carries them, 32-bit arithmetic as the code does it, memory blocks with checked loads and
  stores, and the functions of the C library on byte strings that the sources call
  (\<open>memmem\<close>, \<open>strlen\<close>, \<open>strrchr\<close>, the conversions \<open>%d\<close> and \<open>%s\<close> of
  \<open>sprintf\<close>). A byte is a \<open>char\<close> of HOL (256 values), a memory block is the list of
  its bytes, and a C string is the part of a block before its first NUL.
\<close>

named_theorems mem_simps \<open>checked memory operations that succeed\<close>

section \<open>Faults and results\<close>

text \<open>
  A fault is an execution the C program does not survive, or whose behaviour the C standard
  leaves undefined: an access outside a block, a call, an access or pointer arithmetic through
  NULL, a call or access through a pointer with no defined value or through freed memory, the
  use of a value that was never written, \<open>memcpy\<close> on overlapping ranges,
  a failed \<open>assert\<close>, a signed overflow, locking a mutex the thread holds already, a loop
  that is never left (\<open>Hang\<close>), \<open>exit\<close> (with the text given to \<open>perror\<close>
  before it), and a C++ exception nobody catches.
\<close>

datatype fault =
    OutOfBounds
  | NullDeref
  | WildPointer
  | Uninit
  | UseAfterFree
  | Overlap
  | AssertFail
  | SignedOverflow
  | Deadlock
  | Hang
  | Exit string
  | Thrown string

type_synonym 'a result = "fault + 'a"

definition rbind :: "'a result \<Rightarrow> ('a \<Rightarrow> 'b result) \<Rightarrow> 'b result" where
  "rbind r f = (case r of Inl e \<Rightarrow> Inl e | Inr x \<Rightarrow> f x)"

lemma rbind_simps [simp]:
  "rbind (Inl e) f = Inl e"
  "rbind (Inr x) f = f x"
  by (simp_all add: rbind_def)

lemma rbind_Inr_iff [simp]: "rbind r f = Inr y \<longleftrightarrow> (\<exists>x. r = Inr x \<and> f x = Inr y)"
  by (cases r) simp_all

lemma rbind_Inr [simp]: "rbind r Inr = r"
  by (cases r) simp_all

lemma rbind_assoc: "rbind (rbind r f) g = rbind r (\<lambda>x. rbind (f x) g)"
  by (cases r) simp_all

lemma rbind_cong [fundef_cong]:
  "r = r' \<Longrightarrow> (\<And>x. r' = Inr x \<Longrightarrow> f x = g x) \<Longrightarrow> rbind r f = rbind r' g"
  by (cases r') simp_all

text \<open>
  Two programs compared where the first one survives: whatever it returns, the second returns too.
\<close>

definition carried :: "'a result \<Rightarrow> 'a result \<Rightarrow> bool" where
  "carried r r' \<longleftrightarrow> (\<forall>x. r = Inr x \<longrightarrow> r' = Inr x)"

lemma carried_refl [simp]: "carried r r"
  by (simp add: carried_def)

lemma carried_Inl [simp]: "carried (Inl e) r'"
  by (simp add: carried_def)

lemma carriedD: "carried r r' \<Longrightarrow> r = Inr x \<Longrightarrow> r' = Inr x"
  by (simp add: carried_def)

lemma carried_rbind:
  "carried r r' \<Longrightarrow> (\<And>x. r = Inr x \<Longrightarrow> carried (f x) (g x)) \<Longrightarrow> carried (rbind r f) (rbind r' g)"
  by (auto simp: carried_def)

text \<open>Following a pointer: NULL is \<open>None\<close>.\<close>

definition deref :: "'a option \<Rightarrow> 'a result" where
  "deref p = (case p of None \<Rightarrow> Inl NullDeref | Some x \<Rightarrow> Inr x)"

lemma deref_simps [simp]: "deref None = Inl NullDeref" "deref (Some x) = Inr x"
  by (simp_all add: deref_def)

text \<open>The result of a loop that may never end, where it is called.\<close>

definition returned :: "'a result option \<Rightarrow> 'a result" where
  "returned r = (case r of None \<Rightarrow> Inl Hang | Some x \<Rightarrow> x)"

lemma returned_simps [simp]: "returned None = Inl Hang" "returned (Some r) = r"
  by (simp_all add: returned_def)

section \<open>Machine integers\<close>

text \<open>
  \<open>int\<close> is 32 bits wide. The values are HOL integers; \<open>chk\<close> is the check that a sum or
  a product stays in range, \<open>wrap32\<close> the conversion of a wider value to \<open>int\<close> and
  \<open>size_t\<close> the conversion of an \<open>int\<close> to the unsigned 64-bit type.
\<close>

definition int32 :: "int \<Rightarrow> bool" where
  "int32 x \<longleftrightarrow> - (2 ^ 31) \<le> x \<and> x < 2 ^ 31"

definition chk :: "int \<Rightarrow> int result" where
  "chk x = (if int32 x then Inr x else Inl SignedOverflow)"

definition wrap32 :: "int \<Rightarrow> int" where
  "wrap32 x = (x + 2 ^ 31) mod 2 ^ 32 - 2 ^ 31"

definition size_t :: "int \<Rightarrow> int" where
  "size_t x = x mod 2 ^ 64"

lemma chk_ok [simp]: "int32 x \<Longrightarrow> chk x = Inr x"
  by (simp add: chk_def)

lemma chk_Inr_iff: "chk x = Inr y \<longleftrightarrow> int32 x \<and> y = x"
  by (auto simp: chk_def)

lemma int32_wrap32: "int32 (wrap32 x)"
  by (simp add: int32_def wrap32_def)

lemma wrap32_id: "int32 x \<Longrightarrow> wrap32 x = x"
  by (simp add: int32_def wrap32_def)

lemma size_t_id: "0 \<le> x \<Longrightarrow> int32 x \<Longrightarrow> size_t x = x"
  by (simp add: int32_def size_t_def)

lemma size_t_small [simp]: "0 \<le> x \<Longrightarrow> x < 2 ^ 64 \<Longrightarrow> size_t x = x"
  by (simp add: size_t_def)

text \<open>
  An allocator says for which sizes (of type \<open>size_t\<close>) \<open>malloc\<close> and \<open>realloc\<close>
  return memory.
\<close>

type_synonym alloc = "int \<Rightarrow> bool"

section \<open>Memory blocks\<close>

definition blit :: "'a list \<Rightarrow> nat \<Rightarrow> 'a list \<Rightarrow> 'a list" where
  "blit blk i ys = take i blk @ ys @ drop (i + length ys) blk"

definition store :: "'a list \<Rightarrow> int \<Rightarrow> 'a list \<Rightarrow> 'a list result" where
  "store blk off ys =
     (if 0 \<le> off \<and> off + int (length ys) \<le> int (length blk)
      then Inr (blit blk (nat off) ys) else Inl OutOfBounds)"

definition load :: "'a list \<Rightarrow> int \<Rightarrow> int \<Rightarrow> 'a list result" where
  "load blk off n =
     (if 0 \<le> off \<and> 0 \<le> n \<and> off + n \<le> int (length blk)
      then Inr (take (nat n) (drop (nat off) blk)) else Inl OutOfBounds)"

text \<open>\<open>memcpy\<close> inside one block: both ranges in bounds, and not overlapping.\<close>

definition memcpy_within :: "'a list \<Rightarrow> int \<Rightarrow> int \<Rightarrow> int \<Rightarrow> 'a list result" where
  "memcpy_within blk dst src n =
     rbind (load blk src n) (\<lambda>ys.
       if 0 < n \<and> \<bar>dst - src\<bar> < n then Inl Overlap else store blk dst ys)"

lemma length_blit [simp]: "i + length ys \<le> length blk \<Longrightarrow> length (blit blk i ys) = length blk"
  by (simp add: blit_def)

lemma blit_Nil [simp]: "blit blk i [] = blk"
  by (simp add: blit_def)

lemma take_blit: "i \<le> length blk \<Longrightarrow> take (i + length ys) (blit blk i ys) = take i blk @ ys"
  by (simp add: blit_def)

lemma take_before_blit: "k \<le> i \<Longrightarrow> i \<le> length blk \<Longrightarrow> take k (blit blk i ys) = take k blk"
  by (simp add: blit_def)

lemma drop_after_blit:
  "i + length ys \<le> length blk \<Longrightarrow> i + length ys \<le> k \<Longrightarrow> drop k (blit blk i ys) = drop k blk"
  by (simp add: blit_def)

lemma store_ok [mem_simps]:
  "0 \<le> off \<Longrightarrow> off + int (length ys) \<le> int (length blk) \<Longrightarrow>
   store blk off ys = Inr (blit blk (nat off) ys)"
  by (simp add: store_def)

lemma load_ok [mem_simps]:
  "0 \<le> off \<Longrightarrow> 0 \<le> n \<Longrightarrow> off + n \<le> int (length blk) \<Longrightarrow>
   load blk off n = Inr (take (nat n) (drop (nat off) blk))"
  by (simp add: load_def)

lemma store_length: "store blk off ys = Inr blk' \<Longrightarrow> length blk' = length blk"
  by (auto simp: store_def split: if_splits)

text \<open>The bytes between two positions of a block, and how a store after them extends them.\<close>

definition window :: "'a list \<Rightarrow> nat \<Rightarrow> nat \<Rightarrow> 'a list" where
  "window blk i j = drop i (take j blk)"

lemma length_window [simp]: "j \<le> length blk \<Longrightarrow> length (window blk i j) = j - i"
  by (simp add: window_def)

lemma window_empty [simp]: "window blk i i = []"
  by (simp add: window_def)

lemma window_blit:
  "i \<le> j \<Longrightarrow> j + length ys \<le> length blk \<Longrightarrow>
   window (blit blk j ys) i (j + length ys) = window blk i j @ ys"
  by (simp add: window_def take_blit)

lemma window_append: "j \<le> length blk \<Longrightarrow> window (blk @ zs) i j = window blk i j"
  by (simp add: window_def)

lemma window_shift: "window blk (i + n) j = drop n (window blk i j)"
  by (simp add: window_def add.commute)

section \<open>The C library on strings\<close>

abbreviation NUL :: char where "NUL \<equiv> CHR 0x00"
abbreviation CRLF :: string where "CRLF \<equiv> [CHR 0x0D, CHR 0x0A]"

text \<open>The C string a block holds: what \<open>strlen\<close>, \<open>strcpy\<close> and \<open>%s\<close> see.\<close>

definition cstr :: "string \<Rightarrow> string" where
  "cstr = takeWhile (\<lambda>c. c \<noteq> NUL)"

lemma cstr_id [simp]: "NUL \<notin> set s \<Longrightarrow> cstr s = s"
  unfolding cstr_def takeWhile_eq_all_conv by metis

lemma cstr_no_NUL [simp]: "NUL \<notin> set (cstr s)"
  by (auto simp: cstr_def dest: set_takeWhileD)

lemma cstr_append_NUL: "NUL \<notin> set s \<Longrightarrow> cstr (s @ NUL # t) = s"
  by (induction s) (auto simp: cstr_def)

lemma cstr_NUL: "cstr (s @ NUL # t) = cstr s"
  by (induction s) (auto simp: cstr_def)

text \<open>\<open>memmem\<close>: the offset of the first occurrence of a needle.\<close>

fun memmem :: "'a list \<Rightarrow> 'a list \<Rightarrow> nat option" where
  "memmem [] needle = (if needle = [] then Some 0 else None)"
| "memmem (x # xs) needle =
     (if take (length needle) (x # xs) = needle then Some 0
      else map_option Suc (memmem xs needle))"

lemma memmem_Some:
  "memmem xs needle = Some k \<Longrightarrow> \<exists>rest. xs = take k xs @ needle @ rest \<and> k + length needle \<le> length xs"
proof (induction xs arbitrary: k)
  case Nil
  then show ?case by (auto split: if_splits)
next
  case (Cons x xs)
  show ?case
  proof (cases "take (length needle) (x # xs) = needle")
    case True
    then have k: "k = 0" and split: "x # xs = needle @ drop (length needle) (x # xs)"
      using Cons.prems append_take_drop_id [of "length needle" "x # xs"] by simp_all
    from True have "length needle \<le> length (x # xs)"
      by (metis length_take min.cobounded1)
    with k split show ?thesis by auto
  next
    case False
    with Cons.prems obtain k' where k: "k = Suc k'" and k': "memmem xs needle = Some k'"
      by (auto split: if_splits)
    from Cons.IH [OF k'] k show ?thesis by auto
  qed
qed

lemma memmem_append:
  assumes "\<forall>j < length xs. take (length needle) (drop j (xs @ needle @ ys)) \<noteq> needle"
  shows "memmem (xs @ needle @ ys) needle = Some (length xs)"
  using assms
proof (induction xs)
  case Nil
  show ?case by (cases needle; cases ys) simp_all
next
  case (Cons x xs)
  have rest: "\<forall>j < length xs. take (length needle) (drop j (xs @ needle @ ys)) \<noteq> needle"
    using Cons.prems by (metis Suc_less_eq append_Cons drop_Suc_Cons length_Cons)
  have "take (length needle) ((x # xs) @ needle @ ys) \<noteq> needle"
    using Cons.prems by (metis drop0 length_Cons zero_less_Suc)
  with Cons.IH [OF rest] show ?case by simp
qed

lemma memmem_before:
  "memmem xs needle = Some k \<Longrightarrow> j < k \<Longrightarrow> take (length needle) (drop j xs) \<noteq> needle"
proof (induction xs arbitrary: k j)
  case Nil
  then show ?case by (auto split: if_splits)
next
  case (Cons x xs)
  then show ?case by (cases j) (auto split: if_splits)
qed

lemma memmem_first:
  "c \<notin> set xs \<Longrightarrow> memmem (xs @ c # ns @ ys) (c # ns) = Some (length xs)"
  by (induction xs) (cases ns; auto)+

lemma memmem_None_append:
  "c \<notin> set xs \<Longrightarrow> memmem (xs @ ys) (c # ns) = map_option (\<lambda>k. length xs + k) (memmem ys (c # ns))"
  by (induction xs; cases "memmem ys (c # ns)") auto

lemma memmem_single_None: "memmem xs [c] = None \<longleftrightarrow> c \<notin> set xs"
  by (induction xs) auto

lemma memmem_single: "c \<notin> set xs \<Longrightarrow> memmem (xs @ c # ys) [c] = Some (length xs)"
  by (induction xs) auto

text \<open>\<open>strrchr\<close>: the rest of the string from the last occurrence of a character.\<close>

definition strrchr :: "string \<Rightarrow> char \<Rightarrow> string option" where
  "strrchr s c =
     (if c \<in> set s then Some (c # rev (takeWhile (\<lambda>x. x \<noteq> c) (rev s))) else None)"

lemma strrchr_None: "c \<notin> set s \<Longrightarrow> strrchr s c = None"
  by (simp add: strrchr_def)

lemma strrchr_last: "c \<notin> set ext \<Longrightarrow> strrchr (base @ c # ext) c = Some (c # ext)"
  by (auto simp: strrchr_def takeWhile_append2 takeWhile_eq_all_conv takeWhile_tail rev_swap)

text \<open>The conversion \<open>%d\<close>.\<close>

fun digits :: "nat \<Rightarrow> string" where
  "digits n = (if n < 10 then [char_of (48 + n)] else digits (n div 10) @ [char_of (48 + n mod 10)])"

declare digits.simps [simp del]

definition dec :: "int \<Rightarrow> string" where
  "dec i = (if i < 0 then CHR ''-'' # digits (nat (- i)) else digits (nat i))"

fun digits_val :: "nat \<Rightarrow> string \<Rightarrow> nat" where
  "digits_val acc [] = acc"
| "digits_val acc (c # cs) = digits_val (10 * acc + (of_char c - 48)) cs"

lemma digits_val_append: "digits_val acc (xs @ ys) = digits_val (digits_val acc xs) ys"
  by (induction acc xs rule: digits_val.induct) simp_all

lemma digits_val_digits: "digits_val 0 (digits n) = n"
proof (induction n rule: digits.induct)
  case (1 n)
  then show ?case
    by (subst digits.simps) (simp add: digits_val_append of_char_of take_bit_eq_mod mod_mod_trivial)
qed

lemma digits_chars: "c \<in> set (digits n) \<Longrightarrow> 48 \<le> (of_char c :: nat) \<and> (of_char c :: nat) \<le> 57"
proof (induction n rule: digits.induct)
  case (1 n)
  have *: "(48 + n mod 10) mod 256 = 48 + n mod 10" by simp
  from 1 show ?case
    by (subst (asm) digits.simps) (auto split: if_splits simp: *)
qed

lemma digits_length: "n < 10 ^ k \<Longrightarrow> 0 < k \<Longrightarrow> length (digits n) \<le> k"
proof (induction n arbitrary: k rule: digits.induct)
  case (1 n)
  show ?case
  proof (cases "n < 10")
    case True
    with "1.prems" show ?thesis by (subst digits.simps) simp
  next
    case False
    then obtain k' where k: "k = Suc k'" "0 < k'" using "1.prems" by (cases k; cases "k - 1") auto
    with "1.prems" have "n div 10 < 10 ^ k'" by (simp add: less_mult_imp_div_less)
    with "1.IH" [OF False _ k(2)] False k show ?thesis by (subst digits.simps) simp
  qed
qed

lemma NUL_digits: "NUL \<notin> set (digits n)"
  using digits_chars [of NUL n] by auto

lemma NUL_dec [simp]: "NUL \<notin> set (dec i)"
  by (simp add: dec_def NUL_digits)

lemma dec_length:
  assumes "int32 i"
  shows "length (dec i) \<le> 11"
proof (cases "i < 0")
  case True
  then have "nat (- i) < 10 ^ 10" using assms by (simp add: int32_def)
  from digits_length [OF this] True show ?thesis by (simp add: dec_def)
next
  case False
  then have "nat i < 10 ^ 10" using assms by (simp add: int32_def)
  from digits_length [OF this] False show ?thesis by (simp add: dec_def)
qed

text \<open>
  Writing a string and its NUL into an array of \<open>cap\<close> bytes, as \<open>strcpy\<close> and
  \<open>sprintf\<close> do.
\<close>

definition into_array :: "nat \<Rightarrow> string \<Rightarrow> string result" where
  "into_array cap s = (if length (cstr s) < cap then Inr (cstr s) else Inl OutOfBounds)"

lemma into_array_ok [mem_simps]: "NUL \<notin> set s \<Longrightarrow> length s < cap \<Longrightarrow> into_array cap s = Inr s"
  by (simp add: into_array_def)

text \<open>\<open>snprintf\<close> into an array of \<open>cap\<close> bytes: what does not fit is cut off.\<close>

definition snprintf :: "nat \<Rightarrow> string \<Rightarrow> string" where
  "snprintf cap s = take (cap - 1) (cstr s)"

lemma snprintf_fits: "NUL \<notin> set s \<Longrightarrow> length s < cap \<Longrightarrow> snprintf cap s = s"
  by (simp add: snprintf_def)

text \<open>Comparison without regard to case.\<close>

definition tolower :: "char \<Rightarrow> char" where
  "tolower c = (let n = of_char c :: nat in if 65 \<le> n \<and> n \<le> 90 then char_of (n + 32) else c)"

definition strcasecmp_eq :: "string \<Rightarrow> string \<Rightarrow> bool" where
  "strcasecmp_eq s t \<longleftrightarrow> map tolower (cstr s) = map tolower (cstr t)"

definition strncasecmp_eq :: "string \<Rightarrow> string \<Rightarrow> nat \<Rightarrow> bool" where
  "strncasecmp_eq s t n \<longleftrightarrow> map tolower (take n (cstr s)) = map tolower (take n (cstr t))"

section \<open>Runs that come to an end\<close>

text \<open>A relation that keeps an invariant, lowers a number at each step and can move until it is done.\<close>

locale lowering =
  fixes move :: "'s \<Rightarrow> 's \<Rightarrow> bool" and inv :: "'s \<Rightarrow> bool" and left :: "'s \<Rightarrow> nat" and finish :: "'s \<Rightarrow> bool"
  assumes keeps: "inv s \<Longrightarrow> move s t \<Longrightarrow> inv t"
    and lowers: "inv s \<Longrightarrow> move s t \<Longrightarrow> left t < left s"
    and moves: "inv s \<Longrightarrow> \<not> finish s \<Longrightarrow> \<exists>t. move s t"
begin

lemma arrives: "inv s \<Longrightarrow> \<exists>t. move\<^sup>*\<^sup>* s t \<and> finish t \<and> inv t"
proof (induction "left s" arbitrary: s rule: less_induct)
  case less
  show ?case
  proof (cases "finish s")
    case True
    with less.prems show ?thesis by blast
  next
    case False
    then obtain t where t: "move s t" using moves [OF less.prems] by blast
    from less.hyps [OF lowers [OF less.prems t] keeps [OF less.prems t]] t show ?thesis
      by (meson converse_rtranclp_into_rtranclp)
  qed
qed

end

end
