(* ===== verification/Byte_Queue.thy ===== *)
theory Byte_Queue
  imports Prelude
begin

text \<open>
  The contract of a byte buffer, as the code that fills and drains one relies on it: whatever is
  put extends the unread bytes at the end, and skipping removes a prefix of them. \<open>roomy b n\<close>
  says that \<open>n\<close> more bytes can be put, in any number of calls; \<open>okb\<close> restricts what
  can be put in one call. The client lemmas are about sequences of calls.
\<close>

fun put_all :: "('b \<Rightarrow> 'c \<Rightarrow> 'b result) \<Rightarrow> 'b \<Rightarrow> 'c list \<Rightarrow> 'b result" where
  "put_all put b [] = Inr b"
| "put_all put b (x # xs) = rbind (put b x) (\<lambda>b'. put_all put b' xs)"

lemma put_all_append: "put_all put b (xs @ ys) = rbind (put_all put b xs) (\<lambda>b'. put_all put b' ys)"
  by (induction xs arbitrary: b) (simp_all add: rbind_assoc)

lemma carried_put_all:
  fixes inv :: "'b \<Rightarrow> bool"
  assumes "\<And>b x. inv b \<Longrightarrow> x \<in> set xs \<Longrightarrow> carried (f b x) (g b x)"
    and "\<And>b x b'. inv b \<Longrightarrow> x \<in> set xs \<Longrightarrow> f b x = Inr b' \<Longrightarrow> inv b'"
  shows "inv b \<Longrightarrow> carried (put_all f b xs) (put_all g b xs)"
  using assms
proof (induction xs arbitrary: b)
  case (Cons x xs)
  have "carried (put_all f b' xs) (put_all g b' xs)" if "f b x = Inr b'" for b'
    using Cons.prems(3) [OF Cons.prems(1) _ that] by (intro Cons.IH) (auto intro: Cons.prems)
  with Cons.prems(1,2) show ?case by (auto intro: carried_rbind)
qed simp

locale byte_sink =
  fixes inv :: "'b \<Rightarrow> bool"
    and bytes :: "'b \<Rightarrow> char list"
    and put :: "'b \<Rightarrow> char list \<Rightarrow> 'b result"
    and roomy :: "'b \<Rightarrow> nat \<Rightarrow> bool"
    and okb :: "char list \<Rightarrow> bool"
  assumes put_step:
    "inv b \<Longrightarrow> roomy b (length xs + n) \<Longrightarrow> okb xs \<Longrightarrow>
     \<exists>b'. put b xs = Inr b' \<and> inv b' \<and> bytes b' = bytes b @ xs \<and> roomy b' n"
begin

lemma put_all_step:
  "inv b \<Longrightarrow> roomy b (length (concat xss) + n) \<Longrightarrow> \<forall>xs\<in>set xss. okb xs \<Longrightarrow>
   \<exists>b'. put_all put b xss = Inr b' \<and> inv b' \<and> bytes b' = bytes b @ concat xss \<and> roomy b' n"
proof (induction xss arbitrary: b)
  case Nil
  then show ?case by simp
next
  case (Cons xs xss)
  then obtain b1 where b1: "put b xs = Inr b1" "inv b1" "bytes b1 = bytes b @ xs"
      "roomy b1 (length (concat xss) + n)"
    using put_step [of b xs "length (concat xss) + n"] by (auto simp: add.assoc)
  with Cons.IH [of b1] Cons.prems(3) show ?case by fastforce
qed

lemma put_all_bytes:
  "inv b \<Longrightarrow> roomy b (length (concat xss)) \<Longrightarrow> \<forall>xs\<in>set xss. okb xs \<Longrightarrow>
   \<exists>b'. put_all put b xss = Inr b' \<and> inv b' \<and> bytes b' = bytes b @ concat xss"
  using put_all_step [of b xss 0] by auto

end

locale byte_queue = byte_sink +
  fixes skip :: "'b \<Rightarrow> nat \<Rightarrow> 'b"
  assumes skip_inv: "inv b \<Longrightarrow> n \<le> length (bytes b) \<Longrightarrow> inv (skip b n)"
    and skip_bytes: "inv b \<Longrightarrow> n \<le> length (bytes b) \<Longrightarrow> bytes (skip b n) = drop n (bytes b)"
begin

text \<open>What goes in comes out in order: put, then take everything that was there before.\<close>

lemma put_skip:
  assumes "inv b" and "roomy b (length xs)" and "okb xs"
  shows "\<exists>b'. put b xs = Inr b' \<and> bytes (skip b' (length (bytes b))) = xs"
  using assms put_step [of b xs 0] by (fastforce simp: skip_bytes)

lemma put_skip_all:
  assumes "inv b" and "roomy b (length (concat xss))" and "\<forall>xs\<in>set xss. okb xs" and "bytes b = []"
    and "k \<le> length (concat xss)"
  shows "\<exists>b'. put_all put b xss = Inr b' \<and> inv (skip b' k) \<and>
     take k (bytes b') @ bytes (skip b' k) = concat xss"
  using put_all_bytes [OF assms(1-3)] assms(4,5) by (fastforce simp: skip_bytes skip_inv)

end

end
