(* ===== verification/C_Buffer.thy ===== *)
theory C_Buffer
  imports Byte_Queue
begin

text \<open>
  \<open>old/ReactorHttp_c/Buffer.c\<close>: the growable byte buffer every connection reads into and
  writes from. The record \<open>buffer\<close> is \<open>struct Buffer\<close> with \<open>_data\<close> as the list of
  the bytes of its block. Pointers the code tests for NULL are options; the others are values,
  because the code dereferences them unconditionally. \<open>al\<close> is the allocator. The kernel's
  answers are arguments too: what \<open>readv\<close> delivered, and (in \<open>K\<close>) what the n-th
  \<open>send\<close> of a given length returns. The lemmas show that the buffer is a FIFO of bytes:
  appending and receiving extend its unread contents at the end, sending removes a prefix.
\<close>

record buffer =
  data :: "char list"
  capacity :: int
  readPos :: int
  writePos :: int

section \<open>The kernel's side of a send\<close>

text \<open>The bytes each descriptor has been sent, the number of \<open>send\<close> calls made, and the
  descriptors the code that writes the responses has closed.\<close>

record os =
  wire :: "int \<Rightarrow> char list"
  sends :: nat
  os_closed :: "int list"

type_synonym send_oracle = "nat \<Rightarrow> nat \<Rightarrow> int"

text \<open>\<open>send(2)\<close> returns -1 or the number of bytes it took, at most those offered.\<close>

definition send_contract :: "send_oracle \<Rightarrow> bool" where
  "send_contract K \<longleftrightarrow> (\<forall>n len. -1 \<le> K n len \<and> K n len \<le> int len)"

definition sys_send :: "send_oracle \<Rightarrow> int \<Rightarrow> char list \<Rightarrow> os \<Rightarrow> int \<times> os" where
  "sys_send K fd bs s =
     (let count = K (sends s) (length bs)
      in (count, s\<lparr>wire := (wire s)(fd := wire s fd @ take (nat count) bs), sends := Suc (sends s)\<rparr>))"

text \<open>The bytes \<open>xs\<close> have gone out on a descriptor, and \<open>shut\<close> have been closed; nothing else has.\<close>

definition sent :: "os \<Rightarrow> int \<Rightarrow> char list \<Rightarrow> int list \<Rightarrow> os \<Rightarrow> bool" where
  "sent s fd xs shut s' \<longleftrightarrow> wire s' = (wire s)(fd := wire s fd @ xs) \<and> os_closed s' = os_closed s @ shut"

lemma sent_refl: "sent s fd [] [] s"
  by (simp add: sent_def)

lemma sent_trans: "sent s fd xs c s1 \<Longrightarrow> sent s1 fd ys d s2 \<Longrightarrow> sent s fd (xs @ ys) (c @ d) s2"
  by (simp add: sent_def)

section \<open>The operations\<close>

definition initBuffer :: "alloc \<Rightarrow> int \<Rightarrow> buffer result" where
  "initBuffer al sz =
     (if al (size_t sz)
      then Inr \<lparr>data = replicate (nat (size_t sz)) NUL, capacity = sz, readPos = 0, writePos = 0\<rparr>
      else Inl NullDeref)"

definition bufferWriteAbleSize :: "buffer \<Rightarrow> int" where
  "bufferWriteAbleSize b = capacity b - writePos b"

definition bufferReadAbleSize :: "buffer \<Rightarrow> int" where
  "bufferReadAbleSize b = writePos b - readPos b"

definition extendRoomBuffer :: "alloc \<Rightarrow> buffer \<Rightarrow> int \<Rightarrow> buffer result" where
  "extendRoomBuffer al b sz =
     (if sz \<le> bufferWriteAbleSize b then Inr b
      else if sz \<le> readPos b + bufferWriteAbleSize b then
        (let readable = bufferReadAbleSize b in
         rbind (memcpy_within (data b) 0 (readPos b) readable) (\<lambda>d.
           Inr (b\<lparr>data := d, readPos := 0, writePos := readable\<rparr>)))
      else
        rbind (chk (capacity b + sz)) (\<lambda>newcap.
          if al (size_t newcap)
          then Inr (b\<lparr>data := data b @ replicate (nat sz) NUL, capacity := newcap\<rparr>)
          else Inl AssertFail))"

definition appendDataBuffer ::
  "alloc \<Rightarrow> buffer option \<Rightarrow> char list option \<Rightarrow> int \<Rightarrow> (buffer option \<times> int) result" where
  "appendDataBuffer al bp src sz =
     (case (bp, src) of
        (Some b, Some s) \<Rightarrow>
          if sz \<le> 0 then Inr (bp, -1)
          else
            rbind (extendRoomBuffer al b sz) (\<lambda>b1.
            rbind (load s 0 sz) (\<lambda>bytes.
            rbind (store (data b1) (writePos b1) bytes) (\<lambda>d.
              Inr (Some (b1\<lparr>data := d, writePos := writePos b1 + sz\<rparr>), 0))))
      | _ \<Rightarrow> Inr (bp, -1))"

definition appendStringBuffer ::
  "alloc \<Rightarrow> buffer option \<Rightarrow> string option \<Rightarrow> (buffer option \<times> int) result" where
  "appendStringBuffer al bp src =
     rbind (deref src) (\<lambda>s. appendDataBuffer al bp (Some s) (wrap32 (int (length (cstr s)))))"

text \<open>
  \<open>readv\<close> fills the free part of the block first and the 40960 bytes of \<open>tmp\<close> after it;
  \<open>rv\<close> is what it delivered, \<open>None\<close> for -1.
\<close>

definition socketReadBuffer :: "alloc \<Rightarrow> buffer \<Rightarrow> char list option \<Rightarrow> (buffer \<times> int) result" where
  "socketReadBuffer al b rv =
     (let writreable = bufferWriteAbleSize b in
      case rv of
        None \<Rightarrow> Inr (b, -1)
      | Some bs \<Rightarrow>
          (let result = int (length bs) in
           rbind (store (data b) (writePos b) (take (nat writreable) bs)) (\<lambda>d.
             if result \<le> writreable
             then Inr (b\<lparr>data := d, writePos := writePos b + result\<rparr>, result)
             else
               rbind (appendDataBuffer al (Some (b\<lparr>data := d, writePos := capacity b\<rparr>))
                        (Some (drop (nat writreable) bs)) (result - writreable)) (\<lambda>(bp, _).
               rbind (deref bp) (\<lambda>b'. Inr (b', result))))))"

text \<open>The position of the first CRLF in the unread bytes, as an offset into the block.\<close>

definition findCRLFBuffer :: "buffer \<Rightarrow> int option result" where
  "findCRLFBuffer b =
     rbind (load (data b) (readPos b) (bufferReadAbleSize b)) (\<lambda>bs.
       Inr (map_option (\<lambda>k. readPos b + int k) (memmem bs CRLF)))"

definition sendDataBuffer :: "send_oracle \<Rightarrow> buffer \<Rightarrow> int \<Rightarrow> os \<Rightarrow> (buffer \<times> os \<times> int) result" where
  "sendDataBuffer K b fd s =
     (let readable = bufferReadAbleSize b in
      if 0 < readable then
        rbind (load (data b) (readPos b) readable) (\<lambda>bs.
          case sys_send K fd bs s of (count, s') \<Rightarrow>
            if count \<noteq> 0 then Inr (b\<lparr>readPos := readPos b + count\<rparr>, s', count)
            else Inr (b, s', count))
      else Inr (b, s, 0))"

section \<open>Well-formedness and the abstraction to a queue of bytes\<close>

definition buf_inv :: "buffer \<Rightarrow> bool" where
  "buf_inv b \<longleftrightarrow> 0 \<le> readPos b \<and> readPos b \<le> writePos b \<and> writePos b \<le> capacity b \<and>
     capacity b = int (length (data b)) \<and> int32 (capacity b)"

definition contents :: "buffer \<Rightarrow> char list" where
  "contents b = window (data b) (nat (readPos b)) (nat (writePos b))"

text \<open>
  When appending \<open>n\<close> bytes succeeds: a compaction does not move the unread bytes over
  themselves, and the grown capacity is an \<open>int\<close> the allocator grants.
\<close>

definition no_overlap :: "buffer \<Rightarrow> int \<Rightarrow> bool" where
  "no_overlap b n \<longleftrightarrow> n \<le> bufferWriteAbleSize b \<or> readPos b + bufferWriteAbleSize b < n \<or>
     bufferReadAbleSize b \<le> readPos b"

definition can_grow :: "alloc \<Rightarrow> buffer \<Rightarrow> int \<Rightarrow> bool" where
  "can_grow al b n \<longleftrightarrow> n \<le> readPos b + bufferWriteAbleSize b \<or>
     (int32 (capacity b + n) \<and> al (capacity b + n))"

definition room :: "alloc \<Rightarrow> buffer \<Rightarrow> int \<Rightarrow> bool" where
  "room al b n \<longleftrightarrow> no_overlap b n \<and> can_grow al b n"

lemma buf_invD:
  assumes "buf_inv b"
  shows "0 \<le> readPos b" "readPos b \<le> writePos b" "writePos b \<le> capacity b"
    "capacity b = int (length (data b))" "int32 (capacity b)"
  using assms unfolding buf_inv_def by blast+

lemmas buf_sizes = bufferWriteAbleSize_def bufferReadAbleSize_def

lemma length_contents: "buf_inv b \<Longrightarrow> int (length (contents b)) = bufferReadAbleSize b"
  by (auto simp: buf_inv_def contents_def buf_sizes)

lemma sizes_in_range:
  "buf_inv b \<Longrightarrow> int32 (bufferWriteAbleSize b) \<and> int32 (bufferReadAbleSize b) \<and>
     int32 (readPos b + bufferWriteAbleSize b)"
  by (auto simp: buf_inv_def buf_sizes int32_def)

text \<open>The unread bytes as the code reaches them: an offset and a length.\<close>

lemma load_contents [mem_simps]:
  "buf_inv b \<Longrightarrow> load (data b) (readPos b) (bufferReadAbleSize b) = Inr (contents b)"
  by (auto simp: buf_inv_def buf_sizes load_def contents_def window_def drop_take nat_diff_distrib)

lemma initBuffer_ok:
  "0 \<le> sz \<Longrightarrow> int32 sz \<Longrightarrow> al sz \<Longrightarrow>
   \<exists>b. initBuffer al sz = Inr b \<and> buf_inv b \<and> contents b = [] \<and> capacity b = sz \<and> readPos b = 0"
  by (simp add: initBuffer_def size_t_id buf_inv_def contents_def)

section \<open>Making room\<close>

lemma extendRoomBuffer_compact:
  assumes inv: "buf_inv b" and full: "bufferWriteAbleSize b < n"
    and fits: "n \<le> readPos b + bufferWriteAbleSize b"
    and apart: "bufferReadAbleSize b \<le> readPos b"
  shows "\<exists>b'. extendRoomBuffer al b n = Inr b' \<and> buf_inv b' \<and> contents b' = contents b \<and>
     n \<le> bufferWriteAbleSize b' \<and> readPos b' = 0 \<and> capacity b' = capacity b"
proof -
  note inv' = buf_invD [OF inv]
  have len: "int (length (contents b)) = bufferReadAbleSize b"
    using inv by (rule length_contents)
  have room: "int (length (contents b)) \<le> int (length (data b))"
    using inv' by (simp add: len buf_sizes)
  have st: "store (data b) 0 (contents b) = Inr (blit (data b) 0 (contents b))"
    using room by (simp add: mem_simps)
  have mc: "memcpy_within (data b) 0 (readPos b) (bufferReadAbleSize b) =
      Inr (blit (data b) 0 (contents b))"
    using apart inv' by (simp add: memcpy_within_def load_contents [OF inv] st)
  have win: "window (blit (data b) 0 (contents b)) 0 (length (contents b)) = contents b"
    using room window_blit [of 0 0 "contents b" "data b"] by simp
  let ?b = "b\<lparr>data := blit (data b) 0 (contents b), readPos := 0,
      writePos := bufferReadAbleSize b\<rparr>"
  have "extendRoomBuffer al b n = Inr ?b"
    using full fits mc by (simp add: extendRoomBuffer_def Let_def)
  moreover have "buf_inv ?b"
    using inv' room len by (simp add: buf_inv_def buf_sizes)
  moreover have "contents ?b = contents b"
    using win by (subst contents_def) (simp flip: len)
  moreover have "n \<le> bufferWriteAbleSize ?b"
    using fits by (simp add: buf_sizes)
  ultimately show ?thesis by fastforce
qed

lemma extendRoomBuffer_grow:
  assumes inv: "buf_inv b" and full: "readPos b + bufferWriteAbleSize b < n"
    and ok: "int32 (capacity b + n)" "al (capacity b + n)"
  shows "\<exists>b'. extendRoomBuffer al b n = Inr b' \<and> buf_inv b' \<and> contents b' = contents b \<and>
     n \<le> bufferWriteAbleSize b' \<and> readPos b' = readPos b \<and> capacity b' = capacity b + n"
proof -
  note inv' = buf_invD [OF inv]
  let ?b = "b\<lparr>data := data b @ replicate (nat n) NUL, capacity := capacity b + n\<rparr>"
  have "0 \<le> n" "size_t (capacity b + n) = capacity b + n"
    using inv' full ok by (auto simp: buf_sizes size_t_id)
  then have "extendRoomBuffer al b n = Inr ?b"
    using inv' full ok by (simp add: extendRoomBuffer_def buf_sizes)
  moreover have "buf_inv ?b" "contents ?b = contents b" "n \<le> bufferWriteAbleSize ?b"
    using inv' ok \<open>0 \<le> n\<close> by (auto simp: buf_inv_def contents_def buf_sizes window_append)
  ultimately show ?thesis by fastforce
qed

lemma extendRoomBuffer_ok:
  assumes inv: "buf_inv b" and "room al b n"
  shows "\<exists>b'. extendRoomBuffer al b n = Inr b' \<and> buf_inv b' \<and> contents b' = contents b \<and>
     n \<le> bufferWriteAbleSize b' \<and> (readPos b' = readPos b \<or> readPos b' = 0) \<and>
     capacity b \<le> capacity b' \<and> capacity b' \<le> capacity b + max 0 n"
proof -
  consider (enough) "n \<le> bufferWriteAbleSize b"
    | (compact) "bufferWriteAbleSize b < n" "n \<le> readPos b + bufferWriteAbleSize b"
    | (grow) "readPos b + bufferWriteAbleSize b < n"
    by linarith
  then show ?thesis
  proof cases
    case enough
    then show ?thesis using inv by (simp add: extendRoomBuffer_def)
  next
    case compact
    then have "bufferReadAbleSize b \<le> readPos b"
      using assms(2) by (auto simp: room_def no_overlap_def)
    from extendRoomBuffer_compact [OF inv compact this, of al] show ?thesis by force
  next
    case grow
    then have "int32 (capacity b + n)" "al (capacity b + n)" "0 \<le> n"
      using assms(2) buf_invD [OF inv] by (auto simp: room_def can_grow_def buf_sizes)
    from extendRoomBuffer_grow [where al = al, OF inv grow this(1,2)] this(3) show ?thesis by force
  qed
qed

section \<open>Appending\<close>

lemma write_after:
  assumes inv: "buf_inv b" and fits: "int (length bs) \<le> bufferWriteAbleSize b"
  defines "b' \<equiv> b\<lparr>data := blit (data b) (nat (writePos b)) bs, writePos := writePos b + int (length bs)\<rparr>"
  shows "store (data b) (writePos b) bs = Inr (data b')"
    and "buf_inv b'" and "contents b' = contents b @ bs"
proof -
  note inv' = buf_invD [OF inv]
  have le: "nat (writePos b) + length bs \<le> length (data b)"
    using inv' fits by (simp add: buf_sizes)
  show "store (data b) (writePos b) bs = Inr (data b')"
    using inv' fits by (simp add: b'_def buf_sizes mem_simps)
  show "buf_inv b'"
    using inv' le by (simp add: b'_def buf_inv_def)
  have "nat (writePos b + int (length bs)) = nat (writePos b) + length bs"
    using inv' by (simp add: nat_add_distrib)
  then show "contents b' = contents b @ bs"
    using inv' le by (simp add: b'_def contents_def window_blit)
qed

lemma appendDataBuffer_ok:
  assumes inv: "buf_inv b" and room: "room al b n" and n: "0 < n" "n \<le> int (length s)"
  shows "\<exists>b'. appendDataBuffer al (Some b) (Some s) n = Inr (Some b', 0) \<and> buf_inv b' \<and>
     contents b' = contents b @ take (nat n) s \<and> (readPos b' = readPos b \<or> readPos b' = 0) \<and>
     capacity b \<le> capacity b' \<and> capacity b' \<le> capacity b + n"
proof -
  obtain b1 where b1: "extendRoomBuffer al b n = Inr b1" "buf_inv b1" "contents b1 = contents b"
      "n \<le> bufferWriteAbleSize b1" "readPos b1 = readPos b \<or> readPos b1 = 0"
      "capacity b \<le> capacity b1" "capacity b1 \<le> capacity b + n"
    using extendRoomBuffer_ok [OF inv room] n by fastforce
  let ?bs = "take (nat n) s"
  have len: "int (length ?bs) = n" using n by simp
  have ld: "load s 0 n = Inr ?bs" using n by (simp add: load_def)
  note w = write_after [OF b1(2), of ?bs, unfolded len, OF b1(4)]
  let ?b = "b1\<lparr>data := blit (data b1) (nat (writePos b1)) ?bs, writePos := writePos b1 + n\<rparr>"
  have "appendDataBuffer al (Some b) (Some s) n = Inr (Some ?b, 0)"
    using n b1(1) ld w(1) by (simp add: appendDataBuffer_def)
  moreover have "readPos ?b = readPos b \<or> readPos ?b = 0" "capacity b \<le> capacity ?b" "capacity ?b \<le> capacity b + n"
    using b1(5-7) by simp_all
  ultimately show ?thesis using w(2,3) b1(3) by force
qed

lemma strlen_le: "length (cstr s) \<le> length s"
  by (simp add: cstr_def length_takeWhile_le)

lemma take_strlen: "take (length (cstr s)) s = cstr s"
  by (simp add: cstr_def takeWhile_eq_take [symmetric])

lemma appendStringBuffer_eq:
  "int32 (int (length (cstr s))) \<Longrightarrow> appendStringBuffer al bp (Some s) =
     appendDataBuffer al bp (Some s) (int (length (cstr s)))"
  by (simp add: appendStringBuffer_def wrap32_id)

text \<open>
  A call followed by the caller's next access to the buffer: what \<open>sendDir\<close>, \<open>sendFile\<close>
  and \<open>prepareMsgHttpResponse\<close> do with each piece they write.
\<close>

definition append_bytes :: "alloc \<Rightarrow> buffer \<Rightarrow> char list \<Rightarrow> buffer result" where
  "append_bytes al b xs =
     rbind (appendDataBuffer al (Some b) (Some xs) (int (length xs))) (\<lambda>(bp, _). deref bp)"

definition append_string :: "alloc \<Rightarrow> buffer \<Rightarrow> string \<Rightarrow> buffer result" where
  "append_string al b s = rbind (appendStringBuffer al (Some b) (Some s)) (\<lambda>(bp, _). deref bp)"

lemma append_bytes_ok:
  assumes "buf_inv b" and "room al b (int (length xs))"
  shows "\<exists>b'. append_bytes al b xs = Inr b' \<and> buf_inv b' \<and> contents b' = contents b @ xs \<and>
     (readPos b' = readPos b \<or> readPos b' = 0) \<and> capacity b \<le> capacity b' \<and>
     capacity b' \<le> capacity b + int (length xs)"
proof (cases "xs = []")
  case True
  with assms(1) show ?thesis by (simp add: append_bytes_def appendDataBuffer_def)
next
  case False
  with appendDataBuffer_ok [OF assms, of xs] show ?thesis
    by (auto simp: append_bytes_def)
qed

lemma append_string_eq:
  "NUL \<notin> set s \<Longrightarrow> int32 (int (length s)) \<Longrightarrow> append_string al b s = append_bytes al b s"
  by (simp add: append_string_def append_bytes_def appendStringBuffer_eq)

lemma append_string_capacity: "append_string al b s = Inr b' \<Longrightarrow> capacity b \<le> capacity b'"
  by (auto simp: append_string_def appendStringBuffer_def appendDataBuffer_def extendRoomBuffer_def
      Let_def chk_def split: if_splits)

lemma put_all_capacity: "put_all (append_string al) b xs = Inr b' \<Longrightarrow> capacity b \<le> capacity b'"
  by (induction xs arbitrary: b) (auto dest!: append_string_capacity, fastforce)

text \<open>
  A buffer nothing has been read from never compacts, so it takes any sequence of appends the
  allocator has memory for.
\<close>

definition roomy :: "alloc \<Rightarrow> buffer \<Rightarrow> nat \<Rightarrow> bool" where
  "roomy al b n \<longleftrightarrow> readPos b = 0 \<and> int32 (capacity b + int n) \<and>
     (\<forall>k \<in> {0 .. capacity b + int n}. al k)"

lemma roomy_room: "buf_inv b \<Longrightarrow> roomy al b n \<Longrightarrow> m \<le> n \<Longrightarrow> room al b (int m)"
  by (auto simp: roomy_def room_def no_overlap_def can_grow_def buf_inv_def int32_def)

lemma roomy_mono:
  assumes "roomy al b (m + n)" and "readPos b' = 0" and "capacity b' \<le> capacity b + int m"
    and "0 \<le> capacity b'"
  shows "roomy al b' n"
  using assms by (auto simp: roomy_def int32_def)

lemma append_bytes_roomy:
  assumes "buf_inv b" and "roomy al b (length xs + n)"
  shows "\<exists>b'. append_bytes al b xs = Inr b' \<and> buf_inv b' \<and> contents b' = contents b @ xs \<and> roomy al b' n"
proof -
  have "room al b (int (length xs))" using roomy_room [OF assms] by simp
  then obtain b' where b': "append_bytes al b xs = Inr b'" "buf_inv b'" "contents b' = contents b @ xs"
      "readPos b' = readPos b \<or> readPos b' = 0" "capacity b' \<le> capacity b + int (length xs)"
    using append_bytes_ok [OF assms(1)] by blast
  moreover have "roomy al b' n"
    using roomy_mono [OF assms(2) _ b'(5)] b'(2,4) assms(2) by (auto simp: roomy_def buf_inv_def)
  ultimately show ?thesis by blast
qed

lemma append_string_roomy:
  assumes "buf_inv b" and "roomy al b (length s + n)" and "NUL \<notin> set s"
  shows "\<exists>b'. append_string al b s = Inr b' \<and> buf_inv b' \<and> contents b' = contents b @ s \<and> roomy al b' n"
proof -
  have "int32 (int (length s))" using assms(1,2) by (auto simp: roomy_def buf_inv_def int32_def)
  then show ?thesis using append_bytes_roomy [OF assms(1,2)] append_string_eq [OF assms(3)] by metis
qed

text \<open>Advancing the read position, as \<open>sendDataBuffer\<close> does by what the kernel took.\<close>

definition advance :: "buffer \<Rightarrow> nat \<Rightarrow> buffer" where
  "advance b n = b\<lparr>readPos := readPos b + int n\<rparr>"

lemma advance_ok:
  assumes inv: "buf_inv b" and n: "n \<le> length (contents b)"
  shows "buf_inv (advance b n)" and "contents (advance b n) = drop n (contents b)"
proof -
  note inv' = buf_invD [OF inv]
  have "int n \<le> bufferReadAbleSize b" using n length_contents [OF inv] by linarith
  then show "buf_inv (advance b n)"
    using inv inv' by (simp add: buf_inv_def advance_def buf_sizes)
  show "contents (advance b n) = drop n (contents b)"
    using inv' by (simp add: contents_def advance_def nat_add_distrib window_shift)
qed

interpretation cbuf: byte_queue buf_inv contents "append_bytes al" "roomy al" "\<lambda>_. True" advance
  by unfold_locales (auto simp: append_bytes_roomy advance_ok)

interpretation cstring: byte_queue buf_inv contents "append_string al" "roomy al"
    "\<lambda>s. NUL \<notin> set s" advance
  by unfold_locales (auto simp: append_string_roomy advance_ok)

section \<open>Exactly when an append survives\<close>

text \<open>Which of the four ends an append has, as a function of the buffer it finds.\<close>

lemma extendRoomBuffer_fault:
  assumes inv: "buf_inv b"
  shows "extendRoomBuffer al b n = Inl e \<longleftrightarrow>
     (\<not> no_overlap b n \<and> e = Overlap) \<or>
     (readPos b + bufferWriteAbleSize b < n \<and> \<not> int32 (capacity b + n) \<and> e = SignedOverflow) \<or>
     (readPos b + bufferWriteAbleSize b < n \<and> int32 (capacity b + n) \<and> \<not> al (capacity b + n) \<and>
        e = AssertFail)"
proof (cases "readPos b + bufferWriteAbleSize b < n")
  case True
  note inv' = buf_invD [OF inv]
  have "bufferWriteAbleSize b < n" "no_overlap b n" using True inv' by (auto simp: no_overlap_def)
  moreover have "int32 (capacity b + n) \<Longrightarrow> size_t (capacity b + n) = capacity b + n"
    using True inv' by (simp add: size_t_id buf_sizes)
  ultimately show ?thesis
    using True by (auto simp: extendRoomBuffer_def chk_def)
next
  case False
  show ?thesis
  proof (cases "no_overlap b n")
    case True
    then have "\<exists>b'. extendRoomBuffer al b n = Inr b'"
      using extendRoomBuffer_ok [OF inv, of al n] False by (auto simp: room_def can_grow_def)
    then show ?thesis using True False by auto
  next
    case ov: False
    have "memcpy_within (data b) 0 (readPos b) (bufferReadAbleSize b) = Inl Overlap"
      using ov buf_invD(1,2) [OF inv]
      by (auto simp: memcpy_within_def load_contents [OF inv] no_overlap_def)
    then show ?thesis
      using ov False by (auto simp: extendRoomBuffer_def no_overlap_def)
  qed
qed

lemma extendRoomBuffer_room: "buf_inv b \<Longrightarrow> extendRoomBuffer al b n = Inr b' \<Longrightarrow> room al b n"
  using extendRoomBuffer_fault [of b al n] unfolding room_def can_grow_def
  by (metis Inl_Inr_False linorder_not_less)

lemma appendDataBuffer_Inr:
  assumes inv: "buf_inv b" and n: "0 < n" "n \<le> int (length s)"
    and ret: "appendDataBuffer al (Some b) (Some s) n = Inr (bp, r)"
  shows "\<exists>b'. bp = Some b' \<and> r = 0 \<and> buf_inv b' \<and> contents b' = contents b @ take (nat n) s"
proof -
  have "room al b n"
    using ret n extendRoomBuffer_room [OF inv] by (auto simp: appendDataBuffer_def)
  from appendDataBuffer_ok [OF inv this n] ret show ?thesis by auto
qed

section \<open>Receiving\<close>

text \<open>\<open>readv(2)\<close> delivers no more than the two buffers it was given can hold.\<close>

definition readv_contract :: "buffer \<Rightarrow> char list \<Rightarrow> bool" where
  "readv_contract b bs \<longleftrightarrow> int (length bs) \<le> bufferWriteAbleSize b + 40960"

lemma socketReadBuffer_error [simp]: "socketReadBuffer al b None = Inr (b, -1)"
  by (simp add: socketReadBuffer_def)

lemma socketReadBuffer_fits:
  assumes inv: "buf_inv b" and fits: "int (length bs) \<le> bufferWriteAbleSize b"
  shows "\<exists>b'. socketReadBuffer al b (Some bs) = Inr (b', int (length bs)) \<and> buf_inv b' \<and>
     contents b' = contents b @ bs \<and> readPos b' = readPos b"
  using write_after [OF inv fits] fits by (simp add: socketReadBuffer_def Let_def)

lemma socketReadBuffer_spills:
  assumes inv: "buf_inv b" and spills: "bufferWriteAbleSize b < int (length bs)"
    and room: "room al (b\<lparr>writePos := capacity b\<rparr>) (int (length bs) - bufferWriteAbleSize b)"
  shows "\<exists>b'. socketReadBuffer al b (Some bs) = Inr (b', int (length bs)) \<and> buf_inv b' \<and>
     contents b' = contents b @ bs"
proof -
  note inv' = buf_invD [OF inv]
  define w where "w = bufferWriteAbleSize b"
  let ?fst = "take (nat w) bs" and ?snd = "drop (nat w) bs"
  have w: "0 \<le> w" "int (length ?fst) = w" "int (length ?snd) = int (length bs) - w"
    using inv' spills by (auto simp: w_def buf_sizes)
  note fst' = write_after [OF inv, of ?fst, unfolded w(2), folded w_def, OF order_refl]
  let ?b = "b\<lparr>data := blit (data b) (nat (writePos b)) ?fst, writePos := writePos b + w\<rparr>"
  have cap: "writePos b + w = capacity b" by (simp add: w_def buf_sizes)
  have "room al ?b (int (length bs) - w)"
    using room by (simp add: cap w_def room_def no_overlap_def can_grow_def buf_sizes)
  from appendDataBuffer_ok [OF fst'(2) this, of ?snd] spills w
  obtain b' where "appendDataBuffer al (Some ?b) (Some ?snd) (int (length bs) - w) = Inr (Some b', 0)"
      "buf_inv b'" "contents b' = contents ?b @ ?snd"
    by (auto simp: w_def)
  moreover have "contents ?b @ ?snd = contents b @ bs" using fst'(3) by simp
  ultimately show ?thesis
    using fst'(1) spills by (simp add: socketReadBuffer_def Let_def flip: w_def, simp add: cap)
qed

lemma socketReadBuffer_Inr:
  assumes inv: "buf_inv b" and ret: "socketReadBuffer al b (Some bs) = Inr (b', r)"
  shows "r = int (length bs) \<and> buf_inv b' \<and> contents b' = contents b @ bs"
proof (cases "int (length bs) \<le> bufferWriteAbleSize b")
  case True
  then show ?thesis using socketReadBuffer_fits [OF inv True, of al] ret by auto
next
  case False
  then have spills: "bufferWriteAbleSize b < int (length bs)" by simp
  let ?n = "int (length bs) - bufferWriteAbleSize b"
  from ret spills obtain d where st: "store (data b) (writePos b) (take (nat (bufferWriteAbleSize b)) bs) = Inr d"
      and ext: "\<exists>b1. extendRoomBuffer al (b\<lparr>data := d, writePos := capacity b\<rparr>) ?n = Inr b1"
    by (auto simp: socketReadBuffer_def Let_def appendDataBuffer_def split: if_splits)
  have "buf_inv (b\<lparr>data := d, writePos := capacity b\<rparr>)"
    using inv store_length [OF st] by (auto simp: buf_inv_def)
  with ext have "room al (b\<lparr>data := d, writePos := capacity b\<rparr>) ?n"
    using extendRoomBuffer_room by blast
  then have "room al (b\<lparr>writePos := capacity b\<rparr>) ?n"
    by (simp add: room_def no_overlap_def can_grow_def buf_sizes)
  from socketReadBuffer_spills [OF inv spills this] ret show ?thesis by auto
qed

section \<open>Sending and searching\<close>

lemma sendDataBuffer_empty: "buf_inv b \<Longrightarrow> contents b = [] \<Longrightarrow> sendDataBuffer K b fd s = Inr (b, s, 0)"
  using length_contents [of b] by (simp add: sendDataBuffer_def)

lemma sendDataBuffer_eq:
  fixes K :: send_oracle and s :: os
  assumes inv: "buf_inv b" and ne: "contents b \<noteq> []"
  defines "count \<equiv> K (sends s) (length (contents b))"
  shows "sendDataBuffer K b fd s =
     Inr (b\<lparr>readPos := readPos b + count\<rparr>,
          s\<lparr>wire := (wire s)(fd := wire s fd @ take (nat count) (contents b)), sends := Suc (sends s)\<rparr>,
          count)"
proof -
  have "0 < bufferReadAbleSize b" using ne length_contents [OF inv] by (metis length_greater_0_conv of_nat_0_less_iff)
  then show ?thesis
    using load_contents [OF inv] by (simp add: sendDataBuffer_def sys_send_def Let_def count_def)
qed

lemma sendDataBuffer_ok:
  assumes inv: "buf_inv b" and K: "send_contract K" and nonneg: "0 \<le> K (sends s) (length (contents b))"
  shows "\<exists>b' s' r. sendDataBuffer K b fd s = Inr (b', s', r) \<and> buf_inv b' \<and> 0 \<le> r \<and>
     contents b' = drop (nat r) (contents b) \<and>
     wire s' = (wire s)(fd := wire s fd @ take (nat r) (contents b))"
proof (cases "contents b = []")
  case True
  then show ?thesis using sendDataBuffer_empty [OF inv] inv by simp
next
  case False
  define k where "k = nat (K (sends s) (length (contents b)))"
  have k: "k \<le> length (contents b)" "int k = K (sends s) (length (contents b))"
    using K nonneg by (auto simp: k_def send_contract_def nat_le_iff)
  have "b\<lparr>readPos := readPos b + K (sends s) (length (contents b))\<rparr> = advance b k"
    by (simp add: advance_def k(2))
  then show ?thesis
    using sendDataBuffer_eq [OF inv False, of K fd s] advance_ok [OF inv k(1)] nonneg
    by (simp add: k_def)
qed

lemma findCRLFBuffer_eq:
  "buf_inv b \<Longrightarrow> findCRLFBuffer b = Inr (map_option (\<lambda>k. readPos b + int k) (memmem (contents b) CRLF))"
  by (simp add: findCRLFBuffer_def load_contents)

section \<open>Any sequence of buffer operations is a FIFO\<close>

datatype buf_op = Append "char list" | Receive "char list option" | Send

fun buf_step :: "alloc \<Rightarrow> send_oracle \<Rightarrow> int \<Rightarrow> buffer \<times> os \<Rightarrow> buf_op \<Rightarrow> (buffer \<times> os) result" where
  "buf_step al K fd (b, s) (Append xs) = rbind (append_bytes al b xs) (\<lambda>b'. Inr (b', s))"
| "buf_step al K fd (b, s) (Receive rv) = rbind (socketReadBuffer al b rv) (\<lambda>(b', _). Inr (b', s))"
| "buf_step al K fd (b, s) Send = rbind (sendDataBuffer K b fd s) (\<lambda>(b', s', _). Inr (b', s'))"

fun op_input :: "buf_op \<Rightarrow> char list" where
  "op_input (Append xs) = xs"
| "op_input (Receive (Some bs)) = bs"
| "op_input _ = []"

lemma append_bytes_Inr:
  assumes inv: "buf_inv b" and ret: "append_bytes al b xs = Inr b'"
  shows "buf_inv b' \<and> contents b' = contents b @ xs"
proof (cases "xs = []")
  case True
  with assms show ?thesis by (auto simp: append_bytes_def appendDataBuffer_def)
next
  case False
  with ret obtain bp r where "appendDataBuffer al (Some b) (Some xs) (int (length xs)) = Inr (bp, r)"
      "deref bp = Inr b'"
    by (auto simp: append_bytes_def)
  with appendDataBuffer_Inr [OF inv _ _ this(1)] False show ?thesis by auto
qed

lemma buf_step_stream:
  assumes inv: "buf_inv b" and K: "send_contract K" "\<And>n len. 0 \<le> K n len"
    and ret: "buf_step al K fd (b, s) x = Inr (b', s')"
  shows "buf_inv b' \<and> wire s' fd @ contents b' = wire s fd @ contents b @ op_input x"
proof (cases x)
  case (Append xs)
  with ret append_bytes_Inr [OF inv] show ?thesis by auto
next
  case (Receive rv)
  with ret inv socketReadBuffer_Inr [OF inv] show ?thesis
    by (cases rv) (auto simp: Receive)
next
  case Send
  with ret sendDataBuffer_ok [OF inv K(1) K(2), of fd s] show ?thesis by auto
qed

lemma buf_run_stream:
  assumes "buf_inv b" and "send_contract K" "\<And>n len. 0 \<le> K n len"
    and "put_all (buf_step al K fd) (b, s) ops = Inr (b', s')"
  shows "buf_inv b' \<and> wire s' fd @ contents b' = wire s fd @ contents b @ concat (map op_input ops)"
  using assms(1,4)
proof (induction ops arbitrary: b s)
  case Nil
  then show ?case by simp
next
  case (Cons x ops)
  then obtain b1 s1 where 1: "buf_step al K fd (b, s) x = Inr (b1, s1)"
      "put_all (buf_step al K fd) (b1, s1) ops = Inr (b', s')"
    by auto
  with Cons.IH [of b1 s1] buf_step_stream [OF Cons.prems(1) assms(2,3) 1(1)] show ?case by simp
qed

text \<open>The only ways in which an operation on a well-formed buffer does not return.\<close>

definition append_fault :: "fault \<Rightarrow> bool" where
  "append_fault e \<longleftrightarrow> e = Overlap \<or> e = SignedOverflow \<or> e = AssertFail"

lemma appendDataBuffer_Inl:
  assumes inv: "buf_inv b" and n: "0 < n" "n \<le> int (length s)" and e: "appendDataBuffer al (Some b) (Some s) n = Inl e"
  shows "append_fault e"
proof (cases "room al b n")
  case True
  from appendDataBuffer_ok [OF inv True n] e show ?thesis by auto
next
  case False
  then obtain e' where e': "extendRoomBuffer al b n = Inl e'" "append_fault e'"
    using extendRoomBuffer_fault [OF inv, of al n] unfolding room_def can_grow_def append_fault_def not_le [symmetric] by blast
  then have "appendDataBuffer al (Some b) (Some s) n = Inl e'" using n(1) by (simp add: appendDataBuffer_def)
  with e e'(2) show ?thesis by simp
qed

lemma append_bytes_Inl:
  assumes "buf_inv b" and "append_bytes al b xs = Inl e"
  shows "append_fault e"
proof (cases "appendDataBuffer al (Some b) (Some xs) (int (length xs))")
  case (Inl e')
  then have "0 < int (length xs)" by (auto simp: appendDataBuffer_def split: if_splits)
  from appendDataBuffer_Inl [OF assms(1) this _ Inl] Inl assms(2) show ?thesis by (simp add: append_bytes_def)
next
  case (Inr r)
  then show ?thesis
    using assms appendDataBuffer_Inr [OF assms(1), of "int (length xs)" xs al "fst r" "snd r"]
    by (cases "xs = []") (auto simp: append_bytes_def appendDataBuffer_def)
qed

lemma socketReadBuffer_Inl:
  assumes inv: "buf_inv b" and e: "socketReadBuffer al b (Some bs) = Inl e"
  shows "append_fault e"
proof (cases "int (length bs) \<le> bufferWriteAbleSize b")
  case True
  from socketReadBuffer_fits [OF inv True, of al] e show ?thesis by auto
next
  case False
  define w where "w = bufferWriteAbleSize b"
  have w: "0 \<le> w" "w < int (length bs)" using False buf_invD [OF inv] by (simp_all add: w_def buf_sizes)
  let ?fst = "take (nat w) bs" and ?snd = "drop (nat w) bs"
  note fst' = write_after [OF inv, of ?fst, folded w_def]
  let ?b = "b\<lparr>data := blit (data b) (nat (writePos b)) ?fst, writePos := capacity b\<rparr>"
  have len: "int (length ?fst) = w" using w by simp
  then have "writePos b + int (length ?fst) = capacity b" by (simp add: w_def buf_sizes)
  with len have b: "buf_inv ?b" "store (data b) (writePos b) ?fst = Inr (data ?b)" using fst' by simp_all
  show ?thesis
  proof (cases "appendDataBuffer al (Some ?b) (Some ?snd) (int (length bs) - w)")
    case (Inl e')
    from appendDataBuffer_Inl [OF b(1) _ _ this] w have "append_fault e'" by simp
    with e Inl b(2) w show ?thesis by (simp add: socketReadBuffer_def Let_def flip: w_def)
  next
    case (Inr r)
    obtain bp k where r: "r = (bp, k)" by fastforce
    from appendDataBuffer_Inr [OF b(1) _ _ Inr [unfolded r]] w obtain b' where "bp = Some b'" by auto
    with e Inr r b(2) w show ?thesis by (simp add: socketReadBuffer_def Let_def flip: w_def)
  qed
qed

lemma buf_step_fault:
  assumes inv: "buf_inv b" and K: "send_contract K" "\<And>n len. 0 \<le> K n len" and e: "buf_step al K fd (b, s) x = Inl e"
  shows "append_fault e"
proof (cases x)
  case (Append xs)
  with e append_bytes_Inl [OF inv, of al xs e] show ?thesis by (cases "append_bytes al b xs") simp_all
next
  case (Receive rv)
  with e socketReadBuffer_Inl [OF inv, of al _ e] show ?thesis
    by (cases rv; cases "socketReadBuffer al b rv") auto
next
  case Send
  with e sendDataBuffer_ok [OF inv K(1) K(2), of fd s] show ?thesis by auto
qed

lemma buf_run_fault:
  assumes "buf_inv b" and "send_contract K" "\<And>n len. 0 \<le> K n len" and "put_all (buf_step al K fd) (b, s) ops = Inl e"
  shows "append_fault e"
  using assms(1,4)
proof (induction ops arbitrary: b s)
  case Nil
  then show ?case by simp
next
  case (Cons x ops)
  show ?case
  proof (cases "buf_step al K fd (b, s) x")
    case (Inl e')
    with Cons.prems buf_step_fault [OF Cons.prems(1) assms(2,3) Inl] show ?thesis by simp
  next
    case (Inr r)
    obtain b1 s1 where r: "r = (b1, s1)" by fastforce
    with Inr Cons.prems buf_step_stream [OF Cons.prems(1) assms(2,3)] Cons.IH [of b1 s1] show ?thesis by simp
  qed
qed

text \<open>Before the first send nothing has been read, so nothing can overlap.\<close>

lemma receive_roomy:
  assumes inv: "buf_inv b" and room: "roomy al b (length bs + n)"
  shows "\<exists>b'. socketReadBuffer al b (Some bs) = Inr (b', int (length bs)) \<and> buf_inv b' \<and> roomy al b' n"
proof (cases "int (length bs) \<le> bufferWriteAbleSize b")
  case True
  then have "socketReadBuffer al b (Some bs) = Inr (b\<lparr>data := blit (data b) (nat (writePos b)) bs, writePos := writePos b + int (length bs)\<rparr>, int (length bs))"
    using write_after(1) [OF inv True] by (simp add: socketReadBuffer_def Let_def)
  then show ?thesis
    using write_after(2) [OF inv True] roomy_mono [OF room, of "b\<lparr>data := blit (data b) (nat (writePos b)) bs, writePos := writePos b + int (length bs)\<rparr>"]
      room buf_invD [OF inv] by (auto simp: roomy_def)
next
  case False
  define w where "w = bufferWriteAbleSize b"
  have w: "0 \<le> w" "w < int (length bs)" using False buf_invD [OF inv] by (simp_all add: w_def buf_sizes)
  let ?fst = "take (nat w) bs" and ?snd = "drop (nat w) bs"
  let ?b = "b\<lparr>data := blit (data b) (nat (writePos b)) ?fst, writePos := capacity b\<rparr>"
  have len: "int (length ?fst) = w" using w by simp
  then have "writePos b + int (length ?fst) = capacity b" by (simp add: w_def buf_sizes)
  with len have b: "buf_inv ?b" "store (data b) (writePos b) ?fst = Inr (data ?b)" using write_after [OF inv, of ?fst, folded w_def] by simp_all
  have "roomy al ?b (length bs + n)" using room by (simp add: roomy_def)
  from roomy_room [OF b(1) this, of "nat (int (length bs) - w)"] w have "room al ?b (int (length bs) - w)" by simp
  from appendDataBuffer_ok [OF b(1) this, of ?snd] w obtain b' where
    b': "appendDataBuffer al (Some ?b) (Some ?snd) (int (length bs) - w) = Inr (Some b', 0)" "buf_inv b'"
      "readPos b' = 0" "capacity b' \<le> capacity b + (int (length bs) - w)"
    using room by (auto simp: roomy_def)
  have "socketReadBuffer al b (Some bs) = Inr (b', int (length bs))"
    using b'(1) b(2) w by (simp add: socketReadBuffer_def Let_def flip: w_def)
  moreover have "roomy al b' n" using roomy_mono [OF room b'(3)] b'(2,4) w(1) by (auto simp: buf_inv_def)
  ultimately show ?thesis using b'(2) by blast
qed

lemma buf_run_unsent:
  assumes "buf_inv b" and "roomy al b (length (concat (map op_input ops)))" and "Send \<notin> set ops"
  shows "\<exists>b'. put_all (buf_step al K fd) (b, s) ops = Inr (b', s)"
  using assms
proof (induction ops arbitrary: b)
  case Nil
  then show ?case by simp
next
  case (Cons x ops)
  let ?n = "length (concat (map op_input ops))"
  have r: "roomy al b (length (op_input x) + ?n)" "x \<noteq> Send" using Cons.prems(2,3) by auto
  have "\<exists>b1. buf_step al K fd (b, s) x = Inr (b1, s) \<and> buf_inv b1 \<and> roomy al b1 ?n"
  proof (cases x)
    case (Append xs)
    with append_bytes_roomy [OF Cons.prems(1)] r show ?thesis by fastforce
  next
    case (Receive rv)
    with receive_roomy [OF Cons.prems(1)] r Cons.prems(1) show ?thesis by (cases rv) (fastforce, fastforce)
  qed (use r in simp)
  with Cons.IH Cons.prems(3) show ?case by fastforce
qed

section \<open>Properties\<close>


definition four_bytes :: buffer where
  "four_bytes = \<lparr>data = replicate 4 NUL, capacity = 4, readPos = 0, writePos = 0\<rparr>"

definition silent :: os where
  "silent = \<lparr>wire = (\<lambda>_. []), sends = 0, os_closed = []\<rparr>"

lemma four_bytes_inv: "buf_inv four_bytes" "contents four_bytes = []"
  by (simp_all add: four_bytes_def buf_inv_def contents_def int32_def)

lemma run_ab:
  "put_all (buf_step (\<lambda>_. True) (\<lambda>_ len. min 1 (int len)) 7) (four_bytes, silent) [Append ''ab'', Send, Receive (Some ''c'')] =
   Inr (four_bytes\<lparr>data := ''abc'' @ [NUL], readPos := 1, writePos := 3\<rparr>,
        silent\<lparr>wire := (\<lambda>_. [])(7 := ''a''), sends := 1\<rparr>)"
  by (simp add: four_bytes_def silent_def append_bytes_def appendDataBuffer_def extendRoomBuffer_def
      bufferWriteAbleSize_def bufferReadAbleSize_def store_def load_def blit_def deref_def
      sendDataBuffer_def sys_send_def socketReadBuffer_def Let_def numeral_eq_Suc)


text \<open>
  An append of n bytes ends in exactly one of these ways: the compaction would move the
  unread bytes over themselves (overlapping \<open>memcpy\<close>); the grown capacity is not an
  \<open>int\<close>, or the allocator refuses it; otherwise it returns 0 and the n bytes have been added
  behind the unread ones. Which of them it is depends on the two positions and the capacity only.
\<close>

lemma append_outcomes:
  assumes inv: "buf_inv b" and n: "0 < n" "n \<le> int (length s)"
  shows "if \<not> no_overlap b n then appendDataBuffer al (Some b) (Some s) n = Inl Overlap
    else if readPos b + bufferWriteAbleSize b < n \<and> \<not> int32 (capacity b + n)
      then appendDataBuffer al (Some b) (Some s) n = Inl SignedOverflow
    else if readPos b + bufferWriteAbleSize b < n \<and> \<not> al (capacity b + n)
      then appendDataBuffer al (Some b) (Some s) n = Inl AssertFail
    else \<exists>b'. appendDataBuffer al (Some b) (Some s) n = Inr (Some b', 0) \<and> buf_inv b' \<and>
      contents b' = contents b @ take (nat n) s"
proof -
  have fault: "extendRoomBuffer al b n = Inl e \<Longrightarrow> appendDataBuffer al (Some b) (Some s) n = Inl e" for e
    using n(1) by (simp add: appendDataBuffer_def)
  have ok: "room al b n \<Longrightarrow> \<exists>b'. appendDataBuffer al (Some b) (Some s) n = Inr (Some b', 0) \<and> buf_inv b' \<and>
      contents b' = contents b @ take (nat n) s"
    using appendDataBuffer_ok [OF inv _ n] by auto
  show ?thesis
    using fault ok extendRoomBuffer_fault [OF inv, of al n] buf_invD(1-3) [OF inv]
    by (auto simp: room_def can_grow_def no_overlap_def buf_sizes)
qed

text \<open>The overlapping case: 3 of 4 bytes unread from position 1, and one more to append.\<close>

lemma append_outcomes_witness:
  "appendDataBuffer (\<lambda>_. True) (Some (four_bytes\<lparr>readPos := 1, writePos := 4\<rparr>)) (Some ''x'') 1 = Inl Overlap"
proof -
  have "buf_inv (four_bytes\<lparr>readPos := 1, writePos := 4\<rparr>)"
    by (simp add: four_bytes_def buf_inv_def int32_def)
  from append_outcomes [OF this, of 1 "''x''" "\<lambda>_. True"] show ?thesis
    by (simp add: no_overlap_def buf_sizes four_bytes_def)
qed

text \<open>
  Any sequence of string appends to a buffer from which nothing has been read yet succeeds,
  as long as the allocator has the memory, and leaves the strings concatenated behind the
  contents. This is how the head of a response is assembled.
\<close>

lemma appends_concatenate:
  assumes "buf_inv b" and "roomy al b (length (concat xss))" and "\<forall>xs\<in>set xss. NUL \<notin> set xs"
  shows "\<exists>b'. put_all (append_string al) b xss = Inr b' \<and> buf_inv b' \<and> contents b' = contents b @ concat xss"
  using assms by (rule cstring.put_all_bytes)

lemma appends_concatenate_witness:
  "\<exists>b'. put_all (append_string (\<lambda>_. True)) four_bytes [''GET'', '' /'', ''index''] = Inr b' \<and> buf_inv b' \<and>
     contents b' = ''GET /index''"
  using appends_concatenate [OF four_bytes_inv(1), of "\<lambda>_. True" "[''GET'', '' /'', ''index'']"]
  by (simp add: four_bytes_inv(2)) (simp add: roomy_def four_bytes_def int32_def)

text \<open>
  \<open>socketReadBuffer\<close> puts everything \<open>readv\<close> delivered behind the unread bytes, also
  when it was more than the free space (the rest goes through the temporary block), and returns
  its length; a failed \<open>readv\<close> changes nothing and returns -1.
\<close>

lemma receive_appends:
  assumes inv: "buf_inv b" and many: "bufferWriteAbleSize b < int (length bs) \<Longrightarrow>
      room al (b\<lparr>writePos := capacity b\<rparr>) (int (length bs) - bufferWriteAbleSize b)"
  shows "socketReadBuffer al b None = Inr (b, -1) \<and>
     (\<exists>b'. socketReadBuffer al b (Some bs) = Inr (b', int (length bs)) \<and> buf_inv b' \<and>
      contents b' = contents b @ bs)"
  using socketReadBuffer_fits [OF inv, of bs al] socketReadBuffer_spills [OF inv _ many] by force

lemma receive_appends_witness:
  "\<exists>b'. socketReadBuffer (\<lambda>_. True) four_bytes (Some ''abcdef'') = Inr (b', 6) \<and> contents b' = ''abcdef''"
proof -
  have "room (\<lambda>_. True) (four_bytes\<lparr>writePos := capacity four_bytes\<rparr>) (int (length ''abcdef'') - bufferWriteAbleSize four_bytes)"
    by (simp add: room_def no_overlap_def can_grow_def buf_sizes four_bytes_def int32_def)
  from receive_appends [OF four_bytes_inv(1) this] show ?thesis by (auto simp: four_bytes_inv(2))
qed

text \<open>
  A failed \<open>send\<close> (result -1) moves the read position one byte back: the byte before the
  unread ones becomes unread again, and at position 0 the buffer is left malformed.
\<close>

lemma failed_send_rewinds:
  assumes inv: "buf_inv b" and ne: "contents b \<noteq> []" and fail: "K (sends s) (length (contents b)) = -1"
  shows "\<exists>s'. sendDataBuffer K b fd s = Inr (b\<lparr>readPos := readPos b - 1\<rparr>, s', -1) \<and> wire s' = wire s \<and>
     (buf_inv (b\<lparr>readPos := readPos b - 1\<rparr>) \<longleftrightarrow> 0 < readPos b)"
  using sendDataBuffer_eq [OF inv ne, of K fd s] fail inv by (auto simp: buf_inv_def)

lemma failed_send_rewinds_witness:
  "\<exists>s'. sendDataBuffer (\<lambda>_ _. -1) (four_bytes\<lparr>writePos := 2\<rparr>) 7 silent =
     Inr (four_bytes\<lparr>writePos := 2, readPos := -1\<rparr>, s', -1) \<and> wire s' = wire silent"
proof -
  have "buf_inv (four_bytes\<lparr>writePos := 2\<rparr>)" "contents (four_bytes\<lparr>writePos := 2\<rparr>) \<noteq> []"
    by (simp_all add: four_bytes_def buf_inv_def contents_def window_def int32_def numeral_eq_Suc)
  from failed_send_rewinds [OF this, of "\<lambda>_ _. -1" silent 7] show ?thesis by (auto simp: four_bytes_def)
qed

end
