(* ===== verification/Channel.thy ===== *)
theory Channel
  imports Prelude
begin

unbundle bit_operations_syntax

text \<open>
  \<open>old/ReactorHttp_c/Channel.c\<close> and \<open>Channel.h\<close>: a descriptor, the events it is
  watched for and its callbacks. A function pointer is the name of the function it points to
  (the five the sources ever store), \<open>None\<close> for NULL; the \<open>void *\<close> argument says which
  object it points to.
\<close>

datatype callback = ProcessRead | ProcessWrite | DestroyConnection | AcceptConnection | ReadLocalMessage

datatype cb_arg = ConnArg nat | ServerArg | LoopArg

record channel =
  fd :: int
  events :: "32 word"
  writecallback :: "callback option"
  readcallback :: "callback option"
  destroycallback :: "callback option"
  arg :: cb_arg

definition TimeOut :: "32 word" where "TimeOut = 1"
definition writevent :: "32 word" where "writevent = 2"
definition readevent :: "32 word" where "readevent = 4"

lemmas event_bits = TimeOut_def writevent_def readevent_def

definition initchannel ::
  "int \<Rightarrow> 32 word \<Rightarrow> callback option \<Rightarrow> callback option \<Rightarrow> callback option \<Rightarrow> cb_arg \<Rightarrow> channel" where
  "initchannel f event writeFunc readFunc destroyFunc a =
     \<lparr>fd = f, events = event, writecallback = writeFunc, readcallback = readFunc,
      destroycallback = destroyFunc, arg = a\<rparr>"

definition writeEventEnable :: "channel \<Rightarrow> bool \<Rightarrow> channel" where
  "writeEventEnable ch flag =
     (if flag then ch\<lparr>events := events ch OR writevent\<rparr>
      else ch\<lparr>events := events ch AND NOT writevent\<rparr>)"

text \<open>In C the comparison binds tighter than the disjunction: \<open>_events | (0 == writevent)\<close>.\<close>

definition iswriteEventEnable :: "channel \<Rightarrow> bool" where
  "iswriteEventEnable ch \<longleftrightarrow> events ch OR (if (0 :: 32 word) = writevent then 1 else 0) \<noteq> 0"

text \<open>The two events a dispatcher looks for.\<close>

definition wants :: "channel \<Rightarrow> bool \<times> bool" where
  "wants ch = (events ch AND readevent \<noteq> 0, events ch AND writevent \<noteq> 0)"

lemma and_writevent: "e AND writevent = 0 \<longleftrightarrow> \<not> bit e 1"
  using and_exp_eq_0_iff_not_bit [of e 1] by (simp add: writevent_def)

lemma and_readevent: "e AND readevent = 0 \<longleftrightarrow> \<not> bit e 2"
  using and_exp_eq_0_iff_not_bit [of e 2] by (simp add: readevent_def)

lemma bit_writevent: "bit writevent n \<longleftrightarrow> n = 1"
  using bit_exp_iff [where 'a = "32 word", of 1 n] by (auto simp: writevent_def possible_bit_def)

lemma wants_bits: "wants ch = (bit (events ch) 2, bit (events ch) 1)"
  by (simp add: wants_def and_readevent and_writevent)

lemma wants_writeEventEnable: "wants (writeEventEnable ch flag) = (fst (wants ch), flag)"
  by (simp add: wants_bits writeEventEnable_def bit_or_iff bit_and_iff bit_not_iff bit_writevent possible_bit_def)

lemma fd_writeEventEnable [simp]: "fd (writeEventEnable ch flag) = fd ch"
  by (simp add: writeEventEnable_def)

lemma iswriteEventEnable_iff: "iswriteEventEnable ch \<longleftrightarrow> events ch \<noteq> 0"
  by (simp add: iswriteEventEnable_def writevent_def)

section \<open>Properties\<close>

text \<open>
  \<open>writeEventEnable\<close> switches the interest in writing and leaves the interest in reading
  as it is; but \<open>iswriteEventEnable\<close> does not report it: it holds as soon as any event is
  set, so a channel that waits for reading only is reported as waiting for writing.
\<close>

lemma writeEventEnable_switches:
  "wants (writeEventEnable ch flag) = (fst (wants ch), flag) \<and> (iswriteEventEnable ch \<longleftrightarrow> events ch \<noteq> 0)"
  by (simp add: wants_writeEventEnable iswriteEventEnable_iff)

lemma iswriteEventEnable_reading: "fst (wants ch) \<Longrightarrow> iswriteEventEnable (writeEventEnable ch False)"
  using wants_writeEventEnable [of ch False] by (auto simp: iswriteEventEnable_iff) (simp add: wants_def)

end
