(* ===== verification/Channel_Map.thy ===== *)
theory Channel_Map
  imports Prelude
begin

text \<open>
  \<open>old/ReactorHttp_c/ChannelMap.c\<close>: the table from descriptors to channels. A slot of the
  array is NULL, the address of a channel, or memory nobody wrote (\<open>Wild\<close>: an indeterminate
  pointer that is not NULL). Fresh memory holds whatever the allocator left there: \<open>junk\<close>
  gives the initial slots of each new block.
\<close>

datatype slot = Null | Chan nat | Wild

type_synonym junk = "nat \<Rightarrow> slot"

record chmap =
  msize :: int
  mlist :: "slot list"

definition sizeof_ChannelMap :: int where "sizeof_ChannelMap = 16"
definition sizeof_ptr :: int where "sizeof_ptr = 8"

definition initChannelMap :: "alloc \<Rightarrow> junk \<Rightarrow> int \<Rightarrow> chmap option" where
  "initChannelMap al junk n =
     (if \<not> al sizeof_ChannelMap then None
      else Some \<lparr>msize = n,
        mlist = (if al (size_t (n * sizeof_ptr)) then map junk [0..<nat n] else [])\<rparr>)"

definition slot_at :: "chmap \<Rightarrow> int \<Rightarrow> slot result" where
  "slot_at m i =
     (if 0 \<le> i \<and> nat i < length (mlist m) then Inr (mlist m ! nat i) else Inl OutOfBounds)"

definition set_slot :: "chmap \<Rightarrow> int \<Rightarrow> slot \<Rightarrow> chmap result" where
  "set_slot m i s =
     (if 0 \<le> i \<and> nat i < length (mlist m)
      then Inr (m\<lparr>mlist := (mlist m)[nat i := s]\<rparr>) else Inl OutOfBounds)"

text \<open>\<open>ChannelMapClear\<close> returns the channels it freed, in order.\<close>

fun free_slots :: "chmap \<Rightarrow> nat \<Rightarrow> int \<Rightarrow> nat list result" where
  "free_slots m 0 i = Inr []"
| "free_slots m (Suc n) i =
     rbind (slot_at m i) (\<lambda>s.
       case s of
         Null \<Rightarrow> free_slots m n (i + 1)
       | Chan c \<Rightarrow> rbind (free_slots m n (i + 1)) (\<lambda>cs. Inr (c # cs))
       | Wild \<Rightarrow> Inl WildPointer)"

definition ChannelMapClear :: "chmap option \<Rightarrow> (chmap option \<times> nat list) result" where
  "ChannelMapClear mp =
     (case mp of
        None \<Rightarrow> Inr (None, [])
      | Some m \<Rightarrow> rbind (free_slots m (nat (msize m)) 0) (\<lambda>freed.
          Inr (Some (m\<lparr>mlist := [], msize := 0\<rparr>), freed)))"

text \<open>
  The doubling loop of \<open>ChannelMapAddROM\<close>: \<open>None\<close> when it never ends, which is when
  \<open>cursize\<close> is 0.
\<close>

partial_function (option) double_until :: "int \<Rightarrow> int \<Rightarrow> int result option" where
  "double_until cursize newsize =
     (if cursize < newsize
      then (if int32 (cursize * 2) then double_until (cursize * 2) newsize
            else Some (Inl SignedOverflow))
      else Some (Inr cursize))"

text \<open>
  The \<open>memset\<close> runs after \<open>_size\<close> has been updated, so it starts at the new size and
  clears \<open>cursize - _size\<close> slots.
\<close>

definition ChannelMapAddROM ::
  "alloc \<Rightarrow> junk \<Rightarrow> chmap option \<Rightarrow> int \<Rightarrow> int \<Rightarrow> (chmap option \<times> bool) result" where
  "ChannelMapAddROM al junk mp newsize unitsize =
     (case mp of
        None \<Rightarrow> Inr (None, False)
      | Some m \<Rightarrow>
          if msize m < newsize then
            rbind (returned (double_until (msize m) newsize)) (\<lambda>cursize.
            rbind (chk (cursize * unitsize)) (\<lambda>bytes.
              if \<not> al (size_t bytes) then Inr (Some m, False)
              else
                let m1 = m\<lparr>mlist := mlist m @ map junk [nat (msize m)..<nat cursize],
                           msize := cursize\<rparr>;
                    cleared = nat (cursize - msize m1)
                in Inr (Some (m1\<lparr>mlist := blit (mlist m1) (nat (msize m1)) (replicate cleared Null)\<rparr>), True)))
          else Inr (Some m, False))"

definition map_inv :: "chmap \<Rightarrow> bool" where
  "map_inv m \<longleftrightarrow> 0 < msize m \<and> int (length (mlist m)) = msize m \<and> int32 (msize m)"

lemma initChannelMap_inv:
  "0 < n \<Longrightarrow> int32 n \<Longrightarrow> al 16 \<Longrightarrow> al (size_t (n * 8)) \<Longrightarrow>
   initChannelMap al junk n = Some \<lparr>msize = n, mlist = map junk [0..<nat n]\<rparr> \<and>
   map_inv \<lparr>msize = n, mlist = map junk [0..<nat n]\<rparr>"
  by (simp add: initChannelMap_def map_inv_def sizeof_ChannelMap_def sizeof_ptr_def)

section \<open>The doubling loop\<close>

lemma double_until_done: "newsize \<le> cursize \<Longrightarrow> double_until cursize newsize = Some (Inr cursize)"
  by (simp add: double_until.simps)

lemma double_until_step:
  "cursize < newsize \<Longrightarrow> int32 (cursize * 2) \<Longrightarrow>
   double_until cursize newsize = double_until (cursize * 2) newsize"
  by (subst double_until.simps) simp

lemma double_until_returns:
  "0 < cursize \<Longrightarrow> \<exists>r. double_until cursize newsize = Some r"
proof (induction "nat (newsize - cursize)" arbitrary: cursize rule: less_induct)
  case less
  show ?case
  proof (cases "cursize < newsize \<and> int32 (cursize * 2)")
    case True
    with less.hyps [of "cursize * 2"] less.prems show ?thesis
      by (auto simp: double_until_step)
  next
    case False
    then show ?thesis by (subst double_until.simps) auto
  qed
qed

text \<open>From 0 it never returns.\<close>

lemma double_until_zero: "0 < newsize \<Longrightarrow> double_until 0 newsize = None"
proof (rule ccontr)
  assume n: "0 < newsize" and "double_until 0 newsize \<noteq> None"
  then obtain r where r: "double_until 0 newsize = Some r" by blast
  have "0 < newsize \<longrightarrow> (0 :: int) \<noteq> 0"
  proof (rule double_until.raw_induct [where P = "\<lambda>c n r. 0 < n \<longrightarrow> c \<noteq> 0", OF _ r])
    fix f :: "int \<Rightarrow> int \<Rightarrow> int result option" and c n r
    assume IH: "\<And>c n r. f c n = Some r \<Longrightarrow> 0 < n \<longrightarrow> c \<noteq> 0"
      and eq: "(if c < n then (if int32 (c * 2) then f (c * 2) n else Some (Inl SignedOverflow))
                else Some (Inr c)) = Some r"
    show "0 < n \<longrightarrow> c \<noteq> 0"
      using IH [of "c * 2" n] eq by (auto simp: int32_def)
  qed
  with n show False by simp
qed

text \<open>Otherwise the result is the smallest power-of-two multiple that is large enough.\<close>

lemma double_until_result:
  "0 < cursize \<Longrightarrow> double_until cursize newsize = Some (Inr c) \<Longrightarrow>
   \<exists>k. c = cursize * 2 ^ k \<and> newsize \<le> c \<and> (0 < k \<longrightarrow> c < 2 * newsize) \<and> (int32 cursize \<longrightarrow> int32 c)"
proof (induction "nat (newsize - cursize)" arbitrary: cursize rule: less_induct)
  case less
  show ?case
  proof (cases "cursize < newsize")
    case True
    then have ok: "int32 (cursize * 2)"
      using less.prems(2) by (subst (asm) double_until.simps) (auto split: if_splits)
    then have "double_until (cursize * 2) newsize = Some (Inr c)"
      using True less.prems(2) by (simp add: double_until_step)
    with less.hyps [of "cursize * 2"] True less.prems(1) ok
    obtain k where k: "c = cursize * 2 * 2 ^ k" "newsize \<le> c" "0 < k \<longrightarrow> c < 2 * newsize" "int32 c"
      by auto
    have "c < 2 * newsize" using k True by (cases k) auto
    with k show ?thesis by (intro exI [of _ "Suc k"]) simp
  next
    case False
    with less.prems(2) have "c = cursize" by (simp add: double_until_done)
    with False show ?thesis by (intro exI [of _ 0]) simp
  qed
qed

lemma double_until_ok:
  "0 < cursize \<Longrightarrow> cursize < 2 ^ 30 \<Longrightarrow> newsize \<le> 2 ^ 30 \<Longrightarrow> \<exists>c. double_until cursize newsize = Some (Inr c)"
proof (induction "nat (newsize - cursize)" arbitrary: cursize rule: less_induct)
  case less
  show ?case
  proof (cases "cursize * 2 < newsize")
    case True
    with less.hyps [of "cursize * 2"] less.prems show ?thesis
      by (auto simp: double_until_step int32_def)
  next
    case False
    have "double_until (cursize * 2) newsize = Some (Inr (cursize * 2))"
      using False by (simp add: double_until_done)
    then show ?thesis
      using less.prems by (cases "cursize < newsize") (auto simp: double_until_step double_until_done int32_def)
  qed
qed

section \<open>Growing the table\<close>

lemma AddROM_no_growth: "newsize \<le> msize m \<Longrightarrow> ChannelMapAddROM al junk (Some m) newsize u = Inr (Some m, False)"
  by (simp add: ChannelMapAddROM_def)

lemma AddROM_grow:
  fixes junk :: junk
  assumes inv: "map_inv m" and grow: "msize m < newsize"
    and c: "double_until (msize m) newsize = Some (Inr c)" and bytes: "int32 (c * u)" "al (size_t (c * u))"
  defines "m' \<equiv> m\<lparr>mlist := mlist m @ map junk [nat (msize m)..<nat c], msize := c\<rparr>"
  shows "ChannelMapAddROM al junk (Some m) newsize u = Inr (Some m', True)"
    and "map_inv m'" and "newsize \<le> msize m'"
proof -
  have pos: "0 < msize m" "int32 (msize m)" "int (length (mlist m)) = msize m"
    using inv by (auto simp: map_inv_def)
  from double_until_result [OF pos(1) c] pos(2) have c': "newsize \<le> c" "int32 c" by auto
  show "ChannelMapAddROM al junk (Some m) newsize u = Inr (Some m', True)"
    using grow c bytes by (simp add: ChannelMapAddROM_def returned_def m'_def)
  show "map_inv m'" "newsize \<le> msize m'"
    using pos grow c' by (auto simp: m'_def map_inv_def)
qed

lemma slot_at_append:
  "0 \<le> i \<Longrightarrow> nat i < length (mlist m) \<Longrightarrow>
   slot_at (m\<lparr>mlist := mlist m @ xs, msize := c\<rparr>) i = slot_at m i"
  by (simp add: slot_at_def nth_append)

lemma slot_at_set [simp]:
  "set_slot m i s = Inr m' \<Longrightarrow> slot_at m' j = (if i = j then Inr s else slot_at m j)"
  by (auto simp: set_slot_def slot_at_def split: if_splits)

lemma set_slot_inv: "map_inv m \<Longrightarrow> set_slot m i s = Inr m' \<Longrightarrow> map_inv m'"
  by (auto simp: set_slot_def map_inv_def split: if_splits)

lemma set_slot_ok:
  "map_inv m \<Longrightarrow> 0 \<le> i \<Longrightarrow> i < msize m \<Longrightarrow> \<exists>m'. set_slot m i s = Inr m' \<and> msize m' = msize m \<and> map_inv m'"
  by (auto simp: set_slot_def map_inv_def)

text \<open>So a table of size 0, as \<open>ChannelMapClear\<close> leaves it, cannot grow.\<close>

lemma AddROM_zero_hangs:
  "0 < newsize \<Longrightarrow> msize m = 0 \<Longrightarrow> ChannelMapAddROM al junk (Some m) newsize u = Inl Hang"
  by (simp add: ChannelMapAddROM_def returned_def double_until_zero)

section \<open>Properties\<close>

text \<open>
  The doubling loop of \<open>ChannelMapAddROM\<close> ends for every positive size up to a
  descriptor of $2^{30}$: with the smallest power-of-two multiple of the size that is at least
  the descriptor, and no overflow on the way.
\<close>

lemma doubling_ends:
  assumes "0 < cursize" and "cursize < 2 ^ 30" and "newsize \<le> 2 ^ 30"
  shows "\<exists>c k. double_until cursize newsize = Some (Inr c) \<and> c = cursize * 2 ^ k \<and> newsize \<le> c \<and>
     (0 < k \<longrightarrow> c < 2 * newsize)"
  using double_until_ok [OF assms] double_until_result [OF assms(1)] by blast

lemma doubling_ends_witness:
  "\<exists>c k. double_until 128 300 = Some (Inr c) \<and> c = 128 * 2 ^ k \<and> 300 \<le> c \<and> (0 < k \<longrightarrow> c < 600)"
  using doubling_ends [of 128 300] by simp

text \<open>
  Growing the table keeps every old slot, but the new slots hold what was in memory before:
  the \<open>memset\<close> that is meant to clear them covers no slot, because it runs after the size has
  been updated.
\<close>

lemma growth_leaves_junk:
  assumes inv: "map_inv m" and grow: "msize m < newsize"
    and c: "double_until (msize m) newsize = Some (Inr c)" and bytes: "int32 (c * u)" "al (size_t (c * u))"
  shows "\<exists>m'. ChannelMapAddROM al junk (Some m) newsize u = Inr (Some m', True) \<and> map_inv m' \<and> msize m' = c \<and>
     (\<forall>i. 0 \<le> i \<and> i < msize m \<longrightarrow> slot_at m' i = slot_at m i) \<and>
     (\<forall>i. msize m \<le> i \<and> i < c \<longrightarrow> slot_at m' i = Inr (junk (nat i)))"
proof -
  have len: "length (mlist m) = nat (msize m)" "0 < msize m" using inv by (auto simp: map_inv_def)
  then show ?thesis
    using AddROM_grow [where al = al and junk = junk, OF inv grow c bytes] len
    by (auto simp: slot_at_def nth_append nat_less_iff le_nat_iff)
qed

lemma growth_leaves_junk_witness:
  "\<exists>m'. ChannelMapAddROM (\<lambda>_. True) (\<lambda>_. Wild) (Some \<lparr>msize = 1, mlist = [Null]\<rparr>) 2 8 = Inr (Some m', True) \<and>
     slot_at m' 1 = Inr Wild"
proof -
  have "double_until 1 2 = Some (Inr 2)"
    by (simp add: double_until_step double_until_done int32_def)
  from growth_leaves_junk [of "\<lparr>msize = 1, mlist = [Null]\<rparr>" 2 2 8 "\<lambda>_. True" "\<lambda>_. Wild"] this
  show ?thesis by (auto simp: map_inv_def int32_def)
qed

end
