(* ===== verification/Task_Queue.thy ===== *)
theory Task_Queue
  imports Prelude
begin

text \<open>
  The task list of \<open>old/ReactorHttp_c/EventLoop.h\<close>: \<open>struct ChannelEvent\<close> nodes on the
  heap, linked through \<open>_next\<close>, between \<open>_head\<close> and \<open>_tail\<close>. A node is an address in
  \<open>nodes\<close>; \<open>freshnode\<close> is the address the next \<open>malloc\<close> returns. The relation
  \<open>queue_rep q xs\<close> says that following the pointers from the head gives the tasks \<open>xs\<close>;
  appending a node refines appending to that list.
\<close>

datatype task_type = ADD | DELETE | MODIFY

type_synonym task = "task_type \<times> nat"

record node =
  ntype :: task_type
  nchannel :: nat
  nnext :: "nat option"

record tqueue =
  nodes :: "nat \<rightharpoonup> node"
  qhead :: "nat option"
  qtail :: "nat option"
  freshnode :: nat

definition empty_queue :: tqueue where
  "empty_queue = \<lparr>nodes = Map.empty, qhead = None, qtail = None, freshnode = 0\<rparr>"

definition node_at :: "tqueue \<Rightarrow> nat \<Rightarrow> node result" where
  "node_at q a = (case nodes q a of None \<Rightarrow> Inl UseAfterFree | Some n \<Rightarrow> Inr n)"

text \<open>The part of \<open>AddTaskEventLoop\<close> between locking and unlocking.\<close>

definition append_node :: "tqueue \<Rightarrow> task_type \<Rightarrow> nat \<Rightarrow> tqueue result" where
  "append_node q ty ch =
     (let a = freshnode q; new = \<lparr>ntype = ty, nchannel = ch, nnext = None\<rparr>;
          q1 = q\<lparr>freshnode := Suc a\<rparr> in
      if qhead q = None
      then Inr (q1\<lparr>nodes := (nodes q)(a \<mapsto> new), qhead := Some a, qtail := Some a\<rparr>)
      else
        rbind (deref (qtail q)) (\<lambda>t.
        rbind (node_at q t) (\<lambda>n.
          Inr (q1\<lparr>nodes := (nodes q)(t \<mapsto> n\<lparr>nnext := Some a\<rparr>, a \<mapsto> new), qtail := Some a\<rparr>))))"

definition free_node :: "tqueue \<Rightarrow> nat \<Rightarrow> tqueue" where
  "free_node q a = q\<lparr>nodes := (nodes q)(a := None)\<rparr>"

definition clear_ends :: "tqueue \<Rightarrow> tqueue" where
  "clear_ends q = q\<lparr>qhead := None, qtail := None\<rparr>"

section \<open>The list a queue represents\<close>

fun chain :: "(nat \<rightharpoonup> node) \<Rightarrow> nat option \<Rightarrow> nat list \<Rightarrow> task list \<Rightarrow> bool" where
  "chain h p [] [] \<longleftrightarrow> p = None"
| "chain h p (a # as) (x # xs) \<longleftrightarrow> p = Some a \<and>
     (case h a of None \<Rightarrow> False | Some n \<Rightarrow> (ntype n, nchannel n) = x \<and> chain h (nnext n) as xs)"
| "chain h p _ _ \<longleftrightarrow> False"

definition queue_at :: "tqueue \<Rightarrow> nat list \<Rightarrow> task list \<Rightarrow> bool" where
  "queue_at q as xs \<longleftrightarrow> chain (nodes q) (qhead q) as xs \<and> distinct as \<and> dom (nodes q) = set as \<and>
     (\<forall>a\<in>set as. a < freshnode q) \<and> (as \<noteq> [] \<longrightarrow> qtail q = Some (last as))"

definition queue_rep :: "tqueue \<Rightarrow> task list \<Rightarrow> bool" where
  "queue_rep q xs \<longleftrightarrow> (\<exists>as. queue_at q as xs)"

lemma queue_rep_empty: "queue_rep empty_queue []"
  by (auto simp: queue_rep_def queue_at_def empty_queue_def intro: exI [of _ "[]"])

lemma chain_length: "chain h p as xs \<Longrightarrow> length as = length xs"
  by (induction h p as xs rule: chain.induct) (auto split: option.splits)

lemma chain_other: "a \<notin> set as \<Longrightarrow> chain (h(a := v)) p as xs = chain h p as xs"
  by (induction h p as xs rule: chain.induct) (auto split: option.splits)

lemma chain_extend:
  assumes "chain h p as xs" and "as \<noteq> []" and "last as = t" and "distinct as" and "b \<notin> set as"
    and "h t = Some n"
  shows "chain (h(t \<mapsto> n\<lparr>nnext := Some b\<rparr>, b \<mapsto> \<lparr>ntype = ty, nchannel = ch, nnext = None\<rparr>)) p
           (as @ [b]) (xs @ [(ty, ch)])"
  using assms
proof (induction h p as xs rule: chain.induct)
  case (2 h p a as x xs)
  show ?case
  proof (cases "as = []")
    case True
    with "2.prems" show ?thesis by (cases xs) (auto split: option.splits)
  next
    case False
    with "2.prems" have "t \<noteq> a" by (metis distinct.simps(2) last.simps last_in_set)
    with "2" False show ?thesis by (auto split: option.splits)
  qed
qed auto

lemma append_node_at:
  assumes "queue_at q as xs"
  shows "\<exists>q'. append_node q ty ch = Inr q' \<and> queue_at q' (as @ [freshnode q]) (xs @ [(ty, ch)])"
proof (cases as)
  case Nil
  with assms have "qhead q = None" "xs = []" "dom (nodes q) = {}"
    by (cases xs; auto simp: queue_at_def)+
  with Nil show ?thesis
    by (auto simp: append_node_def queue_at_def Let_def)
next
  case (Cons a as')
  let ?t = "last as" and ?b = "freshnode q"
  have head: "qhead q \<noteq> None" using assms Cons by (cases xs) (auto simp: queue_at_def)
  have tail: "qtail q = Some ?t" "?t \<in> set as" "as \<noteq> []" using assms Cons by (auto simp: queue_at_def)
  then have "?t \<in> dom (nodes q)" using assms by (simp add: queue_at_def)
  then obtain n where n: "nodes q ?t = Some n" by blast
  have new: "?b \<notin> set as" "distinct as" using assms by (auto simp: queue_at_def)
  have "chain (nodes q) (qhead q) as xs" using assms by (simp add: queue_at_def)
  from chain_extend [OF this tail(3) refl new(2,1) n]
  have "queue_at (q\<lparr>freshnode := Suc ?b, nodes := (nodes q)(?t \<mapsto> n\<lparr>nnext := Some ?b\<rparr>,
      ?b \<mapsto> \<lparr>ntype = ty, nchannel = ch, nnext = None\<rparr>), qtail := Some ?b\<rparr>)
      (as @ [?b]) (xs @ [(ty, ch)])"
    using assms new tail(2) by (auto simp: queue_at_def)
  with head tail n show ?thesis
    by (auto simp: append_node_def node_at_def Let_def)
qed

lemma append_node_rep:
  "queue_rep q xs \<Longrightarrow> \<exists>q'. append_node q ty ch = Inr q' \<and> queue_rep q' (xs @ [(ty, ch)])"
  using append_node_at unfolding queue_rep_def by meson

lemma queue_at_fuel: "queue_at q as xs \<Longrightarrow> length as \<le> freshnode q"
proof -
  assume q: "queue_at q as xs"
  then have "set as \<subseteq> {..<freshnode q}" "distinct as" by (auto simp: queue_at_def)
  then show ?thesis by (metis card_lessThan card_mono distinct_card finite_lessThan)
qed

section \<open>Properties\<close>

text \<open>
  Appending a node to the linked task list refines appending to a list: whatever tasks the
  pointers from the head spell out, afterwards they spell out those and then the new one, and the
  tail pointer is the last node again.
\<close>

lemma append_refines_snoc:
  assumes "queue_rep q xs"
  shows "\<exists>q'. append_node q ty ch = Inr q' \<and> queue_rep q' (xs @ [(ty, ch)])"
  using assms by (rule append_node_rep)

lemma append_refines_snoc_witness:
  "\<exists>q'. append_node empty_queue ADD 3 = Inr q' \<and> queue_rep q' [(ADD, 3)]"
  using append_refines_snoc [OF queue_rep_empty, of ADD 3] by simp

end
