(* ===== verification/Event_Loop.thy ===== *)
theory Event_Loop
  imports Channel Channel_Map Task_Queue Byte_Queue
begin

text \<open>
  \<open>old/ReactorHttp_c/EventLoop.c\<close> with the structures of \<open>EventLoop.h\<close> and
  \<open>Dispatcher.h\<close>. The record \<open>eloop\<close> is \<open>struct EventLoop\<close> (its task list is a
  \<open>tqueue\<close>) together with what the loop reaches through pointers: the heap of channels
  (\<open>chans\<close>, next free address \<open>freshchan\<close>), the bytes waiting at the two ends of the
  socket pair (\<open>rx\<close>), how many the second end takes before a write to the first blocks
  (\<open>pair_room\<close>, the kernel's), and the descriptors closed so far. A \<open>Dispatcher\<close> is the table of function
  pointers; the operations take it as an argument, as the code calls through
  \<open>_dispatcher\<close>. \<open>dcb\<close> and \<open>call\<close> stand for calls through the function pointers of a
  channel; \<open>self\<close> is \<open>pthread_self()\<close>.
\<close>

record 'd eloop =
  isQuite :: bool
  disepatherData :: 'd
  tasks :: tqueue
  channelmap :: "chmap option"
  threadID :: nat
  threadName :: string
  mutex :: bool
  spair :: "int \<times> int"
  rx :: "nat \<times> nat"
  pair_room :: nat
  chans :: "nat \<rightharpoonup> channel"
  freshchan :: nat
  closed :: "int list"

type_synonym ('d, 'a) calls = "callback \<Rightarrow> cb_arg \<Rightarrow> ('d, 'a) eloop_scheme \<Rightarrow> ('d, 'a) eloop_scheme result"

text \<open>
  The operations of a dispatcher. The result of a C function that can reach its end without a
  \<open>return\<close> is an option. \<open>'r\<close> is what one wait for events delivers.
\<close>

record ('d, 'a, 'r) Dispatcher =
  d_init :: "'d result"
  d_add :: "channel \<Rightarrow> ('d, 'a) eloop_scheme \<Rightarrow> (('d, 'a) eloop_scheme \<times> int option) result"
  d_remove :: "('d, 'a) calls \<Rightarrow> channel \<Rightarrow> ('d, 'a) eloop_scheme \<Rightarrow> (('d, 'a) eloop_scheme \<times> int option) result"
  d_modify :: "channel \<Rightarrow> ('d, 'a) eloop_scheme \<Rightarrow> (('d, 'a) eloop_scheme \<times> int option) result"
  d_dispatch :: "('d, 'a) calls \<Rightarrow> 'r \<Rightarrow> ('d, 'a) eloop_scheme \<Rightarrow> (('d, 'a) eloop_scheme \<times> int option) result"

text \<open>A call through a function pointer.\<close>

definition call_ptr :: "('d, 'a) calls \<Rightarrow> callback option \<Rightarrow> cb_arg \<Rightarrow> ('d, 'a) eloop_scheme \<Rightarrow> ('d, 'a) eloop_scheme result" where
  "call_ptr cb f x l = (case f of None \<Rightarrow> Inl NullDeref | Some g \<Rightarrow> cb g x l)"

definition channel_at :: "('d, 'a) eloop_scheme \<Rightarrow> nat \<Rightarrow> channel result" where
  "channel_at l a = (case chans l a of None \<Rightarrow> Inl UseAfterFree | Some ch \<Rightarrow> Inr ch)"

section \<open>The descriptor table and the dispatcher\<close>

definition AddEventLoop ::
  "('d, 'a, 'r) Dispatcher \<Rightarrow> alloc \<Rightarrow> junk \<Rightarrow> ('d, 'a) eloop_scheme \<Rightarrow> nat \<Rightarrow>
   (('d, 'a) eloop_scheme \<times> int option) result" where
  "AddEventLoop D al junk l a =
     rbind (channel_at l a) (\<lambda>ch.
     rbind (deref (channelmap l)) (\<lambda>m.
     rbind (if msize m \<le> fd ch
            then rbind (ChannelMapAddROM al junk (Some m) (fd ch) sizeof_ptr) (\<lambda>(mp, ok).
                 rbind (deref mp) (\<lambda>m'. Inr (m', ok)))
            else Inr (m, True)) (\<lambda>(m', ok).
       if \<not> ok then Inr (l\<lparr>channelmap := Some m'\<rparr>, Some (-1))
       else
         rbind (slot_at m' (fd ch)) (\<lambda>s.
           if s = Null
           then rbind (set_slot m' (fd ch) (Chan a)) (\<lambda>m''.
                rbind (d_add D ch (l\<lparr>channelmap := Some m''\<rparr>)) (\<lambda>(l', _). Inr (l', None)))
           else Inr (l\<lparr>channelmap := Some m'\<rparr>, None)))))"

definition DeleteEventLoop ::
  "('d, 'a, 'r) Dispatcher \<Rightarrow> ('d, 'a) calls \<Rightarrow> ('d, 'a) eloop_scheme \<Rightarrow> nat \<Rightarrow>
   (('d, 'a) eloop_scheme \<times> int option) result" where
  "DeleteEventLoop D dcb l a =
     rbind (channel_at l a) (\<lambda>ch.
     rbind (deref (channelmap l)) (\<lambda>m.
       if msize m \<le> fd ch then Inr (l, Some (-1)) else d_remove D dcb ch l))"

definition ModifyEventLoop ::
  "('d, 'a, 'r) Dispatcher \<Rightarrow> ('d, 'a) eloop_scheme \<Rightarrow> nat \<Rightarrow> (('d, 'a) eloop_scheme \<times> int option) result" where
  "ModifyEventLoop D l a =
     rbind (channel_at l a) (\<lambda>ch.
     rbind (deref (channelmap l)) (\<lambda>m.
       if msize m \<le> fd ch then Inr (l, Some (-1))
       else
         rbind (slot_at m (fd ch)) (\<lambda>s.
           if s = Null then Inr (l, Some (-1)) else d_modify D ch l)))"

definition destroyChannel :: "('d, 'a) eloop_scheme \<Rightarrow> nat \<Rightarrow> ('d, 'a) eloop_scheme result" where
  "destroyChannel l a =
     rbind (deref (channelmap l)) (\<lambda>m.
     rbind (channel_at l a) (\<lambda>ch.
     rbind (set_slot m (fd ch) Null) (\<lambda>m'.
       Inr (l\<lparr>channelmap := Some m', closed := closed l @ [fd ch], chans := (chans l)(a := None)\<rparr>))))"

section \<open>The task list\<close>

text \<open>The three tests on \<open>head->type\<close>; the results of the calls are dropped.\<close>

definition perform ::
  "('d, 'a, 'r) Dispatcher \<Rightarrow> alloc \<Rightarrow> junk \<Rightarrow> ('d, 'a) calls \<Rightarrow> ('d, 'a) eloop_scheme \<Rightarrow> task \<Rightarrow>
   ('d, 'a) eloop_scheme result" where
  "perform D al junk dcb l x =
     rbind (case x of
              (ADD, a) \<Rightarrow> AddEventLoop D al junk l a
            | (DELETE, a) \<Rightarrow> DeleteEventLoop D dcb l a
            | (MODIFY, a) \<Rightarrow> ModifyEventLoop D l a) (\<lambda>(l', _). Inr l')"

text \<open>
  The loop over the nodes, from \<open>head\<close>. Each round frees the node it handled, so a round can
  be made at most once per node ever allocated: \<open>freshnode\<close> rounds are enough fuel.
\<close>

fun process_nodes ::
  "('d, 'a, 'r) Dispatcher \<Rightarrow> alloc \<Rightarrow> junk \<Rightarrow> ('d, 'a) calls \<Rightarrow> nat \<Rightarrow> nat option \<Rightarrow>
   ('d, 'a) eloop_scheme \<Rightarrow> ('d, 'a) eloop_scheme result" where
  "process_nodes D al junk dcb fuel None l = Inr l"
| "process_nodes D al junk dcb 0 (Some h) l = Inl Hang"
| "process_nodes D al junk dcb (Suc fuel) (Some h) l =
     rbind (node_at (tasks l) h) (\<lambda>n.
     rbind (perform D al junk dcb l (ntype n, nchannel n)) (\<lambda>l1.
     rbind (node_at (tasks l1) h) (\<lambda>n1.
       process_nodes D al junk dcb fuel (nnext n1) (l1\<lparr>tasks := free_node (tasks l1) h\<rparr>))))"

definition processTaskEventLoop ::
  "('d, 'a, 'r) Dispatcher \<Rightarrow> alloc \<Rightarrow> junk \<Rightarrow> ('d, 'a) calls \<Rightarrow> ('d, 'a) eloop_scheme \<Rightarrow>
   ('d, 'a) eloop_scheme result" where
  "processTaskEventLoop D al junk dcb l =
     (if mutex l then Inl Deadlock
      else
        rbind (process_nodes D al junk dcb (freshnode (tasks l)) (qhead (tasks l)) (l\<lparr>mutex := True\<rparr>)) (\<lambda>l'.
          Inr (l'\<lparr>tasks := clear_ends (tasks l'), mutex := False\<rparr>)))"

text \<open>
  \<open>sizeof(msg)\<close> is the size of a pointer. What is written at one end of the pair arrives at
  the other. The descriptors are blocking: when the second end is full the call does not return.
\<close>

definition pair_takes :: "('d, 'a) eloop_scheme \<Rightarrow> nat \<Rightarrow> bool" where
  "pair_takes l n \<longleftrightarrow> snd (rx l) + 8 * n \<le> pair_room l"

definition pair_written :: "('d, 'a) eloop_scheme \<Rightarrow> ('d, 'a) eloop_scheme" where
  "pair_written l = l\<lparr>rx := (fst (rx l), snd (rx l) + 8)\<rparr>"

definition taskWakeUp :: "('d, 'a) eloop_scheme \<Rightarrow> ('d, 'a) eloop_scheme result" where
  "taskWakeUp l = (if pair_takes l 1 then Inr (pair_written l) else Inl Hang)"

text \<open>\<open>read\<close> on the empty, blocking descriptor does not return.\<close>

definition readLocalMessage :: "('d, 'a) eloop_scheme \<Rightarrow> (('d, 'a) eloop_scheme \<times> int) result" where
  "readLocalMessage l =
     (if snd (rx l) = 0 then Inl Hang
      else Inr (l\<lparr>rx := (fst (rx l), snd (rx l) - min 256 (snd (rx l)))\<rparr>, 0))"

definition AddTaskEventLoop ::
  "('d, 'a, 'r) Dispatcher \<Rightarrow> alloc \<Rightarrow> junk \<Rightarrow> ('d, 'a) calls \<Rightarrow> nat \<Rightarrow> ('d, 'a) eloop_scheme \<Rightarrow> nat \<Rightarrow>
   task_type \<Rightarrow> ('d, 'a) eloop_scheme result" where
  "AddTaskEventLoop D al junk dcb self l a ty =
     (if mutex l then Inl Deadlock
      else
        rbind (append_node (tasks l) ty a) (\<lambda>q.
          let l1 = l\<lparr>tasks := q\<rparr> in
          if threadID l1 = self then processTaskEventLoop D al junk dcb l1
          else taskWakeUp l1))"

section \<open>Construction, activation and the loop\<close>

definition new_channel :: "('d, 'a) eloop_scheme \<Rightarrow> channel \<Rightarrow> ('d, 'a) eloop_scheme \<times> nat" where
  "new_channel l ch = (l\<lparr>chans := (chans l)(freshchan l \<mapsto> ch), freshchan := Suc (freshchan l)\<rparr>, freshchan l)"

text \<open>
  \<open>sp\<close> is the pair of descriptors \<open>socketpair\<close> made, with what one end takes of the other's bytes,
  \<open>None\<close> when it failed; \<open>ext\<close> holds
  the fields of an extended record.
\<close>

definition initEventLoopEx ::
  "('d, 'a, 'r) Dispatcher \<Rightarrow> alloc \<Rightarrow> junk \<Rightarrow> ('d, 'a) calls \<Rightarrow> nat \<Rightarrow> ((int \<times> int) \<times> nat) option \<Rightarrow> 'a \<Rightarrow>
   string option \<Rightarrow> ('d, 'a) eloop_scheme result" where
  "initEventLoopEx D al junk dcb self sp ext threaName =
     (let name = (case threaName of None \<Rightarrow> ''MainThread'' | Some s \<Rightarrow> s) in
      if 32 \<le> length (cstr name) then Inl OutOfBounds
      else
        rbind (d_init D) (\<lambda>d.
          case sp of
            None \<Rightarrow> Inl (Exit ''socketpair'')
          | Some (fds, space) \<Rightarrow>
              (let l = \<lparr>isQuite = False, disepatherData = d, tasks = empty_queue,
                        channelmap = initChannelMap al junk 128, threadID = self,
                        threadName = cstr name, mutex = False, spair = fds, rx = (0, 0), pair_room = space,
                        chans = Map.empty, freshchan = 0, closed = [], \<dots> = ext\<rparr>;
                   ch = initchannel (fst fds) readevent None (Some ReadLocalMessage) None LoopArg;
                   (l1, a) = new_channel l ch
               in AddTaskEventLoop D al junk dcb self l1 a ADD)))"

definition initEventLoop ::
  "('d, 'a, 'r) Dispatcher \<Rightarrow> alloc \<Rightarrow> junk \<Rightarrow> ('d, 'a) calls \<Rightarrow> nat \<Rightarrow> ((int \<times> int) \<times> nat) option \<Rightarrow> 'a \<Rightarrow>
   ('d, 'a) eloop_scheme result" where
  "initEventLoop D al junk dcb self sp ext = initEventLoopEx D al junk dcb self sp ext None"

text \<open>
  \<open>EventLoop\<close> is never NULL where \<open>ActivateEvent\<close> is called, so its first test
  (\<open>fd < 0 && EventLoop == NULL\<close>) fails and the table is read at \<open>fd\<close>. The second
  callback is read through the channel again after the first has run.
\<close>

definition slot_channel :: "slot \<Rightarrow> nat result" where
  "slot_channel s = (case s of Null \<Rightarrow> Inl NullDeref | Wild \<Rightarrow> Inl WildPointer | Chan a \<Rightarrow> Inr a)"

definition ActivateEvent ::
  "('d, 'a) calls \<Rightarrow> ('d, 'a) eloop_scheme \<Rightarrow> 32 word \<Rightarrow> int \<Rightarrow> (('d, 'a) eloop_scheme \<times> int) result" where
  "ActivateEvent call l evs f =
     rbind (deref (channelmap l)) (\<lambda>m.
     rbind (slot_at m f) (\<lambda>s.
     rbind (slot_channel s) (\<lambda>a.
     rbind (channel_at l a) (\<lambda>ch.
       if fd ch \<noteq> f then Inl AssertFail
       else
         rbind (if evs AND readevent \<noteq> 0
                then (case readcallback ch of None \<Rightarrow> Inr l | Some g \<Rightarrow> call g (arg ch) l)
                else Inr l) (\<lambda>l1.
         rbind (if evs AND writevent \<noteq> 0
                then rbind (channel_at l1 a) (\<lambda>ch1.
                       case writecallback ch1 of None \<Rightarrow> Inr l1 | Some g \<Rightarrow> call g (arg ch1) l1)
                else Inr l1) (\<lambda>l2.
           Inr (l2, 0)))))))"

text \<open>
  The \<open>while\<close> loop of \<open>RunEventLoop\<close> along the events of successive waits: the state after
  the last of them, or where \<open>_isQuite\<close> was found set.
\<close>

fun run_rounds ::
  "('d, 'a, 'r) Dispatcher \<Rightarrow> alloc \<Rightarrow> junk \<Rightarrow> ('d, 'a) calls \<Rightarrow> ('d, 'a) calls \<Rightarrow> 'r list \<Rightarrow>
   ('d, 'a) eloop_scheme \<Rightarrow> ('d, 'a) eloop_scheme result" where
  "run_rounds D al junk dcb call [] l = Inr l"
| "run_rounds D al junk dcb call (r # rs) l =
     (if isQuite l then Inr l
      else
        rbind (d_dispatch D call r l) (\<lambda>(l1, _).
        rbind (processTaskEventLoop D al junk dcb l1) (\<lambda>l2.
          run_rounds D al junk dcb call rs l2)))"

definition RunEventLoop ::
  "('d, 'a, 'r) Dispatcher \<Rightarrow> alloc \<Rightarrow> junk \<Rightarrow> ('d, 'a) calls \<Rightarrow> ('d, 'a) calls \<Rightarrow> nat \<Rightarrow> 'r list \<Rightarrow>
   ('d, 'a) eloop_scheme \<Rightarrow> (('d, 'a) eloop_scheme \<times> int option) result" where
  "RunEventLoop D al junk dcb call self rs l =
     (if threadID l \<noteq> self then Inr (l, Some (-1))
      else rbind (run_rounds D al junk dcb call rs l) (\<lambda>l'. Inr (l', None)))"

end
