(* ===== verification/Dispatcher_Contract.thy ===== *)
theory Dispatcher_Contract
  imports Event_Loop
begin

text \<open>
  What the event loop relies on when it calls through \<open>struct Dispatcher\<close>, and what it proves
  from that once for all dispatchers. The contract has three layers: the frame of the calls
  (they change the dispatcher's own data, and removal then runs the destroy callback), their
  effect on the set of watched descriptors for registration and removal, and the effect of
  modification. A dispatcher that honours only part of the contract interprets only that part.
\<close>

text \<open>The descriptors watched for reading and for writing.\<close>

type_synonym interest = "int \<Rightarrow> bool \<times> bool"

lemma tasks_fixed: "l = l\<lparr>tasks := q\<rparr> \<Longrightarrow> tasks l = q"
  by (drule arg_cong [of _ _ tasks]) simp

section \<open>Destroy callbacks\<close>

text \<open>
  A destroy callback runs while the loop holds its mutex: it neither looks at nor changes the
  task list, nor the dispatcher's data, the mutex, the loop's thread or its socket pair.
\<close>

locale destroy_callbacks =
  fixes dcb :: "('d, 'a) calls"
  assumes dcb_tasks: "dcb f x (l\<lparr>tasks := q\<rparr>) = map_sum id (\<lambda>l'. l'\<lparr>tasks := q\<rparr>) (dcb f x l)"
    and dcb_frame: "dcb f x l = Inr l' \<Longrightarrow>
      disepatherData l' = disepatherData l \<and> mutex l' = mutex l \<and> threadID l' = threadID l \<and> rx l' = rx l \<and> pair_room l' = pair_room l"
begin

lemma call_ptr_tasks:
  "call_ptr dcb f x (l\<lparr>tasks := q\<rparr>) = map_sum id (\<lambda>l'. l'\<lparr>tasks := q\<rparr>) (call_ptr dcb f x l)"
  by (cases f) (simp_all add: call_ptr_def dcb_tasks)

lemma call_ptr_frame:
  "call_ptr dcb f x l = Inr l' \<Longrightarrow>
   disepatherData l' = disepatherData l \<and> mutex l' = mutex l \<and> threadID l' = threadID l \<and> rx l' = rx l \<and> pair_room l' = pair_room l"
  by (cases f) (auto simp: call_ptr_def dest: dcb_frame)

lemma call_ptr_keeps_tasks: "call_ptr dcb f x l = Inr l' \<Longrightarrow> tasks l' = tasks l"
  using call_ptr_tasks [where q = "tasks l" and l = l and f = f and x = x]
  by (auto intro: tasks_fixed)

lemma call_ptr_tasks_data:
  "call_ptr dcb f x (l\<lparr>tasks := q, disepatherData := d\<rparr>) =
   map_sum id (\<lambda>l'. l'\<lparr>tasks := q\<rparr>) (call_ptr dcb f x (l\<lparr>disepatherData := d\<rparr>))"
proof -
  have "l\<lparr>tasks := q, disepatherData := d\<rparr> = l\<lparr>disepatherData := d, tasks := q\<rparr>" by simp
  then show ?thesis by (simp only: call_ptr_tasks)
qed

end

section \<open>Dispatchers\<close>

text \<open>
  \<open>add\<close>, \<open>modify\<close> and the dispatcher's part of \<open>remove\<close> are functions of the
  dispatcher's data and the channel.
\<close>

locale dispatcher_frame =
  fixes D :: "('d, 'a, 'r) Dispatcher"
    and add_data :: "channel \<Rightarrow> 'd \<Rightarrow> ('d \<times> int option) result"
    and remove_data :: "channel \<Rightarrow> 'd \<Rightarrow> 'd result"
    and modify_data :: "channel \<Rightarrow> 'd \<Rightarrow> ('d \<times> int option) result"
  assumes add_frame: "d_add D ch l =
      rbind (add_data ch (disepatherData l)) (\<lambda>(d, r). Inr (l\<lparr>disepatherData := d\<rparr>, r))"
    and remove_frame: "d_remove D cb ch l =
      rbind (remove_data ch (disepatherData l)) (\<lambda>d.
      rbind (call_ptr cb (destroycallback ch) (arg ch) (l\<lparr>disepatherData := d\<rparr>)) (\<lambda>l'. Inr (l', Some 0)))"
    and modify_frame: "d_modify D ch l =
      rbind (modify_data ch (disepatherData l)) (\<lambda>(d, r). Inr (l\<lparr>disepatherData := d\<rparr>, r))"

locale dispatcher = dispatcher_frame +
  fixes interest :: "'d \<Rightarrow> interest"
    and can_add :: "'d \<Rightarrow> channel \<Rightarrow> bool"
    and can_remove :: "'d \<Rightarrow> channel \<Rightarrow> bool"
  assumes add_law: "can_add d ch \<Longrightarrow>
      \<exists>d' r. add_data ch d = Inr (d', r) \<and> interest d' = (interest d)(fd ch := wants ch)"
    and remove_law: "can_remove d ch \<Longrightarrow>
      \<exists>d'. remove_data ch d = Inr d' \<and> interest d' = (interest d)(fd ch := (False, False))"
    and remove_after_add: "can_add d ch \<Longrightarrow> add_data ch d = Inr (d', r) \<Longrightarrow> can_remove d' ch"

locale modifying_dispatcher = dispatcher +
  fixes can_modify :: "'d \<Rightarrow> channel \<Rightarrow> bool"
  assumes modify_law: "can_modify d ch \<Longrightarrow>
      \<exists>d' r. modify_data ch d = Inr (d', r) \<and> interest d' = (interest d)(fd ch := wants ch)"
    and modify_after_add: "can_add d ch \<Longrightarrow> add_data ch d = Inr (d', r) \<Longrightarrow> can_modify d' ch"

section \<open>What follows for the event loop\<close>

context dispatcher
begin

text \<open>Registration of a descriptor the table has a free slot for.\<close>

lemma add_registers:
  assumes "channel_at l a = Inr ch" and "channelmap l = Some m" and "map_inv m"
    and "fd ch < msize m" and "slot_at m (fd ch) = Inr Null" and "can_add (disepatherData l) ch"
  shows "\<exists>l' m'. AddEventLoop D al junk l a = Inr (l', None) \<and>
     interest (disepatherData l') = (interest (disepatherData l))(fd ch := wants ch) \<and>
     channelmap l' = Some m' \<and> slot_at m' (fd ch) = Inr (Chan a) \<and>
     (\<forall>i. i \<noteq> fd ch \<longrightarrow> slot_at m' i = slot_at m i) \<and> chans l' = chans l \<and> tasks l' = tasks l"
proof -
  obtain d r where d: "add_data ch (disepatherData l) = Inr (d, r)"
      "interest d = (interest (disepatherData l))(fd ch := wants ch)"
    using add_law [OF assms(6)] by blast
  have "0 \<le> fd ch" using assms(5) by (auto simp: slot_at_def split: if_splits)
  then obtain m' where m': "set_slot m (fd ch) (Chan a) = Inr m'"
    using set_slot_ok [OF assms(3) _ assms(4)] by blast
  then show ?thesis
    using assms d by (auto simp: AddEventLoop_def add_frame slot_at_set [OF m'])
qed

text \<open>A slot that is taken, or that holds what was in memory before, is left alone.\<close>

lemma add_occupied:
  assumes "channel_at l a = Inr ch" and "channelmap l = Some m"
    and "fd ch < msize m" and "slot_at m (fd ch) = Inr s" and "s \<noteq> Null"
  shows "AddEventLoop D al junk l a = Inr (l, None)"
  using assms by (simp add: AddEventLoop_def)

text \<open>The descriptor equal to the table's size is refused: the table does not grow for it.\<close>

lemma add_at_size:
  assumes "channel_at l a = Inr ch" and "channelmap l = Some m" and "fd ch = msize m"
  shows "AddEventLoop D al junk l a = Inr (l, Some (-1))"
  using assms by (simp add: AddEventLoop_def AddROM_no_growth)

text \<open>Growing to exactly the descriptor leaves no slot for it.\<close>

lemma add_at_grown_size:
  assumes "channel_at l a = Inr ch" and "channelmap l = Some m" and "map_inv m"
    and "msize m < fd ch" and "double_until (msize m) (fd ch) = Some (Inr (fd ch))"
    and "int32 (fd ch * 8)" and "al (size_t (fd ch * 8))"
  shows "AddEventLoop D al junk l a = Inl OutOfBounds"
proof -
  note grow = AddROM_grow [OF assms(3-5), where u = 8 and al = al and junk = junk, OF assms(6,7)]
  from grow(2) have "slot_at (m\<lparr>mlist := mlist m @ map junk [nat (msize m)..<nat (fd ch)], msize := fd ch\<rparr>) (fd ch) = Inl OutOfBounds"
    by (auto simp: slot_at_def map_inv_def)
  then show ?thesis
    using assms(1,2,4) grow(1) by (simp add: AddEventLoop_def sizeof_ptr_def)
qed

text \<open>Registering and removing again leaves the watched set as it was.\<close>

lemma add_remove_data:
  assumes "can_add d ch" and "add_data ch d = Inr (d1, r)" and "interest d (fd ch) = (False, False)"
  shows "\<exists>d2. remove_data ch d1 = Inr d2 \<and> interest d2 = interest d"
proof -
  from remove_law [OF remove_after_add [OF assms(1,2)]] add_law [OF assms(1)] assms(2)
  obtain d2 where d2: "remove_data ch d1 = Inr d2" "interest d2 = ((interest d)(fd ch := wants ch))(fd ch := (False, False))"
    by auto
  have "interest d2 = interest d" using d2(2) assms(3) by auto
  with d2(1) show ?thesis by blast
qed

end

text \<open>
  With destroy callbacks that keep to their frame, processing the task list is performing its
  tasks in order, each exactly once, and leaves the list empty and the mutex free.
\<close>

locale loop_contract =
  dispatcher_frame D add_data remove_data modify_data + destroy_callbacks dcb
  for D :: "('d, 'a, 'r) Dispatcher" and add_data remove_data modify_data
    and dcb :: "('d, 'a) calls"
begin

lemma perform_tasks:
  "perform D al junk dcb (l\<lparr>tasks := q\<rparr>) x = map_sum id (\<lambda>l'. l'\<lparr>tasks := q\<rparr>) (perform D al junk dcb l x)"
proof (cases x)
  case (Pair ty a)
  show ?thesis
  proof (cases ty)
    case ADD
    then show ?thesis
      by (simp add: Pair perform_def AddEventLoop_def channel_at_def add_frame rbind_def
          split: sum.split option.split prod.split)
  next
    case DELETE
    then show ?thesis
      by (simp add: Pair perform_def DeleteEventLoop_def channel_at_def remove_frame rbind_def
          call_ptr_tasks_data split: sum.split option.split)
  next
    case MODIFY
    then show ?thesis
      by (simp add: Pair perform_def ModifyEventLoop_def channel_at_def modify_frame rbind_def
          split: sum.split option.split prod.split)
  qed
qed

lemma perform_keeps_tasks: "perform D al junk dcb l x = Inr l' \<Longrightarrow> tasks l' = tasks l"
  using perform_tasks [where q = "tasks l" and l = l and x = x and al = al and junk = junk]
  by (auto intro: tasks_fixed)

lemma put_all_tasks:
  "put_all (perform D al junk dcb) (l\<lparr>tasks := q\<rparr>) xs =
   map_sum id (\<lambda>l'. l'\<lparr>tasks := q\<rparr>) (put_all (perform D al junk dcb) l xs)"
proof (induction xs arbitrary: l)
  case Nil
  then show ?case by simp
next
  case (Cons x xs)
  then show ?case by (cases "perform D al junk dcb l x") (simp_all add: perform_tasks)
qed

lemma put_all_keeps_tasks: "put_all (perform D al junk dcb) l xs = Inr l' \<Longrightarrow> tasks l' = tasks l"
  using put_all_tasks [where l = l and q = "tasks l" and xs = xs and al = al and junk = junk]
  by (auto intro: tasks_fixed)

lemma perform_keeps_pair:
  "perform D al junk dcb l x = Inr l' \<Longrightarrow> rx l' = rx l \<and> pair_room l' = pair_room l"
  by (cases x; cases "fst x")
    (auto simp: perform_def AddEventLoop_def DeleteEventLoop_def ModifyEventLoop_def add_frame remove_frame modify_frame
      split: if_splits option.splits dest: call_ptr_frame)

lemma put_all_keeps_pair:
  "put_all (perform D al junk dcb) l xs = Inr l' \<Longrightarrow> rx l' = rx l \<and> pair_room l' = pair_room l"
  by (induction xs arbitrary: l) (auto dest: perform_keeps_pair)

lemma process_nodes_eq:
  assumes "chain (nodes (tasks l)) p as xs" and "distinct as" and "dom (nodes (tasks l)) = set as"
    and "length as \<le> fuel"
  shows "process_nodes D al junk dcb fuel p l =
     rbind (put_all (perform D al junk dcb) l xs) (\<lambda>l'. Inr (l'\<lparr>tasks := (tasks l)\<lparr>nodes := Map.empty\<rparr>\<rparr>))"
  using assms
proof (induction as arbitrary: p xs l fuel)
  case Nil
  then have "nodes (tasks l) = Map.empty" "xs = []" "p = None" by (cases xs; simp)+
  then show ?case by simp
next
  case (Cons a as)
  then obtain x xs' n fuel' where c: "xs = x # xs'" "p = Some a" "nodes (tasks l) a = Some n"
      "(ntype n, nchannel n) = x" "chain (nodes (tasks l)) (nnext n) as xs'" "fuel = Suc fuel'"
    by (cases xs; cases fuel) (auto split: option.splits)
  show ?case
  proof (cases "perform D al junk dcb l x")
    case (Inl e)
    with c show ?thesis by (simp add: node_at_def)
  next
    case (Inr l1)
    have t1: "tasks l1 = tasks l" using perform_keeps_tasks [OF Inr] .
    let ?q = "free_node (tasks l) a" and ?done = "(tasks l)\<lparr>nodes := Map.empty\<rparr>"
    have "chain (nodes ?q) (nnext n) as xs'" "dom (nodes ?q) = set as"
      using c(5) Cons.prems by (auto simp: free_node_def chain_other)
    then have "process_nodes D al junk dcb fuel' (nnext n) (l1\<lparr>tasks := ?q\<rparr>) =
        rbind (put_all (perform D al junk dcb) (l1\<lparr>tasks := ?q\<rparr>) xs') (\<lambda>l'. Inr (l'\<lparr>tasks := ?q\<lparr>nodes := Map.empty\<rparr>\<rparr>))"
      using Cons.IH [where l = "l1\<lparr>tasks := ?q\<rparr>"] Cons.prems c(6) by simp
    also have "\<dots> = rbind (put_all (perform D al junk dcb) l1 xs') (\<lambda>l'. Inr (l'\<lparr>tasks := ?done\<rparr>))"
      by (cases "put_all (perform D al junk dcb) l1 xs'") (simp_all add: put_all_tasks free_node_def)
    finally show ?thesis
      using c Inr t1 by (simp add: node_at_def)
  qed
qed

lemma process_tasks_eq:
  assumes q: "queue_rep (tasks l) xs" and free: "\<not> mutex l"
  shows "processTaskEventLoop D al junk dcb l =
     rbind (put_all (perform D al junk dcb) (l\<lparr>mutex := True\<rparr>) xs) (\<lambda>l'.
       Inr (l'\<lparr>tasks := (tasks l)\<lparr>nodes := Map.empty, qhead := None, qtail := None\<rparr>, mutex := False\<rparr>))"
proof -
  obtain as where as: "queue_at (tasks l) as xs" using q by (auto simp: queue_rep_def)
  have "process_nodes D al junk dcb (freshnode (tasks l)) (qhead (tasks l)) (l\<lparr>mutex := True\<rparr>) =
      rbind (put_all (perform D al junk dcb) (l\<lparr>mutex := True\<rparr>) xs)
        (\<lambda>l'. Inr (l'\<lparr>tasks := (tasks l)\<lparr>nodes := Map.empty\<rparr>\<rparr>))"
    using process_nodes_eq [where l = "l\<lparr>mutex := True\<rparr>" and as = as] as queue_at_fuel [OF as]
    by (simp add: queue_at_def)
  then show ?thesis
    using free by (simp add: processTaskEventLoop_def rbind_assoc clear_ends_def)
qed

lemma queue_rep_processed: "queue_rep (q\<lparr>nodes := Map.empty, qhead := None, qtail := None\<rparr>) []"
  by (auto simp: queue_rep_def queue_at_def intro: exI [of _ "[]"])

text \<open>
  \<open>AddTaskEventLoop\<close> in the loop's own thread: the tasks already queued, then the new one,
  are performed before it returns.
\<close>

lemma add_task_own_thread:
  assumes q: "queue_rep (tasks l) xs" and free: "\<not> mutex l" and own: "threadID l = self"
  shows "\<exists>q'. queue_rep q' [] \<and> AddTaskEventLoop D al junk dcb self l a ty =
     rbind (put_all (perform D al junk dcb) (l\<lparr>mutex := True\<rparr>) (xs @ [(ty, a)])) (\<lambda>l'.
       Inr (l'\<lparr>tasks := q', mutex := False\<rparr>))"
proof -
  obtain q1 where q1: "append_node (tasks l) ty a = Inr q1" "queue_rep q1 (xs @ [(ty, a)])"
    using append_node_rep [OF q] by blast
  let ?l = "l\<lparr>tasks := q1\<rparr>" and ?done = "q1\<lparr>nodes := Map.empty, qhead := None, qtail := None\<rparr>"
  have ord: "?l\<lparr>mutex := True\<rparr> = l\<lparr>mutex := True, tasks := q1\<rparr>" by simp
  have "processTaskEventLoop D al junk dcb ?l =
      rbind (put_all (perform D al junk dcb) (l\<lparr>mutex := True, tasks := q1\<rparr>) (xs @ [(ty, a)]))
        (\<lambda>l'. Inr (l'\<lparr>tasks := ?done, mutex := False\<rparr>))"
    using process_tasks_eq [where l = ?l and al = al and junk = junk] q1(2) free by (simp flip: ord)
  also have "\<dots> = rbind (put_all (perform D al junk dcb) (l\<lparr>mutex := True\<rparr>) (xs @ [(ty, a)]))
        (\<lambda>l'. Inr (l'\<lparr>tasks := ?done, mutex := False\<rparr>))"
    unfolding put_all_tasks
    by (cases "put_all (perform D al junk dcb) (l\<lparr>mutex := True\<rparr>) (xs @ [(ty, a)])") simp_all
  finally have "AddTaskEventLoop D al junk dcb self l a ty =
      rbind (put_all (perform D al junk dcb) (l\<lparr>mutex := True\<rparr>) (xs @ [(ty, a)]))
        (\<lambda>l'. Inr (l'\<lparr>tasks := ?done, mutex := False\<rparr>))"
    using free own q1(1) by (simp add: AddTaskEventLoop_def Let_def)
  with queue_rep_processed show ?thesis by blast
qed

lemma add_task_single:
  assumes "queue_rep (tasks l) []" and "\<not> mutex l" and "threadID l = self"
  shows "\<exists>q'. queue_rep q' [] \<and> AddTaskEventLoop D al junk dcb self l a ty =
     rbind (perform D al junk dcb (l\<lparr>mutex := True\<rparr>) (ty, a)) (\<lambda>l'. Inr (l'\<lparr>tasks := q', mutex := False\<rparr>))"
  using add_task_own_thread [OF assms] by (simp add: rbind_assoc)

text \<open>
  From another thread the task is only queued, and eight bytes are written to the pair, if it takes
  them; otherwise the call does not return.
\<close>

lemma add_task_other_thread:
  assumes q: "queue_rep (tasks l) xs" and free: "\<not> mutex l" and other: "threadID l \<noteq> self"
  shows "\<exists>q'. queue_rep q' (xs @ [(ty, a)]) \<and>
     AddTaskEventLoop D al junk dcb self l a ty = (if pair_takes l 1 then Inr (pair_written (l\<lparr>tasks := q'\<rparr>)) else Inl Hang)"
  using append_node_rep [OF q, of ty a] free other
  by (auto simp: AddTaskEventLoop_def Let_def taskWakeUp_def pair_takes_def)

end

end
