(* ===== verification/Epoll_Dispatch.thy ===== *)
theory Epoll_Dispatch
  imports Dispatcher_Contract
begin

text \<open>
  \<open>old/ReactorHttp_c/EpollDispatche.c\<close>. The dispatcher's data is the epoll descriptor, whose
  meaning is the kernel's interest list \<open>ep_interest\<close>; \<open>ep_refuses\<close> are the descriptors
  \<open>epoll_ctl\<close> rejects whatever the list holds (not open, or not pollable). \<open>epoll_ctl\<close>
  also fails, as documented, when a descriptor is added twice or changed without being there.
  One wait delivers a list of ready descriptors with their events, or fails.
\<close>

record epoll_data =
  ep_interest :: "int \<rightharpoonup> 32 word"
  ep_refuses :: "int \<Rightarrow> bool"

datatype ctl_op = EPOLL_CTL_ADD | EPOLL_CTL_DEL | EPOLL_CTL_MOD

definition EPOLLIN :: "32 word" where "EPOLLIN = 1"
definition EPOLLOUT :: "32 word" where "EPOLLOUT = 4"
definition EPOLLERR :: "32 word" where "EPOLLERR = 8"
definition EPOLLHUP :: "32 word" where "EPOLLHUP = 16"

lemmas epoll_bits = EPOLLIN_def EPOLLOUT_def EPOLLERR_def EPOLLHUP_def

type_synonym epoll_ready = "(int \<times> 32 word) list option"

definition epoll_ctl :: "epoll_data \<Rightarrow> ctl_op \<Rightarrow> int \<Rightarrow> 32 word \<Rightarrow> epoll_data \<times> int" where
  "epoll_ctl d op f evs =
     (if ep_refuses d f then (d, -1)
      else case op of
        EPOLL_CTL_ADD \<Rightarrow>
          if ep_interest d f = None then (d\<lparr>ep_interest := (ep_interest d)(f \<mapsto> evs)\<rparr>, 0) else (d, -1)
      | EPOLL_CTL_DEL \<Rightarrow>
          if ep_interest d f = None then (d, -1) else (d\<lparr>ep_interest := (ep_interest d)(f := None)\<rparr>, 0)
      | EPOLL_CTL_MOD \<Rightarrow>
          if ep_interest d f = None then (d, -1) else (d\<lparr>ep_interest := (ep_interest d)(f \<mapsto> evs)\<rparr>, 0))"

text \<open>\<open>created\<close> is what \<open>epoll_create\<close> gave: \<open>None\<close> for -1.\<close>

definition epollinit :: "epoll_data option \<Rightarrow> epoll_data result" where
  "epollinit created = (case created of None \<Rightarrow> Inl (Exit ''epoll_create'') | Some d \<Rightarrow> Inr d)"

definition epoll_mask :: "channel \<Rightarrow> 32 word" where
  "epoll_mask ch =
     (let evs = (if events ch AND readevent \<noteq> 0 then 0 OR EPOLLIN else 0)
      in if events ch AND writevent \<noteq> 0 then evs OR EPOLLOUT else evs)"

definition epollctl :: "channel \<Rightarrow> epoll_data \<Rightarrow> ctl_op \<Rightarrow> epoll_data \<times> int" where
  "epollctl ch d op = epoll_ctl d op (fd ch) (epoll_mask ch)"

definition epolladd :: "channel \<Rightarrow> (epoll_data, 'a) eloop_scheme \<Rightarrow> ((epoll_data, 'a) eloop_scheme \<times> int option) result" where
  "epolladd ch l =
     (case epollctl ch (disepatherData l) EPOLL_CTL_ADD of (d, ret) \<Rightarrow>
        if ret = -1 then Inl (Exit ''EPOLL_CTL_ADD'') else Inr (l\<lparr>disepatherData := d\<rparr>, None))"

definition epollremove ::
  "(epoll_data, 'a) calls \<Rightarrow> channel \<Rightarrow> (epoll_data, 'a) eloop_scheme \<Rightarrow> ((epoll_data, 'a) eloop_scheme \<times> int option) result" where
  "epollremove cb ch l =
     (case epollctl ch (disepatherData l) EPOLL_CTL_DEL of (d, ret) \<Rightarrow>
        if ret = -1 then Inl (Exit ''EPOLL_CTL_DEL'')
        else rbind (call_ptr cb (destroycallback ch) (arg ch) (l\<lparr>disepatherData := d\<rparr>)) (\<lambda>l'. Inr (l', Some 0)))"

definition epollmodify :: "channel \<Rightarrow> (epoll_data, 'a) eloop_scheme \<Rightarrow> ((epoll_data, 'a) eloop_scheme \<times> int option) result" where
  "epollmodify ch l =
     (case epollctl ch (disepatherData l) EPOLL_CTL_MOD of (d, ret) \<Rightarrow>
        if ret = -1 then Inl (Exit ''EPOLL_CTL_MOD'') else Inr (l\<lparr>disepatherData := d\<rparr>, None))"

text \<open>One event: an error or a hang-up is skipped, then reading before writing.\<close>

definition epoll_event ::
  "(epoll_data, 'a) calls \<Rightarrow> (epoll_data, 'a) eloop_scheme \<Rightarrow> int \<times> 32 word \<Rightarrow> (epoll_data, 'a) eloop_scheme result" where
  "epoll_event call l = (\<lambda>(f, evs).
     if evs AND EPOLLERR \<noteq> 0 \<or> evs AND EPOLLHUP \<noteq> 0 then Inr l
     else
       rbind (if evs AND EPOLLIN \<noteq> 0
              then rbind (ActivateEvent call l readevent f) (\<lambda>(l', _). Inr l') else Inr l) (\<lambda>l1.
       if evs AND EPOLLOUT \<noteq> 0
       then rbind (ActivateEvent call l1 writevent f) (\<lambda>(l', _). Inr l') else Inr l1))"

definition epolldispatch ::
  "(epoll_data, 'a) calls \<Rightarrow> epoll_ready \<Rightarrow> (epoll_data, 'a) eloop_scheme \<Rightarrow> ((epoll_data, 'a) eloop_scheme \<times> int option) result" where
  "epolldispatch call r l =
     (case r of
        None \<Rightarrow> Inl (Exit ''epoll_wait'')
      | Some evs \<Rightarrow> rbind (put_all (epoll_event call) l evs) (\<lambda>l'. Inr (l', None)))"

definition Epolldispatch :: "epoll_data option \<Rightarrow> (epoll_data, 'a, epoll_ready) Dispatcher" where
  "Epolldispatch created =
     \<lparr>d_init = epollinit created, d_add = epolladd, d_remove = epollremove, d_modify = epollmodify,
      d_dispatch = epolldispatch\<rparr>"

section \<open>The contract\<close>

definition epoll_interest :: "epoll_data \<Rightarrow> interest" where
  "epoll_interest d f =
     (case ep_interest d f of None \<Rightarrow> (False, False)
      | Some evs \<Rightarrow> (evs AND EPOLLIN \<noteq> 0, evs AND EPOLLOUT \<noteq> 0))"

definition epoll_add_data :: "channel \<Rightarrow> epoll_data \<Rightarrow> (epoll_data \<times> int option) result" where
  "epoll_add_data ch d = (case epollctl ch d EPOLL_CTL_ADD of (d', ret) \<Rightarrow>
     if ret = -1 then Inl (Exit ''EPOLL_CTL_ADD'') else Inr (d', None))"

definition epoll_remove_data :: "channel \<Rightarrow> epoll_data \<Rightarrow> epoll_data result" where
  "epoll_remove_data ch d = (case epollctl ch d EPOLL_CTL_DEL of (d', ret) \<Rightarrow>
     if ret = -1 then Inl (Exit ''EPOLL_CTL_DEL'') else Inr d')"

definition epoll_modify_data :: "channel \<Rightarrow> epoll_data \<Rightarrow> (epoll_data \<times> int option) result" where
  "epoll_modify_data ch d = (case epollctl ch d EPOLL_CTL_MOD of (d', ret) \<Rightarrow>
     if ret = -1 then Inl (Exit ''EPOLL_CTL_MOD'') else Inr (d', None))"

definition epoll_can_add :: "epoll_data \<Rightarrow> channel \<Rightarrow> bool" where
  "epoll_can_add d ch \<longleftrightarrow> \<not> ep_refuses d (fd ch) \<and> ep_interest d (fd ch) = None"

definition epoll_watched :: "epoll_data \<Rightarrow> channel \<Rightarrow> bool" where
  "epoll_watched d ch \<longleftrightarrow> \<not> ep_refuses d (fd ch) \<and> ep_interest d (fd ch) \<noteq> None"

lemma epoll_mask_bits:
  "epoll_mask ch AND EPOLLIN \<noteq> 0 \<longleftrightarrow> fst (wants ch)"
  "epoll_mask ch AND EPOLLOUT \<noteq> 0 \<longleftrightarrow> snd (wants ch)"
  by (simp_all add: epoll_mask_def wants_def epoll_bits bit.conj_disj_distrib2)

lemmas epoll_ops = epoll_add_data_def epoll_remove_data_def epoll_modify_data_def epollctl_def
  epoll_ctl_def Let_def

lemma epoll_frame: "dispatcher_frame (Epolldispatch created) epoll_add_data epoll_remove_data epoll_modify_data"
  by unfold_locales
    (simp_all add: Epolldispatch_def epolladd_def epollremove_def epollmodify_def
      epoll_add_data_def epoll_remove_data_def epoll_modify_data_def split: prod.split)

interpretation epoll: modifying_dispatcher "Epolldispatch created" epoll_add_data epoll_remove_data
    epoll_modify_data epoll_interest epoll_can_add epoll_watched epoll_watched
proof (intro modifying_dispatcher.intro dispatcher.intro epoll_frame)
  show "dispatcher_axioms epoll_add_data epoll_remove_data epoll_interest epoll_can_add epoll_watched"
    by unfold_locales
      (auto simp: epoll_ops epoll_interest_def epoll_can_add_def epoll_watched_def
        epoll_mask_bits prod_eq_iff fun_eq_iff split: if_splits)
  show "modifying_dispatcher_axioms epoll_add_data epoll_modify_data epoll_interest epoll_can_add epoll_watched"
    by unfold_locales
      (auto simp: epoll_ops epoll_interest_def epoll_can_add_def epoll_watched_def
        epoll_mask_bits prod_eq_iff fun_eq_iff split: if_splits)
qed

section \<open>Properties\<close>

text \<open>
  Registering a channel with an epoll loop, when the table has a free slot for its
  descriptor and epoll accepts it: the loop watches the descriptor for exactly the events the
  channel asks for and no other descriptor differently, the slot points to the channel, and every
  other slot, the channels and the task list are unchanged.
\<close>

lemma epoll_registers:
  assumes "channel_at l a = Inr ch" and "channelmap l = Some m" and "map_inv m"
    and "fd ch < msize m" and "slot_at m (fd ch) = Inr Null" and "epoll_can_add (disepatherData l) ch"
  shows "\<exists>l' m'. AddEventLoop (Epolldispatch created) al junk l a = Inr (l', None) \<and>
     epoll_interest (disepatherData l') = (epoll_interest (disepatherData l))(fd ch := wants ch) \<and>
     channelmap l' = Some m' \<and> slot_at m' (fd ch) = Inr (Chan a) \<and>
     (\<forall>i. i \<noteq> fd ch \<longrightarrow> slot_at m' i = slot_at m i) \<and> chans l' = chans l \<and> tasks l' = tasks l"
  using assms by (rule epoll.add_registers)

text \<open>A loop with a table of 8 free slots and the given channel at address 0, for the instances.\<close>

definition small_loop :: "channel \<Rightarrow> epoll_data eloop" where
  "small_loop ch =
     \<lparr>isQuite = False, disepatherData = \<lparr>ep_interest = Map.empty, ep_refuses = (\<lambda>_. False)\<rparr>,
      tasks = empty_queue, channelmap = Some \<lparr>msize = 8, mlist = replicate 8 Null\<rparr>, threadID = 1,
      threadName = ''MainThread'', mutex = False, spair = (3, 4), rx = (0, 0), pair_room = 64,
      chans = [0 \<mapsto> ch], freshchan = 1, closed = []\<rparr>"

definition reader :: "int \<Rightarrow> channel" where
  "reader f = initchannel f readevent None (Some ProcessRead) None LoopArg"

lemma reader_simps [simp]: "fd (reader f) = f" "wants (reader f) = (True, False)"
  by (simp_all add: reader_def initchannel_def wants_def event_bits)

lemma small_loop_simps:
  "channel_at (small_loop ch) 0 = Inr ch" "channelmap (small_loop ch) = Some \<lparr>msize = 8, mlist = replicate 8 Null\<rparr>"
  "map_inv \<lparr>msize = 8, mlist = replicate 8 Null\<rparr>" "epoll_can_add (disepatherData (small_loop ch)) ch"
  "epoll_interest (disepatherData (small_loop ch)) f = (False, False)"
  by (simp_all add: small_loop_def channel_at_def map_inv_def int32_def epoll_can_add_def epoll_interest_def)

lemma epoll_registers_witness:
  "\<exists>l'. AddEventLoop (Epolldispatch None) (\<lambda>_. True) (\<lambda>_. Null) (small_loop (reader 5)) 0 = Inr (l', None) \<and>
     epoll_interest (disepatherData l') 5 = (True, False) \<and> epoll_interest (disepatherData l') 6 = (False, False)"
  using epoll_registers [OF small_loop_simps(1,2,3) _ _ small_loop_simps(4), of "reader 5" None "\<lambda>_. True" "\<lambda>_. Null"]
  by (auto simp: slot_at_def small_loop_simps(5))

text \<open>
  A channel whose descriptor equals the size of the table is refused (-1) and never watched,
  because the table is asked to grow to the descriptor instead of one past it; and when doubling
  makes the table exactly as large as the descriptor, the slot behind its end is accessed.
\<close>

lemma add_at_the_edge:
  assumes "channel_at l a = Inr ch" and "channelmap l = Some m"
  shows "(fd ch = msize m \<longrightarrow> AddEventLoop (Epolldispatch created) al junk l a = Inr (l, Some (-1))) \<and>
     (map_inv m \<and> msize m < fd ch \<and> double_until (msize m) (fd ch) = Some (Inr (fd ch)) \<and>
      int32 (fd ch * 8) \<and> al (size_t (fd ch * 8)) \<longrightarrow>
      AddEventLoop (Epolldispatch created) al junk l a = Inl OutOfBounds)"
  using epoll.add_at_size [OF assms] epoll.add_at_grown_size [OF assms] by blast

lemma add_at_the_edge_witness:
  "AddEventLoop (Epolldispatch None) (\<lambda>_. True) (\<lambda>_. Null) (small_loop (reader 8)) 0 = Inr (small_loop (reader 8), Some (-1)) \<and>
   AddEventLoop (Epolldispatch None) (\<lambda>_. True) (\<lambda>_. Null) (small_loop (reader 16)) 0 = Inl OutOfBounds"
proof -
  have "double_until 8 16 = Some (Inr 16)" by (simp add: double_until_step double_until_done int32_def)
  then show ?thesis
    using add_at_the_edge [OF small_loop_simps(1,2), of "reader 8" None "\<lambda>_. True" "\<lambda>_. Null"]
      add_at_the_edge [OF small_loop_simps(1,2), of "reader 16" None "\<lambda>_. True" "\<lambda>_. Null"] small_loop_simps(3)
    by (simp add: int32_def)
qed

text \<open>
  A descriptor whose events report an error or a hang-up is not handed to any callback, so
  the connection behind it is neither read nor closed.
\<close>

lemma epoll_ignores_hangup:
  assumes "\<forall>(f, evs) \<in> set ready. evs AND EPOLLERR \<noteq> 0 \<or> evs AND EPOLLHUP \<noteq> 0"
  shows "epolldispatch call (Some ready) l = Inr (l, None)"
  using assms by (induction ready) (auto simp: epolldispatch_def epoll_event_def)

lemma epoll_ignores_hangup_witness:
  "epolldispatch (\<lambda>_ _. Inr) (Some [(5, EPOLLIN OR EPOLLHUP)]) (small_loop (reader 5)) = Inr (small_loop (reader 5), None)"
  by (rule epoll_ignores_hangup) (simp add: epoll_bits)

end
