(* ===== verification/Poll_Dispatch.thy ===== *)
theory Poll_Dispatch
  imports Dispatcher_Contract
begin

text \<open>
  \<open>old/ReactorHttp_c/PollDispatch.c\<close>: an array of 1024 \<open>struct pollfd\<close>. The functions look
  for a slot \<open>i\<close> but write through \<open>data->_fds->\<close>, which is slot 0. One call of \<open>poll\<close>
  is given what every descriptor is ready for and fills in the \<open>revents\<close> of the first
  \<open>Maxfd + 1\<close> slots; \<open>None\<close> is a failed call.
\<close>

record pollfd =
  pfd :: int
  pevents :: "16 word"
  revents :: "16 word"

record poll_data =
  Maxfd :: nat
  fds :: "pollfd list"

definition POLL_MAX :: nat where "POLL_MAX = 1024"
definition POLLIN :: "16 word" where "POLLIN = 1"
definition POLLOUT :: "16 word" where "POLLOUT = 4"

text \<open>POLLERR, POLLHUP and POLLNVAL are reported whether asked for or not.\<close>

definition POLL_ALWAYS :: "16 word" where "POLL_ALWAYS = 56"

lemmas poll_bits = POLLIN_def POLLOUT_def POLL_ALWAYS_def

type_synonym poll_ready = "(int \<Rightarrow> 16 word) option"

definition pollinit :: "poll_data result" where
  "pollinit = Inr \<lparr>Maxfd = 0, fds = replicate POLL_MAX \<lparr>pfd = -1, pevents = 0, revents = 0\<rparr>\<rparr>"

text \<open>The index at which a search loop stops: the first match, or the length.\<close>

definition search :: "(pollfd \<Rightarrow> bool) \<Rightarrow> pollfd list \<Rightarrow> nat" where
  "search P ps = length (takeWhile (\<lambda>p. \<not> P p) ps)"

definition poll_mask :: "channel \<Rightarrow> 16 word" where
  "poll_mask ch =
     (let event = (if events ch AND readevent \<noteq> 0 then 0 OR POLLIN else 0)
      in if events ch AND writevent \<noteq> 0 then event OR POLLOUT else event)"

definition poll_add_data :: "channel \<Rightarrow> poll_data \<Rightarrow> (poll_data \<times> int option) result" where
  "poll_add_data ch d =
     (let i = search (\<lambda>p. pfd p = -1) (fds d);
          d' = (if i < POLL_MAX
                then d\<lparr>fds := (fds d)[0 := (fds d ! 0)\<lparr>pfd := fd ch, pevents := poll_mask ch\<rparr>],
                       Maxfd := (if Maxfd d < i then i else Maxfd d)\<rparr>
                else d)
      in Inr (d', Some (if POLL_MAX < i then -1 else 0)))"

definition poll_remove_data :: "channel \<Rightarrow> poll_data \<Rightarrow> poll_data result" where
  "poll_remove_data ch d =
     Inr (if search (\<lambda>p. pfd p = fd ch) (fds d) < POLL_MAX
          then d\<lparr>fds := (fds d)[0 := (fds d ! 0)\<lparr>pfd := -1, pevents := 0\<rparr>]\<rparr> else d)"

definition poll_modify_data :: "channel \<Rightarrow> poll_data \<Rightarrow> (poll_data \<times> int option) result" where
  "poll_modify_data ch d =
     Inr (if search (\<lambda>p. pfd p = fd ch) (fds d) < POLL_MAX
          then d\<lparr>fds := (fds d)[0 := (fds d ! 0)\<lparr>pevents := poll_mask ch\<rparr>]\<rparr> else d, Some 0)"

definition polladd :: "channel \<Rightarrow> (poll_data, 'a) eloop_scheme \<Rightarrow> ((poll_data, 'a) eloop_scheme \<times> int option) result" where
  "polladd ch l = rbind (poll_add_data ch (disepatherData l)) (\<lambda>(d, r). Inr (l\<lparr>disepatherData := d\<rparr>, r))"

definition pollremove ::
  "(poll_data, 'a) calls \<Rightarrow> channel \<Rightarrow> (poll_data, 'a) eloop_scheme \<Rightarrow> ((poll_data, 'a) eloop_scheme \<times> int option) result" where
  "pollremove cb ch l =
     rbind (poll_remove_data ch (disepatherData l)) (\<lambda>d.
     rbind (call_ptr cb (destroycallback ch) (arg ch) (l\<lparr>disepatherData := d\<rparr>)) (\<lambda>l'. Inr (l', Some 0)))"

definition pollmodify :: "channel \<Rightarrow> (poll_data, 'a) eloop_scheme \<Rightarrow> ((poll_data, 'a) eloop_scheme \<times> int option) result" where
  "pollmodify ch l = rbind (poll_modify_data ch (disepatherData l)) (\<lambda>(d, r). Inr (l\<lparr>disepatherData := d\<rparr>, r))"

text \<open>What \<open>poll\<close> reports for one slot, and the number it returns.\<close>

definition poll_slot :: "(int \<Rightarrow> 16 word) \<Rightarrow> pollfd \<Rightarrow> pollfd" where
  "poll_slot ready p =
     p\<lparr>revents := (if pfd p < 0 then 0 else ready (pfd p) AND (pevents p OR POLL_ALWAYS))\<rparr>"

definition sys_poll :: "(int \<Rightarrow> 16 word) \<Rightarrow> pollfd list \<Rightarrow> nat \<Rightarrow> pollfd list \<times> nat" where
  "sys_poll ready ps n =
     (let reported = map (poll_slot ready) (take n ps)
      in (reported @ drop n ps, length (filter (\<lambda>p. revents p \<noteq> 0) reported)))"

text \<open>Slot \<open>i\<close> of the array is read again after each callback.\<close>

fun poll_slots ::
  "(poll_data, 'a) calls \<Rightarrow> nat list \<Rightarrow> (poll_data, 'a) eloop_scheme \<Rightarrow> (poll_data, 'a) eloop_scheme result" where
  "poll_slots call [] l = Inr l"
| "poll_slots call (i # is) l =
     (let p = fds (disepatherData l) ! i in
      if pfd p = -1 then poll_slots call is l
      else
        rbind (if revents p AND POLLIN \<noteq> 0
               then rbind (ActivateEvent call l readevent (pfd p)) (\<lambda>(l', _). Inr l') else Inr l) (\<lambda>l1.
        let p1 = fds (disepatherData l1) ! i in
        rbind (if revents p1 AND POLLOUT \<noteq> 0
               then rbind (ActivateEvent call l1 writevent (pfd p1)) (\<lambda>(l', _). Inr l') else Inr l1) (\<lambda>l2.
          poll_slots call is l2)))"

definition polldispatch ::
  "(poll_data, 'a) calls \<Rightarrow> poll_ready \<Rightarrow> (poll_data, 'a) eloop_scheme \<Rightarrow> ((poll_data, 'a) eloop_scheme \<times> int option) result" where
  "polldispatch call r l =
     (case r of
        None \<Rightarrow> Inl (Exit ''poll'')
      | Some ready \<Rightarrow>
          (case sys_poll ready (fds (disepatherData l)) (Maxfd (disepatherData l) + 1) of (ps, count) \<Rightarrow>
             rbind (poll_slots call [0..<count] (l\<lparr>disepatherData := (disepatherData l)\<lparr>fds := ps\<rparr>\<rparr>)) (\<lambda>l'.
               Inr (l', None))))"

definition Polldispatch :: "(poll_data, 'a, poll_ready) Dispatcher" where
  "Polldispatch =
     \<lparr>d_init = pollinit, d_add = polladd, d_remove = pollremove, d_modify = pollmodify,
      d_dispatch = polldispatch\<rparr>"

section \<open>The contract, for one descriptor at a time\<close>

text \<open>
  Only slot 0 is ever written, so the contract holds exactly while the array is otherwise empty.
\<close>

definition others_free :: "poll_data \<Rightarrow> bool" where
  "others_free d \<longleftrightarrow> length (fds d) = POLL_MAX \<and> (\<forall>p \<in> set (tl (fds d)). pfd p = -1)"

text \<open>What \<open>poll\<close> is given: the slots up to \<open>Maxfd\<close>.\<close>

definition polled :: "poll_data \<Rightarrow> pollfd list" where
  "polled d = take (Suc (Maxfd d)) (fds d)"

definition poll_interest :: "poll_data \<Rightarrow> interest" where
  "poll_interest d f =
     (case find (\<lambda>p. pfd p = f \<and> 0 \<le> f) (polled d) of
        None \<Rightarrow> (False, False)
      | Some p \<Rightarrow> (pevents p AND POLLIN \<noteq> 0, pevents p AND POLLOUT \<noteq> 0))"

definition poll_can_add :: "poll_data \<Rightarrow> channel \<Rightarrow> bool" where
  "poll_can_add d ch \<longleftrightarrow> others_free d \<and> pfd (hd (fds d)) = -1 \<and> 0 \<le> fd ch"

definition poll_watched :: "poll_data \<Rightarrow> channel \<Rightarrow> bool" where
  "poll_watched d ch \<longleftrightarrow> others_free d \<and> pfd (hd (fds d)) = fd ch \<and> 0 \<le> fd ch"

lemma find_others: "\<forall>p \<in> set ps. pfd p = -1 \<Longrightarrow> find (\<lambda>p. pfd p = f \<and> 0 \<le> f) (take n ps) = None"
  by (auto simp: find_None_iff dest: in_set_takeD)

lemma find_others': "\<forall>p \<in> set ps. pfd p = -1 \<Longrightarrow> 0 \<le> f \<Longrightarrow> find (\<lambda>p. pfd p = f) (take n ps) = None"
  by (auto simp: find_None_iff dest: in_set_takeD)

lemma poll_mask_bits:
  "poll_mask ch AND POLLIN \<noteq> 0 \<longleftrightarrow> fst (wants ch)"
  "poll_mask ch AND POLLOUT \<noteq> 0 \<longleftrightarrow> snd (wants ch)"
  by (simp_all add: poll_mask_def wants_def poll_bits bit.conj_disj_distrib2)

lemma others_free_cases:
  assumes "others_free d"
  obtains p ps where "fds d = p # ps" "\<forall>q \<in> set ps. pfd q = -1" "Suc (length ps) = POLL_MAX"
  using assms by (cases "fds d") (auto simp: others_free_def POLL_MAX_def)

lemma poll_frame: "dispatcher_frame Polldispatch poll_add_data poll_remove_data poll_modify_data"
  by unfold_locales (simp_all add: Polldispatch_def polladd_def pollremove_def pollmodify_def)

lemmas poll_ops = poll_add_data_def poll_remove_data_def poll_modify_data_def poll_interest_def polled_def
  poll_can_add_def poll_watched_def search_def others_free_def

lemma poll_add_watched:
  assumes "poll_can_add d ch" and "poll_add_data ch d = Inr (d', r)"
  shows "poll_watched d' ch"
proof -
  have free: "others_free d" "pfd (hd (fds d)) = -1" "0 \<le> fd ch"
    using assms(1) by (auto simp: poll_can_add_def)
  from free(1) obtain p ps where "fds d = p # ps" "\<forall>q \<in> set ps. pfd q = -1" "Suc (length ps) = POLL_MAX"
    by (rule others_free_cases)
  then show ?thesis using assms(2) free by (auto simp: poll_ops POLL_MAX_def)
qed

interpretation poll: modifying_dispatcher Polldispatch poll_add_data poll_remove_data
    poll_modify_data poll_interest poll_can_add poll_watched poll_watched
proof (intro modifying_dispatcher.intro dispatcher.intro poll_frame)
  have len: "0 < POLL_MAX" by (simp add: POLL_MAX_def)
  show "dispatcher_axioms poll_add_data poll_remove_data poll_interest poll_can_add poll_watched"
  proof unfold_locales
    fix d ch d' r
    assume "poll_can_add d ch"
    then have free: "others_free d" "pfd (hd (fds d)) = -1" "0 \<le> fd ch" by (auto simp: poll_can_add_def)
    from free(1) obtain p ps where f: "fds d = p # ps" "\<forall>q \<in> set ps. pfd q = -1" "Suc (length ps) = POLL_MAX"
      by (rule others_free_cases)
    show "\<exists>d' r. poll_add_data ch d = Inr (d', r) \<and> poll_interest d' = (poll_interest d)(fd ch := wants ch)"
      using f free len by (auto simp: poll_ops fun_eq_iff find_others poll_mask_bits prod_eq_iff)
    show "poll_watched d' ch" if "poll_add_data ch d = Inr (d', r)"
      using \<open>poll_can_add d ch\<close> that by (rule poll_add_watched)
  next
    fix d ch
    assume "poll_watched d ch"
    then have w: "others_free d" "pfd (hd (fds d)) = fd ch" "0 \<le> fd ch" by (auto simp: poll_watched_def)
    from w(1) obtain p ps where f: "fds d = p # ps" "\<forall>q \<in> set ps. pfd q = -1" "Suc (length ps) = POLL_MAX"
      by (rule others_free_cases)
    show "\<exists>d'. poll_remove_data ch d = Inr d' \<and> poll_interest d' = (poll_interest d)(fd ch := (False, False))"
      using f w len by (auto simp: poll_ops fun_eq_iff find_others find_others')
  qed
  show "modifying_dispatcher_axioms poll_add_data poll_modify_data poll_interest poll_can_add poll_watched"
  proof unfold_locales
    fix d ch d' r
    show "poll_watched d' ch" if "poll_can_add d ch" "poll_add_data ch d = Inr (d', r)"
      using that by (rule poll_add_watched)
    assume "poll_watched d ch"
    then have w: "others_free d" "pfd (hd (fds d)) = fd ch" "0 \<le> fd ch" by (auto simp: poll_watched_def)
    from w(1) obtain p ps where f: "fds d = p # ps" "\<forall>q \<in> set ps. pfd q = -1" "Suc (length ps) = POLL_MAX"
      by (rule others_free_cases)
    show "\<exists>d' r. poll_modify_data ch d = Inr (d', r) \<and> poll_interest d' = (poll_interest d)(fd ch := wants ch)"
      using f w len by (auto simp: poll_ops fun_eq_iff find_others poll_mask_bits prod_eq_iff)
  qed
qed

text \<open>
  Two descriptors: the second registration replaces the first, and reports success.
\<close>

lemma poll_second_add:
  assumes "poll_watched d ch1" and "0 \<le> fd ch2"
  shows "\<exists>d'. poll_add_data ch2 d = Inr (d', Some 0) \<and> Maxfd d' = max 1 (Maxfd d) \<and>
     poll_interest d' = (\<lambda>f. if f = fd ch2 then wants ch2 else (False, False))"
proof -
  have w: "others_free d" "pfd (hd (fds d)) = fd ch1" "0 \<le> fd ch1" using assms by (auto simp: poll_watched_def)
  from w(1) obtain p ps where f: "fds d = p # ps" "\<forall>q \<in> set ps. pfd q = -1" "Suc (length ps) = POLL_MAX"
    by (rule others_free_cases)
  then obtain q qs where qs: "ps = q # qs" by (cases ps) (auto simp: POLL_MAX_def)
  have "search (\<lambda>p. pfd p = -1) (fds d) = 1" using f w qs by (simp add: search_def)
  then show ?thesis
    using f w assms(2)
    by (auto simp: poll_add_data_def poll_interest_def polled_def POLL_MAX_def fun_eq_iff find_others poll_mask_bits prod_eq_iff)
qed

lemma search_le: "search P ps \<le> length ps"
  by (simp add: search_def length_takeWhile_le)

lemma pollinit_can_add: "0 \<le> fd ch \<Longrightarrow> \<exists>d. pollinit = Inr d \<and> poll_can_add d ch"
proof -
  assume f: "0 \<le> fd ch"
  have "POLL_MAX \<noteq> 0" by (simp add: POLL_MAX_def)
  then obtain n where n: "POLL_MAX = Suc n" using not0_implies_Suc by blast
  show ?thesis unfolding pollinit_def poll_can_add_def others_free_def n by (simp add: f)
qed

section \<open>Properties\<close>

text \<open>
  Registering a second descriptor with the poll dispatcher reports success but replaces the
  first: afterwards only the second is watched.
\<close>

lemma poll_second_replaces:
  assumes "poll_watched d ch1" and "0 \<le> fd ch2"
  shows "\<exists>d'. poll_add_data ch2 d = Inr (d', Some 0) \<and>
     poll_interest d' = (\<lambda>f. if f = fd ch2 then wants ch2 else (False, False))"
  using poll_second_add [OF assms] by blast

lemma poll_second_replaces_witness:
  "\<exists>d1 d2. rbind pollinit (poll_add_data (initchannel 5 readevent None None None LoopArg)) = Inr (d1, Some 0) \<and>
     poll_add_data (initchannel 6 readevent None None None LoopArg) d1 = Inr (d2, Some 0) \<and>
     poll_interest d2 5 = (False, False)"
proof -
  let ?c1 = "initchannel 5 readevent None None None LoopArg"
  let ?c2 = "initchannel 6 readevent None None None LoopArg"
  obtain d0 where d0: "pollinit = Inr d0" "poll_can_add d0 ?c1"
    using pollinit_can_add [of "initchannel 5 readevent None None None LoopArg"] by (auto simp: initchannel_def)
  obtain d1 r where "poll_add_data ?c1 d0 = Inr (d1, r)" using poll.add_law [OF d0(2)] by blast
  moreover have "r = Some 0"
    using calculation search_le [of "\<lambda>p. pfd p = -1" "fds d0"] d0(2)
    by (simp add: poll_add_data_def poll_can_add_def others_free_def Let_def)
  ultimately have d1: "poll_add_data ?c1 d0 = Inr (d1, Some 0)" by simp
  from poll_second_replaces [OF poll_add_watched [OF d0(2) d1], of ?c2] show ?thesis
    using d0(1) d1 by (auto simp: initchannel_def)
qed

text \<open>
  For a single descriptor the poll dispatcher keeps its contract: added and then modified,
  the descriptor is watched for what the channel asks for now, and removed it is not watched.
\<close>

lemma poll_single_descriptor:
  assumes "poll_can_add d ch"
  shows "\<exists>d1 r1 d2 d3. poll_add_data ch d = Inr (d1, r1) \<and>
     poll_modify_data (writeEventEnable ch True) d1 = Inr (d2, Some 0) \<and>
     poll_interest d2 (fd ch) = (fst (wants ch), True) \<and>
     poll_remove_data ch d2 = Inr d3 \<and> poll_interest d3 (fd ch) = (False, False)"
proof -
  let ?ch = "writeEventEnable ch True"
  obtain d1 r1 where d1: "poll_add_data ch d = Inr (d1, r1)" "poll_watched d1 ch"
    using poll.add_law [OF assms] poll.remove_after_add [OF assms] by blast
  then have w: "poll_watched d1 ?ch" by (simp add: poll_watched_def)
  obtain d2 where d2: "poll_modify_data ?ch d1 = Inr (d2, Some 0)"
      "poll_interest d2 = (poll_interest d1)(fd ch := wants ?ch)"
    using poll.modify_law [OF w] by (auto simp: poll_modify_data_def)
  have "poll_watched d2 ch"
    using d1(2) d2(1) by (cases "fds d1") (auto simp: poll_watched_def others_free_def poll_modify_data_def split: if_splits)
  from poll.remove_law [OF this] obtain d3 where "poll_remove_data ch d2 = Inr d3"
      "poll_interest d3 (fd ch) = (False, False)"
    by fastforce
  with d1(1) d2 show ?thesis by (auto simp: wants_writeEventEnable)
qed

lemma poll_single_descriptor_witness:
  "\<exists>d0 d1 r1. pollinit = Inr d0 \<and> poll_add_data (initchannel 5 readevent None None None LoopArg) d0 = Inr (d1, r1)"
proof -
  obtain d0 where d0: "pollinit = Inr d0" "poll_can_add d0 (initchannel 5 readevent None None None LoopArg)"
    using pollinit_can_add [of "initchannel 5 readevent None None None LoopArg"] by (auto simp: initchannel_def)
  with poll_single_descriptor [OF d0(2)] show ?thesis by blast
qed

end
