(* ===== verification/Select_Dispatch.thy ===== *)
theory Select_Dispatch
  imports Dispatcher_Contract
begin

text \<open>
  \<open>old/ReactorHttp_c/SelectDispatch.c\<close>: two descriptor sets of 1024 bits. \<open>FD_SET\<close> and
  \<open>FD_CLR\<close> outside them are out of bounds. One call of \<open>select\<close> is given which
  descriptors are readable and which are writable; \<open>None\<close> is a failed call. The code passes
  the write set where \<open>select\<close> expects the descriptors to watch for reading, and the read
  set where it expects those to watch for writing.
\<close>

type_synonym fd_set = "int \<Rightarrow> bool"

record select_data =
  writeset :: fd_set
  readset :: fd_set

definition SELECT_MAX :: int where "SELECT_MAX = 1024"

type_synonym select_ready = "(fd_set \<times> fd_set) option"

definition selectinit :: "select_data result" where
  "selectinit = Inr \<lparr>writeset = (\<lambda>_. False), readset = (\<lambda>_. False)\<rparr>"

definition fd_upd :: "int \<Rightarrow> bool \<Rightarrow> fd_set \<Rightarrow> fd_set result" where
  "fd_upd f b S = (if 0 \<le> f \<and> f < SELECT_MAX then Inr (S(f := b)) else Inl OutOfBounds)"

definition upd_sets :: "bool \<Rightarrow> channel \<Rightarrow> select_data \<Rightarrow> select_data result" where
  "upd_sets b ch d =
     rbind (if events ch AND readevent \<noteq> 0
            then rbind (fd_upd (fd ch) b (readset d)) (\<lambda>S. Inr (d\<lparr>readset := S\<rparr>)) else Inr d) (\<lambda>d1.
     if events ch AND writevent \<noteq> 0
     then rbind (fd_upd (fd ch) b (writeset d1)) (\<lambda>S. Inr (d1\<lparr>writeset := S\<rparr>)) else Inr d1)"

definition setFdSet :: "channel \<Rightarrow> select_data \<Rightarrow> select_data result" where
  "setFdSet ch d = upd_sets True ch d"

definition clearFdSet :: "channel \<Rightarrow> select_data \<Rightarrow> select_data result" where
  "clearFdSet ch d = upd_sets False ch d"

definition select_add_data :: "channel \<Rightarrow> select_data \<Rightarrow> (select_data \<times> int option) result" where
  "select_add_data ch d =
     (if SELECT_MAX \<le> fd ch then Inr (d, Some (-1))
      else rbind (setFdSet ch d) (\<lambda>d'. Inr (d', Some 0)))"

definition select_modify_data :: "channel \<Rightarrow> select_data \<Rightarrow> (select_data \<times> int option) result" where
  "select_modify_data ch d =
     rbind (setFdSet ch d) (\<lambda>d1. rbind (clearFdSet ch d1) (\<lambda>d2. Inr (d2, Some 0)))"

definition selectadd :: "channel \<Rightarrow> (select_data, 'a) eloop_scheme \<Rightarrow> ((select_data, 'a) eloop_scheme \<times> int option) result" where
  "selectadd ch l = rbind (select_add_data ch (disepatherData l)) (\<lambda>(d, r). Inr (l\<lparr>disepatherData := d\<rparr>, r))"

definition selectremove ::
  "(select_data, 'a) calls \<Rightarrow> channel \<Rightarrow> (select_data, 'a) eloop_scheme \<Rightarrow> ((select_data, 'a) eloop_scheme \<times> int option) result" where
  "selectremove cb ch l =
     rbind (clearFdSet ch (disepatherData l)) (\<lambda>d.
     rbind (call_ptr cb (destroycallback ch) (arg ch) (l\<lparr>disepatherData := d\<rparr>)) (\<lambda>l'. Inr (l', Some 0)))"

definition selectmodify :: "channel \<Rightarrow> (select_data, 'a) eloop_scheme \<Rightarrow> ((select_data, 'a) eloop_scheme \<times> int option) result" where
  "selectmodify ch l = rbind (select_modify_data ch (disepatherData l)) (\<lambda>(d, r). Inr (l\<lparr>disepatherData := d\<rparr>, r))"

text \<open>
  \<open>sys_select readfds writefds\<close>: the members of the first set that are readable and of the
  second that are writable.
\<close>

definition sys_select :: "fd_set \<Rightarrow> fd_set \<Rightarrow> fd_set \<times> fd_set \<Rightarrow> fd_set \<times> fd_set" where
  "sys_select readfds writefds = (\<lambda>(readable, writable).
     (\<lambda>f. readfds f \<and> readable f, \<lambda>f. writefds f \<and> writable f))"

fun select_fds ::
  "(select_data, 'a) calls \<Rightarrow> fd_set \<Rightarrow> fd_set \<Rightarrow> int list \<Rightarrow> (select_data, 'a) eloop_scheme \<Rightarrow>
   (select_data, 'a) eloop_scheme result" where
  "select_fds call rset wset [] l = Inr l"
| "select_fds call rset wset (i # is) l =
     rbind (if rset i then rbind (ActivateEvent call l readevent i) (\<lambda>(l', _). Inr l') else Inr l) (\<lambda>l1.
     rbind (if wset i then rbind (ActivateEvent call l1 writevent i) (\<lambda>(l', _). Inr l') else Inr l1) (\<lambda>l2.
       select_fds call rset wset is l2))"

definition selectdispatch ::
  "(select_data, 'a) calls \<Rightarrow> select_ready \<Rightarrow> (select_data, 'a) eloop_scheme \<Rightarrow> ((select_data, 'a) eloop_scheme \<times> int option) result" where
  "selectdispatch call r l =
     (case r of
        None \<Rightarrow> Inl (Exit ''select'')
      | Some ready \<Rightarrow>
          (case sys_select (writeset (disepatherData l)) (readset (disepatherData l)) ready of (wset, rset) \<Rightarrow>
             rbind (select_fds call rset wset [0..SELECT_MAX - 1] l) (\<lambda>l'. Inr (l', Some 0))))"

definition Selectdispatch :: "(select_data, 'a, select_ready) Dispatcher" where
  "Selectdispatch =
     \<lparr>d_init = selectinit, d_add = selectadd, d_remove = selectremove, d_modify = selectmodify,
      d_dispatch = selectdispatch\<rparr>"

section \<open>The contract, without modification\<close>

definition select_interest :: "select_data \<Rightarrow> interest" where
  "select_interest d f = (readset d f, writeset d f)"

definition select_can_add :: "select_data \<Rightarrow> channel \<Rightarrow> bool" where
  "select_can_add d ch \<longleftrightarrow> 0 \<le> fd ch \<and> fd ch < SELECT_MAX \<and> select_interest d (fd ch) = (False, False)"

definition select_watched :: "select_data \<Rightarrow> channel \<Rightarrow> bool" where
  "select_watched d ch \<longleftrightarrow> 0 \<le> fd ch \<and> fd ch < SELECT_MAX \<and> select_interest d (fd ch) = wants ch"

lemmas select_ops = select_add_data_def select_modify_data_def setFdSet_def clearFdSet_def upd_sets_def
  fd_upd_def select_interest_def select_can_add_def select_watched_def wants_def

lemma select_frame: "dispatcher_frame Selectdispatch select_add_data clearFdSet select_modify_data"
  by unfold_locales (simp_all add: Selectdispatch_def selectadd_def selectremove_def selectmodify_def)

interpretation select: dispatcher Selectdispatch select_add_data clearFdSet select_modify_data
    select_interest select_can_add select_watched
proof (intro dispatcher.intro select_frame)
  show "dispatcher_axioms select_add_data clearFdSet select_interest select_can_add select_watched"
    by unfold_locales (auto simp: select_ops fun_eq_iff split: if_splits)
qed

text \<open>Modification sets the bits of the channel and clears them again.\<close>

lemma select_modify_clears:
  assumes "0 \<le> fd ch" and "fd ch < SELECT_MAX"
  shows "\<exists>d'. select_modify_data ch d = Inr (d', Some 0) \<and>
     select_interest d' = (select_interest d)(fd ch :=
       (fst (select_interest d (fd ch)) \<and> \<not> fst (wants ch),
        snd (select_interest d (fd ch)) \<and> \<not> snd (wants ch)))"
  using assms by (auto simp: select_ops fun_eq_iff)

section \<open>Properties\<close>

text \<open>
  The two sets are passed to \<open>select\<close> the wrong way round: a descriptor registered for
  reading that is readable but not writable wakes nobody, whatever is registered, and the call
  still reports success.
\<close>

lemma select_misses_readable:
  assumes "\<forall>f. readset (disepatherData l) f \<longrightarrow> \<not> writable f" and "\<forall>f. writeset (disepatherData l) f \<longrightarrow> \<not> readable f"
  shows "selectdispatch call (Some (readable, writable)) l = Inr (l, Some 0)"
proof -
  have "select_fds call (\<lambda>_. False) (\<lambda>_. False) is l = Inr l" for "is"
    by (induction "is") simp_all
  moreover have "(\<lambda>f. writeset (disepatherData l) f \<and> readable f) = (\<lambda>_. False)"
    "(\<lambda>f. readset (disepatherData l) f \<and> writable f) = (\<lambda>_. False)"
    using assms by (auto simp: fun_eq_iff)
  ultimately show ?thesis by (simp add: selectdispatch_def sys_select_def)
qed

definition select_loop :: "select_data eloop" where
  "select_loop =
     \<lparr>isQuite = False, disepatherData = \<lparr>writeset = \<lambda>_. False, readset = \<lambda>f. f = 5\<rparr>,
      tasks = empty_queue, channelmap = None, threadID = 1, threadName = ''MainThread'', mutex = False,
      spair = (3, 4), rx = (0, 0), pair_room = 64, chans = Map.empty, freshchan = 0, closed = []\<rparr>"

lemma select_misses_readable_witness:
  "selectdispatch (\<lambda>_ _. Inr) (Some (\<lambda>f. f = 5, \<lambda>_. False)) select_loop =
   Inr (select_loop, Some 0)"
  by (rule select_misses_readable) (simp_all add: select_loop_def)

text \<open>
  \<open>selectmodify\<close> never switches anything on: it sets the bits of the events the channel
  asks for and clears the same bits again, so the descriptor stops being watched for exactly the
  events that were asked for.
\<close>

lemma select_modify_switches_off:
  assumes "0 \<le> fd ch" and "fd ch < SELECT_MAX"
  shows "\<exists>l'. selectmodify ch l = Inr (l', Some 0) \<and>
     select_interest (disepatherData l') = (select_interest (disepatherData l))(fd ch :=
       (fst (select_interest (disepatherData l) (fd ch)) \<and> \<not> fst (wants ch),
        snd (select_interest (disepatherData l) (fd ch)) \<and> \<not> snd (wants ch)))"
  using select_modify_clears [OF assms, of "disepatherData l"] by (auto simp: selectmodify_def)

lemma select_modify_switches_off_witness:
  "\<exists>l'. selectmodify (initchannel 5 readevent None None None LoopArg) select_loop =
     Inr (l', Some 0) \<and> select_interest (disepatherData l') 5 = (False, False)"
  using select_modify_switches_off [of "initchannel 5 readevent None None None LoopArg"
      select_loop]
  by (auto simp: initchannel_def SELECT_MAX_def wants_def event_bits select_loop_def
      select_interest_def [of "\<lparr>writeset = \<lambda>_. False, readset = \<lambda>f. f = 5\<rparr>"])

end
