(* ===== verification/Worker_Thread.thy ===== *)
theory Worker_Thread
  imports Prelude
begin

text \<open>
  \<open>runWorkThread\<close> and \<open>subThreadRuning\<close> of \<open>old/ReactorHttp_c/WorkerThread.c\<close>: the
  handshake between the thread that starts a worker and the worker, over the worker's mutex,
  condition variable and the pointer \<open>_EventLoop\<close>. Each thread is a program counter; a step
  is one call or one assignment of one thread. \<open>pthread_cond_wait\<close> is three steps: releasing
  the mutex and blocking, waking up (by a signal, or for no reason, as POSIX allows), and
  reacquiring the mutex. \<open>x\<close> is the loop the worker makes.
\<close>

datatype main_pc = MCreate | MLock | MTest | MWait | MWoken | MUnlock | MDone

datatype sub_pc = SNone | SLock | SInit | SUnlock | SSignal | SRun

datatype owner = Free | Main | Sub

record 'l handshake =
  mpc :: main_pc
  spc :: sub_pc
  owner :: owner
  evloop :: "'l option"

definition start_handshake :: "'l handshake" where
  "start_handshake = \<lparr>mpc = MCreate, spc = SNone, owner = Free, evloop = None\<rparr>"

text \<open>The steps of \<open>runWorkThread\<close>, of \<open>subThreadRuning\<close>, and waking up for no reason.\<close>

inductive main_step :: "'l handshake \<Rightarrow> 'l handshake \<Rightarrow> bool" where
  create: "mpc s = MCreate \<Longrightarrow> main_step s (s\<lparr>mpc := MLock, spc := SLock\<rparr>)"
| lock: "mpc s = MLock \<Longrightarrow> owner s = Free \<Longrightarrow> main_step s (s\<lparr>mpc := MTest, owner := Main\<rparr>)"
| found: "mpc s = MTest \<Longrightarrow> evloop s \<noteq> None \<Longrightarrow> main_step s (s\<lparr>mpc := MUnlock\<rparr>)"
| wait: "mpc s = MTest \<Longrightarrow> evloop s = None \<Longrightarrow> main_step s (s\<lparr>mpc := MWait, owner := Free\<rparr>)"
| relock: "mpc s = MWoken \<Longrightarrow> owner s = Free \<Longrightarrow> main_step s (s\<lparr>mpc := MTest, owner := Main\<rparr>)"
| unlock: "mpc s = MUnlock \<Longrightarrow> main_step s (s\<lparr>mpc := MDone, owner := Free\<rparr>)"

inductive sub_step :: "'l \<Rightarrow> 'l handshake \<Rightarrow> 'l handshake \<Rightarrow> bool" for x :: 'l where
  lock: "spc s = SLock \<Longrightarrow> owner s = Free \<Longrightarrow> sub_step x s (s\<lparr>spc := SInit, owner := Sub\<rparr>)"
| init: "spc s = SInit \<Longrightarrow> sub_step x s (s\<lparr>spc := SUnlock, evloop := Some x\<rparr>)"
| unlock: "spc s = SUnlock \<Longrightarrow> sub_step x s (s\<lparr>spc := SSignal, owner := Free\<rparr>)"
| signal: "spc s = SSignal \<Longrightarrow>
    sub_step x s (s\<lparr>spc := SRun, mpc := (if mpc s = MWait then MWoken else mpc s)\<rparr>)"

definition spurious :: "'l handshake \<Rightarrow> 'l handshake \<Rightarrow> bool" where
  "spurious s t \<longleftrightarrow> mpc s = MWait \<and> t = s\<lparr>mpc := MWoken\<rparr>"

definition progress :: "'l \<Rightarrow> 'l handshake \<Rightarrow> 'l handshake \<Rightarrow> bool" where
  "progress x s t \<longleftrightarrow> main_step s t \<or> sub_step x s t"

definition step :: "'l \<Rightarrow> 'l handshake \<Rightarrow> 'l handshake \<Rightarrow> bool" where
  "step x s t \<longleftrightarrow> progress x s t \<or> spurious s t"

inductive reachable :: "'l \<Rightarrow> 'l handshake \<Rightarrow> bool" for x :: 'l where
  start: "reachable x start_handshake"
| step: "reachable x s \<Longrightarrow> step x s t \<Longrightarrow> reachable x t"

inductive_cases main_stepE: "main_step s t"
inductive_cases sub_stepE: "sub_step x s t"

inductive_simps main_blocked: "main_step s t"
inductive_simps sub_blocked: "sub_step x s t"

section \<open>The invariant\<close>

text \<open>
  The mutex is held by the thread whose program counter is inside its critical section; the loop
  is published exactly from \<open>SUnlock\<close> on; and a thread that waits although the loop is there
  has a signal coming.
\<close>

definition hs_inv :: "'l \<Rightarrow> 'l handshake \<Rightarrow> bool" where
  "hs_inv x s \<longleftrightarrow>
     (owner s = Main \<longleftrightarrow> mpc s \<in> {MTest, MUnlock}) \<and>
     (owner s = Sub \<longleftrightarrow> spc s \<in> {SInit, SUnlock}) \<and>
     (spc s = SNone \<longleftrightarrow> mpc s = MCreate) \<and>
     (evloop s = (if spc s \<in> {SUnlock, SSignal, SRun} then Some x else None)) \<and>
     (mpc s = MWait \<longrightarrow> spc s \<noteq> SRun) \<and>
     (mpc s \<in> {MUnlock, MDone} \<longrightarrow> evloop s = Some x)"

lemma start_inv: "hs_inv x start_handshake"
  by (simp add: hs_inv_def start_handshake_def)

lemma main_step_inv: "main_step s t \<Longrightarrow> hs_inv x s \<Longrightarrow> hs_inv x t"
  by (erule main_stepE) (auto simp: hs_inv_def split: if_splits)

lemma sub_step_inv: "sub_step x s t \<Longrightarrow> hs_inv x s \<Longrightarrow> hs_inv x t"
  by (erule sub_stepE) (auto simp: hs_inv_def split: if_splits)

lemma step_inv: "step x s t \<Longrightarrow> hs_inv x s \<Longrightarrow> hs_inv x t"
  unfolding step_def progress_def
  by (elim disjE main_step_inv sub_step_inv) (auto simp: spurious_def hs_inv_def)

lemma reachable_inv: "reachable x s \<Longrightarrow> hs_inv x s"
  by (induction rule: reachable.induct) (auto intro: start_inv step_inv)

section \<open>Progress\<close>

text \<open>Until both threads are through, one of them can move.\<close>

definition finished :: "'l handshake \<Rightarrow> bool" where
  "finished s \<longleftrightarrow> mpc s = MDone \<and> spc s = SRun"

lemma can_move:
  assumes "hs_inv x s" and "\<not> finished s"
  shows "\<exists>t. progress x s t"
proof (cases "spc s \<in> {SInit, SUnlock, SSignal} \<or> (spc s = SLock \<and> owner s = Free)")
  case True
  then have "\<exists>t. sub_step x s t" by (auto intro: sub_step.intros)
  then show ?thesis by (auto simp: progress_def)
next
  case False
  then have "\<exists>t. main_step s t"
    using assms by (cases "mpc s"; cases "owner s"; cases "spc s"; cases "evloop s")
      (auto simp: hs_inv_def finished_def intro: main_step.intros)
  then show ?thesis by (auto simp: progress_def)
qed

text \<open>Without needless wake-ups a run has at most 11 steps: each one lowers this number.\<close>

fun main_left :: "main_pc \<Rightarrow> nat" where
  "main_left MCreate = 6" | "main_left MLock = 5" | "main_left MTest = 4" | "main_left MWait = 3"
| "main_left MWoken = 5" | "main_left MUnlock = 1" | "main_left MDone = 0"

fun sub_left :: "sub_pc \<Rightarrow> nat" where
  "sub_left SNone = 8" | "sub_left SLock = 7" | "sub_left SInit = 6" | "sub_left SUnlock = 5"
| "sub_left SSignal = 4" | "sub_left SRun = 0"

text \<open>The size of a state: how far the two threads are from the end.\<close>

instantiation handshake_ext :: (type, type) size
begin

definition size_handshake_ext :: "('a, 'b) handshake_ext \<Rightarrow> nat" where
  "size_handshake_ext s = main_left (mpc s) + sub_left (spc s)"

instance ..

end

lemma progress_lowers: "hs_inv x s \<Longrightarrow> progress x s t \<Longrightarrow> size t < size s"
  unfolding progress_def
  by (elim disjE main_stepE sub_stepE) (auto simp: size_handshake_ext_def hs_inv_def split: if_splits)

interpretation handshake: lowering "progress x" "hs_inv x" size finished for x
proof
  fix s t :: "'a handshake"
  show "hs_inv x s \<Longrightarrow> progress x s t \<Longrightarrow> hs_inv x t" using step_inv [of x s t] by (simp add: step_def)
qed (blast intro: progress_lowers can_move)+

lemma reaches_end:
  "hs_inv x s \<Longrightarrow> \<exists>t. (progress x)\<^sup>*\<^sup>* s t \<and> finished t \<and> evloop t = Some x"
  using handshake.arrives [of x s] by (auto simp: hs_inv_def finished_def)

section \<open>Properties\<close>

text \<open>
  However the two threads interleave, and whatever needless wake-ups there are:
  \<open>runWorkThread\<close> returns only after the worker has published its loop, the two threads are
  never in their critical sections together, and the starting thread never waits for a signal
  that has already been sent.
\<close>

lemma handshake_safe:
  assumes "reachable x s"
  shows "(mpc s = MDone \<longrightarrow> evloop s = Some x) \<and>
     \<not> (mpc s \<in> {MTest, MUnlock} \<and> spc s \<in> {SInit, SUnlock}) \<and>
     \<not> (mpc s = MWait \<and> spc s = SRun)"
  using reachable_inv [OF assms] by (auto simp: hs_inv_def)

lemma race: "reachable (7 :: nat) (start_handshake\<lparr>mpc := MWait, spc := SInit, owner := Sub\<rparr>)"
proof -
  have 1: "reachable (7 :: nat) (start_handshake\<lparr>mpc := MLock, spc := SLock\<rparr>)"
    by (rule reachable.step [OF reachable.start]) (simp add: step_def progress_def main_blocked start_handshake_def)
  have 2: "reachable (7 :: nat) (start_handshake\<lparr>mpc := MTest, spc := SLock, owner := Main\<rparr>)"
    by (rule reachable.step [OF 1]) (simp add: step_def progress_def main_blocked start_handshake_def)
  have 3: "reachable (7 :: nat) (start_handshake\<lparr>mpc := MWait, spc := SLock, owner := Free\<rparr>)"
    by (rule reachable.step [OF 2]) (simp add: step_def progress_def main_blocked start_handshake_def)
  show ?thesis
    by (rule reachable.step [OF 3]) (simp add: step_def progress_def sub_blocked start_handshake_def)
qed

lemma handshake_safe_witness:
  "\<exists>s. reachable (7 :: nat) s \<and> mpc s = MWait \<and> spc s \<noteq> SRun"
proof -
  let ?s = "start_handshake\<lparr>mpc := MWait, spc := SInit, owner := Sub\<rparr> :: nat handshake"
  have "mpc ?s = MWait" by simp
  with handshake_safe [OF race] race show ?thesis by blast
qed

text \<open>
  C28: The handshake always completes. From every reachable state the final one, with the
  worker's loop published, can be reached; in every other state some thread can move; and every
  move (needless wake-ups apart) lowers a number, so every run gets there: \<open>runWorkThread\<close>
  returns and the worker enters its loop.
\<close>

theorem handshake_completes:
  assumes "reachable x s"
  shows "(\<exists>t. (progress x)\<^sup>*\<^sup>* s t \<and> finished t \<and> evloop t = Some x) \<and>
     (\<not> finished s \<longrightarrow> (\<exists>t. progress x s t)) \<and> (\<forall>t. progress x s t \<longrightarrow> size t < size s)"
  using reaches_end [OF reachable_inv [OF assms]] can_move [OF reachable_inv [OF assms]]
    progress_lowers [OF reachable_inv [OF assms]] by blast

theorem handshake_completes_witness:
  "\<exists>t. (progress (7 :: nat))\<^sup>*\<^sup>* (start_handshake\<lparr>mpc := MWait, spc := SInit, owner := Sub\<rparr>) t \<and> evloop t = Some 7"
  using handshake_completes [OF race] by auto

end
