(* ===== verification/Http_Text.thy ===== *)
theory Http_Text
  imports Prelude
begin

text \<open>
  The text functions of \<open>old/ReactorHttp_c/HttpRequest.c\<close> (and, word for word, of
  \<open>old/SimpleHttp/server.c\<close>): percent-decoding of a URL and the media type of a file name.
  \<open>decodeMsg\<close> is called with both pointers on the same string, so it is modelled on one block
  of memory with a write and a read offset; \<open>decode\<close> is the decoding it refines.
\<close>

section \<open>Percent-decoding\<close>

definition isxdigit :: "char \<Rightarrow> bool" where
  "isxdigit c = (let n = of_char c :: nat in
     (48 \<le> n \<and> n \<le> 57) \<or> (65 \<le> n \<and> n \<le> 70) \<or> (97 \<le> n \<and> n \<le> 102))"

definition hexToDec :: "char \<Rightarrow> nat" where
  "hexToDec c = (let n = of_char c :: nat in
     if 48 \<le> n \<and> n \<le> 57 then n - 48
     else if 97 \<le> n \<and> n \<le> 102 then n - 97 + 10
     else if 65 \<le> n \<and> n \<le> 70 then n - 65 + 10
     else 0)"

definition byte_at :: "char list \<Rightarrow> nat \<Rightarrow> char result" where
  "byte_at m i = (if i < length m then Inr (m ! i) else Inl OutOfBounds)"

definition put_byte :: "char list \<Rightarrow> nat \<Rightarrow> char \<Rightarrow> char list result" where
  "put_byte m i c = (if i < length m then Inr (m[i := c]) else Inl OutOfBounds)"

text \<open>The test of the loop body, reading \<open>from[1]\<close> and \<open>from[2]\<close> only as far as needed.\<close>

definition is_escape :: "char list \<Rightarrow> nat \<Rightarrow> bool result" where
  "is_escape m from =
     rbind (byte_at m from) (\<lambda>c0.
       if c0 \<noteq> CHR ''%'' then Inr False
       else rbind (byte_at m (from + 1)) (\<lambda>c1.
         if \<not> isxdigit c1 then Inr False
         else rbind (byte_at m (from + 2)) (\<lambda>c2. Inr (isxdigit c2))))"

definition escape_byte :: "char \<Rightarrow> char \<Rightarrow> char" where
  "escape_byte a b = char_of (hexToDec a * 16 + hexToDec b)"

function decodeMsg :: "char list \<Rightarrow> nat \<Rightarrow> nat \<Rightarrow> char list result" where
  "decodeMsg m to from =
     (if from < length m then
        (if m ! from = NUL then put_byte m to NUL
         else
           rbind (is_escape m from) (\<lambda>esc.
             if esc then
               rbind (byte_at m (from + 1)) (\<lambda>a.
               rbind (byte_at m (from + 2)) (\<lambda>b.
                 if to < length m
                 then decodeMsg (m[to := escape_byte a b]) (to + 1) (from + 3)
                 else Inl OutOfBounds))
             else if to < length m then decodeMsg (m[to := m ! from]) (to + 1) (from + 1)
             else Inl OutOfBounds))
      else Inl OutOfBounds)"
  by pat_completeness auto
termination
  by (relation "measure (\<lambda>(m, to, from). length m - from)") auto

declare decodeMsg.simps [simp del]

text \<open>The decoding as a function on strings.\<close>

fun decode :: "string \<Rightarrow> string" where
  "decode (c # a # b # s) =
     (if c = CHR ''%'' \<and> isxdigit a \<and> isxdigit b then escape_byte a b # decode s
      else c # decode (a # b # s))"
| "decode s = s"

lemma length_decode: "length (decode s) \<le> length s"
  by (induction s rule: decode.induct) auto

lemma decode_plain: "CHR ''%'' \<notin> set s \<Longrightarrow> decode s = s"
  by (induction s rule: decode.induct) auto

lemma not_isxdigit_NUL [simp]: "\<not> isxdigit NUL"
  by (simp add: isxdigit_def)

text \<open>One round of the loop on memory whose unread part is a C string.\<close>

lemma at_string:
  assumes "drop from m = t" and "i < length t"
  shows "from + i < length m" and "m ! (from + i) = t ! i"
proof -
  show "from + i < length m" using assms by auto
  then show "m ! (from + i) = t ! i" using assms(1) by (simp flip: assms(1))
qed

lemma is_escape_string:
  assumes m: "drop from m = c # s @ NUL # rest"
  shows "is_escape m from = Inr (c = CHR ''%'' \<and> (\<exists>a b s'. s = a # b # s' \<and> isxdigit a \<and> isxdigit b))"
proof -
  note at = at_string [OF m]
  consider "s = []" | a where "s = [a]" | a b s' where "s = a # b # s'"
    by (metis list.exhaust)
  then show ?thesis
    using at [of 0] at [of 1] at [of 2] by cases (auto simp: is_escape_def byte_at_def)
qed

lemma decode_escape: "isxdigit a \<Longrightarrow> isxdigit b \<Longrightarrow> decode (CHR ''%'' # a # b # s) = escape_byte a b # decode s"
  by simp

lemma decode_copy:
  assumes "\<not> (c = CHR ''%'' \<and> (\<exists>a b s'. s = a # b # s' \<and> isxdigit a \<and> isxdigit b))"
  shows "decode (c # s) = c # decode s"
proof -
  consider "s = []" | a where "s = [a]" | a b s' where "s = a # b # s'"
    by (metis list.exhaust)
  then show ?thesis using assms by cases auto
qed

lemma shift_write:
  assumes "drop (from + k) m = t" and "to < from + k" and "from + k \<le> length m"
  shows "drop (from + k) (m[to := e]) = t" and "take (to + 1) (m[to := e]) = take to m @ [e]"
  using assms by (simp_all add: take_Suc_conv_app_nth)

lemma decodeMsg_string:
  "drop from m = s @ NUL # rest \<Longrightarrow> NUL \<notin> set s \<Longrightarrow> to \<le> from \<Longrightarrow>
   \<exists>tail. decodeMsg m to from = Inr (take to m @ decode s @ NUL # tail) \<and>
     length (take to m @ decode s @ NUL # tail) = length m"
proof (induction "length s" arbitrary: m to "from" s rule: less_induct)
  case less
  note m = less.prems(1)
  have inside: "from < length m" "m ! from = (s @ NUL # rest) ! 0" "to < length m"
    using at_string [OF m, of 0] less.prems(3) by auto
  show ?case
  proof (cases s)
    case Nil
    have "m[to := NUL] = take to m @ NUL # drop (Suc to) m"
      using inside(3) by (simp add: upd_conv_take_nth_drop)
    then show ?thesis
      using inside Nil by (simp add: decodeMsg.simps [of m to "from"] put_byte_def)
  next
    case (Cons c s1)
    let ?esc = "c = CHR ''%'' \<and> (\<exists>a b s'. s1 = a # b # s' \<and> isxdigit a \<and> isxdigit b)"
    have c: "m ! from = c" "c \<noteq> NUL" using inside(2) Cons less.prems(2) by auto
    have esc: "is_escape m from = Inr ?esc"
      using is_escape_string [of "from" m c s1 rest] m Cons by simp
    show ?thesis
    proof (cases ?esc)
      case True
      then obtain a b s' where s1: "s1 = a # b # s'" "isxdigit a" "isxdigit b" by auto
      let ?m = "m[to := escape_byte a b]"
      have bytes: "byte_at m (from + 1) = Inr a" "byte_at m (from + 2) = Inr b" "from + 3 \<le> length m"
        using at_string [OF m, of 1] at_string [OF m, of 2] s1 Cons by (auto simp: byte_at_def)
      have "drop (from + 3) m = s' @ NUL # rest"
        using m Cons s1 by (simp add: add.commute [of "from"] flip: drop_drop)
      note w = shift_write [OF this, of to "escape_byte a b"]
      have step: "decodeMsg m to from = decodeMsg ?m (to + 1) (from + 3)"
        using inside c esc True bytes by (simp add: decodeMsg.simps [of m to "from"])
      show ?thesis
        using less.hyps [of s' "from + 3" ?m "to + 1"] w bytes(3) less.prems(2,3) Cons s1 True step by auto
    next
      case False
      let ?m = "m[to := c]"
      have "drop (from + 1) m = s1 @ NUL # rest"
        using m Cons by (metis Suc_eq_plus1 append_Cons drop_Suc list.sel(3) tl_drop)
      note w = shift_write [OF this, of to c]
      have "is_escape m from = Inr False" using esc False by simp
      then have step: "decodeMsg m to from = decodeMsg ?m (to + 1) (from + 1)"
        using inside(1,3) c by (simp add: decodeMsg.simps [of m to "from"])
      show ?thesis
        using less.hyps [of s1 "from + 1" ?m "to + 1"] w inside(1) less.prems(2,3) Cons step
          decode_copy [OF False] by auto
    qed
  qed
qed

text \<open>The call of the server, on the block that holds the URL.\<close>

lemma decodeMsg_in_place:
  "NUL \<notin> set s \<Longrightarrow>
   \<exists>m'. decodeMsg (s @ NUL # rest) 0 0 = Inr m' \<and> cstr m' = cstr (decode s) \<and> NUL \<in> set m' \<and>
     length m' = length (s @ NUL # rest)"
  using decodeMsg_string [of 0 "s @ NUL # rest" s rest 0]
  by (auto simp: cstr_NUL)

subsection \<open>Encoding and decoding\<close>

definition hexDigit :: "nat \<Rightarrow> char" where
  "hexDigit n = (if n < 10 then char_of (48 + n) else char_of (55 + n))"

fun encode :: "(char \<Rightarrow> bool) \<Rightarrow> string \<Rightarrow> string" where
  "encode P [] = []"
| "encode P (c # s) =
     (if P c then [CHR ''%'', hexDigit (of_char c div 16), hexDigit (of_char c mod 16)] @ encode P s
      else c # encode P s)"

lemma hexDigit_ok: "n < 16 \<Longrightarrow> isxdigit (hexDigit n) \<and> hexToDec (hexDigit n) = n"
proof -
  assume n: "n < 16"
  then have "(48 + n) mod 256 = 48 + n" "(55 + n) mod 256 = 55 + n" by simp_all
  with n show ?thesis by (auto simp: hexDigit_def isxdigit_def hexToDec_def Let_def)
qed

lemma escape_byte_encode: "escape_byte (hexDigit (of_char c div 16)) (hexDigit (of_char c mod 16)) = c"
proof -
  have "of_char c div 16 < (16 :: nat)" by (rule less_mult_imp_div_less) simp
  then show ?thesis by (simp add: escape_byte_def hexDigit_ok)
qed

lemma decode_encode: "P (CHR ''%'') \<Longrightarrow> decode (encode P s) = s"
proof (induction s)
  case Nil
  then show ?case by simp
next
  case (Cons c s)
  show ?case
  proof (cases "P c")
    case True
    have "(of_char c :: nat) div 16 < 16" "(of_char c :: nat) mod 16 < 16"
      by (rule less_mult_imp_div_less) simp_all
    with True Cons show ?thesis by (simp add: hexDigit_ok escape_byte_encode)
  next
    case False
    then have "c \<noteq> CHR ''%''" using Cons.prems by auto
    with False Cons show ?thesis by (simp add: decode_copy)
  qed
qed

subsection \<open>Percent-decoding as a reference\<close>

text \<open>The value of a digit by its place in a table, and the decoding, without the code's functions.\<close>

definition hex_value :: "char \<Rightarrow> nat option" where
  "hex_value = map_of (zip ''0123456789abcdefABCDEF'' [0, 1, 2, 3, 4, 5, 6, 7, 8, 9, 10, 11, 12, 13, 14, 15, 10, 11, 12, 13, 14, 15])"

fun percent_decode :: "string \<Rightarrow> string" where
  "percent_decode (c # a # b # s) =
     (if c = CHR ''%'' \<and> hex_value a \<noteq> None \<and> hex_value b \<noteq> None
      then char_of (16 * the (hex_value a) + the (hex_value b)) # percent_decode s
      else c # percent_decode (a # b # s))"
| "percent_decode s = s"

lemma hex_value_char: "hex_value c = (if isxdigit c then Some (hexToDec c) else None)"
proof (cases c)
  case (Char b0 b1 b2 b3 b4 b5 b6 b7)
  show ?thesis
    unfolding Char hex_value_def isxdigit_def hexToDec_def
    by (cases b0; cases b1; cases b2; cases b3; cases b4; cases b5; cases b6; cases b7; simp)
qed

lemma decode_reference: "decode s = percent_decode s"
  by (induction s rule: decode.induct) (simp_all add: hex_value_char escape_byte_def mult.commute)

section \<open>The media type of a file name\<close>

definition getFileType :: "string \<Rightarrow> string" where
  "getFileType name =
     (case strrchr name (CHR ''.'') of
        None \<Rightarrow> ''text/plain; charset=utf-8''
      | Some dot \<Rightarrow>
          if dot = ''.html'' \<or> dot = ''.htm'' then ''text/html; charset=utf-8''
          else if dot = ''.jpg'' \<or> dot = ''.jpeg'' then ''image/jpeg''
          else if dot = ''.gif'' then ''image/gif''
          else if dot = ''.png'' then ''image/png''
          else if dot = ''.css'' then ''text/css''
          else if dot = ''.au'' then ''audio/basic''
          else if dot = ''.wav'' then ''audio/wav''
          else if dot = ''.avi'' then ''video/x-msvideo''
          else if dot = ''.mov'' \<or> dot = ''.qt'' then ''video/quicktime''
          else if dot = ''.mpeg'' \<or> dot = ''.mpe'' then ''video/mpeg''
          else if dot = ''.vrml'' \<or> dot = ''.wrl'' then ''model/vrml''
          else if dot = ''.midi'' \<or> dot = ''.mid'' then ''audio/midi''
          else if dot = ''.mp3'' then ''audio/mpeg''
          else if dot = ''.ogg'' then ''application/ogg''
          else if dot = ''.pac'' then ''application/x-ns-proxy-autoconfig''
          else ''text/plain; charset=utf-8'')"

text \<open>The table the tests amount to.\<close>

definition media_types :: "(string \<times> string) list" where
  "media_types =
    [(''html'', ''text/html; charset=utf-8''), (''htm'', ''text/html; charset=utf-8''),
     (''jpg'', ''image/jpeg''), (''jpeg'', ''image/jpeg''), (''gif'', ''image/gif''),
     (''png'', ''image/png''), (''css'', ''text/css''), (''au'', ''audio/basic''),
     (''wav'', ''audio/wav''), (''avi'', ''video/x-msvideo''), (''mov'', ''video/quicktime''),
     (''qt'', ''video/quicktime''), (''mpeg'', ''video/mpeg''), (''mpe'', ''video/mpeg''),
     (''vrml'', ''model/vrml''), (''wrl'', ''model/vrml''), (''midi'', ''audio/midi''),
     (''mid'', ''audio/midi''), (''mp3'', ''audio/mpeg''), (''ogg'', ''application/ogg''),
     (''pac'', ''application/x-ns-proxy-autoconfig'')]"

definition media_type :: "string \<Rightarrow> string" where
  "media_type ext = (case map_of media_types ext of None \<Rightarrow> ''text/plain; charset=utf-8'' | Some t \<Rightarrow> t)"

lemma getFileType_extension:
  "CHR ''.'' \<notin> set ext \<Longrightarrow> getFileType (base @ CHR ''.'' # ext) = media_type ext"
  by (simp add: getFileType_def strrchr_last media_type_def media_types_def)

lemma getFileType_no_dot: "CHR ''.'' \<notin> set name \<Longrightarrow> getFileType name = ''text/plain; charset=utf-8''"
  by (simp add: getFileType_def strrchr_None)

lemma media_type_length: "length (media_type ext) \<le> 33 \<and> NUL \<notin> set (media_type ext)"
  by (simp add: media_type_def media_types_def)

lemma getFileType_cases:
  obtains "getFileType name = ''text/plain; charset=utf-8''" | ext where "getFileType name = media_type ext"
proof (cases "CHR ''.'' \<in> set name")
  case True
  then obtain base ext where "name = base @ CHR ''.'' # ext" "CHR ''.'' \<notin> set ext"
    by (metis split_list_last)
  with that(2) getFileType_extension show thesis by metis
next
  case False
  with that(1) getFileType_no_dot show thesis by blast
qed

lemma getFileType_length: "length (getFileType name) \<le> 33 \<and> NUL \<notin> set (getFileType name)"
  by (rule getFileType_cases [of name]) (simp_all add: media_type_length)

section \<open>Properties\<close>

text \<open>
  C33: Decoding a URL in its own memory is safe and correct: writing behind the reading position,
  \<open>decodeMsg\<close> leaves the percent-decoding of the string there, with its NUL, and touches no byte
  outside the block. The decoding is a reference of its own: a percent sign and two hexadecimal
  digits, of either case, stand for the byte with these digits.
\<close>

theorem decodeMsg_decodes:
  assumes "NUL \<notin> set s"
  shows "\<exists>tail. decodeMsg (s @ NUL # rest) 0 0 = Inr (percent_decode s @ NUL # tail) \<and>
     length (percent_decode s @ NUL # tail) = length (s @ NUL # rest)"
  using decodeMsg_string [of 0 "s @ NUL # rest" s rest 0] assms by (simp add: decode_reference)

theorem decodeMsg_decodes_witness:
  "\<exists>tail. decodeMsg (''a%4a%e4%Bg'' @ [NUL]) 0 0 = Inr (''aJ'' @ [CHR 0xE4] @ ''%Bg'' @ NUL # tail)"
  using decodeMsg_decodes [of "''a%4a%e4%Bg''" "[]"]
  by (simp add: hex_value_def char_of_def bit_0) blast

text \<open>
  The server decodes what a client encodes: for every choice of characters to encode that
  includes the percent sign, and every string without a NUL, decoding the encoded string in
  place gives the string back.
\<close>

lemma decodeMsg_undoes_encode:
  assumes "P (CHR ''%'')" and "NUL \<notin> set (encode P s)"
  shows "\<exists>tail. decodeMsg (encode P s @ NUL # rest) 0 0 = Inr (s @ NUL # tail)"
  using decodeMsg_string [of 0 "encode P s @ NUL # rest" "encode P s" rest 0] assms
  by (auto simp: decode_encode)

lemma decodeMsg_undoes_encode_witness:
  "\<exists>tail. decodeMsg (encode (\<lambda>c. c = CHR ''%'') ''5%'' @ NUL # []) 0 0 = Inr (''5%'' @ NUL # tail)"
  by (rule decodeMsg_undoes_encode) (simp_all add: hexDigit_def char_of_def bit_0)

text \<open>
  The media type of a file name is decided by what follows its last dot, by the table of 21
  extensions, and is plain text for every other name.
\<close>

lemma media_type_by_extension:
  "getFileType name =
     (if CHR ''.'' \<in> set name then media_type (rev (takeWhile (\<lambda>c. c \<noteq> CHR ''.'') (rev name)))
      else ''text/plain; charset=utf-8'')"
proof (cases "CHR ''.'' \<in> set name")
  case True
  then obtain base ext where n: "name = base @ CHR ''.'' # ext" "CHR ''.'' \<notin> set ext"
    by (metis split_list_last)
  then have "takeWhile (\<lambda>c. c \<noteq> CHR ''.'') (rev name) = rev ext"
    by (auto simp: takeWhile_append2 takeWhile_eq_all_conv takeWhile_tail)
  then show ?thesis using getFileType_extension [OF n(2), of base] n(1) by simp
qed (simp add: getFileType_no_dot)

end
