(* ===== verification/Http_Request.thy ===== *)
theory Http_Request
  imports C_Buffer Http_Text
begin

text \<open>
  The request parser of \<open>old/ReactorHttp_c/HttpRequest.c\<close>. The record \<open>request\<close> is
  \<open>struct HttpRequest\<close>; its header array has \<open>HeaderSize\<close> slots, \<open>None\<close> where nothing
  was written yet. Strings are what the C strings read as. The parser's loop is
  \<open>parse_loop\<close>: \<open>None\<close> when it never ends.
\<close>

datatype HttpRequestState = ParseReqLine | ParseReqHeader | ParseReqBody | ParseReqDone

record request =
  req_method :: "string option"
  req_url :: "string option"
  req_version :: "string option"
  reqHeader :: "(string \<times> string) option list"
  reqHeaderNum :: nat
  curState :: HttpRequestState

definition HeaderSize :: nat where "HeaderSize = 12"

definition resetHttpRequest :: "request \<Rightarrow> request" where
  "resetHttpRequest r =
     r\<lparr>curState := ParseReqLine, req_method := None, req_url := None, req_version := None, reqHeaderNum := 0\<rparr>"

definition initHttpRequest :: request where
  "initHttpRequest =
     (resetHttpRequest \<lparr>req_method = None, req_url = None, req_version = None, reqHeader = [],
        reqHeaderNum = 0, curState = ParseReqLine\<rparr>)\<lparr>reqHeader := replicate HeaderSize None\<rparr>"

text \<open>The header slots freed by \<open>resetHttpRequestEX\<close>: those in use must have been written.\<close>

fun written_slots :: "(string \<times> string) option list \<Rightarrow> nat \<Rightarrow> (string \<times> string) list result" where
  "written_slots hs 0 = Inr []"
| "written_slots [] (Suc n) = Inl OutOfBounds"
| "written_slots (None # hs) (Suc n) = Inl Uninit"
| "written_slots (Some h # hs) (Suc n) = rbind (written_slots hs n) (\<lambda>xs. Inr (h # xs))"

definition resetHttpRequestEX :: "request \<Rightarrow> request result" where
  "resetHttpRequestEX r = rbind (written_slots (reqHeader r) (reqHeaderNum r)) (\<lambda>_. Inr (resetHttpRequest r))"

definition addHttpRequestHeader :: "request \<Rightarrow> string \<Rightarrow> string \<Rightarrow> request result" where
  "addHttpRequestHeader r key value =
     (if reqHeaderNum r < length (reqHeader r)
      then Inr (r\<lparr>reqHeader := (reqHeader r)[reqHeaderNum r := Some (key, value)],
                  reqHeaderNum := reqHeaderNum r + 1\<rparr>)
      else Inl OutOfBounds)"

text \<open>The loop tests the result of \<open>strncasecmp\<close> as a truth value: it is 0 on equality.\<close>

fun find_header :: "(string \<times> string) option list \<Rightarrow> nat \<Rightarrow> string \<Rightarrow> string option result" where
  "find_header hs 0 key = Inr None"
| "find_header [] (Suc n) key = Inl OutOfBounds"
| "find_header (None # hs) (Suc n) key = Inl Uninit"
| "find_header (Some (k, v) # hs) (Suc n) key =
     (if \<not> strncasecmp_eq k key (length (cstr key)) then Inr (Some v) else find_header hs n key)"

definition getHttpRequestHeader :: "request option \<Rightarrow> string \<Rightarrow> string option result" where
  "getHttpRequestHeader rp key =
     (case rp of None \<Rightarrow> Inr None | Some r \<Rightarrow> find_header (reqHeader r) (reqHeaderNum r) key)"

text \<open>
  \<open>splitRequestLine\<close> copies from \<open>start\<close> up to the next \<open>sub\<close> (or the end of the line)
  and returns the offset after it; \<open>strncpy\<close> stops at a NUL.
\<close>

definition splitRequestLine :: "char list \<Rightarrow> int \<Rightarrow> int \<Rightarrow> string option \<Rightarrow> (int \<times> string) result" where
  "splitRequestLine blk start eol sub =
     rbind (case sub of
              None \<Rightarrow> Inr eol
            | Some s \<Rightarrow>
                rbind (load blk start (eol - start)) (\<lambda>line.
                  case memmem line s of None \<Rightarrow> Inl AssertFail | Some k \<Rightarrow> Inr (start + int k))) (\<lambda>space.
     rbind (load blk start (space - start)) (\<lambda>tok. Inr (space + 1, cstr tok)))"

text \<open>Without a CRLF, \<open>end\<close> is NULL and \<open>end - start\<close> is pointer arithmetic on it.\<close>

definition parseHttpRequestLine :: "request \<Rightarrow> buffer \<Rightarrow> (request \<times> buffer \<times> bool) result" where
  "parseHttpRequestLine r b =
     rbind (findCRLFBuffer b) (\<lambda>e.
     rbind (deref e) (\<lambda>eol.
       let start = readPos b; lineSize = eol - start in
       if lineSize \<noteq> 0 then
         rbind (splitRequestLine (data b) start eol (Some '' '')) (\<lambda>(start1, m).
         rbind (splitRequestLine (data b) start1 eol (Some '' '')) (\<lambda>(start2, u).
         rbind (splitRequestLine (data b) start2 eol None) (\<lambda>(_, v).
           Inr (r\<lparr>req_method := Some m, req_url := Some u, req_version := Some v, curState := ParseReqHeader\<rparr>,
                b\<lparr>readPos := readPos b + (lineSize + 2)\<rparr>, True))))
       else Inr (r, b, False)))"

definition parseHttpRequestHeader :: "request \<Rightarrow> buffer \<Rightarrow> (request \<times> buffer \<times> bool) result" where
  "parseHttpRequestHeader r b =
     rbind (findCRLFBuffer b) (\<lambda>e.
       case e of
         None \<Rightarrow> Inr (r, b, False)
       | Some eol \<Rightarrow>
           (let start = readPos b; lineSize = eol - start in
            rbind (load (data b) start lineSize) (\<lambda>line.
              case memmem line '': '' of
                Some k \<Rightarrow>
                  rbind (addHttpRequestHeader r (cstr (take k line)) (cstr (drop (k + 2) line))) (\<lambda>r'.
                    Inr (r', b\<lparr>readPos := readPos b + lineSize + 2\<rparr>, True))
              | None \<Rightarrow> Inr (r\<lparr>curState := ParseReqDone\<rparr>, b\<lparr>readPos := readPos b + 2\<rparr>, True))))"

partial_function (option) parse_loop ::
  "request \<Rightarrow> buffer \<Rightarrow> bool \<Rightarrow> (request \<times> buffer \<times> bool) result option" where
  "parse_loop r b flag =
     (case curState r of
        ParseReqDone \<Rightarrow> Some (Inr (r, b, flag))
      | ParseReqLine \<Rightarrow>
          (case parseHttpRequestLine r b of
             Inl e \<Rightarrow> Some (Inl e) | Inr (r', b', f) \<Rightarrow> parse_loop r' b' f)
      | ParseReqHeader \<Rightarrow>
          (case parseHttpRequestHeader r b of
             Inl e \<Rightarrow> Some (Inl e) | Inr (r', b', f) \<Rightarrow> parse_loop r' b' f)
      | ParseReqBody \<Rightarrow> parse_loop r b flag)"

section \<open>Lines\<close>

text \<open>The line at the read position, and what the parser sees of it.\<close>

lemma split_contents:
  assumes inv: "buf_inv b" and c: "contents b = line @ rest"
  shows "load (data b) (readPos b) (int (length line)) = Inr line"
    and "load (data b) (readPos b + int (length line)) (int (length rest)) = Inr rest"
    and "contents (b\<lparr>readPos := readPos b + int (length line)\<rparr>) = rest"
    and "buf_inv (b\<lparr>readPos := readPos b + int (length line)\<rparr>)"
proof -
  note inv' = buf_invD [OF inv]
  have len: "int (length line) + int (length rest) = writePos b - readPos b"
    using length_contents [OF inv] c by (simp add: buf_sizes)
  have d: "contents b = take (nat (writePos b - readPos b)) (drop (nat (readPos b)) (data b))"
    using inv' by (simp add: contents_def window_def drop_take nat_diff_distrib)
  have n: "nat (writePos b - readPos b) = length line + length rest" using len by linarith
  have "take (length line) (drop (nat (readPos b)) (data b)) = take (length line) (contents b)"
    unfolding d n by simp
  then show "load (data b) (readPos b) (int (length line)) = Inr line"
    using inv' len c by (simp add: load_def)
  have "take (length rest) (drop (nat (readPos b) + length line) (data b)) = drop (length line) (contents b)"
    unfolding d n by (simp add: drop_take add.commute)
  then show "load (data b) (readPos b + int (length line)) (int (length rest)) = Inr rest"
    using inv' len c by (simp add: load_def nat_add_distrib)
  show "contents (b\<lparr>readPos := readPos b + int (length line)\<rparr>) = rest"
    and "buf_inv (b\<lparr>readPos := readPos b + int (length line)\<rparr>)"
    using advance_ok [OF inv, of "length line"] c by (simp_all add: advance_def)
qed

abbreviation CR :: char where "CR \<equiv> CHR 0x0D"

lemma find_line_end:
  "buf_inv b \<Longrightarrow> contents b = line @ CRLF @ rest \<Longrightarrow> CR \<notin> set line \<Longrightarrow>
   findCRLFBuffer b = Inr (Some (readPos b + int (length line)))"
  using memmem_first [of CR line "[CHR 0x0A]" rest] by (simp add: findCRLFBuffer_eq)

lemma load_inside:
  assumes "load blk off (int (length (xs @ ys))) = Inr (xs @ ys)"
  shows "load blk off (int (length xs)) = Inr xs"
    and "load blk (off + int (length xs)) (int (length ys)) = Inr ys"
proof -
  have *: "0 \<le> off" "off + int (length xs) + int (length ys) \<le> int (length blk)"
      "take (length xs + length ys) (drop (nat off) blk) = xs @ ys"
    using assms by (auto simp: load_def nat_add_distrib split: if_splits)
  have "take (length xs) (take (length xs + length ys) (drop (nat off) blk)) = xs"
    "drop (length xs) (take (length xs + length ys) (drop (nat off) blk)) = ys"
    unfolding *(3) by simp_all
  then have "take (length xs) (drop (nat off) blk) = xs"
    "take (length ys) (drop (nat off + length xs) blk) = ys"
    by (simp_all add: drop_take add.commute)
  with * show "load blk off (int (length xs)) = Inr xs"
    and "load blk (off + int (length xs)) (int (length ys)) = Inr ys"
    by (simp_all add: load_def nat_add_distrib)
qed

lemma split_at_space:
  assumes l: "load blk start (int (length (tok @ CHR '' '' # rest))) = Inr (tok @ CHR '' '' # rest)"
    and tok: "CHR '' '' \<notin> set tok" "NUL \<notin> set tok"
    and e: "eol = start + int (length (tok @ CHR '' '' # rest))"
  shows "splitRequestLine blk start eol (Some '' '') = Inr (start + int (length tok) + 1, tok)"
    and "load blk (start + int (length tok) + 1) (int (length rest)) = Inr rest"
proof -
  have "load blk start (int (length tok)) = Inr tok" using load_inside(1) [OF l] .
  moreover have "memmem (tok @ CHR '' '' # rest) '' '' = Some (length tok)"
    using memmem_single [OF tok(1)] .
  ultimately show "splitRequestLine blk start eol (Some '' '') = Inr (start + int (length tok) + 1, tok)"
    using l tok e by (simp add: splitRequestLine_def)
  show "load blk (start + int (length tok) + 1) (int (length rest)) = Inr rest"
    using load_inside(2) [of blk start "tok @ '' ''" rest] l by (simp add: ac_simps)
qed

text \<open>A well-formed request line.\<close>

definition token :: "string \<Rightarrow> bool" where
  "token s \<longleftrightarrow> CHR '' '' \<notin> set s \<and> CR \<notin> set s \<and> NUL \<notin> set s"

lemma parse_line_ok:
  assumes inv: "buf_inv b"
    and c: "contents b = m @ '' '' @ u @ '' '' @ v @ CRLF @ rest"
    and tok: "token m" "token u" "CR \<notin> set v" "NUL \<notin> set v"
  shows "\<exists>b'. parseHttpRequestLine r b =
      Inr (r\<lparr>req_method := Some m, req_url := Some u, req_version := Some v, curState := ParseReqHeader\<rparr>, b', True)
    \<and> buf_inv b' \<and> contents b' = rest"
proof -
  let ?line = "m @ CHR '' '' # u @ CHR '' '' # v"
  let ?eol = "readPos b + int (length ?line)"
  have c': "contents b = ?line @ CRLF @ rest" using c by simp
  have fnd: "findCRLFBuffer b = Inr (Some ?eol)"
    using find_line_end [OF inv c'] tok by (auto simp: token_def)
  note l0 = split_contents(1) [OF inv c']
  note s1 = split_at_space [of "data b" "readPos b" m "u @ CHR '' '' # v" ?eol, OF l0]
  note s2 = split_at_space [of "data b" "readPos b + int (length m) + 1" u v ?eol]
  have sp1: "splitRequestLine (data b) (readPos b) ?eol (Some '' '') = Inr (readPos b + int (length m) + 1, m)"
    using s1(1) tok by (simp add: token_def)
  have l1: "load (data b) (readPos b + int (length m) + 1) (int (length (u @ CHR '' '' # v))) = Inr (u @ CHR '' '' # v)"
    using s1(2) tok by (simp add: token_def)
  have sp2: "splitRequestLine (data b) (readPos b + int (length m) + 1) ?eol (Some '' '') =
      Inr (readPos b + int (length m) + 1 + int (length u) + 1, u)"
    using s2(1) [OF l1] tok by (simp add: token_def)
  have l2: "load (data b) (readPos b + int (length m) + 1 + int (length u) + 1) (int (length v)) = Inr v"
    using s2(2) [OF l1] tok by (simp add: token_def)
  have sp3: "\<exists>n. splitRequestLine (data b) (readPos b + int (length m) + 1 + int (length u) + 1) ?eol None = Inr (n, v)"
  proof -
    have "?eol - (readPos b + int (length m) + 1 + int (length u) + 1) = int (length v)" by simp
    with l2 tok(4) show ?thesis by (simp add: splitRequestLine_def)
  qed
  let ?b = "b\<lparr>readPos := readPos b + int (length (?line @ CRLF))\<rparr>"
  have c'': "contents b = (?line @ CRLF) @ rest" using c by simp
  have "?eol - readPos b \<noteq> 0" "readPos b + (?eol - readPos b + 2) = readPos b + int (length (?line @ CRLF))"
    by simp_all
  then have "parseHttpRequestLine r b =
      Inr (r\<lparr>req_method := Some m, req_url := Some u, req_version := Some v, curState := ParseReqHeader\<rparr>, ?b, True)"
    unfolding parseHttpRequestLine_def Let_def using fnd sp1 sp2 sp3 by auto
  with split_contents(3,4) [OF inv c''] show ?thesis by blast
qed

lemma parse_header_ok:
  assumes inv: "buf_inv b" and c: "contents b = k @ '': '' @ v @ CRLF @ rest"
    and k: "CHR '':'' \<notin> set k" "CR \<notin> set k" "NUL \<notin> set k" and v: "CR \<notin> set v" "NUL \<notin> set v"
    and room: "reqHeaderNum r < length (reqHeader r)"
  shows "\<exists>b'. parseHttpRequestHeader r b =
      Inr (r\<lparr>reqHeader := (reqHeader r)[reqHeaderNum r := Some (k, v)], reqHeaderNum := reqHeaderNum r + 1\<rparr>, b', True)
    \<and> buf_inv b' \<and> contents b' = rest"
proof -
  let ?line = "k @ '': '' @ v"
  have c': "contents b = ?line @ CRLF @ rest" "contents b = (?line @ CRLF) @ rest" using c by simp_all
  have fnd: "findCRLFBuffer b = Inr (Some (readPos b + int (length ?line)))"
    using find_line_end [OF inv c'(1)] k v by auto
  have "memmem ?line '': '' = Some (length k)"
    using memmem_first [of "CHR '':''" k "'' ''" v] k by simp
  moreover have "load (data b) (readPos b) (int (length ?line)) = Inr ?line"
    using split_contents(1) [OF inv c'(1)] .
  ultimately have "parseHttpRequestHeader r b =
      Inr (r\<lparr>reqHeader := (reqHeader r)[reqHeaderNum r := Some (k, v)], reqHeaderNum := reqHeaderNum r + 1\<rparr>,
        b\<lparr>readPos := readPos b + int (length (?line @ CRLF))\<rparr>, True)"
    using fnd k v room by (simp add: parseHttpRequestHeader_def addHttpRequestHeader_def Let_def add.assoc)
  with split_contents(3,4) [OF inv c'(2)] show ?thesis by blast
qed

lemma parse_blank_ok:
  assumes inv: "buf_inv b" and c: "contents b = CRLF @ rest"
  shows "\<exists>b'. parseHttpRequestHeader r b = Inr (r\<lparr>curState := ParseReqDone\<rparr>, b', True) \<and> buf_inv b' \<and> contents b' = rest"
proof -
  have "findCRLFBuffer b = Inr (Some (readPos b))"
    using find_line_end [OF inv, of "[]" rest] c by simp
  moreover have "load (data b) (readPos b) 0 = Inr []"
    using split_contents(1) [OF inv, of "[]"] by simp
  ultimately have "parseHttpRequestHeader r b = Inr (r\<lparr>curState := ParseReqDone\<rparr>, b\<lparr>readPos := readPos b + 2\<rparr>, True)"
    by (simp add: parseHttpRequestHeader_def)
  with split_contents(3,4) [OF inv, of CRLF rest] c show ?thesis by simp
qed

section \<open>The parser's loop\<close>

lemma parse_loop_done: "curState r = ParseReqDone \<Longrightarrow> parse_loop r b flag = Some (Inr (r, b, flag))"
  by (simp add: parse_loop.simps)

lemma parse_loop_line:
  "curState r = ParseReqLine \<Longrightarrow> parse_loop r b flag =
     (case parseHttpRequestLine r b of Inl e \<Rightarrow> Some (Inl e) | Inr (r', b', f) \<Rightarrow> parse_loop r' b' f)"
  by (subst parse_loop.simps) simp

lemma parse_loop_header:
  "curState r = ParseReqHeader \<Longrightarrow> parse_loop r b flag =
     (case parseHttpRequestHeader r b of Inl e \<Rightarrow> Some (Inl e) | Inr (r', b', f) \<Rightarrow> parse_loop r' b' f)"
  by (subst parse_loop.simps) simp

text \<open>The text of a request, and when the parser can read it back.\<close>

definition print_header :: "string \<times> string \<Rightarrow> string" where
  "print_header h = fst h @ '': '' @ snd h @ CRLF"

definition print_request :: "string \<Rightarrow> string \<Rightarrow> string \<Rightarrow> (string \<times> string) list \<Rightarrow> string" where
  "print_request m u v hs = m @ '' '' @ u @ '' '' @ v @ CRLF @ concat (map print_header hs) @ CRLF"

definition header_ok :: "string \<times> string \<Rightarrow> bool" where
  "header_ok h \<longleftrightarrow> CHR '':'' \<notin> set (fst h) \<and> CR \<notin> set (fst h) \<and> NUL \<notin> set (fst h) \<and>
     CR \<notin> set (snd h) \<and> NUL \<notin> set (snd h)"

definition request_ok :: "string \<Rightarrow> string \<Rightarrow> string \<Rightarrow> (string \<times> string) list \<Rightarrow> bool" where
  "request_ok m u v hs \<longleftrightarrow> token m \<and> token u \<and> CR \<notin> set v \<and> NUL \<notin> set v \<and> (\<forall>h\<in>set hs. header_ok h)"

lemma print_header_Pair: "print_header (k, v) = k @ '': '' @ v @ CRLF"
  by (simp add: print_header_def)

lemma header_ok_Pair: "header_ok (k, v) \<longleftrightarrow>
    CHR '':'' \<notin> set k \<and> CR \<notin> set k \<and> NUL \<notin> set k \<and> CR \<notin> set v \<and> NUL \<notin> set v"
  by (simp add: header_ok_def)

lemma blit_snoc:
  "n + length xs < length old \<Longrightarrow> blit (old[n := x]) (Suc n) xs = blit old n (x # xs)"
  by (simp add: blit_def take_Suc_conv_app_nth)

lemma parse_loop_headers:
  assumes "buf_inv b" and "contents b = concat (map print_header hs) @ CRLF @ rest"
    and "\<forall>h\<in>set hs. header_ok h" and "reqHeaderNum r + length hs \<le> length (reqHeader r)"
    and "curState r = ParseReqHeader"
  shows "\<exists>b'. parse_loop r b flag =
      Some (Inr (r\<lparr>reqHeader := blit (reqHeader r) (reqHeaderNum r) (map Some hs),
                   reqHeaderNum := reqHeaderNum r + length hs, curState := ParseReqDone\<rparr>, b', True)) \<and>
      buf_inv b' \<and> contents b' = rest"
  using assms
proof (induction hs arbitrary: r b flag)
  case Nil
  then show ?case
    using parse_blank_ok [of b rest r] by (auto simp: parse_loop_header parse_loop_done)
next
  case (Cons h hs)
  obtain k v where h: "h = (k, v)" by (cases h)
  let ?r = "r\<lparr>reqHeader := (reqHeader r)[reqHeaderNum r := Some (k, v)], reqHeaderNum := reqHeaderNum r + 1\<rparr>"
  obtain b1 where b1: "parseHttpRequestHeader r b = Inr (?r, b1, True)" "buf_inv b1"
      "contents b1 = concat (map print_header hs) @ CRLF @ rest"
    using parse_header_ok [of b k v "concat (map print_header hs) @ CRLF @ rest" r] Cons.prems
    by (auto simp: h print_header_Pair header_ok_Pair)
  obtain b' where "parse_loop ?r b1 True =
      Some (Inr (?r\<lparr>reqHeader := blit (reqHeader ?r) (reqHeaderNum ?r) (map Some hs),
                    reqHeaderNum := reqHeaderNum ?r + length hs, curState := ParseReqDone\<rparr>, b', True))"
      "buf_inv b'" "contents b' = rest"
    using Cons.IH [OF b1(2,3), of ?r True] Cons.prems by auto
  then show ?case
    using b1(1) Cons.prems(4,5) by (simp add: parse_loop_header blit_snoc h)
qed

lemma parse_loop_request:
  assumes inv: "buf_inv b" and c: "contents b = print_request m u v hs @ rest"
    and ok: "request_ok m u v hs" and room: "reqHeaderNum r + length hs \<le> length (reqHeader r)"
    and st: "curState r = ParseReqLine"
  shows "\<exists>b'. parse_loop r b flag =
      Some (Inr (r\<lparr>req_method := Some m, req_url := Some u, req_version := Some v,
                   reqHeader := blit (reqHeader r) (reqHeaderNum r) (map Some hs),
                   reqHeaderNum := reqHeaderNum r + length hs, curState := ParseReqDone\<rparr>, b', True)) \<and>
      buf_inv b' \<and> contents b' = rest"
proof -
  let ?r = "r\<lparr>req_method := Some m, req_url := Some u, req_version := Some v, curState := ParseReqHeader\<rparr>"
  obtain b1 where b1: "parseHttpRequestLine r b = Inr (?r, b1, True)" "buf_inv b1"
      "contents b1 = concat (map print_header hs) @ CRLF @ rest"
    using parse_line_ok [OF inv, of m u v "concat (map print_header hs) @ CRLF @ rest" r] c ok
    by (auto simp: print_request_def request_ok_def)
  with parse_loop_headers [OF b1(2,3), of ?r True] ok room show ?thesis
    by (auto simp: parse_loop_line [OF st] request_ok_def)
qed

subsection \<open>Requests the loop never finishes, and requests it does not survive\<close>

text \<open>A round that leaves everything as it was is repeated forever.\<close>

definition stuck :: "request \<Rightarrow> buffer \<Rightarrow> bool" where
  "stuck r b \<longleftrightarrow>
     (curState r = ParseReqLine \<and> parseHttpRequestLine r b = Inr (r, b, False)) \<or>
     (curState r = ParseReqHeader \<and> parseHttpRequestHeader r b = Inr (r, b, False)) \<or>
     curState r = ParseReqBody"

lemma parse_loop_stuck:
  assumes "stuck r b"
  shows "parse_loop r b flag = None"
proof (rule ccontr)
  assume "parse_loop r b flag \<noteq> None"
  then obtain y where y: "parse_loop r b flag = Some y" by blast
  have "\<not> stuck r b"
  proof (rule parse_loop.raw_induct [where P = "\<lambda>r b flag y. \<not> stuck r b", OF _ y])
    fix f :: "request \<Rightarrow> buffer \<Rightarrow> bool \<Rightarrow> (request \<times> buffer \<times> bool) result option" and r b flag y
    assume IH: "\<And>r b flag y. f r b flag = Some y \<Longrightarrow> \<not> stuck r b"
      and eq: "(case curState r of
        ParseReqDone \<Rightarrow> Some (Inr (r, b, flag))
      | ParseReqLine \<Rightarrow> (case parseHttpRequestLine r b of
             Inl e \<Rightarrow> Some (Inl e) | Inr (r', b', f') \<Rightarrow> f r' b' f')
      | ParseReqHeader \<Rightarrow> (case parseHttpRequestHeader r b of
             Inl e \<Rightarrow> Some (Inl e) | Inr (r', b', f') \<Rightarrow> f r' b' f')
      | ParseReqBody \<Rightarrow> f r b flag) = Some y"
    show "\<not> stuck r b"
      using IH [of r b False] IH [of r b flag] eq by (auto simp: stuck_def)
  qed
  with assms show False by simp
qed

lemma stuck_header:
  "buf_inv b \<Longrightarrow> curState r = ParseReqHeader \<Longrightarrow> memmem (contents b) CRLF = None \<Longrightarrow> stuck r b"
  by (simp add: stuck_def parseHttpRequestHeader_def findCRLFBuffer_eq)

lemma stuck_empty_line:
  assumes "buf_inv b" and "curState r = ParseReqLine" and "contents b = CRLF @ rest"
  shows "stuck r b"
  using assms find_line_end [of b "[]" rest] by (simp add: stuck_def parseHttpRequestLine_def)

text \<open>Complete header lines with no end of the header section in the buffer.\<close>

lemma parse_loop_headers_cut:
  assumes "buf_inv b" and "contents b = concat (map print_header hs) @ tail"
    and "memmem tail CRLF = None"
    and "\<forall>h\<in>set hs. header_ok h" and "reqHeaderNum r + length hs \<le> length (reqHeader r)"
    and "curState r = ParseReqHeader"
  shows "parse_loop r b flag = None"
  using assms
proof (induction hs arbitrary: r b flag)
  case Nil
  then show ?case by (simp add: parse_loop_stuck stuck_header)
next
  case (Cons h hs)
  obtain k v where h: "h = (k, v)" by (cases h)
  let ?r = "r\<lparr>reqHeader := (reqHeader r)[reqHeaderNum r := Some (k, v)], reqHeaderNum := reqHeaderNum r + 1\<rparr>"
  obtain b1 where b1: "parseHttpRequestHeader r b = Inr (?r, b1, True)" "buf_inv b1"
      "contents b1 = concat (map print_header hs) @ tail"
    using parse_header_ok [of b k v "concat (map print_header hs) @ tail" r] Cons.prems
    by (auto simp: h print_header_Pair header_ok_Pair)
  have "parse_loop ?r b1 True = None"
    using Cons.IH [OF b1(2,3), of ?r True] Cons.prems by auto
  with b1(1) Cons.prems(6) show ?case by (simp add: parse_loop_header)
qed

lemma parse_loop_cut:
  assumes inv: "buf_inv b" and c: "contents b = m @ '' '' @ u @ '' '' @ v @ CRLF @ concat (map print_header hs) @ tail"
    and cut: "memmem tail CRLF = None"
    and ok: "request_ok m u v hs" and room: "reqHeaderNum r + length hs \<le> length (reqHeader r)"
    and st: "curState r = ParseReqLine"
  shows "parse_loop r b flag = None"
proof -
  let ?r = "r\<lparr>req_method := Some m, req_url := Some u, req_version := Some v, curState := ParseReqHeader\<rparr>"
  obtain b1 where b1: "parseHttpRequestLine r b = Inr (?r, b1, True)" "buf_inv b1"
      "contents b1 = concat (map print_header hs) @ tail"
    using parse_line_ok [OF inv, of m u v "concat (map print_header hs) @ tail" r] c ok
    by (auto simp: request_ok_def)
  with parse_loop_headers_cut [OF b1(2,3) cut, of ?r True] ok room show ?thesis
    by (auto simp: parse_loop_line [OF st] request_ok_def)
qed

text \<open>A header that finds the array full is written behind its end.\<close>

lemma parse_loop_overflow:
  assumes "buf_inv b" and "contents b = concat (map print_header hs) @ rest"
    and "\<forall>h\<in>set hs. header_ok h" and "length (reqHeader r) < reqHeaderNum r + length hs"
    and "reqHeaderNum r \<le> length (reqHeader r)" and "curState r = ParseReqHeader"
  shows "parse_loop r b flag = Some (Inl OutOfBounds)"
  using assms
proof (induction hs arbitrary: r b flag)
  case Nil
  then show ?case by simp
next
  case (Cons h hs)
  obtain k v where h: "h = (k, v)" by (cases h)
  have hd: "contents b = k @ '': '' @ v @ CRLF @ concat (map print_header hs) @ rest"
    using Cons.prems(2) by (simp add: h print_header_Pair)
  show ?case
  proof (cases "reqHeaderNum r < length (reqHeader r)")
    case True
    let ?r = "r\<lparr>reqHeader := (reqHeader r)[reqHeaderNum r := Some (k, v)], reqHeaderNum := reqHeaderNum r + 1\<rparr>"
    obtain b1 where b1: "parseHttpRequestHeader r b = Inr (?r, b1, True)" "buf_inv b1"
        "contents b1 = concat (map print_header hs) @ rest"
      using parse_header_ok [OF Cons.prems(1) hd] Cons.prems(3) True by (auto simp: h header_ok_Pair)
    have "parse_loop ?r b1 True = Some (Inl OutOfBounds)"
      using Cons.IH [OF b1(2,3), of ?r True] Cons.prems True by auto
    with b1(1) Cons.prems(6) show ?thesis by (simp add: parse_loop_header)
  next
    case False
    have line: "contents b = (k @ '': '' @ v) @ CRLF @ concat (map print_header hs) @ rest" using hd by simp
    have "CR \<notin> set (k @ '': '' @ v)" "CHR '':'' \<notin> set k" using Cons.prems(3) by (auto simp: h header_ok_Pair)
    then have "parseHttpRequestHeader r b = Inl OutOfBounds"
      using find_line_end [OF Cons.prems(1) line] split_contents(1) [OF Cons.prems(1) line]
        memmem_first [of "CHR '':''" k "'' ''" v] False
      by (simp add: parseHttpRequestHeader_def addHttpRequestHeader_def)
    with Cons.prems(6) show ?thesis by (simp add: parse_loop_header)
  qed
qed

subsection \<open>The loop only ever ends in success\<close>

lemma parse_line_flag: "parseHttpRequestLine r b = Inr (r', b', f) \<Longrightarrow> curState r \<noteq> ParseReqDone \<Longrightarrow> curState r' = ParseReqDone \<Longrightarrow> f"
  by (auto simp: parseHttpRequestLine_def Let_def split: if_splits)

lemma parse_header_flag: "parseHttpRequestHeader r b = Inr (r', b', f) \<Longrightarrow> curState r \<noteq> ParseReqDone \<Longrightarrow> curState r' = ParseReqDone \<Longrightarrow> f"
  by (auto simp: parseHttpRequestHeader_def Let_def split: option.splits)

lemma parse_loop_success_raw:
  assumes "parse_loop r b flag = Some y"
  shows "y = Inr (r', b', f) \<longrightarrow> (curState r = ParseReqDone \<longrightarrow> flag) \<longrightarrow> curState r' = ParseReqDone \<and> f"
proof (rule parse_loop.raw_induct [where P = "\<lambda>r b flag y. y = Inr (r', b', f) \<longrightarrow>
      (curState r = ParseReqDone \<longrightarrow> flag) \<longrightarrow> curState r' = ParseReqDone \<and> f", OF _ assms])
  fix g :: "request \<Rightarrow> buffer \<Rightarrow> bool \<Rightarrow> (request \<times> buffer \<times> bool) result option" and r b flag y
  assume IH: "\<And>r b flag y. g r b flag = Some y \<Longrightarrow> y = Inr (r', b', f) \<longrightarrow>
      (curState r = ParseReqDone \<longrightarrow> flag) \<longrightarrow> curState r' = ParseReqDone \<and> f"
    and eq: "(case curState r of
        ParseReqDone \<Rightarrow> Some (Inr (r, b, flag))
      | ParseReqLine \<Rightarrow> (case parseHttpRequestLine r b of
             Inl e \<Rightarrow> Some (Inl e) | Inr (r', b', f') \<Rightarrow> g r' b' f')
      | ParseReqHeader \<Rightarrow> (case parseHttpRequestHeader r b of
             Inl e \<Rightarrow> Some (Inl e) | Inr (r', b', f') \<Rightarrow> g r' b' f')
      | ParseReqBody \<Rightarrow> g r b flag) = Some y"
  show "y = Inr (r', b', f) \<longrightarrow> (curState r = ParseReqDone \<longrightarrow> flag) \<longrightarrow> curState r' = ParseReqDone \<and> f"
  proof (cases "curState r")
    case ParseReqLine
    then show ?thesis
      using eq IH parse_line_flag [of r b] by (auto split: sum.splits) blast+
  next
    case ParseReqHeader
    then show ?thesis
      using eq IH parse_header_flag [of r b] by (auto split: sum.splits) blast+
  next
    case ParseReqBody
    then show ?thesis using eq IH [of r b flag y] by auto
  next
    case ParseReqDone
    then show ?thesis using eq by auto
  qed
qed

lemma parse_loop_success:
  "parse_loop r b flag = Some (Inr (r', b', f)) \<Longrightarrow> (curState r = ParseReqDone \<Longrightarrow> flag) \<Longrightarrow>
   curState r' = ParseReqDone \<and> f"
  using parse_loop_success_raw by blast

section \<open>Properties\<close>

text \<open>
  C11: The parser reads back what a client prints: a request with up to 12 headers (tokens without
  blanks, keys without colons) at the front of the unread bytes is parsed into its method, URL,
  version and headers, in order, and exactly its bytes are consumed.
\<close>

theorem parse_print:
  assumes "buf_inv b" and "contents b = print_request m u v hs @ rest" and "request_ok m u v hs"
    and "length hs \<le> HeaderSize"
  shows "\<exists>r b'. parse_loop initHttpRequest b True = Some (Inr (r, b', True)) \<and>
     req_method r = Some m \<and> req_url r = Some u \<and> req_version r = Some v \<and>
     reqHeader r = map Some hs @ replicate (HeaderSize - length hs) None \<and> reqHeaderNum r = length hs \<and>
     curState r = ParseReqDone \<and> buf_inv b' \<and> contents b' = rest"
  using parse_loop_request [OF assms(1-3), of initHttpRequest True] assms(4)
  by (force simp: initHttpRequest_def resetHttpRequest_def blit_def)

text \<open>A block that holds the given bytes and nothing else.\<close>

definition holding :: "char list \<Rightarrow> buffer" where
  "holding bs = \<lparr>data = bs, capacity = int (length bs), readPos = 0, writePos = int (length bs)\<rparr>"

lemma holding_inv: "length bs \<le> 1000 \<Longrightarrow> buf_inv (holding bs)" "contents (holding bs) = bs"
  by (simp_all add: holding_def buf_inv_def contents_def window_def int32_def)

lemma sample_request_ok: "request_ok ''GET'' ''/a.html'' ''HTTP/1.1'' [(''Host'', ''localhost:80'')]"
  by (simp add: request_ok_def token_def header_ok_def)

theorem parse_print_witness:
  "\<exists>r b'. parse_loop initHttpRequest (holding (print_request ''GET'' ''/a.html'' ''HTTP/1.1'' [(''Host'', ''localhost:80'')])) True =
     Some (Inr (r, b', True)) \<and> req_url r = Some ''/a.html'' \<and> contents b' = []"
  using parse_print [OF holding_inv(1) holding_inv(2) [of "print_request ''GET'' ''/a.html'' ''HTTP/1.1'' [(''Host'', ''localhost:80'')] @ []"]
      sample_request_ok]
  by (force simp: print_request_def print_header_def HeaderSize_def)

text \<open>
  C38: A request that arrives cut off anywhere in its header section makes the server's thread spin
  forever: the loop keeps asking for a line that is not in the buffer.
\<close>

theorem parse_cut_off_hangs:
  assumes "buf_inv b" and "contents b = m @ '' '' @ u @ '' '' @ v @ CRLF @ concat (map print_header hs) @ tail"
    and "memmem tail CRLF = None" and "request_ok m u v hs" and "length hs \<le> HeaderSize"
  shows "parse_loop initHttpRequest b True = None"
  using parse_loop_cut [OF assms(1-4), of initHttpRequest True] assms(5)
  by (simp add: initHttpRequest_def resetHttpRequest_def)

theorem parse_cut_off_hangs_witness:
  "parse_loop initHttpRequest (holding (''GET / HTTP/1.1'' @ CRLF @ ''Host: local'')) True = None"
proof -
  have "request_ok ''GET'' ''/'' ''HTTP/1.1'' []" by (simp add: request_ok_def token_def)
  moreover have "memmem ''Host: local'' CRLF = None" by simp
  ultimately show ?thesis
    using parse_cut_off_hangs [OF holding_inv, where m = "''GET''" and u = "''/''" and v = "''HTTP/1.1''" and hs = "[]" and tail = "''Host: local''"]
    by simp
qed

text \<open>
  A request with more than 12 headers is a write behind the end of the header array, whatever
  follows them.
\<close>

lemma parse_many_headers_overflow:
  assumes "buf_inv b" and "contents b = m @ '' '' @ u @ '' '' @ v @ CRLF @ concat (map print_header hs) @ rest"
    and "request_ok m u v hs" and "HeaderSize < length hs"
  shows "parse_loop initHttpRequest b True = Some (Inl OutOfBounds)"
proof -
  let ?r = "initHttpRequest\<lparr>req_method := Some m, req_url := Some u, req_version := Some v, curState := ParseReqHeader\<rparr>"
  obtain b1 where b1: "parseHttpRequestLine initHttpRequest b = Inr (?r, b1, True)" "buf_inv b1"
      "contents b1 = concat (map print_header hs) @ rest"
    using parse_line_ok [OF assms(1), of m u v "concat (map print_header hs) @ rest" initHttpRequest] assms(2,3)
    by (auto simp: request_ok_def)
  have st: "curState initHttpRequest = ParseReqLine" by (simp add: initHttpRequest_def resetHttpRequest_def)
  have "parse_loop ?r b1 True = Some (Inl OutOfBounds)"
    using parse_loop_overflow [OF b1(2,3), of ?r True] assms(3,4)
    by (simp add: request_ok_def initHttpRequest_def resetHttpRequest_def)
  then show ?thesis by (simp add: parse_loop_line [OF st] b1(1))
qed

lemma parse_many_headers_overflow_witness:
  "parse_loop initHttpRequest (holding (''GET / HTTP/1.1'' @ CRLF @ concat (map print_header (replicate 13 (''k'', ''v''))))) True =
   Some (Inl OutOfBounds)"
proof -
  have "request_ok ''GET'' ''/'' ''HTTP/1.1'' (replicate 13 (''k'', ''v''))"
    by (simp add: request_ok_def token_def header_ok_def)
  moreover have "length (concat (map print_header (replicate 13 (''k'', ''v'')))) = 78"
    by (simp add: length_concat print_header_def sum_list_replicate)
  ultimately show ?thesis
    using parse_many_headers_overflow [OF holding_inv, where m = "''GET''" and u = "''/''" and v = "''HTTP/1.1''"
        and hs = "replicate 13 (''k'', ''v'')" and rest = "[]"]
    by (simp add: HeaderSize_def del: map_replicate)
qed

text \<open>
  Whatever bytes arrive, when the parser's loop returns without a fault it returns success
  with the request done: the branch that answers 400 Bad Request is never taken.
\<close>

lemma parse_never_reports_failure:
  assumes "parse_loop initHttpRequest b True = Some (Inr (r, b', flag))"
  shows "flag \<and> curState r = ParseReqDone"
  using parse_loop_success [OF assms] by simp

lemma parse_never_reports_failure_witness:
  "\<exists>r b' flag. parse_loop initHttpRequest (holding (print_request ''GET'' ''/'' ''HTTP/1.1'' [])) True = Some (Inr (r, b', flag)) \<and> flag"
proof -
  have ok: "request_ok ''GET'' ''/'' ''HTTP/1.1'' []" by (simp add: request_ok_def token_def)
  obtain r b' flag where "parse_loop initHttpRequest (holding (print_request ''GET'' ''/'' ''HTTP/1.1'' [])) True = Some (Inr (r, b', flag))"
    using parse_loop_request [OF holding_inv, where m = "''GET''" and u = "''/''" and v = "''HTTP/1.1''"
        and hs = "[]" and rest = "[]" and r = initHttpRequest and flag = True] ok
    by (auto simp: print_request_def initHttpRequest_def resetHttpRequest_def)
  with parse_never_reports_failure [OF this] show ?thesis by blast
qed

text \<open>
  Looking a header up returns the value of the first header that does \<open>not\<close> match the key:
  with the key of the first header, the second one's value.
\<close>

lemma header_lookup_inverted:
  assumes "reqHeader r = Some (k, v) # Some (k', v') # hs" and "reqHeaderNum r = 2"
    and "strncasecmp_eq k key (length (cstr key))" and "\<not> strncasecmp_eq k' key (length (cstr key))"
  shows "getHttpRequestHeader (Some r) key = Inr (Some v')"
  using assms by (simp add: getHttpRequestHeader_def numeral_2_eq_2)

lemma header_lookup_inverted_witness:
  "getHttpRequestHeader (Some (initHttpRequest\<lparr>reqHeader := [Some (''Host'', ''a''), Some (''Accept'', ''b'')], reqHeaderNum := 2\<rparr>)) ''host'' =
   Inr (Some ''b'')"
  by (rule header_lookup_inverted [where hs = "[]" and k = "''Host''" and v = "''a''" and k' = "''Accept''"])
    (simp_all add: strncasecmp_eq_def tolower_def char_of_def bit_0 cstr_def)

end
