(* ===== verification/Http_Response.thy ===== *)
theory Http_Response
  imports Http_Request
begin

text \<open>
  \<open>old/ReactorHttp_c/HttpResponse.c\<close> and the functions of \<open>HttpRequest.c\<close> that fill in
  and send a response. The record \<open>response\<close> is \<open>struct HttpResponse\<close>: its fixed arrays
  are the C strings they hold, and every write into one is checked against its size. The file
  system is an argument: \<open>fstat\<close>, \<open>fopen\<close> and \<open>fscandir\<close> are the system calls, and
  \<open>fread f n\<close> is the result of the n-th \<open>read\<close> of 1024 bytes of the file \<open>f\<close>
  (\<open>None\<close> for -1, the empty list at its end).
\<close>

section \<open>Building a response\<close>

datatype send_func = SendFile | SendDir

record response =
  StatusCode :: int
  StatusMsg :: string
  respHeaders :: "(string \<times> string) list"
  headerNum :: nat
  sendDataFunc :: "send_func option"
  fileName :: "string option"

record file_stat =
  st_isdir :: bool
  st_size :: int

record files =
  fstat :: "string \<Rightarrow> file_stat option"
  fopen :: "string \<Rightarrow> int"
  fread :: "string \<Rightarrow> nat \<Rightarrow> char list option"
  fscandir :: "string \<Rightarrow> string list option"

definition Header :: nat where "Header = 16"
definition Unkonw :: int where "Unkonw = 0"
definition OK :: int where "OK = 200"
definition NotFound :: int where "NotFound = 404"

text \<open>\<open>fileName\<close> is the one field the constructor does not write.\<close>

definition initHttpResponse :: response where
  "initHttpResponse =
     \<lparr>StatusCode = Unkonw, StatusMsg = [], respHeaders = replicate Header ([], []), headerNum = 0,
      sendDataFunc = None, fileName = None\<rparr>"

text \<open>The guard is a disjunction: one pointer that is not NULL lets all three be followed.\<close>

definition addHeaderHttpResponse ::
  "response option \<Rightarrow> string option \<Rightarrow> string option \<Rightarrow> response option result" where
  "addHeaderHttpResponse rp key value =
     (if rp \<noteq> None \<or> key \<noteq> None \<or> value \<noteq> None then
        rbind (deref rp) (\<lambda>r.
        if headerNum r < length (respHeaders r) then
          rbind (deref key) (\<lambda>k.
          rbind (into_array 32 k) (\<lambda>k'.
          rbind (deref value) (\<lambda>v.
          rbind (into_array 128 v) (\<lambda>v'.
            Inr (Some (r\<lparr>respHeaders := (respHeaders r)[headerNum r := (k', v')],
                         headerNum := headerNum r + 1\<rparr>))))))
        else Inl OutOfBounds)
      else Inr rp)"

definition add_header :: "response \<Rightarrow> string \<Rightarrow> string \<Rightarrow> response result" where
  "add_header r k v = rbind (addHeaderHttpResponse (Some r) (Some k) (Some v)) deref"

lemma add_header_ok [mem_simps]:
  "headerNum r < length (respHeaders r) \<Longrightarrow> NUL \<notin> set k \<Longrightarrow> length k < 32 \<Longrightarrow> NUL \<notin> set v \<Longrightarrow>
   length v < 128 \<Longrightarrow>
   add_header r k v = Inr (r\<lparr>respHeaders := (respHeaders r)[headerNum r := (k, v)], headerNum := headerNum r + 1\<rparr>)"
  by (simp add: add_header_def addHeaderHttpResponse_def mem_simps)

text \<open>
  \<open>processHttpRequest\<close>. The file handed to \<open>stat\<close> begins at the second character of the block
  with the decoded URL; a block that ends there is left. \<open>%d\<close> prints the low 32 bits of the
  size. The result is \<open>None\<close> where the end is reached without a \<open>return\<close>.
\<close>

definition url_file :: "char list \<Rightarrow> string result" where
  "url_file mem =
     (if cstr mem = ''/'' then Inr ''./''
      else if NUL \<in> set (tl mem) then Inr (cstr (tl mem)) else Inl OutOfBounds)"

definition processHttpRequest ::
  "files \<Rightarrow> request \<Rightarrow> response \<Rightarrow> (request \<times> response \<times> bool option) result" where
  "processHttpRequest F r resp =
     rbind (deref (req_method r)) (\<lambda>m.
       if \<not> strcasecmp_eq m ''get'' then Inr (r, resp, Some False)
       else
         rbind (deref (req_url r)) (\<lambda>u0.
         rbind (decodeMsg (u0 @ [NUL]) 0 0) (\<lambda>mem.
         let u = cstr mem; r' = r\<lparr>req_url := Some u\<rparr> in
         rbind (url_file mem) (\<lambda>file.
           case fstat F file of
             None \<Rightarrow>
               rbind (into_array 128 ''Not Found'') (\<lambda>msg.
               rbind (into_array 128 ''404.html'') (\<lambda>name.
               rbind (add_header (resp\<lparr>StatusCode := NotFound, StatusMsg := msg, fileName := Some name\<rparr>)
                        ''Content-type'' (getFileType ''.html'')) (\<lambda>resp1.
                 Inr (r', resp1\<lparr>sendDataFunc := Some SendFile\<rparr>, Some True))))
           | Some st \<Rightarrow>
               rbind (into_array 128 ''OK'') (\<lambda>msg.
               rbind (into_array 128 file) (\<lambda>name.
               let resp1 = resp\<lparr>StatusCode := OK, StatusMsg := msg, fileName := Some name\<rparr> in
               if st_isdir st then
                 rbind (add_header resp1 ''Content-type'' (getFileType ''.html'')) (\<lambda>resp2.
                   Inr (r', resp2\<lparr>sendDataFunc := Some SendDir\<rparr>, None))
               else
                 rbind (into_array 12 (dec (wrap32 (st_size st)))) (\<lambda>tmp.
                 rbind (add_header resp1 ''Content-type'' (getFileType file)) (\<lambda>resp2.
                 rbind (add_header resp2 ''Content-length'' tmp) (\<lambda>resp3.
                   Inr (r', resp3\<lparr>sendDataFunc := Some SendFile\<rparr>, None))))))))))"

section \<open>Sending it\<close>

text \<open>A piece written to the buffer and sent on at once; the result of the send is dropped.\<close>

definition append_send_bytes :: "alloc \<Rightarrow> send_oracle \<Rightarrow> int \<Rightarrow> buffer \<times> os \<Rightarrow> char list \<Rightarrow> (buffer \<times> os) result" where
  "append_send_bytes al K cfd = (\<lambda>(b, s) xs.
     rbind (append_bytes al b xs) (\<lambda>b1.
     rbind (sendDataBuffer K b1 cfd s) (\<lambda>(b2, s2, _). Inr (b2, s2))))"

definition append_send_string :: "alloc \<Rightarrow> send_oracle \<Rightarrow> int \<Rightarrow> buffer \<times> os \<Rightarrow> string \<Rightarrow> (buffer \<times> os) result" where
  "append_send_string al K cfd = (\<lambda>(b, s) xs.
     rbind (append_string al b xs) (\<lambda>b1.
     rbind (sendDataBuffer K b1 cfd s) (\<lambda>(b2, s2, _). Inr (b2, s2))))"

text \<open>
  The reading loop of \<open>sendFile\<close>: after a failed \<open>read\<close> it closes the connection's
  descriptor and reads again. \<open>None\<close> when it never ends.
\<close>

partial_function (option) read_loop ::
  "files \<Rightarrow> alloc \<Rightarrow> send_oracle \<Rightarrow> string \<Rightarrow> int \<Rightarrow> nat \<Rightarrow> buffer \<times> os \<Rightarrow> (buffer \<times> os) result option" where
  "read_loop F al K name cfd n st =
     (case fread F name n of
        None \<Rightarrow> read_loop F al K name cfd (n + 1)
                  (fst st, (snd st)\<lparr>os_closed := os_closed (snd st) @ [cfd]\<rparr>)
      | Some chunk \<Rightarrow>
          if chunk = [] then Some (Inr st)
          else case append_send_bytes al K cfd st chunk of
                 Inl e \<Rightarrow> Some (Inl e)
               | Inr st' \<Rightarrow> read_loop F al K name cfd (n + 1) st')"

definition sendFile :: "files \<Rightarrow> alloc \<Rightarrow> send_oracle \<Rightarrow> string \<Rightarrow> int \<Rightarrow> buffer \<times> os \<Rightarrow> (buffer \<times> os) result" where
  "sendFile F al K namefile cfd st =
     (let f = fopen F namefile in
      if \<not> 0 < f then Inl AssertFail
      else
        rbind (returned (read_loop F al K namefile cfd 0 st)) (\<lambda>(b, s).
          Inr (b, s\<lparr>os_closed := os_closed s @ [f]\<rparr>)))"

text \<open>
  \<open>sendDir\<close>: \<open>buf\<close> holds the text written so far and not sent; \<open>st\<close> is read even where
  \<open>stat\<close> failed and left it unwritten.
\<close>

definition dir_head :: "string \<Rightarrow> string" where
  "dir_head dirName = ''<html><head><title>'' @ dirName @ ''</title></head><body><table>''"

definition dir_tail :: string where
  "dir_tail = ''</table></body></html>''"

definition dir_row :: "string \<Rightarrow> bool \<Rightarrow> int \<Rightarrow> string" where
  "dir_row name isdir sz =
     ''<tr><td><a href='' @ [CHR 0x22] @ name @ (if isdir then ''/'' else []) @ [CHR 0x22] @ ''>'' @ name @
     ''</a></td><td>'' @ dec (wrap32 sz) @ ''</td></tr>''"

fun dir_entries ::
  "files \<Rightarrow> alloc \<Rightarrow> send_oracle \<Rightarrow> string \<Rightarrow> int \<Rightarrow> string list \<Rightarrow> string \<Rightarrow> buffer \<times> os \<Rightarrow>
   (buffer \<times> os) result" where
  "dir_entries F al K dirName cfd [] buf st = Inr st"
| "dir_entries F al K dirName cfd (name # names) buf st =
     rbind (into_array 1024 (dirName @ ''/'' @ name)) (\<lambda>subPath.
     case fstat F subPath of
       None \<Rightarrow> Inl Uninit
     | Some info \<Rightarrow>
         rbind (into_array 4096 (buf @ dir_row name (st_isdir info) (st_size info))) (\<lambda>buf1.
         rbind (append_send_string al K cfd st buf1) (\<lambda>st1.
           dir_entries F al K dirName cfd names [] st1)))"

definition sendDir :: "files \<Rightarrow> alloc \<Rightarrow> send_oracle \<Rightarrow> string \<Rightarrow> int \<Rightarrow> buffer \<times> os \<Rightarrow> (buffer \<times> os) result" where
  "sendDir F al K dirName cfd st =
     rbind (into_array 4096 (dir_head dirName)) (\<lambda>buf.
     rbind (dir_entries F al K dirName cfd (case fscandir F dirName of None \<Rightarrow> [] | Some ns \<Rightarrow> ns) buf st) (\<lambda>st1.
     rbind (into_array 4096 dir_tail) (\<lambda>buf1.
     rbind (append_send_string al K cfd st1 buf1) (\<lambda>st2.
       case fscandir F dirName of None \<Rightarrow> Inl WildPointer | Some _ \<Rightarrow> Inr st2))))"

text \<open>\<open>prepareMsgHttpResponse\<close>: the status line, the headers, the empty line, one send, the body.\<close>

definition status_line :: "response \<Rightarrow> string" where
  "status_line resp = ''HTTP/1.1 '' @ dec (StatusCode resp) @ '' '' @ StatusMsg resp @ CRLF"

definition header_line :: "string \<times> string \<Rightarrow> string" where
  "header_line h = fst h @ '': '' @ snd h @ CRLF"

definition call_send ::
  "files \<Rightarrow> alloc \<Rightarrow> send_oracle \<Rightarrow> send_func option \<Rightarrow> string option \<Rightarrow> int \<Rightarrow> buffer \<times> os \<Rightarrow> (buffer \<times> os) result" where
  "call_send F al K f name cfd st =
     (case f of
        None \<Rightarrow> Inl NullDeref
      | Some g \<Rightarrow>
          (case name of
             None \<Rightarrow> Inl Uninit
           | Some n \<Rightarrow> (case g of SendFile \<Rightarrow> sendFile F al K n cfd st | SendDir \<Rightarrow> sendDir F al K n cfd st)))"

definition append_line :: "alloc \<Rightarrow> buffer \<Rightarrow> string \<Rightarrow> buffer result" where
  "append_line al b line = rbind (into_array 1024 line) (\<lambda>tmp. append_string al b tmp)"

definition prepareMsgHttpResponse ::
  "files \<Rightarrow> alloc \<Rightarrow> send_oracle \<Rightarrow> response \<Rightarrow> int \<Rightarrow> buffer \<times> os \<Rightarrow> (buffer \<times> os) result" where
  "prepareMsgHttpResponse F al K resp cfd = (\<lambda>(b, s).
     rbind (append_line al b (status_line resp)) (\<lambda>b1.
     rbind (put_all (append_line al) b1 (map header_line (take (headerNum resp) (respHeaders resp)))) (\<lambda>b2.
     rbind (append_string al b2 CRLF) (\<lambda>b3.
     rbind (sendDataBuffer K b3 cfd s) (\<lambda>(b4, s4, _).
       call_send F al K (sendDataFunc resp) (fileName resp) cfd (b4, s4))))))"

text \<open>
  \<open>parseHttpRequest\<close>: the parser's loop, then processing (its result is dropped) and the
  response.
\<close>

definition parseHttpRequest ::
  "files \<Rightarrow> alloc \<Rightarrow> send_oracle \<Rightarrow> request \<Rightarrow> buffer \<Rightarrow> buffer \<Rightarrow> response \<Rightarrow> int \<Rightarrow> os \<Rightarrow>
   (request \<times> buffer \<times> buffer \<times> response \<times> os \<times> bool) result" where
  "parseHttpRequest F al K r readbuf writebuf resp socket s =
     rbind (returned (parse_loop r readbuf True)) (\<lambda>(r1, rb1, flag).
       if \<not> flag then Inr (r1, rb1, writebuf, resp, s, flag)
       else
         rbind (if curState r1 = ParseReqDone then
                  rbind (processHttpRequest F r1 resp) (\<lambda>(r2, resp2, _).
                  rbind (prepareMsgHttpResponse F al K resp2 socket (writebuf, s)) (\<lambda>(wb2, s2).
                    Inr (r2, wb2, resp2, s2)))
                else Inr (r1, writebuf, resp, s)) (\<lambda>(r2, wb2, resp2, s2).
           Inr (r2\<lparr>curState := ParseReqLine\<rparr>, rb1, wb2, resp2, s2, flag)))"

section \<open>What reaches the client\<close>

text \<open>
  A kernel that takes every send in full, and a buffer with nothing unread: the state between the
  pieces of a response.
\<close>

definition accepts_all :: "send_oracle \<Rightarrow> bool" where
  "accepts_all K \<longleftrightarrow> (\<forall>n len. K n len = int len)"

definition drained :: "buffer \<Rightarrow> nat \<Rightarrow> bool" where
  "drained b cap \<longleftrightarrow> buf_inv b \<and> contents b = [] \<and> int cap \<le> capacity b"

lemma drained_room: "drained b cap \<Longrightarrow> n \<le> cap \<Longrightarrow> room al b (int n)"
  using length_contents [of b] by (auto simp: drained_def room_def no_overlap_def can_grow_def buf_sizes buf_inv_def)

lemma send_all:
  assumes inv: "buf_inv b" and K: "accepts_all K"
  shows "\<exists>b' s'. sendDataBuffer K b fd s = Inr (b', s', int (length (contents b))) \<and> buf_inv b' \<and>
     contents b' = [] \<and> sent s fd (contents b) [] s' \<and> capacity b' = capacity b"
proof (cases "contents b = []")
  case True
  then show ?thesis using sendDataBuffer_empty [OF inv] inv by (simp add: sent_refl)
next
  case False
  have "b\<lparr>readPos := readPos b + K (sends s) (length (contents b))\<rparr> = advance b (length (contents b))"
    using K by (simp add: advance_def accepts_all_def)
  then show ?thesis
    using sendDataBuffer_eq [OF inv False, of K fd s] advance_ok [OF inv order_refl] K
    by (simp add: accepts_all_def advance_def sent_def)
qed

lemma append_send_ok:
  assumes b: "drained b cap" and xs: "length xs \<le> cap" and K: "accepts_all K"
  shows "\<exists>b' s'. append_send_bytes al K fd (b, s) xs = Inr (b', s') \<and> drained b' cap \<and>
     sent s fd xs [] s'"
proof -
  obtain b1 where b1: "append_bytes al b xs = Inr b1" "buf_inv b1" "contents b1 = xs" "capacity b \<le> capacity b1"
    using append_bytes_ok [OF _ drained_room [OF b xs], of al] b by (auto simp: drained_def)
  with send_all [OF b1(2) K, of fd s] b show ?thesis
    by (auto simp: append_send_bytes_def drained_def)
qed

lemma append_send_string_eq:
  "NUL \<notin> set xs \<Longrightarrow> int32 (int (length xs)) \<Longrightarrow> append_send_string al K fd (b, s) xs = append_send_bytes al K fd (b, s) xs"
  by (simp add: append_send_string_def append_send_bytes_def append_string_eq)

subsection \<open>Files\<close>

text \<open>The chunks \<open>read\<close> delivers from the n-th call on, up to the end of the file.\<close>

fun reads_from :: "files \<Rightarrow> string \<Rightarrow> nat \<Rightarrow> char list list \<Rightarrow> bool" where
  "reads_from F name n [] \<longleftrightarrow> fread F name n = Some []"
| "reads_from F name n (c # cs) \<longleftrightarrow> fread F name n = Some c \<and> c \<noteq> [] \<and> length c \<le> 1024 \<and>
     reads_from F name (n + 1) cs"

lemma read_loop_ok:
  assumes "reads_from F name n cs" and "drained b cap" and "1024 \<le> cap" and "accepts_all K"
  shows "\<exists>b' s'. read_loop F al K name cfd n (b, s) = Some (Inr (b', s')) \<and> drained b' cap \<and>
     sent s cfd (concat cs) [] s'"
  using assms(1,2)
proof (induction cs arbitrary: n b s)
  case Nil
  then show ?case by (simp add: read_loop.simps sent_refl)
next
  case (Cons c cs)
  obtain b1 s1 where 1: "append_send_bytes al K cfd (b, s) c = Inr (b1, s1)" "drained b1 cap" "sent s cfd c [] s1"
    using append_send_ok [OF Cons.prems(2) _ assms(4), of c al cfd s] Cons.prems(1) assms(3) by auto
  obtain b' s' where 2: "read_loop F al K name cfd (n + 1) (b1, s1) = Some (Inr (b', s'))" "drained b' cap"
      "sent s1 cfd (concat cs) [] s'"
    using Cons.IH [of "n + 1" b1 s1] Cons.prems 1(2) by auto
  have "read_loop F al K name cfd n (b, s) = Some (Inr (b', s'))"
    using Cons.prems 1(1) 2(1) by (simp add: read_loop.simps [of F al K name cfd n])
  with 2(2) sent_trans [OF 1(3) 2(3)] show ?case by simp
qed

lemma sendFile_ok:
  assumes "reads_from F name 0 cs" and "0 < fopen F name" and "drained b cap" and "1024 \<le> cap"
    and "accepts_all K"
  shows "\<exists>b' s'. sendFile F al K name cfd (b, s) = Inr (b', s') \<and> drained b' cap \<and>
     sent s cfd (concat cs) [fopen F name] s'"
  using read_loop_ok [OF assms(1,3,4,5), of al cfd s] assms(2)
  by (auto simp: sendFile_def Let_def sent_def)

text \<open>A file whose \<open>read\<close> keeps failing is never given up.\<close>

lemma read_loop_errors:
  assumes "\<And>k. n \<le> k \<Longrightarrow> fread F name k = None"
  shows "read_loop F al K name cfd n st = None"
proof (rule ccontr)
  assume "read_loop F al K name cfd n st \<noteq> None"
  then obtain y where y: "read_loop F al K name cfd n st = Some y" by blast
  have "\<not> (\<forall>k\<ge>n. fread F name k = None)"
  proof (rule read_loop.raw_induct [where P = "\<lambda>F al K name cfd n st y. \<not> (\<forall>k\<ge>n. fread F name k = None)", OF _ y])
    fix g :: "files \<Rightarrow> alloc \<Rightarrow> send_oracle \<Rightarrow> string \<Rightarrow> int \<Rightarrow> nat \<Rightarrow> buffer \<times> os \<Rightarrow> (buffer \<times> os) result option"
      and F al K name cfd n st y
    assume IH: "\<And>F al K name cfd n st y. g F al K name cfd n st = Some y \<Longrightarrow> \<not> (\<forall>k\<ge>n. fread F name k = None)"
      and eq: "(case fread F name n of
        None \<Rightarrow> g F al K name cfd (n + 1) (fst st, (snd st)\<lparr>os_closed := os_closed (snd st) @ [cfd]\<rparr>)
      | Some chunk \<Rightarrow>
          if chunk = [] then Some (Inr st)
          else case append_send_bytes al K cfd st chunk of
                 Inl e \<Rightarrow> Some (Inl e) | Inr st' \<Rightarrow> g F al K name cfd (n + 1) st') = Some y"
    show "\<not> (\<forall>k\<ge>n. fread F name k = None)"
    proof
      assume none: "\<forall>k\<ge>n. fread F name k = None"
      then have "g F al K name cfd (n + 1) (fst st, (snd st)\<lparr>os_closed := os_closed (snd st) @ [cfd]\<rparr>) = Some y"
        using eq by simp
      from IH [OF this] none show False by simp
    qed
  qed
  with assms show False by simp
qed

subsection \<open>Directories\<close>

definition dir_rows :: "files \<Rightarrow> string \<Rightarrow> string list \<Rightarrow> string" where
  "dir_rows F dirName names = concat (map (\<lambda>name.
     case fstat F (dirName @ ''/'' @ name) of
       None \<Rightarrow> [] | Some info \<Rightarrow> dir_row name (st_isdir info) (st_size info)) names)"

text \<open>Names short enough for the fixed arrays, of entries that still exist.\<close>

definition listable :: "files \<Rightarrow> string \<Rightarrow> string \<Rightarrow> bool" where
  "listable F dirName name \<longleftrightarrow> NUL \<notin> set name \<and> length name \<le> 255 \<and> fstat F (dirName @ ''/'' @ name) \<noteq> None"

lemma dir_row_ok: "NUL \<notin> set name \<Longrightarrow> length name \<le> 255 \<Longrightarrow>
    NUL \<notin> set (dir_row name isdir sz) \<and> length (dir_row name isdir sz) \<le> 600"
  using dec_length [OF int32_wrap32, of sz] by (auto simp: dir_row_def)

lemma dir_entries_ok:
  assumes "\<forall>name\<in>set names. listable F dirName name" and "drained b cap" and "4096 \<le> cap" and "accepts_all K"
    and "NUL \<notin> set dirName" and "length dirName \<le> 127"
    and "NUL \<notin> set buf" and "length buf \<le> 1000"
  shows "\<exists>b' s'. dir_entries F al K dirName cfd names buf (b, s) = Inr (b', s') \<and> drained b' cap \<and>
     sent s cfd (if names = [] then [] else buf @ dir_rows F dirName names) [] s'"
  using assms(1,2,7,8)
proof (induction names arbitrary: b s buf)
  case Nil
  then show ?case by (simp add: sent_refl)
next
  case (Cons name names)
  then obtain info where info: "fstat F (dirName @ ''/'' @ name) = Some info" "NUL \<notin> set name" "length name \<le> 255"
    by (auto simp: listable_def)
  let ?piece = "buf @ dir_row name (st_isdir info) (st_size info)"
  have row: "NUL \<notin> set ?piece" "length ?piece < 4096"
    using dir_row_ok [OF info(2,3), of "st_isdir info" "st_size info"] Cons.prems(3,4) by auto
  have sub: "into_array 1024 (dirName @ ''/'' @ name) = Inr (dirName @ ''/'' @ name)"
    using assms(5,6) info by (intro into_array_ok) auto
  have arr: "into_array 4096 ?piece = Inr ?piece" using row by (intro into_array_ok)
  obtain b1 s1 where 1: "append_send_bytes al K cfd (b, s) ?piece = Inr (b1, s1)" "drained b1 cap"
      "sent s cfd ?piece [] s1"
    using append_send_ok [OF Cons.prems(2) _ assms(4), of ?piece al cfd s] row(2) assms(3) by force
  have str: "append_send_string al K cfd (b, s) ?piece = Inr (b1, s1)"
    using append_send_string_eq [OF row(1), of al K cfd b s] row(2) 1(1) by (simp add: int32_def)
  obtain b' s' where 2: "dir_entries F al K dirName cfd names [] (b1, s1) = Inr (b', s')" "drained b' cap"
      "sent s1 cfd (if names = [] then [] else [] @ dir_rows F dirName names) [] s'"
    using Cons.IH [of b1 "[]" s1] Cons.prems(1) 1(2) by auto
  have "buf @ dir_rows F dirName (name # names) = ?piece @
      (if names = [] then [] else [] @ dir_rows F dirName names)"
    using info by (simp add: dir_rows_def)
  with sent_trans [OF 1(3) 2(3)] 2(1,2) show ?case
    using sub arr str info(1) by simp
qed

lemma dir_text_ok: "NUL \<notin> set d \<Longrightarrow> length d \<le> 127 \<Longrightarrow>
    NUL \<notin> set (dir_head d) \<and> length (dir_head d) \<le> 1000 \<and> NUL \<notin> set dir_tail \<and> length dir_tail \<le> 1000"
  by (simp add: dir_head_def dir_tail_def)

lemma sendDir_ok:
  assumes names: "fscandir F dirName = Some names" "\<forall>name\<in>set names. listable F dirName name"
    and b: "drained b cap" "4096 \<le> cap" and K: "accepts_all K"
    and d: "NUL \<notin> set dirName" "length dirName \<le> 127"
  shows "\<exists>b' s'. sendDir F al K dirName cfd (b, s) = Inr (b', s') \<and> drained b' cap \<and>
     sent s cfd (if names = [] then dir_tail else dir_head dirName @ dir_rows F dirName names @ dir_tail) [] s'"
proof -
  note bounds = dir_text_ok [OF d]
  obtain b1 s1 where 1: "dir_entries F al K dirName cfd names (dir_head dirName) (b, s) = Inr (b1, s1)"
      "drained b1 cap" "sent s cfd (if names = [] then [] else dir_head dirName @ dir_rows F dirName names) [] s1"
    using dir_entries_ok [OF names(2) b K d, of "dir_head dirName" al cfd s] bounds by auto
  obtain b2 s2 where 2: "append_send_bytes al K cfd (b1, s1) dir_tail = Inr (b2, s2)" "drained b2 cap"
      "sent s1 cfd dir_tail [] s2"
    using append_send_ok [OF 1(2) _ K, of dir_tail al cfd s1] bounds b(2) by force
  have "append_send_string al K cfd (b1, s1) dir_tail = Inr (b2, s2)"
    using append_send_string_eq [of dir_tail al K cfd b1 s1] bounds 2(1) by (simp add: int32_def)
  moreover have "into_array 4096 (dir_head dirName) = Inr (dir_head dirName)" "into_array 4096 dir_tail = Inr dir_tail"
    using bounds by (auto intro!: into_array_ok)
  moreover have "(if names = [] then [] else dir_head dirName @ dir_rows F dirName names) @ dir_tail =
      (if names = [] then dir_tail else dir_head dirName @ dir_rows F dirName names @ dir_tail)"
    by simp
  ultimately show ?thesis
    using 1(1) 2(2) names(1) sent_trans [OF 1(3) 2(3)] by (simp add: sendDir_def)
qed

subsection \<open>The head of a response\<close>

definition response_head :: "response \<Rightarrow> string" where
  "response_head resp = status_line resp @ concat (map header_line (take (headerNum resp) (respHeaders resp))) @ CRLF"

definition response_inv :: "response \<Rightarrow> bool" where
  "response_inv resp \<longleftrightarrow> int32 (StatusCode resp) \<and> NUL \<notin> set (StatusMsg resp) \<and> length (StatusMsg resp) < 128 \<and>
     length (respHeaders resp) = Header \<and> headerNum resp \<le> Header \<and>
     (\<forall>(k, v) \<in> set (respHeaders resp). NUL \<notin> set k \<and> length k < 32 \<and> NUL \<notin> set v \<and> length v < 128)"

lemma initHttpResponse_inv: "response_inv initHttpResponse"
  by (simp add: response_inv_def initHttpResponse_def int32_def Header_def Unkonw_def)

lemma response_line_ok:
  assumes "response_inv resp"
  shows "NUL \<notin> set (status_line resp) \<and> length (status_line resp) < 1024"
    and "h \<in> set (respHeaders resp) \<Longrightarrow> NUL \<notin> set (header_line h) \<and> length (header_line h) < 1024"
  using assms dec_length [of "StatusCode resp"]
  by (auto simp: response_inv_def status_line_def header_line_def)

lemma append_line_eq: "NUL \<notin> set l \<Longrightarrow> length l < 1024 \<Longrightarrow> append_line al b l = append_string al b l"
  by (simp add: append_line_def mem_simps)

lemma put_all_cong: "(\<And>b x. x \<in> set xs \<Longrightarrow> f b x = g b x) \<Longrightarrow> put_all f b xs = put_all g b xs"
  by (induction xs arbitrary: b) (auto intro!: rbind_cong)

text \<open>Everything up to the body: one append per line, then one send.\<close>

lemma response_head_sent:
  assumes inv: "response_inv resp" and b: "buf_inv b" "contents b = []" "roomy al b (length (response_head resp))"
    and K: "accepts_all K" and cap: "int cap \<le> capacity b"
  shows "\<exists>b' s'. prepareMsgHttpResponse F al K resp cfd (b, s) =
      call_send F al K (sendDataFunc resp) (fileName resp) cfd (b', s') \<and> drained b' cap \<and>
      sent s cfd (response_head resp) [] s'"
proof -
  let ?hs = "map header_line (take (headerNum resp) (respHeaders resp))"
  let ?lines = "[status_line resp] @ ?hs @ [CRLF]"
  note lines = response_line_ok [OF inv]
  have ok: "\<forall>l\<in>set ?lines. NUL \<notin> set l"
    using lines by (auto dest: in_set_takeD)
  have cc: "concat ?lines = response_head resp" by (simp add: response_head_def)
  obtain b3 where b3: "put_all (append_string al) b ?lines = Inr b3" "buf_inv b3" "contents b3 = response_head resp"
    using cstring.put_all_bytes [OF b(1), of al ?lines] b(2,3) ok unfolding cc by auto
  have hs: "put_all (append_line al) b1 ?hs = put_all (append_string al) b1 ?hs" for b1
    using lines(2) by (intro put_all_cong append_line_eq) (auto dest: in_set_takeD)
  have seq: "rbind (append_line al b (status_line resp)) (\<lambda>b1.
      rbind (put_all (append_line al) b1 ?hs) (\<lambda>b2. append_string al b2 CRLF)) = Inr b3"
  proof -
    have "put_all (append_string al) b ?lines = rbind (append_string al b (status_line resp)) (\<lambda>b1.
        rbind (put_all (append_string al) b1 ?hs) (\<lambda>b2. rbind (append_string al b2 CRLF) Inr))"
      unfolding put_all_append by (simp add: rbind_assoc)
    also have "(\<lambda>b2. rbind (append_string al b2 CRLF) Inr) = (\<lambda>b2. append_string al b2 CRLF)"
      by (simp add: fun_eq_iff rbind_def split: sum.split)
    finally show ?thesis using b3(1) lines(1) by (simp add: hs append_line_eq)
  qed
  have "prepareMsgHttpResponse F al K resp cfd (b, s) =
      rbind (rbind (append_line al b (status_line resp)) (\<lambda>b1.
        rbind (put_all (append_line al) b1 ?hs) (\<lambda>b2. append_string al b2 CRLF))) (\<lambda>b3.
      rbind (sendDataBuffer K b3 cfd s) (\<lambda>(b4, s4, _).
        call_send F al K (sendDataFunc resp) (fileName resp) cfd (b4, s4)))"
    by (simp add: prepareMsgHttpResponse_def rbind_assoc)
  also have "\<dots> = rbind (sendDataBuffer K b3 cfd s) (\<lambda>(b4, s4, _).
        call_send F al K (sendDataFunc resp) (fileName resp) cfd (b4, s4))"
    by (simp add: seq)
  finally have eq: "prepareMsgHttpResponse F al K resp cfd (b, s) = \<dots>" .
  have "capacity b \<le> capacity b3" using put_all_capacity [OF b3(1)] .
  then have cap3: "int cap \<le> capacity b3" using cap by simp
  obtain b4 s4 where send: "sendDataBuffer K b3 cfd s = Inr (b4, s4, int (length (response_head resp)))"
      "buf_inv b4" "contents b4 = []" "capacity b4 = capacity b3" "sent s cfd (response_head resp) [] s4"
    using send_all [OF b3(2) K, of cfd s] b3(3) by auto
  show ?thesis
    using eq send cap3 by (intro exI [of _ b4] exI [of _ s4]) (simp add: drained_def)
qed

section \<open>Properties\<close>

text \<open>
  A file whose \<open>read\<close> keeps failing hangs the thread that serves it: \<open>sendFile\<close> closes
  the client's descriptor after each failure and reads again.
\<close>

lemma sendFile_read_error_hangs:
  assumes "0 < fopen F name" and "\<forall>k. fread F name k = None"
  shows "sendFile F al K name cfd st = Inl Hang"
  using assms read_loop_errors [of 0 F name al K cfd st] by (simp add: sendFile_def Let_def returned_def)

lemma sendFile_read_error_hangs_witness:
  "sendFile \<lparr>fstat = (\<lambda>_. None), fopen = (\<lambda>_. 9), fread = (\<lambda>_ _. None), fscandir = (\<lambda>_. None)\<rparr> (\<lambda>_. True) (\<lambda>_ _. 0) ''d'' 7 (four_bytes, silent) = Inl Hang"
  by (rule sendFile_read_error_hangs) simp_all

end
