(* ===== verification/Http_Serve.thy ===== *)
theory Http_Serve
  imports Http_Response
begin

text \<open>
  What the C server answers: \<open>processHttpRequest\<close> on each of its branches, and
  \<open>parseHttpRequest\<close> from the bytes of a request to the bytes of the response.
\<close>

section \<open>The responses the server builds\<close>

definition file_response :: "string \<Rightarrow> int \<Rightarrow> response" where
  "file_response file sz =
     \<lparr>StatusCode = OK, StatusMsg = ''OK'',
      respHeaders = [(''Content-type'', getFileType file), (''Content-length'', dec (wrap32 sz))] @
        replicate 14 ([], []),
      headerNum = 2, sendDataFunc = Some SendFile, fileName = Some file\<rparr>"

definition dir_response :: "string \<Rightarrow> response" where
  "dir_response file =
     \<lparr>StatusCode = OK, StatusMsg = ''OK'',
      respHeaders = (''Content-type'', getFileType ''.html'') # replicate 15 ([], []),
      headerNum = 1, sendDataFunc = Some SendDir, fileName = Some file\<rparr>"

definition missing_response :: response where
  "missing_response =
     \<lparr>StatusCode = NotFound, StatusMsg = ''Not Found'',
      respHeaders = (''Content-type'', getFileType ''.html'') # replicate 15 ([], []),
      headerNum = 1, sendDataFunc = Some SendFile, fileName = Some ''404.html''\<rparr>"

text \<open>The file a request names: its URL decoded, without the first character.\<close>

definition names_file :: "string \<Rightarrow> string \<Rightarrow> bool" where
  "names_file u file \<longleftrightarrow> NUL \<notin> set u \<and>
     (case cstr (decode u) of [] \<Rightarrow> False | c # f \<Rightarrow> file = (if c = CHR ''/'' \<and> f = [] then ''./'' else f))"

lemma names_file_no_NUL: "names_file u file \<Longrightarrow> NUL \<notin> set file"
proof -
  assume a: "names_file u file"
  have "NUL \<notin> set (cstr (decode u))" by (rule cstr_no_NUL)
  with a show ?thesis
    by (cases "cstr (decode u)") (auto simp: names_file_def split: if_splits)
qed

lemma names_file_block:
  assumes "names_file u file" and "cstr mem = cstr (decode u)" and "NUL \<in> set mem"
  shows "url_file mem = Inr file"
proof (cases mem)
  case Nil
  with assms(3) show ?thesis by simp
next
  case (Cons c m)
  with assms show ?thesis
    by (auto simp: names_file_def url_file_def cstr_def split: if_splits list.splits)
qed

lemma process_get:
  assumes "req_method r = Some m" and "strcasecmp_eq m ''get''" and "req_url r = Some u" and "names_file u file"
  shows "processHttpRequest F r resp =
     (let r' = r\<lparr>req_url := Some (cstr (decode u))\<rparr> in
      case fstat F file of
        None \<Rightarrow>
          rbind (add_header (resp\<lparr>StatusCode := NotFound, StatusMsg := ''Not Found'', fileName := Some ''404.html''\<rparr>)
                   ''Content-type'' (getFileType ''.html'')) (\<lambda>resp1.
            Inr (r', resp1\<lparr>sendDataFunc := Some SendFile\<rparr>, Some True))
      | Some st \<Rightarrow>
          rbind (into_array 128 file) (\<lambda>name.
          let resp1 = resp\<lparr>StatusCode := OK, StatusMsg := ''OK'', fileName := Some name\<rparr> in
          if st_isdir st then
            rbind (add_header resp1 ''Content-type'' (getFileType ''.html'')) (\<lambda>resp2.
              Inr (r', resp2\<lparr>sendDataFunc := Some SendDir\<rparr>, None))
          else
            rbind (add_header resp1 ''Content-type'' (getFileType file)) (\<lambda>resp2.
            rbind (add_header resp2 ''Content-length'' (dec (wrap32 (st_size st)))) (\<lambda>resp3.
              Inr (r', resp3\<lparr>sendDataFunc := Some SendFile\<rparr>, None)))))"
proof -
  obtain m' where m': "decodeMsg (u @ [NUL]) 0 0 = Inr m'" "cstr m' = cstr (decode u)" "url_file m' = Inr file"
    using decodeMsg_in_place [of u "[]"] assms(4) names_file_block [OF assms(4)] by (auto simp: names_file_def)
  have "length (dec (wrap32 i)) < 12" for i using dec_length [OF int32_wrap32, of i] by simp
  then have "into_array 12 (dec (wrap32 i)) = Inr (dec (wrap32 i))" for i
    by (intro into_array_ok) auto
  moreover have "into_array 128 ''OK'' = Inr ''OK''" "into_array 128 ''Not Found'' = Inr ''Not Found''"
    "into_array 128 ''404.html'' = Inr ''404.html''"
    by (simp_all add: mem_simps)
  ultimately show ?thesis
    using assms m'
    by (cases "fstat F file"; cases "st_isdir (the (fstat F file))")
      (simp_all add: processHttpRequest_def names_file_def Let_def)
qed

lemma Content_type_ok:
  "headerNum r < length (respHeaders r) \<Longrightarrow> add_header r ''Content-type'' (getFileType file) =
     Inr (r\<lparr>respHeaders := (respHeaders r)[headerNum r := (''Content-type'', getFileType file)],
            headerNum := headerNum r + 1\<rparr>)"
  using getFileType_length [of "file"] by (simp add: mem_simps)

lemma Content_length_ok:
  "headerNum r < length (respHeaders r) \<Longrightarrow> add_header r ''Content-length'' (dec (wrap32 i)) =
     Inr (r\<lparr>respHeaders := (respHeaders r)[headerNum r := (''Content-length'', dec (wrap32 i))],
            headerNum := headerNum r + 1\<rparr>)"
  using dec_length [OF int32_wrap32, of i] by (simp add: mem_simps)

lemma headers_16: "replicate Header x = x # x # replicate 14 x"
  by (simp add: Header_def numeral_eq_Suc)

lemma process_file:
  assumes "req_method r = Some m" and "strcasecmp_eq m ''get''" and "req_url r = Some u" and "names_file u file"
    and "fstat F file = Some st" and "\<not> st_isdir st" and "length file < 128"
  shows "processHttpRequest F r initHttpResponse =
     Inr (r\<lparr>req_url := Some (cstr (decode u))\<rparr>, file_response file (st_size st), None)"
  unfolding process_get [OF assms(1-4)]
  using assms(5-7) names_file_no_NUL [OF assms(4)]
  by (simp add: Let_def mem_simps Content_type_ok Content_length_ok initHttpResponse_def headers_16 file_response_def)

lemma process_dir:
  assumes "req_method r = Some m" and "strcasecmp_eq m ''get''" and "req_url r = Some u" and "names_file u file"
    and "fstat F file = Some st" and "st_isdir st" and "length file < 128"
  shows "processHttpRequest F r initHttpResponse =
     Inr (r\<lparr>req_url := Some (cstr (decode u))\<rparr>, dir_response file, None)"
  unfolding process_get [OF assms(1-4)]
  using assms(5-7) names_file_no_NUL [OF assms(4)]
  by (simp add: Let_def mem_simps Content_type_ok initHttpResponse_def headers_16 dir_response_def numeral_eq_Suc)

lemma process_missing:
  assumes "req_method r = Some m" and "strcasecmp_eq m ''get''" and "req_url r = Some u" and "names_file u file"
    and "fstat F file = None"
  shows "processHttpRequest F r initHttpResponse =
     Inr (r\<lparr>req_url := Some (cstr (decode u))\<rparr>, missing_response, Some True)"
  unfolding process_get [OF assms(1-4)]
  using assms(5)
  by (simp add: Let_def mem_simps Content_type_ok initHttpResponse_def headers_16 missing_response_def numeral_eq_Suc)

lemma process_not_get:
  "req_method r = Some m \<Longrightarrow> \<not> strcasecmp_eq m ''get'' \<Longrightarrow>
   processHttpRequest F r resp = Inr (r, resp, Some False)"
  by (simp add: processHttpRequest_def)

lemma responses_inv:
  "length file < 128 \<Longrightarrow> response_inv (file_response file sz)"
  "response_inv (dir_response file)" "response_inv missing_response"
  using getFileType_length [of "file"] getFileType_length [of "''.html''"] dec_length [OF int32_wrap32, of sz]
  by (auto simp: response_inv_def file_response_def dir_response_def missing_response_def OK_def NotFound_def
      int32_def Header_def)

lemma dec_status: "dec 200 = ''200''" "dec 404 = ''404''"
  by (simp_all add: dec_def digits.simps char_of_def bit_0)

lemma head_file: "response_head (file_response file sz) =
    ''HTTP/1.1 200 OK'' @ CRLF @ ''Content-type: '' @ getFileType file @ CRLF @
    ''Content-length: '' @ dec (wrap32 sz) @ CRLF @ CRLF"
  by (simp add: response_head_def file_response_def status_line_def header_line_def OK_def dec_status numeral_eq_Suc)

lemma head_dir: "response_head (dir_response d) =
    ''HTTP/1.1 200 OK'' @ CRLF @ ''Content-type: text/html; charset=utf-8'' @ CRLF @ CRLF"
  by (simp add: response_head_def dir_response_def status_line_def header_line_def OK_def dec_status
      getFileType_extension [of "''html''" "[]", simplified] media_type_def media_types_def)

lemma head_missing: "response_head missing_response =
    ''HTTP/1.1 404 Not Found'' @ CRLF @ ''Content-type: text/html; charset=utf-8'' @ CRLF @ CRLF"
  by (simp add: response_head_def missing_response_def status_line_def header_line_def NotFound_def dec_status
      getFileType_extension [of "''html''" "[]", simplified] media_type_def media_types_def)

lemma head_file_length: "length (response_head (file_response file sz)) \<le> 120"
  using getFileType_length [of "file"] dec_length [OF int32_wrap32, of sz] by (simp add: head_file)

section \<open>From request to response\<close>

text \<open>
  A complete GET request at the front of the unread bytes, and a write buffer ready for a
  response whose head has \<open>n\<close> bytes.
\<close>

definition get_request :: "buffer \<Rightarrow> string \<Rightarrow> string \<Rightarrow> string \<Rightarrow> (string \<times> string) list \<Rightarrow> char list \<Rightarrow> bool" where
  "get_request rb m u v hs rest \<longleftrightarrow> buf_inv rb \<and> contents rb = print_request m u v hs @ rest \<and>
     request_ok m u v hs \<and> length hs \<le> HeaderSize \<and> strcasecmp_eq m ''get''"

definition ready :: "alloc \<Rightarrow> buffer \<Rightarrow> nat \<Rightarrow> nat \<Rightarrow> bool" where
  "ready al wb cap n \<longleftrightarrow> drained wb cap \<and> roomy al wb n"

definition parsed :: "string \<Rightarrow> string \<Rightarrow> string \<Rightarrow> (string \<times> string) list \<Rightarrow> request" where
  "parsed m u v hs =
     \<lparr>req_method = Some m, req_url = Some u, req_version = Some v,
      reqHeader = blit (replicate HeaderSize None) 0 (map Some hs), reqHeaderNum = length hs,
      curState = ParseReqDone\<rparr>"

lemma parse_get:
  assumes "get_request rb m u v hs rest"
  shows "\<exists>rb'. parse_loop initHttpRequest rb True = Some (Inr (parsed m u v hs, rb', True)) \<and>
     buf_inv rb' \<and> contents rb' = rest"
  using assms parse_loop_request [of rb m u v hs rest initHttpRequest True]
  by (simp add: get_request_def initHttpRequest_def resetHttpRequest_def parsed_def)

lemma serve:
  assumes req: "get_request rb m u v hs rest"
    and proc: "processHttpRequest F (parsed m u v hs) initHttpResponse = Inr (r2, resp, x)"
    and wb: "ready al wb cap (length (response_head resp))"
    and inv: "response_inv resp" and K: "accepts_all K"
    and body: "\<And>b s. drained b cap \<Longrightarrow> \<exists>b' s'.
      call_send F al K (sendDataFunc resp) (fileName resp) cfd (b, s) = Inr (b', s') \<and> drained b' cap \<and>
      sent s cfd body shut s'"
  shows "\<exists>rb' wb' s'. parseHttpRequest F al K initHttpRequest rb wb initHttpResponse cfd s =
      Inr (r2\<lparr>curState := ParseReqLine\<rparr>, rb', wb', resp, s', True) \<and>
      buf_inv rb' \<and> contents rb' = rest \<and> drained wb' cap \<and> sent s cfd (response_head resp @ body) shut s'"
proof -
  obtain rb' where rb': "parse_loop initHttpRequest rb True = Some (Inr (parsed m u v hs, rb', True))"
      "buf_inv rb'" "contents rb' = rest"
    using parse_get [OF req] by blast
  obtain b1 s1 where 1: "prepareMsgHttpResponse F al K resp cfd (wb, s) =
        call_send F al K (sendDataFunc resp) (fileName resp) cfd (b1, s1)"
      "drained b1 cap" "sent s cfd (response_head resp) [] s1"
    using response_head_sent [OF inv, of wb al K cap F cfd s] wb K by (auto simp: ready_def drained_def)
  obtain b' s' where 2: "call_send F al K (sendDataFunc resp) (fileName resp) cfd (b1, s1) = Inr (b', s')"
      "drained b' cap" "sent s1 cfd body shut s'"
    using body [OF 1(2)] by blast
  have "parseHttpRequest F al K initHttpRequest rb wb initHttpResponse cfd s =
      Inr (r2\<lparr>curState := ParseReqLine\<rparr>, rb', b', resp, s', True)"
    using rb'(1) proc 1(1) 2(1) by (simp add: parseHttpRequest_def parsed_def)
  with rb'(2,3) 2(2) sent_trans [OF 1(3) 2(3)] show ?thesis by auto
qed

lemma parsed_fields: "req_method (parsed m u v hs) = Some m" "req_url (parsed m u v hs) = Some u"
  by (simp_all add: parsed_def)

definition served :: "string \<Rightarrow> string \<Rightarrow> string \<Rightarrow> (string \<times> string) list \<Rightarrow> request" where
  "served m u v hs = (parsed m u v hs)\<lparr>req_url := Some (cstr (decode u)), curState := ParseReqLine\<rparr>"

lemma served_eq: "(parsed m u v hs)\<lparr>req_url := Some (cstr (decode u))\<rparr>\<lparr>curState := ParseReqLine\<rparr> = served m u v hs"
  by (simp add: served_def)

lemma written_slots_Some: "written_slots (map Some hs @ unused) (length hs) = Inr hs"
  by (induction hs) simp_all

lemma served_headers: "length hs \<le> HeaderSize \<Longrightarrow>
    written_slots (reqHeader (served m u v hs)) (reqHeaderNum (served m u v hs)) = Inr hs"
  by (simp add: served_def parsed_def blit_def written_slots_Some)

lemma serve_file:
  assumes req: "get_request rb m u v hs rest" and url: "names_file u file" "length file < 128"
    and info: "fstat F file = Some st" "\<not> st_isdir st"
    and wb: "ready al wb cap (length (response_head (file_response file (st_size st))))" "1024 \<le> cap"
    and K: "accepts_all K" and fl: "0 < fopen F file" "reads_from F file 0 cs"
  shows "\<exists>rb' wb' s'. parseHttpRequest F al K initHttpRequest rb wb initHttpResponse cfd s =
      Inr (served m u v hs, rb', wb', file_response file (st_size st), s', True) \<and>
      buf_inv rb' \<and> contents rb' = rest \<and> drained wb' cap \<and>
      sent s cfd (response_head (file_response file (st_size st)) @ concat cs) [fopen F file] s'"
proof (rule serve [of rb m u v hs rest F "(parsed m u v hs)\<lparr>req_url := Some (cstr (decode u))\<rparr>", unfolded served_eq, OF req _ wb(1) _ K])
  show "processHttpRequest F (parsed m u v hs) initHttpResponse =
      Inr ((parsed m u v hs)\<lparr>req_url := Some (cstr (decode u))\<rparr>, file_response file (st_size st), None)"
    using process_file [OF parsed_fields(1) _ parsed_fields(2) url(1) info url(2)] req
    by (simp add: get_request_def)
  show "response_inv (file_response file (st_size st))" by (rule responses_inv(1) [OF url(2)])
  show "\<exists>b' s'. call_send F al K (sendDataFunc (file_response file (st_size st)))
      (fileName (file_response file (st_size st))) cfd (b, s) = Inr (b', s') \<and> drained b' cap \<and>
      sent s cfd (concat cs) [fopen F file] s'" if "drained b cap" for b s
    using sendFile_ok [OF fl(2,1) that wb(2) K] by (simp add: call_send_def file_response_def)
qed

lemma serve_missing:
  assumes req: "get_request rb m u v hs rest" and url: "names_file u file" and info: "fstat F file = None"
    and wb: "ready al wb cap (length (response_head missing_response))" "1024 \<le> cap"
    and K: "accepts_all K" and fl: "0 < fopen F ''404.html''" "reads_from F ''404.html'' 0 cs"
  shows "\<exists>rb' wb' s'. parseHttpRequest F al K initHttpRequest rb wb initHttpResponse cfd s =
      Inr (served m u v hs, rb', wb', missing_response, s', True) \<and>
      buf_inv rb' \<and> contents rb' = rest \<and> drained wb' cap \<and>
      sent s cfd (response_head missing_response @ concat cs) [fopen F ''404.html''] s'"
proof (rule serve [of rb m u v hs rest F "(parsed m u v hs)\<lparr>req_url := Some (cstr (decode u))\<rparr>", unfolded served_eq, OF req _ wb(1) responses_inv(3) K])
  show "processHttpRequest F (parsed m u v hs) initHttpResponse =
      Inr ((parsed m u v hs)\<lparr>req_url := Some (cstr (decode u))\<rparr>, missing_response, Some True)"
    using process_missing [OF parsed_fields(1) _ parsed_fields(2) url(1) info] req
    by (simp add: get_request_def)
  show "\<exists>b' s'. call_send F al K (sendDataFunc missing_response) (fileName missing_response) cfd (b, s) =
      Inr (b', s') \<and> drained b' cap \<and> sent s cfd (concat cs) [fopen F ''404.html''] s'" if "drained b cap" for b s
    using sendFile_ok [OF fl(2,1) that wb(2) K] by (simp add: call_send_def missing_response_def)
qed

lemma serve_dir:
  assumes req: "get_request rb m u v hs rest" and url: "names_file u d" "length d < 128"
    and info: "fstat F d = Some st" "st_isdir st"
    and names: "fscandir F d = Some names" "\<forall>name\<in>set names. listable F d name" "names \<noteq> []"
    and wb: "ready al wb cap (length (response_head (dir_response d)))" "4096 \<le> cap" and K: "accepts_all K"
  shows "\<exists>rb' wb' s'. parseHttpRequest F al K initHttpRequest rb wb initHttpResponse cfd s =
      Inr (served m u v hs, rb', wb', dir_response d, s', True) \<and>
      buf_inv rb' \<and> contents rb' = rest \<and> drained wb' cap \<and>
      sent s cfd (response_head (dir_response d) @ dir_head d @ dir_rows F d names @ dir_tail) [] s'"
proof (rule serve [of rb m u v hs rest F "(parsed m u v hs)\<lparr>req_url := Some (cstr (decode u))\<rparr>", unfolded served_eq, OF req _ wb(1) responses_inv(2) K])
  show "processHttpRequest F (parsed m u v hs) initHttpResponse =
      Inr ((parsed m u v hs)\<lparr>req_url := Some (cstr (decode u))\<rparr>, dir_response d, None)"
    using process_dir [OF parsed_fields(1) _ parsed_fields(2) url(1) info url(2)] req
    by (simp add: get_request_def)
  show "\<exists>b' s'. call_send F al K (sendDataFunc (dir_response d)) (fileName (dir_response d)) cfd (b, s) =
      Inr (b', s') \<and> drained b' cap \<and> sent s cfd (dir_head d @ dir_rows F d names @ dir_tail) [] s'"
    if "drained b cap" for b s
    using sendDir_ok [OF names(1,2) that wb(2) K names_file_no_NUL [OF url(1)], of al cfd s] url(2) names(3)
    by (simp add: call_send_def dir_response_def)
qed

text \<open>
  A method other than GET leaves the response without a function to send the body: the headless
  response goes out, and the call through the NULL pointer ends the process.
\<close>

lemma serve_not_get:
  assumes rb: "buf_inv rb" "contents rb = print_request m u v hs @ rest" "request_ok m u v hs" "length hs \<le> HeaderSize"
    and m: "\<not> strcasecmp_eq m ''get''"
    and wb: "ready al wb cap (length (response_head initHttpResponse))" and K: "accepts_all K"
  shows "parseHttpRequest F al K initHttpRequest rb wb initHttpResponse cfd s = Inl NullDeref"
proof -
  obtain rb' where "parse_loop initHttpRequest rb True = Some (Inr (parsed m u v hs, rb', True))"
    using parse_loop_request [OF rb(1-3), of initHttpRequest True] rb(4)
    by (auto simp: initHttpRequest_def resetHttpRequest_def parsed_def)
  moreover have "processHttpRequest F (parsed m u v hs) initHttpResponse = Inr (parsed m u v hs, initHttpResponse, Some False)"
    using process_not_get [OF parsed_fields(1) m] .
  moreover have "prepareMsgHttpResponse F al K initHttpResponse cfd (wb, s) = Inl NullDeref"
    using response_head_sent [OF initHttpResponse_inv, of wb al K cap F cfd s] wb K
    by (auto simp: ready_def drained_def call_send_def initHttpResponse_def)
  ultimately show ?thesis by (simp add: parseHttpRequest_def parsed_def)
qed

text \<open>
  The page a client expects for a directory, as a reference: a title and a table with a row of a
  link and a size for each entry; \<open>text\<close> is how a size is printed.
\<close>

definition html_row :: "string \<times> bool \<times> string \<Rightarrow> string" where
  "html_row = (\<lambda>(name, isdir, size).
     (let link = (if isdir then name @ ''/'' else name) in
      ''<tr><td><a href='' @ [CHR 0x22] @ link @ [CHR 0x22] @ ''>'' @ name @ ''</a></td><td>'' @ size @ ''</td></tr>''))"

definition html_page :: "string \<Rightarrow> (string \<times> bool \<times> string) list \<Rightarrow> string" where
  "html_page title rows =
     ''<html><head><title>'' @ title @ ''</title></head><body><table>'' @ concat (map html_row rows) @ ''</table></body></html>''"

definition entries :: "files \<Rightarrow> string \<Rightarrow> (int \<Rightarrow> string) \<Rightarrow> string list \<Rightarrow> (string \<times> bool \<times> string) list" where
  "entries F d text names = map (\<lambda>name.
     let st = the (fstat F (d @ ''/'' @ name)) in (name, st_isdir st, text (st_size st))) names"

lemma listing_page:
  assumes "\<forall>name\<in>set names. listable F d name"
  shows "dir_head d @ dir_rows F d names @ dir_tail = html_page d (entries F d (\<lambda>n. dec (wrap32 n)) names)"
proof -
  have "dir_rows F d names = concat (map html_row (entries F d (\<lambda>n. dec (wrap32 n)) names))"
    using assms by (induction names) (auto simp: dir_rows_def entries_def html_row_def dir_row_def listable_def)
  then show ?thesis by (simp add: dir_head_def dir_tail_def html_page_def)
qed

section \<open>Properties\<close>

text \<open>
  C34: A complete GET request for an existing directory with at least one entry is answered with
  200 OK and the HTML page of its entries: one row per entry in the order \<open>scandir\<close> gave, with a
  link, which ends in a slash for a directory, and the low 32 bits of the size. Exactly the
  request's bytes are consumed and the write buffer is empty again.
\<close>

theorem get_directory_lists_it:
  assumes "get_request rb m u v hs rest" and "names_file u d" and "length d < 128"
    and "fstat F d = Some st" and "st_isdir st"
    and "fscandir F d = Some names" and "\<forall>name\<in>set names. listable F d name" and "names \<noteq> []"
    and "ready al wb cap (length (response_head (dir_response d)))" and "4096 \<le> cap" and "accepts_all K"
  shows "\<exists>rb' wb' s'. parseHttpRequest F al K initHttpRequest rb wb initHttpResponse cfd s =
      Inr (served m u v hs, rb', wb', dir_response d, s', True) \<and>
      contents rb' = rest \<and> contents wb' = [] \<and>
      sent s cfd (''HTTP/1.1 200 OK'' @ CRLF @ ''Content-type: text/html; charset=utf-8'' @ CRLF @ CRLF @
        html_page d (entries F d (\<lambda>n. dec (wrap32 n)) names)) [] s'"
  using serve_dir [OF assms(1-5) assms(6-11), of cfd s] listing_page [OF assms(7)] unfolding drained_def head_dir by force

definition all_sent :: send_oracle where "all_sent = (\<lambda>_ len. int len)"

definition empty_block :: "nat \<Rightarrow> buffer" where
  "empty_block n = \<lparr>data = replicate n NUL, capacity = int n, readPos = 0, writePos = 0\<rparr>"

lemma all_sent_ok: "accepts_all all_sent"
  by (simp add: accepts_all_def all_sent_def)

lemma empty_block_ready: "n \<le> 5000 \<Longrightarrow> ready (\<lambda>_. True) (empty_block 4096) 4096 n"
  by (simp add: ready_def drained_def empty_block_def buf_inv_def contents_def roomy_def int32_def)

text \<open>A request for \<open>u\<close> with no headers, and a file system with one directory of one file.\<close>

definition plain_get :: "string \<Rightarrow> string" where
  "plain_get u = print_request ''GET'' u ''HTTP/1.1'' []"

lemma plain_get_request:
  assumes "token u" and "length u \<le> 900"
  shows "get_request (holding (plain_get u)) ''GET'' u ''HTTP/1.1'' [] []"
proof -
  have "request_ok ''GET'' u ''HTTP/1.1'' []" using assms(1) by (simp add: request_ok_def token_def)
  moreover have "length (plain_get u) \<le> 1000" using assms(2) by (simp add: plain_get_def print_request_def)
  moreover have "strcasecmp_eq ''GET'' ''get''"
    by (simp add: strcasecmp_eq_def tolower_def char_of_def bit_0 cstr_def)
  ultimately show ?thesis by (simp add: get_request_def holding_inv plain_get_def)
qed

definition small_files :: files where
  "small_files =
     \<lparr>fstat = [''d'' \<mapsto> \<lparr>st_isdir = True, st_size = 4096\<rparr>, ''d/a.txt'' \<mapsto> \<lparr>st_isdir = False, st_size = 5\<rparr>],
      fopen = (\<lambda>_. 9), fread = (\<lambda>_ n. Some (if n = 0 then ''hello'' else [])),
      fscandir = [''d'' \<mapsto> [''a.txt'']]\<rparr>"

lemma names_d: "names_file ''/d'' ''d''"
  by (simp add: names_file_def)

lemma dec_5: "dec 5 = ''5''" "dec (wrap32 5) = ''5''"
  by (simp_all add: wrap32_id int32_def) (simp_all add: dec_def digits.simps char_of_def bit_0)

theorem get_directory_lists_it_witness:
  "\<exists>r rb' wb' resp s'. parseHttpRequest small_files (\<lambda>_. True) all_sent initHttpRequest (holding (plain_get ''/d''))
      (empty_block 4096) initHttpResponse 7 silent = Inr (r, rb', wb', resp, s', True) \<and> contents rb' = [] \<and>
     wire s' 7 = ''HTTP/1.1 200 OK'' @ CRLF @ ''Content-type: text/html; charset=utf-8'' @ CRLF @ CRLF @
       ''<html><head><title>d</title></head><body><table><tr><td><a href='' @ [CHR 0x22] @ ''a.txt'' @ [CHR 0x22] @
       ''>a.txt</a></td><td>5</td></tr></table></body></html>''"
proof -
  have "token ''/d''" by (simp add: token_def)
  note req = plain_get_request [OF this]
  have "\<forall>name\<in>set [''a.txt'']. listable small_files ''d'' name" by (simp add: listable_def small_files_def)
  from get_directory_lists_it [OF req names_d _ _ _ _ this _ empty_block_ready _ all_sent_ok, where cfd = 7 and s = silent]
  have "\<exists>rb' wb' s'. parseHttpRequest small_files (\<lambda>_. True) all_sent initHttpRequest (holding (plain_get ''/d''))
      (empty_block 4096) initHttpResponse 7 silent = Inr (served ''GET'' ''/d'' ''HTTP/1.1'' [], rb', wb', dir_response ''d'', s', True) \<and>
      contents rb' = [] \<and> contents wb' = [] \<and>
      sent silent 7 (''HTTP/1.1 200 OK'' @ CRLF @ ''Content-type: text/html; charset=utf-8'' @ CRLF @ CRLF @
        html_page ''d'' (entries small_files ''d'' (\<lambda>n. dec (wrap32 n)) [''a.txt''])) [] s'"
    by (simp add: small_files_def head_dir)
  moreover have "html_page ''d'' (entries small_files ''d'' (\<lambda>n. dec (wrap32 n)) [''a.txt'']) =
      ''<html><head><title>d</title></head><body><table><tr><td><a href='' @ [CHR 0x22] @ ''a.txt'' @ [CHR 0x22] @
       ''>a.txt</a></td><td>5</td></tr></table></body></html>''"
    by (simp add: html_page_def entries_def html_row_def small_files_def dec_5)
  ultimately show ?thesis by (auto simp: sent_def silent_def)
qed

text \<open>
  A complete GET request for a file that does not exist is answered with 404 Not Found and
  the contents of \<open>404.html\<close>, which the server must have.
\<close>

lemma get_missing_404:
  assumes "get_request rb m u v hs rest" and "names_file u file" and "fstat F file = None"
    and "ready al wb cap (length (response_head missing_response))" and "1024 \<le> cap"
    and "accepts_all K" and "0 < fopen F ''404.html''" and "reads_from F ''404.html'' 0 cs"
  shows "\<exists>rb' wb' s'. parseHttpRequest F al K initHttpRequest rb wb initHttpResponse cfd s =
      Inr (served m u v hs, rb', wb', missing_response, s', True) \<and>
      contents rb' = rest \<and> contents wb' = [] \<and>
      sent s cfd (''HTTP/1.1 404 Not Found'' @ CRLF @ ''Content-type: text/html; charset=utf-8'' @ CRLF @ CRLF @ concat cs)
        [fopen F ''404.html''] s'"
  using serve_missing [OF assms(1-8), of cfd s] unfolding drained_def head_missing by force

lemma get_missing_404_witness:
  "\<exists>r rb' wb' resp s'. parseHttpRequest small_files (\<lambda>_. True) all_sent initHttpRequest (holding (plain_get ''/x''))
      (empty_block 4096) initHttpResponse 7 silent = Inr (r, rb', wb', resp, s', True) \<and> StatusCode resp = 404"
proof -
  have "token ''/x''" "names_file ''/x'' ''x''" by (simp_all add: token_def names_file_def)
  moreover have "fstat small_files ''x'' = None" "0 < fopen small_files ''404.html''"
    "reads_from small_files ''404.html'' 0 [''hello'']"
    by (simp_all add: small_files_def)
  moreover have "StatusCode missing_response = 404" by (simp add: missing_response_def NotFound_def)
  moreover have "length (response_head missing_response) \<le> 5000" by (simp add: head_missing)
  ultimately show ?thesis
    using get_missing_404 [OF plain_get_request _ _ empty_block_ready _ all_sent_ok, of "''/x''" "''x''" small_files "[''hello'']" 7 silent]
    by simp blast
qed

text \<open>
  Any method other than GET ends the process: \<open>processHttpRequest\<close> reports a failure that
  its caller drops, the response has no function to send a body, and it is called through NULL.
\<close>

lemma other_methods_crash:
  assumes "buf_inv rb" and "contents rb = print_request m u v hs @ rest" and "request_ok m u v hs"
    and "length hs \<le> HeaderSize" and "\<not> strcasecmp_eq m ''get''"
    and "ready al wb cap (length (response_head initHttpResponse))" and "accepts_all K"
  shows "parseHttpRequest F al K initHttpRequest rb wb initHttpResponse cfd s = Inl NullDeref"
  using assms by (rule serve_not_get)

lemma other_methods_crash_witness:
  "parseHttpRequest small_files (\<lambda>_. True) all_sent initHttpRequest (holding (print_request ''POST'' ''/d'' ''HTTP/1.1'' []))
      (empty_block 4096) initHttpResponse 7 silent = Inl NullDeref"
proof -
  have "request_ok ''POST'' ''/d'' ''HTTP/1.1'' []" by (simp add: request_ok_def token_def)
  moreover have "\<not> strcasecmp_eq ''POST'' ''get''" by (simp add: strcasecmp_eq_def)
  moreover have "length (response_head initHttpResponse) \<le> 5000"
    using dec_length [of 0]
    by (simp add: response_head_def status_line_def initHttpResponse_def Unkonw_def int32_def Header_def)
  moreover have "length (print_request ''POST'' ''/d'' ''HTTP/1.1'' []) \<le> 1000" by (simp add: print_request_def)
  ultimately show ?thesis
    using other_methods_crash [OF holding_inv(1), of "print_request ''POST'' ''/d'' ''HTTP/1.1'' []" "''POST''" "''/d''" "''HTTP/1.1''" "[]" "[]"
        "\<lambda>_. True" "empty_block 4096" 4096 all_sent small_files 7 silent] empty_block_ready all_sent_ok
    by (simp add: holding_inv(2))
qed

end
