(* ===== verification/Tcp_Connection.thy ===== *)
theory Tcp_Connection
  imports Http_Serve Dispatcher_Contract Epoll_Dispatch
begin

text \<open>
  \<open>old/ReactorHttp_c/TcpConnection.c\<close>, compiled as the repository has it
  (\<open>_SEND_MSG_AUTO\<close> is not defined). The record \<open>conn\<close> is \<open>struct TcpConnection\<close>; the
  connections live on a heap of their own in the loop that owns them (\<open>tcp_loop\<close>), next to the
  bytes sent and the number of \<open>readv\<close> calls made. \<open>world\<close> gathers what the code asks
  of its environment; \<open>w_debug\<close> is the switch \<open>DEBUG\<close> of \<open>Log.h\<close>, which the
  repository sets to 1: it decides whether the arguments of the log lines are read.
\<close>

record conn =
  conn_readBuf :: "buffer option"
  conn_writeBuf :: "buffer option"
  conn_channel :: nat
  conn_name :: string
  conn_req :: request
  conn_resp :: response

record 'd tcp_loop = "'d eloop" +
  conns :: "nat \<rightharpoonup> conn"
  freshconn :: nat
  net :: os
  recvs :: nat

record world =
  w_al :: alloc
  w_junk :: junk
  w_files :: files
  w_send :: send_oracle
  w_recv :: "nat \<Rightarrow> int \<Rightarrow> char list option"
  w_debug :: bool

definition conn_at :: "('d, 'a) tcp_loop_scheme \<Rightarrow> nat \<Rightarrow> conn result" where
  "conn_at l c = (case conns l c of None \<Rightarrow> Inl UseAfterFree | Some x \<Rightarrow> Inr x)"

section \<open>The operations\<close>

text \<open>Freeing a request frees the headers in use; the other frees cannot fail.\<close>

definition destroyHttpRequest :: "request option \<Rightarrow> unit result" where
  "destroyHttpRequest rp =
     (case rp of None \<Rightarrow> Inr () | Some r \<Rightarrow> rbind (resetHttpRequestEX r) (\<lambda>_. Inr ()))"

definition release_conn :: "conn \<Rightarrow> ('d, 'a) eloop_scheme \<Rightarrow> ('d, 'a) eloop_scheme result" where
  "release_conn conn l =
     (case (conn_readBuf conn, conn_writeBuf conn) of
        (Some rb, Some wb) \<Rightarrow>
          if bufferReadAbleSize rb = 0 \<and> bufferReadAbleSize wb = 0
          then rbind (destroyHttpRequest (Some (conn_req conn))) (\<lambda>_. destroyChannel l (conn_channel conn))
          else Inr l
      | _ \<Rightarrow> Inr l)"

definition detroyTcpConnection ::
  "world \<Rightarrow> nat \<Rightarrow> ('d, 'a) tcp_loop_scheme \<Rightarrow> (('d, 'a) tcp_loop_scheme \<times> int) result" where
  "detroyTcpConnection W c l =
     rbind (conn_at l c) (\<lambda>conn.
     rbind (release_conn conn l) (\<lambda>l1.
       let l2 = l1\<lparr>conns := (conns l1)(c := None)\<rparr> in
       rbind (if w_debug W then rbind (conn_at l2 c) (\<lambda>freed. Inr ()) else Inr ()) (\<lambda>_. Inr (l2, 0))))"

text \<open>The only destroy callback ever stored, as the dispatchers call it.\<close>

definition destroy_call :: "world \<Rightarrow> callback \<Rightarrow> cb_arg \<Rightarrow> ('d, 'a) tcp_loop_scheme \<Rightarrow> ('d, 'a) tcp_loop_scheme result" where
  "destroy_call W f x l =
     (case (f, x) of
        (DestroyConnection, ConnArg c) \<Rightarrow> rbind (detroyTcpConnection W c l) (\<lambda>(l', _). Inr l')
      | _ \<Rightarrow> Inl WildPointer)"

definition initTcpConnection ::
  "('d, 'a tcp_loop_ext, 'r) Dispatcher \<Rightarrow> world \<Rightarrow> nat \<Rightarrow> ('d, 'a) tcp_loop_scheme \<Rightarrow> int \<Rightarrow>
   (('d, 'a) tcp_loop_scheme \<times> nat) result" where
  "initTcpConnection D W self l f =
     rbind (initBuffer (w_al W) 10240) (\<lambda>rb.
     rbind (initBuffer (w_al W) 10240) (\<lambda>wb.
     rbind (into_array 32 (''TcpConnection-'' @ dec f)) (\<lambda>name.
       let c = freshconn l;
           ch = initchannel f readevent (Some ProcessWrite) (Some ProcessRead) (Some DestroyConnection) (ConnArg c);
           (l1, a) = new_channel l ch;
           conn = \<lparr>conn_readBuf = Some rb, conn_writeBuf = Some wb, conn_channel = a, conn_name = name,
                   conn_req = initHttpRequest, conn_resp = initHttpResponse\<rparr>;
           l2 = l1\<lparr>conns := (conns l1)(c \<mapsto> conn), freshconn := Suc c\<rparr> in
       rbind (AddTaskEventLoop D (w_al W) (w_junk W) (destroy_call W) self l2 a ADD) (\<lambda>l3.
       rbind (if w_debug W then rbind (conn_at l3 c) (\<lambda>_. Inr ()) else Inr ()) (\<lambda>_. Inr (l3, c))))))"

text \<open>
  The log line of \<open>processRead\<close> prints the unread bytes with \<open>%s\<close>: up to the first NUL
  of the block.
\<close>

definition print_unread :: "world \<Rightarrow> buffer \<Rightarrow> unit result" where
  "print_unread W b =
     (if w_debug W \<and> NUL \<notin> set (drop (nat (readPos b)) (data b)) then Inl OutOfBounds else Inr ())"

definition bad_request :: string where
  "bad_request = ''HTTP/1.1 400 Bad Request'' @ CRLF"

definition processRead ::
  "('d, 'a tcp_loop_ext, 'r) Dispatcher \<Rightarrow> world \<Rightarrow> nat \<Rightarrow> nat \<Rightarrow> ('d, 'a) tcp_loop_scheme \<Rightarrow>
   (('d, 'a) tcp_loop_scheme \<times> int option) result" where
  "processRead D W self c l =
     rbind (conn_at l c) (\<lambda>conn.
     rbind (deref (conn_readBuf conn)) (\<lambda>rb.
     rbind (channel_at l (conn_channel conn)) (\<lambda>ch.
     rbind (socketReadBuffer (w_al W) rb (w_recv W (recvs l) (fd ch))) (\<lambda>(rb1, count).
     rbind (print_unread W rb1) (\<lambda>_.
       if 0 < count then
         rbind (deref (conn_writeBuf conn)) (\<lambda>wb.
         rbind (parseHttpRequest (w_files W) (w_al W) (w_send W) (conn_req conn) rb1 wb (conn_resp conn)
                  (fd ch) (net l)) (\<lambda>(r, rb2, wb2, resp, s, flag).
         rbind (if \<not> flag then append_string (w_al W) wb2 bad_request else Inr wb2) (\<lambda>wb3.
         rbind (AddTaskEventLoop D (w_al W) (w_junk W) (destroy_call W) self
                  (l\<lparr>conns := (conns l)(c \<mapsto> conn\<lparr>conn_readBuf := Some rb2, conn_writeBuf := Some wb3,
                                             conn_req := r, conn_resp := resp\<rparr>),
                     net := s, recvs := Suc (recvs l)\<rparr>) (conn_channel conn) DELETE) (\<lambda>l2.
           Inr (l2, None)))))
       else
         Inr (l\<lparr>conns := (conns l)(c \<mapsto> conn\<lparr>conn_readBuf := Some rb1\<rparr>), recvs := Suc (recvs l)\<rparr>, Some 0))))))"

definition processwrite ::
  "('d, 'a tcp_loop_ext, 'r) Dispatcher \<Rightarrow> world \<Rightarrow> nat \<Rightarrow> nat \<Rightarrow> ('d, 'a) tcp_loop_scheme \<Rightarrow>
   (('d, 'a) tcp_loop_scheme \<times> int) result" where
  "processwrite D W self c l =
     rbind (conn_at l c) (\<lambda>conn.
     rbind (deref (conn_writeBuf conn)) (\<lambda>wb.
     rbind (channel_at l (conn_channel conn)) (\<lambda>ch.
     rbind (sendDataBuffer (w_send W) wb (fd ch) (net l)) (\<lambda>(wb1, s, count).
       let l1 = l\<lparr>conns := (conns l)(c \<mapsto> conn\<lparr>conn_writeBuf := Some wb1\<rparr>), net := s\<rparr> in
       if 0 < count \<and> bufferReadAbleSize wb1 = 0 then
         rbind (AddTaskEventLoop D (w_al W) (w_junk W) (destroy_call W) self
                  (l1\<lparr>chans := (chans l1)(conn_channel conn \<mapsto> writeEventEnable ch False)\<rparr>)
                  (conn_channel conn) MODIFY) (\<lambda>l2.
         rbind (AddTaskEventLoop D (w_al W) (w_junk W) (destroy_call W) self l2 (conn_channel conn) DELETE) (\<lambda>l3.
           Inr (l3, 0)))
       else Inr (l1, 0)))))"

text \<open>The callbacks of a worker's loop.\<close>

definition worker_call ::
  "('d, 'a tcp_loop_ext, 'r) Dispatcher \<Rightarrow> world \<Rightarrow> nat \<Rightarrow> callback \<Rightarrow> cb_arg \<Rightarrow> ('d, 'a) tcp_loop_scheme \<Rightarrow>
   ('d, 'a) tcp_loop_scheme result" where
  "worker_call D W self f x l =
     (case (f, x) of
        (ProcessRead, ConnArg c) \<Rightarrow> rbind (processRead D W self c l) (\<lambda>(l', _). Inr l')
      | (ProcessWrite, ConnArg c) \<Rightarrow> rbind (processwrite D W self c l) (\<lambda>(l', _). Inr l')
      | (DestroyConnection, ConnArg c) \<Rightarrow> rbind (detroyTcpConnection W c l) (\<lambda>(l', _). Inr l')
      | (ReadLocalMessage, LoopArg) \<Rightarrow> rbind (readLocalMessage l) (\<lambda>(l', _). Inr l')
      | _ \<Rightarrow> Inl WildPointer)"

section \<open>The destroy callback keeps to its frame\<close>

lemma release_frame:
  "release_conn conn l = Inr l' \<Longrightarrow>
   disepatherData l' = disepatherData l \<and> mutex l' = mutex l \<and> threadID l' = threadID l \<and> rx l' = rx l \<and> pair_room l' = pair_room l"
  by (auto simp: release_conn_def destroyChannel_def split: option.splits if_splits)

lemma detroy_tasks:
  "detroyTcpConnection W c (l\<lparr>tasks := q\<rparr>) = map_sum (\<lambda>e. e) (\<lambda>(l', r). (l'\<lparr>tasks := q\<rparr>, r)) (detroyTcpConnection W c l)"
  by (simp add: detroyTcpConnection_def release_conn_def conn_at_def destroyChannel_def channel_at_def rbind_def Let_def
      split: sum.split option.split)

lemma detroy_frame:
  "detroyTcpConnection W c l = Inr (l', r) \<Longrightarrow>
   disepatherData l' = disepatherData l \<and> mutex l' = mutex l \<and> threadID l' = threadID l \<and> rx l' = rx l \<and> pair_room l' = pair_room l"
  by (auto simp: detroyTcpConnection_def Let_def dest: release_frame)

interpretation destroy: destroy_callbacks "destroy_call W"
proof
  show "destroy_call W f x (l\<lparr>tasks := q\<rparr>) = map_sum id (\<lambda>l'. l'\<lparr>tasks := q\<rparr>) (destroy_call W f x l)"
    for f x l q
    by (cases f; cases x; cases "detroyTcpConnection W (case x of ConnArg c \<Rightarrow> c | _ \<Rightarrow> 0) l")
      (auto simp: destroy_call_def detroy_tasks)
  show "destroy_call W f x l = Inr l' \<Longrightarrow>
      disepatherData l' = disepatherData l \<and> mutex l' = mutex l \<and> threadID l' = threadID l \<and> rx l' = rx l \<and> pair_room l' = pair_room l" for f x l l'
    by (auto simp: destroy_call_def split: callback.splits cb_arg.splits dest: detroy_frame)
qed

interpretation tcp_loop: loop_contract "Epolldispatch created" epoll_add_data epoll_remove_data epoll_modify_data
    "destroy_call W"
  by (intro loop_contract.intro epoll_frame destroy.destroy_callbacks_axioms)

section \<open>The life of a connection\<close>

text \<open>A loop with nothing to do, in its own thread, and a connection it watches.\<close>

definition idle :: "nat \<Rightarrow> ('d, 'a) eloop_scheme \<Rightarrow> bool" where
  "idle self l \<longleftrightarrow> queue_rep (tasks l) [] \<and> \<not> mutex l \<and> threadID l = self"

definition connected :: "(epoll_data, 'a) tcp_loop_scheme \<Rightarrow> nat \<Rightarrow> conn \<Rightarrow> int \<Rightarrow> bool" where
  "connected l c conn f \<longleftrightarrow> conn_at l c = Inr conn \<and>
     (\<exists>ch m. channel_at l (conn_channel conn) = Inr ch \<and> fd ch = f \<and>
        readcallback ch = Some ProcessRead \<and> destroycallback ch = Some DestroyConnection \<and> arg ch = ConnArg c \<and>
        channelmap l = Some m \<and> map_inv m \<and> slot_at m f = Inr (Chan (conn_channel conn)) \<and>
        epoll_watched (disepatherData l) ch)"

definition no_bytes :: "conn \<Rightarrow> bool" where
  "no_bytes conn \<longleftrightarrow> (\<exists>rb wb. conn_readBuf conn = Some rb \<and> conn_writeBuf conn = Some wb \<and>
     bufferReadAbleSize rb = 0 \<and> bufferReadAbleSize wb = 0)"

definition headers_written :: "request \<Rightarrow> bool" where
  "headers_written r \<longleftrightarrow> (\<exists>xs. written_slots (reqHeader r) (reqHeaderNum r) = Inr xs)"

definition disconnected :: "(epoll_data, 'a) tcp_loop_scheme \<Rightarrow> nat \<Rightarrow> conn \<Rightarrow> int \<Rightarrow> bool" where
  "disconnected l c conn f \<longleftrightarrow> conns l c = None \<and> chans l (conn_channel conn) = None \<and>
     (\<exists>m. channelmap l = Some m \<and> slot_at m f = Inr Null) \<and>
     epoll_interest (disepatherData l) f = (False, False)"

text \<open>Nothing but what concerns \<open>f\<close> differs in the table and in epoll, and \<open>f\<close> is gone from both.\<close>

definition only_at :: "int \<Rightarrow> (epoll_data, 'a) eloop_scheme \<Rightarrow> (epoll_data, 'b) eloop_scheme \<Rightarrow> bool" where
  "only_at f l l' \<longleftrightarrow> isQuite l' = isQuite l \<and> pair_room l' = pair_room l \<and> ep_refuses (disepatherData l') = ep_refuses (disepatherData l) \<and>
     (\<forall>g. g \<noteq> f \<longrightarrow> ep_interest (disepatherData l') g = ep_interest (disepatherData l) g) \<and>
     (\<exists>m m'. channelmap l = Some m \<and> channelmap l' = Some m' \<and> map_inv m' \<and> msize m' = msize m \<and>
        (\<forall>g. g \<noteq> f \<longrightarrow> slot_at m' g = slot_at m g))"

definition gone_from :: "int \<Rightarrow> (epoll_data, 'a) eloop_scheme \<Rightarrow> bool" where
  "gone_from f l \<longleftrightarrow> ep_interest (disepatherData l) f = None \<and> (\<exists>m. channelmap l = Some m \<and> slot_at m f = Inr Null)"

lemma only_at_trans: "only_at f l1 l2 \<Longrightarrow> only_at f l2 l3 \<Longrightarrow> only_at f l1 l3"
  by (auto simp: only_at_def)

lemma slot_in_range: "slot_at m f = Inr s \<Longrightarrow> 0 \<le> f \<and> f < int (length (mlist m))"
  by (auto simp: slot_at_def split: if_splits)

lemma epoll_remove_ok:
  "epoll_watched d ch \<Longrightarrow> \<exists>d'. epoll_remove_data ch d = Inr d' \<and> epoll_interest d' (fd ch) = (False, False) \<and>
     d' = d\<lparr>ep_interest := (ep_interest d)(fd ch := None)\<rparr>"
  using epoll.remove_law [of d ch] by (auto simp: epoll_ops epoll_watched_def)

lemma release_drained:
  assumes "no_bytes conn" and "headers_written (conn_req conn)"
  shows "release_conn conn l = destroyChannel l (conn_channel conn)"
  using assms by (auto simp: no_bytes_def headers_written_def release_conn_def destroyHttpRequest_def resetHttpRequestEX_def)

lemma detroy_debug: "w_debug W \<Longrightarrow> conn_at l c = Inr conn \<Longrightarrow> release_conn conn l = Inr l1 \<Longrightarrow>
    detroyTcpConnection W c l = Inl UseAfterFree"
  by (simp add: detroyTcpConnection_def conn_at_def Let_def)

lemma detroy_ok: "\<not> w_debug W \<Longrightarrow> conn_at l c = Inr conn \<Longrightarrow> release_conn conn l = Inr l1 \<Longrightarrow>
    detroyTcpConnection W c l = Inr (l1\<lparr>conns := (conns l1)(c := None)\<rparr>, 0)"
  by (simp add: detroyTcpConnection_def Let_def)

text \<open>
  The DELETE task of a connection, from its own loop: epoll forgets the descriptor and the
  destroy callback runs.
\<close>

lemma delete_task:
  assumes idle: "idle self l" and conn: "connected l c conn f"
  shows "\<exists>d q'. queue_rep q' [] \<and> epoll_interest d f = (False, False) \<and>
     d = (disepatherData l)\<lparr>ep_interest := (ep_interest (disepatherData l))(f := None)\<rparr> \<and>
     AddTaskEventLoop (Epolldispatch created) al junk (destroy_call W) self l (conn_channel conn) DELETE =
       rbind (detroyTcpConnection W c (l\<lparr>mutex := True, disepatherData := d\<rparr>)) (\<lambda>(l', _).
         Inr (l'\<lparr>tasks := q', mutex := False\<rparr>))"
proof -
  obtain ch m where ch: "channel_at l (conn_channel conn) = Inr ch" "fd ch = f"
      "destroycallback ch = Some DestroyConnection" "arg ch = ConnArg c" "channelmap l = Some m" "map_inv m"
      "slot_at m f = Inr (Chan (conn_channel conn))" "epoll_watched (disepatherData l) ch"
    using conn by (auto simp: connected_def)
  obtain d where d: "epoll_remove_data ch (disepatherData l) = Inr d" "epoll_interest d (fd ch) = (False, False)"
      "d = (disepatherData l)\<lparr>ep_interest := (ep_interest (disepatherData l))(fd ch := None)\<rparr>"
    using epoll_remove_ok [OF ch(8)] by blast
  have "\<not> msize m \<le> fd ch" using slot_in_range [OF ch(7)] ch(2,6) by (auto simp: map_inv_def)
  then have "perform (Epolldispatch created) al junk (destroy_call W) (l\<lparr>mutex := True\<rparr>) (DELETE, conn_channel conn) =
      rbind (detroyTcpConnection W c (l\<lparr>mutex := True, disepatherData := d\<rparr>)) (\<lambda>(l', _). Inr l')"
    using ch d(1) unfolding perform_def DeleteEventLoop_def
    by (simp add: channel_at_def epoll.remove_frame call_ptr_def destroy_call_def rbind_assoc)
  moreover obtain q' where "queue_rep q' []"
      "AddTaskEventLoop (Epolldispatch created) al junk (destroy_call W) self l (conn_channel conn) DELETE =
       rbind (perform (Epolldispatch created) al junk (destroy_call W) (l\<lparr>mutex := True\<rparr>) (DELETE, conn_channel conn))
         (\<lambda>l'. Inr (l'\<lparr>tasks := q', mutex := False\<rparr>))"
    using tcp_loop.add_task_single idle unfolding idle_def by blast
  ultimately show ?thesis using d(2,3) ch(2) by (auto simp: rbind_assoc split_def)
qed

lemma connected_slot:
  assumes "connected l c conn f"
  obtains ch m m' where "channel_at l (conn_channel conn) = Inr ch" "fd ch = f" "channelmap l = Some m"
    "set_slot m f Null = Inr m'" "slot_at m' f = Inr Null" "map_inv m'" "msize m' = msize m"
proof -
  obtain ch m where ch: "channel_at l (conn_channel conn) = Inr ch" "fd ch = f" "channelmap l = Some m"
      "map_inv m" "slot_at m f = Inr (Chan (conn_channel conn))"
    using assms by (auto simp: connected_def)
  have "0 \<le> f" "f < msize m" using slot_in_range [OF ch(5)] ch(4) by (auto simp: map_inv_def)
  then obtain m' where m': "set_slot m f Null = Inr m'" "msize m' = msize m" "map_inv m'" using set_slot_ok [OF ch(4)] by blast
  from that [OF ch(1-3) m'(1)] m'(2,3) show thesis by (simp add: slot_at_set [OF m'(1)])
qed

lemma close_connection:
  assumes idle: "idle self l" and conn: "connected l c conn f" and bytes: "no_bytes conn"
    and hs: "headers_written (conn_req conn)"
  shows "\<exists>l'. AddTaskEventLoop (Epolldispatch created) al junk (destroy_call W) self l (conn_channel conn) DELETE =
      (if w_debug W then Inl UseAfterFree else Inr l') \<and>
     disconnected l' c conn f \<and> closed l' = closed l @ [f] \<and> idle self l' \<and> net l' = net l \<and> recvs l' = recvs l \<and>
     only_at f l l' \<and> gone_from f l' \<and> rx l' = rx l"
proof -
  obtain d q' where dq: "queue_rep q' []" "epoll_interest d f = (False, False)"
      "d = (disepatherData l)\<lparr>ep_interest := (ep_interest (disepatherData l))(f := None)\<rparr>"
      "AddTaskEventLoop (Epolldispatch created) al junk (destroy_call W) self l (conn_channel conn) DELETE =
       rbind (detroyTcpConnection W c (l\<lparr>mutex := True, disepatherData := d\<rparr>)) (\<lambda>(l', _).
         Inr (l'\<lparr>tasks := q', mutex := False\<rparr>))"
    using delete_task [OF idle conn] by blast
  let ?l = "l\<lparr>mutex := True, disepatherData := d\<rparr>"
  obtain ch m m' where ch: "channel_at l (conn_channel conn) = Inr ch" "fd ch = f" "channelmap l = Some m"
      "set_slot m f Null = Inr m'" and m': "slot_at m' f = Inr Null" "map_inv m'" "msize m' = msize m"
    using connected_slot [OF conn] .
  let ?l1 = "?l\<lparr>channelmap := Some m', closed := closed l @ [f], chans := (chans l)(conn_channel conn := None)\<rparr>"
  have "release_conn conn ?l = Inr ?l1"
    using ch by (simp add: release_drained [OF bytes hs] destroyChannel_def channel_at_def)
  moreover have "conn_at ?l c = Inr conn" using conn by (simp add: connected_def conn_at_def)
  ultimately have "detroyTcpConnection W c ?l = (if w_debug W then Inl UseAfterFree
      else Inr (?l1\<lparr>conns := (conns l)(c := None)\<rparr>, 0))"
    using detroy_debug [of W ?l c conn ?l1] detroy_ok [of W ?l c conn ?l1] by auto
  then show ?thesis
    using dq m' idle
    by (intro exI [of _ "?l1\<lparr>conns := (conns l)(c := None), tasks := q', mutex := False\<rparr>"])
      (simp add: disconnected_def idle_def only_at_def gone_from_def ch(3) slot_at_set [OF ch(4)])
qed

subsection \<open>A request that arrives in one piece\<close>

definition empty_buffer :: buffer where
  "empty_buffer = \<lparr>data = replicate 10240 NUL, capacity = 10240, readPos = 0, writePos = 0\<rparr>"

definition fresh :: "conn \<Rightarrow> bool" where
  "fresh conn \<longleftrightarrow> conn_readBuf conn = Some empty_buffer \<and> conn_writeBuf conn = Some empty_buffer \<and>
     conn_req conn = initHttpRequest \<and> conn_resp conn = initHttpResponse"

definition granted :: "world \<Rightarrow> bool" where
  "granted W \<longleftrightarrow> (\<forall>k\<in>{0..20480}. w_al W k)"

lemma empty_buffer_inv: "buf_inv empty_buffer" "contents empty_buffer = []"
  by (simp_all add: empty_buffer_def buf_inv_def contents_def int32_def)

lemma empty_buffer_ready: "granted W \<Longrightarrow> n \<le> 10240 \<Longrightarrow> ready (w_al W) empty_buffer 10240 n"
  by (auto simp: ready_def drained_def empty_buffer_inv roomy_def granted_def)
    (simp_all add: empty_buffer_def int32_def)

lemma initBuffer_empty: "granted W \<Longrightarrow> initBuffer (w_al W) 10240 = Inr empty_buffer"
  by (simp add: initBuffer_def granted_def empty_buffer_def size_t_def)

lemma receive_fresh:
  assumes "length bs < 10240"
  shows "\<exists>rb. socketReadBuffer al empty_buffer (Some bs) = Inr (rb, int (length bs)) \<and> buf_inv rb \<and>
     contents rb = bs \<and> print_unread W rb = Inr ()"
proof -
  let ?rb = "empty_buffer\<lparr>data := blit (replicate 10240 NUL) 0 bs, writePos := int (length bs)\<rparr>"
  have "socketReadBuffer al empty_buffer (Some bs) = Inr (?rb, int (length bs))"
    using assms by (simp add: socketReadBuffer_def empty_buffer_def bufferWriteAbleSize_def store_def Let_def)
  moreover have "buf_inv ?rb" "contents ?rb = bs"
    using assms by (simp_all add: buf_inv_def empty_buffer_def int32_def contents_def window_def blit_def)
  moreover have "NUL \<in> set (data ?rb)" using assms by (auto simp: blit_def)
  then have "print_unread W ?rb = Inr ()" by (simp add: print_unread_def empty_buffer_def)
  ultimately show ?thesis by blast
qed

text \<open>
  The request is answered, then the connection is taken down; \<open>rest\<close> must be empty for that,
  as the destroy callback looks at the unread bytes.
\<close>

lemma processRead_request:
  assumes idle: "idle self l" and conn: "connected l c conn f" and fr: "fresh conn"
    and recv: "w_recv W (recvs l) f = Some bs" "bs \<noteq> []" "length bs < 10240"
    and parse: "\<And>rb. buf_inv rb \<Longrightarrow> contents rb = bs \<Longrightarrow>
      \<exists>rb' wb' s'. parseHttpRequest (w_files W) (w_al W) (w_send W) initHttpRequest rb empty_buffer initHttpResponse f (net l) =
        Inr (r, rb', wb', resp, s', True) \<and> buf_inv rb' \<and> contents rb' = [] \<and> drained wb' 10240 \<and>
        sent (net l) f out shut s'"
    and hs: "headers_written r"
  shows "\<exists>l'. processRead (Epolldispatch created) W self c l =
      (if w_debug W then Inl UseAfterFree else Inr (l', None)) \<and>
     disconnected l' c conn f \<and> closed l' = closed l @ [f] \<and> idle self l' \<and> sent (net l) f out shut (net l') \<and>
     recvs l' = Suc (recvs l) \<and> only_at f l l' \<and> gone_from f l' \<and> rx l' = rx l"
proof -
  obtain rb where rb: "socketReadBuffer (w_al W) empty_buffer (Some bs) = Inr (rb, int (length bs))"
      "buf_inv rb" "contents rb = bs" "print_unread W rb = Inr ()"
    using receive_fresh [OF recv(3)] by blast
  obtain rb' wb' s' where p: "parseHttpRequest (w_files W) (w_al W) (w_send W) initHttpRequest rb empty_buffer
        initHttpResponse f (net l) = Inr (r, rb', wb', resp, s', True)"
      "buf_inv rb'" "contents rb' = []" "drained wb' 10240" "sent (net l) f out shut s'"
    using parse [OF rb(2,3)] by blast
  let ?conn = "conn\<lparr>conn_readBuf := Some rb', conn_writeBuf := Some wb', conn_req := r, conn_resp := resp\<rparr>"
  let ?l = "l\<lparr>conns := (conns l)(c \<mapsto> ?conn), net := s', recvs := Suc (recvs l)\<rparr>"
  have nb: "no_bytes ?conn" "headers_written (conn_req ?conn)"
    using p(2-4) length_contents [of rb'] length_contents [of wb'] hs by (simp_all add: no_bytes_def drained_def)
  have c': "connected ?l c ?conn f" "idle self ?l"
    using conn idle by (auto simp: connected_def idle_def conn_at_def channel_at_def)
  from close_connection [OF c'(2,1) nb, where W = W and al = "w_al W" and junk = "w_junk W" and created = created]
  obtain l' where l': "AddTaskEventLoop (Epolldispatch created) (w_al W) (w_junk W) (destroy_call W) self ?l (conn_channel conn) DELETE =
      (if w_debug W then Inl UseAfterFree else Inr l')"
     "disconnected l' c ?conn f" "closed l' = closed l @ [f]" "idle self l'" "net l' = s'"
     "recvs l' = Suc (recvs l)" "only_at f l l'" "gone_from f l'" "rx l' = rx l"
    by (auto simp: only_at_def)
  obtain ch where ch: "channel_at l (conn_channel conn) = Inr ch" "fd ch = f" "conn_at l c = Inr conn"
    using conn by (auto simp: connected_def)
  have "processRead (Epolldispatch created) W self c l = (if w_debug W then Inl UseAfterFree else Inr (l', None))"
    using ch fr recv rb(1,4) p(1) l'(1) by (simp add: processRead_def fresh_def)
  with l' p(5) show ?thesis by (auto simp: disconnected_def)
qed

text \<open>
  A peer that closes before it has sent anything, or a failed read: the callback returns and the
  connection stays as it is.
\<close>

lemma processRead_nothing:
  assumes conn: "connected l c conn f" and rb: "conn_readBuf conn = Some rb" "buf_inv rb" "print_unread W rb = Inr ()"
    and recv: "w_recv W (recvs l) f = None \<or> w_recv W (recvs l) f = Some []"
  shows "processRead D W self c l = Inr (l\<lparr>recvs := Suc (recvs l)\<rparr>, Some 0)"
proof -
  obtain ch where ch: "channel_at l (conn_channel conn) = Inr ch" "fd ch = f" "conn_at l c = Inr conn"
    using conn by (auto simp: connected_def)
  have "\<exists>n. n \<le> 0 \<and> socketReadBuffer (w_al W) rb (w_recv W (recvs l) f) = Inr (rb, n)"
    using recv buf_invD [OF rb(2)]
    by (auto simp: socketReadBuffer_def mem_simps bufferWriteAbleSize_def)
  then obtain n where n: "n \<le> 0" "socketReadBuffer (w_al W) rb (w_recv W (recvs l) f) = Inr (rb, n)" by blast
  have same: "conn\<lparr>conn_readBuf := Some rb\<rparr> = conn" "(conns l)(c \<mapsto> conn) = conns l"
    using rb(1) ch(3) by (auto simp: conn_at_def split: option.splits)
  have "processRead D W self c l =
      Inr (l\<lparr>conns := (conns l)(c \<mapsto> conn\<lparr>conn_readBuf := Some rb\<rparr>), recvs := Suc (recvs l)\<rparr>, Some 0)"
    using ch n rb(1,3) by (simp add: processRead_def)
  then show ?thesis unfolding same by simp
qed

lemma served_written: "length hs \<le> HeaderSize \<Longrightarrow> headers_written (served m u v hs)"
  using served_headers by (auto simp: headers_written_def)

lemma get_requestI:
  "request_ok m u v hs \<Longrightarrow> length hs \<le> HeaderSize \<Longrightarrow> strcasecmp_eq m ''get'' \<Longrightarrow> buf_inv rb \<Longrightarrow>
   contents rb = print_request m u v hs \<Longrightarrow> get_request rb m u v hs []"
  by (simp add: get_request_def)

lemma print_request_nonempty: "print_request m u v hs \<noteq> []"
  by (simp add: print_request_def)

lemma processRead_file:
  assumes idle: "idle self l" and conn: "connected l c conn f" and fr: "fresh conn" and al: "granted W"
    and K: "accepts_all (w_send W)"
    and req: "request_ok m u v hs" "length hs \<le> HeaderSize" "strcasecmp_eq m ''get''"
    and recv: "w_recv W (recvs l) f = Some (print_request m u v hs)" "length (print_request m u v hs) < 10240"
    and url: "names_file u file" "length file < 128"
    and info: "fstat (w_files W) file = Some st" "\<not> st_isdir st"
      "0 < fopen (w_files W) file" "reads_from (w_files W) file 0 cs"
  shows "\<exists>l'. processRead (Epolldispatch created) W self c l =
      (if w_debug W then Inl UseAfterFree else Inr (l', None)) \<and>
     disconnected l' c conn f \<and> closed l' = closed l @ [f] \<and> idle self l' \<and>
     sent (net l) f (response_head (file_response file (st_size st)) @ concat cs) [fopen (w_files W) file] (net l') \<and>
     recvs l' = Suc (recvs l) \<and> only_at f l l' \<and> gone_from f l' \<and> rx l' = rx l"
proof (rule processRead_request [OF idle conn fr recv(1) print_request_nonempty recv(2)])
  show "headers_written (served m u v hs)" by (rule served_written [OF req(2)])
  show "\<exists>rb' wb' s'. parseHttpRequest (w_files W) (w_al W) (w_send W) initHttpRequest rb empty_buffer initHttpResponse f (net l) =
        Inr (served m u v hs, rb', wb', file_response file (st_size st), s', True) \<and> buf_inv rb' \<and> contents rb' = [] \<and>
        drained wb' 10240 \<and>
        sent (net l) f (response_head (file_response file (st_size st)) @ concat cs) [fopen (w_files W) file] s'"
    if "buf_inv rb" "contents rb = print_request m u v hs" for rb
    using serve_file [OF get_requestI [OF req that] url info(1,2) empty_buffer_ready [OF al] _ K info(3,4)]
      head_file_length [of "file" "st_size st"] by simp
qed

lemma processRead_missing:
  assumes idle: "idle self l" and conn: "connected l c conn f" and fr: "fresh conn" and al: "granted W"
    and K: "accepts_all (w_send W)"
    and req: "request_ok m u v hs" "length hs \<le> HeaderSize" "strcasecmp_eq m ''get''"
    and recv: "w_recv W (recvs l) f = Some (print_request m u v hs)" "length (print_request m u v hs) < 10240"
    and url: "names_file u file"
    and info: "fstat (w_files W) file = None"
      "0 < fopen (w_files W) ''404.html''" "reads_from (w_files W) ''404.html'' 0 cs"
  shows "\<exists>l'. processRead (Epolldispatch created) W self c l =
      (if w_debug W then Inl UseAfterFree else Inr (l', None)) \<and>
     disconnected l' c conn f \<and> closed l' = closed l @ [f] \<and> idle self l' \<and>
     sent (net l) f (response_head missing_response @ concat cs) [fopen (w_files W) ''404.html''] (net l') \<and>
     recvs l' = Suc (recvs l) \<and> only_at f l l' \<and> gone_from f l' \<and> rx l' = rx l"
proof (rule processRead_request [OF idle conn fr recv(1) print_request_nonempty recv(2)])
  show "headers_written (served m u v hs)" by (rule served_written [OF req(2)])
  show "\<exists>rb' wb' s'. parseHttpRequest (w_files W) (w_al W) (w_send W) initHttpRequest rb empty_buffer initHttpResponse f (net l) =
        Inr (served m u v hs, rb', wb', missing_response, s', True) \<and> buf_inv rb' \<and> contents rb' = [] \<and>
        drained wb' 10240 \<and>
        sent (net l) f (response_head missing_response @ concat cs) [fopen (w_files W) ''404.html''] s'"
    if "buf_inv rb" "contents rb = print_request m u v hs" for rb
    using serve_missing [OF get_requestI [OF req that] url info(1) empty_buffer_ready [OF al] _ K info(2,3)]
    by (simp add: head_missing)
qed

text \<open>Unread bytes at the end: the connection is freed, its channel and its descriptor are not.\<close>

lemma delete_with_bytes:
  assumes idle: "idle self l" and conn: "connected l c conn f"
    and bytes: "conn_readBuf conn = Some rb" "bufferReadAbleSize rb \<noteq> 0" and debug: "\<not> w_debug W"
  shows "\<exists>l'. AddTaskEventLoop (Epolldispatch created) al junk (destroy_call W) self l (conn_channel conn) DELETE = Inr l' \<and>
     conns l' c = None \<and> chans l' = chans l \<and> channelmap l' = channelmap l \<and> closed l' = closed l \<and>
     epoll_interest (disepatherData l') f = (False, False)"
proof -
  obtain d q' where dq: "epoll_interest d f = (False, False)"
      "AddTaskEventLoop (Epolldispatch created) al junk (destroy_call W) self l (conn_channel conn) DELETE =
       rbind (detroyTcpConnection W c (l\<lparr>mutex := True, disepatherData := d\<rparr>)) (\<lambda>(l', _).
         Inr (l'\<lparr>tasks := q', mutex := False\<rparr>))"
    using delete_task [OF idle conn] by blast
  let ?l = "l\<lparr>mutex := True, disepatherData := d\<rparr>"
  have rel: "release_conn conn ?l = Inr ?l"
    using bytes by (simp add: release_conn_def split: option.split)
  have "conn_at ?l c = Inr conn" using conn by (simp add: connected_def conn_at_def)
  from detroy_ok [OF debug this rel] dq show ?thesis
    by (intro exI [of _ "?l\<lparr>conns := (conns l)(c := None), tasks := q', mutex := False\<rparr>"]) simp
qed

subsection \<open>Accepting a connection\<close>

text \<open>The connection \<open>initTcpConnection\<close> makes, and the loop before the task is added.\<close>

definition new_conn :: "('d, 'a) tcp_loop_scheme \<Rightarrow> int \<Rightarrow> conn" where
  "new_conn l f = \<lparr>conn_readBuf = Some empty_buffer, conn_writeBuf = Some empty_buffer,
     conn_channel = freshchan l, conn_name = ''TcpConnection-'' @ dec f,
     conn_req = initHttpRequest, conn_resp = initHttpResponse\<rparr>"

definition conn_chan :: "nat \<Rightarrow> int \<Rightarrow> channel" where
  "conn_chan c f = initchannel f readevent (Some ProcessWrite) (Some ProcessRead) (Some DestroyConnection) (ConnArg c)"

definition admitted :: "('d, 'a) tcp_loop_scheme \<Rightarrow> int \<Rightarrow> ('d, 'a) tcp_loop_scheme" where
  "admitted l f = l\<lparr>chans := (chans l)(freshchan l \<mapsto> conn_chan (freshconn l) f), freshchan := Suc (freshchan l),
     conns := (conns l)(freshconn l \<mapsto> new_conn l f), freshconn := Suc (freshconn l)\<rparr>"

lemma conn_chan_simps [simp]: "fd (conn_chan c f) = f" "wants (conn_chan c f) = (True, False)"
  "readcallback (conn_chan c f) = Some ProcessRead" "destroycallback (conn_chan c f) = Some DestroyConnection" "arg (conn_chan c f) = ConnArg c"
  by (simp_all add: conn_chan_def initchannel_def wants_def event_bits)

lemma new_conn_fresh: "fresh (new_conn l f)"
  by (simp add: fresh_def new_conn_def)

lemma initTcpConnection_eq:
  assumes al: "granted W" and f: "int32 f"
  shows "initTcpConnection D W self l f =
     rbind (AddTaskEventLoop D (w_al W) (w_junk W) (destroy_call W) self (admitted l f) (freshchan l) ADD) (\<lambda>l3.
     rbind (if w_debug W then rbind (conn_at l3 (freshconn l)) (\<lambda>_. Inr ()) else Inr ()) (\<lambda>_. Inr (l3, freshconn l)))"
proof -
  have "into_array 32 (''TcpConnection-'' @ dec f) = Inr (''TcpConnection-'' @ dec f)"
    using dec_length [OF f] by (intro into_array_ok) auto
  then show ?thesis
    using initBuffer_empty [OF al]
    by (simp add: initTcpConnection_def new_channel_def admitted_def new_conn_def conn_chan_def Let_def)
qed

text \<open>A descriptor the table and epoll have room for.\<close>

definition admissible :: "(epoll_data, 'a) eloop_scheme \<Rightarrow> int \<Rightarrow> bool" where
  "admissible l f \<longleftrightarrow> int32 f \<and> \<not> ep_refuses (disepatherData l) f \<and> ep_interest (disepatherData l) f = None \<and>
     (\<exists>m. channelmap l = Some m \<and> map_inv m \<and> f < msize m \<and> slot_at m f = Inr Null)"

lemma add_admitted:
  fixes l l' :: "(epoll_data, 'a) tcp_loop_scheme"
  assumes adm: "admissible l f"
    and eq: "chans l' = chans (admitted l f)" "conns l' = conns (admitted l f)" "channelmap l' = channelmap l"
      "disepatherData l' = disepatherData l"
  obtains m' d where "\<And>created al junk dcb. perform (Epolldispatch created) al junk dcb l' (ADD, freshchan l) =
      Inr (l'\<lparr>channelmap := Some m', disepatherData := d\<rparr>)"
    and "\<And>l'' :: (epoll_data, 'a) tcp_loop_scheme. chans l'' = chans l' \<Longrightarrow> conns l'' = conns l' \<Longrightarrow>
      channelmap l'' = Some m' \<Longrightarrow> disepatherData l'' = d \<Longrightarrow> connected l'' (freshconn l) (new_conn l f) f"
    and "epoll_interest d = (epoll_interest (disepatherData l))(f := (True, False))"
    and "\<And>l'' :: (epoll_data, 'a) tcp_loop_scheme. channelmap l'' = Some m' \<Longrightarrow> disepatherData l'' = d \<Longrightarrow>
      isQuite l'' = isQuite l \<Longrightarrow> pair_room l'' = pair_room l \<Longrightarrow> only_at f l l''"
proof -
  obtain m where m: "channelmap l = Some m" "map_inv m" "f < msize m" "slot_at m f = Inr Null"
    using adm by (auto simp: admissible_def)
  let ?ch = "conn_chan (freshconn l) f"
  obtain d r where d: "epoll_add_data ?ch (disepatherData l) = Inr (d, r)"
      "epoll_interest d = (epoll_interest (disepatherData l))(f := (True, False))" "epoll_watched d ?ch"
    using epoll.add_law [of "disepatherData l" ?ch] epoll.remove_after_add [of "disepatherData l" ?ch] adm
    by (auto simp: epoll_can_add_def admissible_def)
  have frame: "ep_refuses d = ep_refuses (disepatherData l)" "\<forall>g. g \<noteq> f \<longrightarrow> ep_interest d g = ep_interest (disepatherData l) g"
    using d(1) by (auto simp: epoll_ops split: if_splits)
  obtain m' where m': "set_slot m f (Chan (freshchan l)) = Inr m'" "map_inv m'" "msize m' = msize m"
    using set_slot_ok [OF m(2) _ m(3)] slot_in_range [OF m(4)] by blast
  have add: "perform (Epolldispatch created) al junk dcb l' (ADD, freshchan l) =
      Inr (l'\<lparr>channelmap := Some m', disepatherData := d\<rparr>)" for created al junk dcb
    using m m' d(1) eq by (simp add: perform_def AddEventLoop_def channel_at_def epoll.add_frame admitted_def)
  have "connected l'' (freshconn l) (new_conn l f) f"
    if "chans l'' = chans l'" "conns l'' = conns l'" "channelmap l'' = Some m'" "disepatherData l'' = d"
    for l'' :: "(epoll_data, 'a) tcp_loop_scheme"
    using that m' d(3) slot_at_set [OF m'(1), of f] eq
    by (auto simp: connected_def conn_at_def channel_at_def admitted_def new_conn_def)
  moreover have "only_at f l l''" if "channelmap l'' = Some m'" "disepatherData l'' = d" "isQuite l'' = isQuite l" "pair_room l'' = pair_room l"
    for l'' :: "(epoll_data, 'a) tcp_loop_scheme"
    using that frame m m' slot_at_set [OF m'(1)] by (simp add: only_at_def)
  ultimately show thesis using that [OF add _ d(2)] by blast
qed

text \<open>In the loop's own thread the new connection is watched for reading when the call returns.\<close>

lemma initTcpConnection_own:
  fixes l :: "(epoll_data, 'a) tcp_loop_scheme"
  assumes idle: "idle self l" and al: "granted W" and f: "admissible l f"
  shows "\<exists>l' conn. initTcpConnection (Epolldispatch created) W self l f = Inr (l', freshconn l) \<and>
     idle self l' \<and> connected l' (freshconn l) conn f \<and> fresh conn \<and>
     epoll_interest (disepatherData l') = (epoll_interest (disepatherData l))(f := (True, False))"
proof -
  let ?l = "admitted l f"
  have f': "int32 f" using f by (simp add: admissible_def)
  have e: "chans (?l\<lparr>mutex := True\<rparr>) = chans ?l" "conns (?l\<lparr>mutex := True\<rparr>) = conns ?l"
    "channelmap (?l\<lparr>mutex := True\<rparr>) = channelmap l" "disepatherData (?l\<lparr>mutex := True\<rparr>) = disepatherData l"
    by (simp_all add: admitted_def)
  obtain m' d where a: "\<And>created al junk dcb. perform (Epolldispatch created) al junk dcb (?l\<lparr>mutex := True\<rparr>) (ADD, freshchan l) =
      Inr (?l\<lparr>mutex := True\<rparr>\<lparr>channelmap := Some m', disepatherData := d\<rparr>)"
    "\<And>l'' :: (epoll_data, 'a) tcp_loop_scheme. chans l'' = chans (?l\<lparr>mutex := True\<rparr>) \<Longrightarrow> conns l'' = conns (?l\<lparr>mutex := True\<rparr>) \<Longrightarrow>
        channelmap l'' = Some m' \<Longrightarrow> disepatherData l'' = d \<Longrightarrow> connected l'' (freshconn l) (new_conn l f) f"
    "epoll_interest d = (epoll_interest (disepatherData l))(f := (True, False))"
    by (rule add_admitted [OF f e]) (rule that)
  have idle': "queue_rep (tasks ?l) []" "\<not> mutex ?l" "threadID ?l = self"
    using idle by (simp_all add: idle_def admitted_def)
  obtain q' where q': "queue_rep q' []"
      "AddTaskEventLoop (Epolldispatch created) (w_al W) (w_junk W) (destroy_call W) self ?l (freshchan l) ADD =
        Inr (?l\<lparr>channelmap := Some m', disepatherData := d, tasks := q', mutex := False\<rparr>)"
    using tcp_loop.add_task_single [OF idle', of created "w_al W" "w_junk W" W "freshchan l" ADD] unfolding a(1)
    by auto
  let ?l3 = "?l\<lparr>channelmap := Some m', disepatherData := d, tasks := q', mutex := False\<rparr>"
  have "initTcpConnection (Epolldispatch created) W self l f = Inr (?l3, freshconn l)"
    unfolding initTcpConnection_eq [OF al f'] using q'(2) by (simp add: conn_at_def admitted_def)
  then show ?thesis
    using a(2) [of ?l3] a(3) q'(1) idle new_conn_fresh [of l f]
    by (intro exI [of _ ?l3] exI [of _ "new_conn l f"]) (simp add: idle_def admitted_def)
qed

definition same_io :: "('d, 'a) tcp_loop_scheme \<Rightarrow> ('d, 'a) tcp_loop_scheme \<Rightarrow> bool" where
  "same_io l l' \<longleftrightarrow> isQuite l' = isQuite l \<and> recvs l' = recvs l \<and> net l' = net l \<and> closed l' = closed l"

text \<open>
  From another thread it is only queued; the loop's own thread watches it when it next handles
  its tasks.
\<close>

lemma initTcpConnection_other:
  fixes l :: "(epoll_data, 'a) tcp_loop_scheme"
  assumes q: "queue_rep (tasks l) []" "\<not> mutex l" and other: "threadID l \<noteq> self" "pair_takes l 1"
    and al: "granted W" and f: "admissible l f"
  shows "\<exists>l'. initTcpConnection (Epolldispatch created) W self l f = Inr (l', freshconn l) \<and>
     disepatherData l' = disepatherData l \<and> threadID l' = threadID l \<and> isQuite l' = isQuite l \<and>
     (\<exists>l'' conn. processTaskEventLoop (Epolldispatch created) (w_al W) (w_junk W) (destroy_call W) l' = Inr l'' \<and>
        idle (threadID l) l'' \<and> connected l'' (freshconn l) conn f \<and> fresh conn \<and> same_io l l'' \<and> only_at f l l'' \<and>
        rx l'' = (fst (rx l), snd (rx l) + 8) \<and>
        epoll_interest (disepatherData l'') = (epoll_interest (disepatherData l))(f := (True, False)))"
proof -
  let ?l = "admitted l f"
  have f': "int32 f" using f by (simp add: admissible_def)
  have q0: "queue_rep (tasks ?l) []" "\<not> mutex ?l" "threadID ?l \<noteq> self" "pair_takes ?l 1"
    using q other by (simp_all add: admitted_def pair_takes_def)
  obtain q' where q': "queue_rep q' [(ADD, freshchan l)]"
      "AddTaskEventLoop (Epolldispatch created) (w_al W) (w_junk W) (destroy_call W) self ?l (freshchan l) ADD =
        Inr (pair_written (?l\<lparr>tasks := q'\<rparr>))"
    using tcp_loop.add_task_other_thread [OF q0(1-3), of ADD "freshchan l" created "w_al W" "w_junk W" W] q0(4) by auto
  let ?l1 = "pair_written (?l\<lparr>tasks := q'\<rparr>)"
  have e: "chans (?l1\<lparr>mutex := True\<rparr>) = chans ?l" "conns (?l1\<lparr>mutex := True\<rparr>) = conns ?l"
    "channelmap (?l1\<lparr>mutex := True\<rparr>) = channelmap l" "disepatherData (?l1\<lparr>mutex := True\<rparr>) = disepatherData l"
    by (simp_all add: pair_written_def admitted_def)
  obtain m' d where a: "\<And>created al junk dcb. perform (Epolldispatch created) al junk dcb (?l1\<lparr>mutex := True\<rparr>) (ADD, freshchan l) =
      Inr (?l1\<lparr>mutex := True\<rparr>\<lparr>channelmap := Some m', disepatherData := d\<rparr>)"
    "\<And>l'' :: (epoll_data, 'a) tcp_loop_scheme. chans l'' = chans (?l1\<lparr>mutex := True\<rparr>) \<Longrightarrow> conns l'' = conns (?l1\<lparr>mutex := True\<rparr>) \<Longrightarrow>
        channelmap l'' = Some m' \<Longrightarrow> disepatherData l'' = d \<Longrightarrow> connected l'' (freshconn l) (new_conn l f) f"
    "epoll_interest d = (epoll_interest (disepatherData l))(f := (True, False))"
    "\<And>l'' :: (epoll_data, 'a) tcp_loop_scheme. channelmap l'' = Some m' \<Longrightarrow> disepatherData l'' = d \<Longrightarrow>
        isQuite l'' = isQuite l \<Longrightarrow> pair_room l'' = pair_room l \<Longrightarrow> only_at f l l''"
    by (rule add_admitted [OF f e]) (rule that)
  let ?l2 = "?l1\<lparr>mutex := False, channelmap := Some m', disepatherData := d,
    tasks := q'\<lparr>nodes := Map.empty, qhead := None, qtail := None\<rparr>\<rparr>"
  have "processTaskEventLoop (Epolldispatch created) (w_al W) (w_junk W) (destroy_call W) ?l1 = Inr ?l2"
    using tcp_loop.process_tasks_eq [where l = ?l1 and xs = "[(ADD, freshchan l)]" and W = W and created = created
        and al = "w_al W" and junk = "w_junk W"] q' q0(2) a(1)
    by (simp add: pair_written_def)
  moreover have "initTcpConnection (Epolldispatch created) W self l f = Inr (?l1, freshconn l)"
    unfolding initTcpConnection_eq [OF al f'] using q'(2) by (simp add: conn_at_def admitted_def pair_written_def)
  moreover have "disepatherData ?l1 = disepatherData l" "threadID ?l1 = threadID l" "isQuite ?l1 = isQuite l" "same_io l ?l2"
    by (simp_all add: pair_written_def admitted_def same_io_def)
  moreover have "idle (threadID l) ?l2"
    using tcp_loop.queue_rep_processed by (simp add: idle_def pair_written_def admitted_def)
  moreover have "connected ?l2 (freshconn l) (new_conn l f) f"
    by (rule a(2)) (simp_all add: pair_written_def)
  moreover have "only_at f l ?l2" by (rule a(4)) (simp_all add: pair_written_def admitted_def)
  moreover have "rx ?l2 = (fst (rx l), snd (rx l) + 8)" by (simp add: pair_written_def admitted_def)
  ultimately show ?thesis using a(3) new_conn_fresh [of l f]
    by (intro exI [of _ ?l1] exI [of _ ?l2] exI [of _ "new_conn l f"] conjI) simp_all
qed

subsection \<open>The event that brings a request\<close>

lemma activate_read:
  assumes "connected l c conn f"
  shows "ActivateEvent (worker_call D W self) l readevent f =
     rbind (processRead D W self c l) (\<lambda>(l', _). Inr (l', 0))"
proof -
  obtain ch m where ch: "channel_at l (conn_channel conn) = Inr ch" "fd ch = f" "readcallback ch = Some ProcessRead"
      "arg ch = ConnArg c" "channelmap l = Some m" "slot_at m f = Inr (Chan (conn_channel conn))"
    using assms by (auto simp: connected_def)
  have "readevent AND writevent = (0 :: 32 word)" "readevent AND readevent \<noteq> (0 :: 32 word)"
    by (simp_all add: event_bits)
  then show ?thesis
    using ch by (simp add: ActivateEvent_def slot_channel_def worker_call_def rbind_assoc split_def)
qed

lemma dispatch_read:
  assumes "connected l c conn f"
  shows "epolldispatch (worker_call D W self) (Some [(f, EPOLLIN)]) l =
     rbind (processRead D W self c l) (\<lambda>(l', _). Inr (l', None))"
  using activate_read [OF assms, of D W self]
  by (simp add: epolldispatch_def epoll_event_def epoll_bits rbind_assoc split_def)

text \<open>Two waits of a worker: one that times out while a new connection is queued, one that reports it.\<close>

lemma idle_tasks:
  assumes "idle self l"
  shows "\<exists>q. queue_rep q [] \<and> processTaskEventLoop (Epolldispatch created) al junk (destroy_call W) l =
     Inr (l\<lparr>tasks := q, mutex := False\<rparr>)"
  using tcp_loop.process_tasks_eq [where l = l and xs = "[]"] tcp_loop.queue_rep_processed assms
  by (fastforce simp: idle_def)

lemma dispatch_nothing: "epolldispatch call (Some []) l = Inr (l, None)"
  by (simp add: epolldispatch_def)

lemma d_dispatch_epoll: "d_dispatch (Epolldispatch created) = epolldispatch"
  by (simp add: Epolldispatch_def)

lemma worker_rounds:
  assumes l: "\<not> isQuite l" "processTaskEventLoop (Epolldispatch created) al junk (destroy_call W) l = Inr l1"
    and l1: "\<not> isQuite l1" "connected l1 c conn f"
    and read: "processRead (Epolldispatch created) W self c l1 = (if w_debug W then Inl UseAfterFree else Inr (l2, None))"
    and idle: "idle self l2"
  shows "\<exists>q. queue_rep q [] \<and>
     run_rounds (Epolldispatch created) al junk (destroy_call W) (worker_call (Epolldispatch created) W self)
       [Some [], Some [(f, EPOLLIN)]] l =
     (if w_debug W then Inl UseAfterFree else Inr (l2\<lparr>tasks := q, mutex := False\<rparr>))"
proof -
  obtain q where q: "queue_rep q []"
      "processTaskEventLoop (Epolldispatch created) al junk (destroy_call W) l2 = Inr (l2\<lparr>tasks := q, mutex := False\<rparr>)"
    using idle_tasks [OF idle] by blast
  then show ?thesis
    using l l1(1) read dispatch_read [OF l1(2), of "Epolldispatch created" W self]
    by (auto simp: d_dispatch_epoll dispatch_nothing)
qed

section \<open>Properties\<close>

text \<open>
  C6: Serving a file, from the descriptor to the closed connection: when a fresh connection's
  descriptor delivers a complete GET request for an existing regular file, \<open>processRead\<close> sends
  the 200 response with the file's media type and size and then the file's bytes, removes the
  descriptor from epoll and from the table, closes it and frees the connection, and leaves the
  loop idle. With \<open>DEBUG\<close> set, as the repository has it, the same run ends in a read of the
  freed connection's name.
\<close>

theorem serve_file_and_close:
  assumes "idle self l" and "connected l c conn f" and "fresh conn" and "granted W" and "accepts_all (w_send W)"
    and "request_ok m u v hs" and "length hs \<le> HeaderSize" and "strcasecmp_eq m ''get''"
    and "w_recv W (recvs l) f = Some (print_request m u v hs)" and "length (print_request m u v hs) < 10240"
    and "names_file u file" and "length file < 128"
    and "fstat (w_files W) file = Some st" and "\<not> st_isdir st"
    and "0 < fopen (w_files W) file" and "reads_from (w_files W) file 0 cs"
  shows "\<exists>l'. processRead (Epolldispatch created) W self c l =
      (if w_debug W then Inl UseAfterFree else Inr (l', None)) \<and>
     disconnected l' c conn f \<and> closed l' = closed l @ [f] \<and> idle self l' \<and>
     sent (net l) f (''HTTP/1.1 200 OK'' @ CRLF @ ''Content-type: '' @ getFileType file @ CRLF @
       ''Content-length: '' @ dec (wrap32 (st_size st)) @ CRLF @ CRLF @ concat cs) [fopen (w_files W) file] (net l')"
  using processRead_file [OF assms, of created] unfolding head_file by (elim exE conjE, intro exI conjI) (simp_all only: append_assoc)

definition small_world :: "bool \<Rightarrow> char list option \<Rightarrow> world" where
  "small_world debug rv =
     \<lparr>w_al = (\<lambda>_. True), w_junk = (\<lambda>_. Null), w_files = small_files, w_send = all_sent,
      w_recv = (\<lambda>_ _. rv), w_debug = debug\<rparr>"

definition worker_loop :: "epoll_data tcp_loop" where
  "worker_loop =
     \<lparr>isQuite = False, disepatherData = \<lparr>ep_interest = Map.empty, ep_refuses = (\<lambda>_. False)\<rparr>,
      tasks = empty_queue, channelmap = Some \<lparr>msize = 8, mlist = replicate 8 Null\<rparr>, threadID = 2,
      threadName = ''Subthread--0'', mutex = False, spair = (3, 4), rx = (0, 0), pair_room = 64,
      chans = Map.empty, freshchan = 0, closed = [], conns = Map.empty, freshconn = 0, net = silent, recvs = 0\<rparr>"

lemma small_world_simps [simp]:
  "granted (small_world d rv)" "accepts_all (w_send (small_world d rv))" "w_recv (small_world d rv) n f = rv"
  "w_files (small_world d rv) = small_files" "w_debug (small_world d rv) = d"
  by (simp_all add: small_world_def granted_def all_sent_ok)

lemma worker_loop_idle: "idle 2 worker_loop"
  by (simp add: idle_def worker_loop_def queue_rep_empty)

lemma worker_loop_admits: "admissible worker_loop 5"
  by (simp add: admissible_def worker_loop_def int32_def map_inv_def slot_at_def)

lemma worker_loop_serving: "\<exists>(l :: epoll_data tcp_loop) conn. idle 2 l \<and> connected l 0 conn 5 \<and> fresh conn"
  using initTcpConnection_own [OF worker_loop_idle small_world_simps(1) [of True None] worker_loop_admits, of None]
  by (auto simp: worker_loop_def)

lemma get_txt_ok:
  "request_ok ''GET'' ''/d/a.txt'' ''HTTP/1.1'' []" "strcasecmp_eq ''GET'' ''get''"
  "length (print_request ''GET'' ''/d/a.txt'' ''HTTP/1.1'' []) < 10240" "names_file ''/d/a.txt'' ''d/a.txt''"
  by (simp_all add: request_ok_def token_def strcasecmp_eq_def tolower_def char_of_def bit_0 cstr_def print_request_def
      names_file_def)

theorem serve_file_and_close_witness:
  "\<exists>(l :: epoll_data tcp_loop) conn l'. connected l 0 conn 5 \<and>
     processRead (Epolldispatch None) (small_world False (Some (print_request ''GET'' ''/d/a.txt'' ''HTTP/1.1'' []))) 2 0 l =
       Inr (l', None) \<and>
     disconnected l' 0 conn 5 \<and> (\<exists>head. wire (net l') 5 = wire (net l) 5 @ ''HTTP/1.1 200 OK'' @ CRLF @ head @ ''hello'')"
proof -
  let ?W = "small_world False (Some (print_request ''GET'' ''/d/a.txt'' ''HTTP/1.1'' []))"
  obtain l :: "epoll_data tcp_loop" and conn where l: "idle 2 l" "connected l 0 conn 5" "fresh conn"
    using worker_loop_serving by blast
  have st: "fstat small_files ''d/a.txt'' = Some \<lparr>st_isdir = False, st_size = 5\<rparr>" "0 < fopen small_files ''d/a.txt''"
    "reads_from small_files ''d/a.txt'' 0 [''hello'']"
    by (simp_all add: small_files_def)
  note req = get_txt_ok
  have "\<exists>l'. processRead (Epolldispatch None) ?W 2 0 l = (if w_debug ?W then Inl UseAfterFree else Inr (l', None)) \<and>
     disconnected l' 0 conn 5 \<and> closed l' = closed l @ [5] \<and> idle 2 l' \<and>
     sent (net l) 5 (''HTTP/1.1 200 OK'' @ CRLF @ ''Content-type: '' @ getFileType ''d/a.txt'' @ CRLF @
       ''Content-length: '' @ dec (wrap32 (st_size \<lparr>st_isdir = False, st_size = 5\<rparr>)) @ CRLF @ CRLF @ concat [''hello''])
       [fopen (w_files ?W) ''d/a.txt''] (net l')"
    by (rule serve_file_and_close [OF l small_world_simps(1,2) req(1) _ req(2) _ req(3,4)])
      (use st(3) in \<open>simp_all add: st(1,2) HeaderSize_def\<close>)
  then obtain l' where l': "processRead (Epolldispatch None) ?W 2 0 l = Inr (l', None)" "disconnected l' 0 conn 5"
      "wire (net l') 5 = wire (net l) 5 @ ''HTTP/1.1 200 OK'' @ CRLF @
         (''Content-type: '' @ getFileType ''d/a.txt'' @ CRLF @ ''Content-length: '' @ dec (wrap32 5) @ CRLF @ CRLF) @ ''hello''"
    by (auto simp: sent_def)
  with l(2) show ?thesis by blast
qed

text \<open>
  When the peer closes without having sent anything, or the read fails, \<open>processRead\<close>
  returns with the loop as it was: the descriptor stays watched and open, so a level-triggered
  wait reports it again at once, forever.
\<close>

lemma peer_close_ignored:
  assumes "connected l c conn f" and "conn_readBuf conn = Some rb" and "buf_inv rb" and "print_unread W rb = Inr ()"
    and "w_recv W (recvs l) f = None \<or> w_recv W (recvs l) f = Some []"
  shows "processRead D W self c l = Inr (l\<lparr>recvs := Suc (recvs l)\<rparr>, Some 0)"
  using assms by (rule processRead_nothing)

lemma peer_close_ignored_witness:
  "\<exists>(l :: epoll_data tcp_loop) conn. connected l 0 conn 5 \<and>
     processRead (Epolldispatch None) (small_world True (Some [])) 2 0 l = Inr (l\<lparr>recvs := Suc (recvs l)\<rparr>, Some 0)"
proof -
  obtain l :: "epoll_data tcp_loop" and conn where l: "idle 2 l" "connected l 0 conn 5" "fresh conn"
    using worker_loop_serving by blast
  moreover have "print_unread (small_world True (Some [])) empty_buffer = Inr ()"
    by (simp add: print_unread_def empty_buffer_def)
  ultimately have "processRead (Epolldispatch None) (small_world True (Some [])) 2 0 l = Inr (l\<lparr>recvs := Suc (recvs l)\<rparr>, Some 0)"
    by (intro peer_close_ignored [OF l(2) _ empty_buffer_inv(1)]) (simp_all add: fresh_def)
  with l(2) show ?thesis by blast
qed

text \<open>
  A connection closed while bytes are still unread (a pipelined request, say) is freed, but
  its channel stays allocated and in the table, and its descriptor is never closed.
\<close>

lemma close_with_bytes_leaks:
  assumes "idle self l" and "connected l c conn f" and "conn_readBuf conn = Some rb"
    and "bufferReadAbleSize rb \<noteq> 0" and "\<not> w_debug W"
  shows "\<exists>l'. AddTaskEventLoop (Epolldispatch created) al junk (destroy_call W) self l (conn_channel conn) DELETE = Inr l' \<and>
     conns l' c = None \<and> chans l' = chans l \<and> channelmap l' = channelmap l \<and> closed l' = closed l \<and>
     epoll_interest (disepatherData l') f = (False, False)"
  using assms by (rule delete_with_bytes)

lemma close_with_bytes_leaks_witness:
  "\<exists>(l :: epoll_data tcp_loop) conn l'. connected l 0 conn 5 \<and>
     AddTaskEventLoop (Epolldispatch None) (\<lambda>_. True) (\<lambda>_. Null) (destroy_call (small_world False None)) 2 l (conn_channel conn) DELETE = Inr l' \<and>
     closed l' = closed l"
proof -
  obtain l :: "epoll_data tcp_loop" and conn where l: "idle 2 l" "connected l 0 conn 5" "fresh conn"
    using worker_loop_serving by blast
  let ?rb = "four_bytes\<lparr>writePos := 1\<rparr>"
  let ?conn = "conn\<lparr>conn_readBuf := Some ?rb\<rparr>"
  let ?l = "l\<lparr>conns := (conns l)(0 \<mapsto> ?conn)\<rparr>"
  have "idle 2 ?l" "connected ?l 0 ?conn 5"
    using l by (auto simp: idle_def connected_def conn_at_def channel_at_def)
  moreover have "bufferReadAbleSize ?rb \<noteq> 0" by (simp add: bufferReadAbleSize_def four_bytes_def)
  ultimately obtain l' where "AddTaskEventLoop (Epolldispatch None) (\<lambda>_. True) (\<lambda>_. Null) (destroy_call (small_world False None)) 2 ?l (conn_channel ?conn) DELETE = Inr l'"
      "closed l' = closed ?l"
    using close_with_bytes_leaks [of 2 ?l 0 ?conn 5 ?rb "small_world False None" None "\<lambda>_. True" "\<lambda>_. Null"] by auto
  with \<open>connected ?l 0 ?conn 5\<close> show ?thesis by blast
qed

text \<open>
  C18: Handling the task list of an epoll loop of connections is performing its tasks one after
  the other, each exactly once and in the order they were queued, then emptying the list and
  releasing the mutex; the first fault ends it.
\<close>

theorem tasks_performed_in_order:
  assumes "queue_rep (tasks l) xs" and "\<not> mutex l"
  shows "processTaskEventLoop (Epolldispatch created) al junk (destroy_call W) l =
     rbind (put_all (perform (Epolldispatch created) al junk (destroy_call W)) (l\<lparr>mutex := True\<rparr>) xs) (\<lambda>l'.
       Inr (l'\<lparr>tasks := (tasks l)\<lparr>nodes := Map.empty, qhead := None, qtail := None\<rparr>, mutex := False\<rparr>))"
  using assms by (rule tcp_loop.process_tasks_eq)

text \<open>
  A worker's loop in whose list another thread has put three tasks: watch the connection on
  descriptor 5, watch descriptor 6, and take the connection down. In another order the connection
  would be gone before it is watched.
\<close>

definition queued_loop :: "epoll_data tcp_loop" where
  "queued_loop = worker_loop\<lparr>chans := [0 \<mapsto> conn_chan 0 5, 1 \<mapsto> reader 6], freshchan := 2,
     conns := [0 \<mapsto> new_conn worker_loop 5], freshconn := 1,
     tasks := \<lparr>nodes = [0 \<mapsto> \<lparr>ntype = ADD, nchannel = 0, nnext = Some 1\<rparr>,
         1 \<mapsto> \<lparr>ntype = ADD, nchannel = 1, nnext = Some 2\<rparr>, 2 \<mapsto> \<lparr>ntype = DELETE, nchannel = 0, nnext = None\<rparr>],
       qhead = Some 0, qtail = Some 2, freshnode = 3\<rparr>\<rparr>"

lemma queued_loop_tasks: "queue_rep (tasks queued_loop) [(ADD, 0), (ADD, 1), (DELETE, 0)]"
  unfolding queue_rep_def by (rule exI [of _ "[0, 1, 2]"]) (auto simp: queue_at_def queued_loop_def)

lemma queued_loop_performed:
  "\<exists>l'. put_all (perform (Epolldispatch None) (\<lambda>_. True) (\<lambda>_. Null) (destroy_call (small_world False None)))
       (queued_loop\<lparr>mutex := True\<rparr>) [(ADD, 0), (ADD, 1), (DELETE, 0)] = Inr l' \<and>
     epoll_interest (disepatherData l') 5 = (False, False) \<and> epoll_interest (disepatherData l') 6 = (True, False) \<and>
     channelmap l' = Some \<lparr>msize = 8, mlist = (replicate 8 Null)[6 := Chan 1]\<rparr> \<and> closed l' = [5] \<and> conns l' 0 = None"
  by (simp add: queued_loop_def worker_loop_def perform_def AddEventLoop_def DeleteEventLoop_def channel_at_def
      Epolldispatch_def epolladd_def epollremove_def epollctl_def epoll_ctl_def epoll_mask_def epoll_interest_def
      conn_chan_def initchannel_def event_bits epoll_bits slot_at_def set_slot_def call_ptr_def destroy_call_def
      detroyTcpConnection_def release_conn_def destroyHttpRequest_def resetHttpRequestEX_def destroyChannel_def conn_at_def
      new_conn_def bufferReadAbleSize_def empty_buffer_def initHttpRequest_def small_world_def reader_def Let_def
      resetHttpRequest_def)
    (simp add: eval_nat_numeral)

theorem tasks_performed_in_order_witness:
  "\<exists>l'. processTaskEventLoop (Epolldispatch None) (\<lambda>_. True) (\<lambda>_. Null) (destroy_call (small_world False None)) queued_loop = Inr l' \<and>
     epoll_interest (disepatherData l') 5 = (False, False) \<and> epoll_interest (disepatherData l') 6 = (True, False) \<and>
     channelmap l' = Some \<lparr>msize = 8, mlist = (replicate 8 Null)[6 := Chan 1]\<rparr> \<and> closed l' = [5] \<and> conns l' 0 = None \<and>
     tasks l' = \<lparr>nodes = Map.empty, qhead = None, qtail = None, freshnode = 3\<rparr> \<and> \<not> mutex l'"
proof -
  have free: "\<not> mutex queued_loop" by (simp add: queued_loop_def worker_loop_def)
  have ends: "(tasks queued_loop)\<lparr>nodes := Map.empty, qhead := None, qtail := None\<rparr> =
      \<lparr>nodes = Map.empty, qhead = None, qtail = None, freshnode = 3\<rparr>"
    by (simp add: queued_loop_def)
  show ?thesis
    using queued_loop_performed
      tasks_performed_in_order [OF queued_loop_tasks free, of None "\<lambda>_. True" "\<lambda>_. Null" "small_world False None"]
    unfolding ends by (elim exE conjE) (simp del: put_all.simps)
qed

text \<open>
  Tasks added from other threads are queued, in order, and none is performed; each writes
  8 bytes to the socket pair that arrive at its second end, while the loop watches the first end,
  on which nothing ever becomes readable: the wake-up does not wake the loop. Nobody reads the second
  end, so when it is full the adding thread blocks, for good.
\<close>

lemma wake_up_never_arrives:
  fixes l :: "(epoll_data, 'a) tcp_loop_scheme"
  assumes "queue_rep (tasks l) xs" and "\<not> mutex l" and "threadID l \<noteq> self"
  shows "if ts = [] \<or> pair_takes l (length ts)
     then \<exists>l'. put_all (\<lambda>l (ty, a). AddTaskEventLoop (Epolldispatch created) al junk (destroy_call W) self l a ty) l ts = Inr l' \<and>
       queue_rep (tasks l') (xs @ ts) \<and> rx l' = (fst (rx l), snd (rx l) + 8 * length ts) \<and>
       disepatherData l' = disepatherData l
     else put_all (\<lambda>l (ty, a). AddTaskEventLoop (Epolldispatch created) al junk (destroy_call W) self l a ty) l ts = Inl Hang"
  using assms
proof (induction ts arbitrary: l xs)
  case Nil
  then show ?case by simp
next
  case (Cons t ts)
  obtain ty a where t: "t = (ty, a)" by (cases t)
  obtain q' where q': "queue_rep q' (xs @ [(ty, a)])"
      "AddTaskEventLoop (Epolldispatch created) al junk (destroy_call W) self l a ty =
       (if pair_takes l 1 then Inr (pair_written (l\<lparr>tasks := q'\<rparr>)) else Inl Hang)"
    using tcp_loop.add_task_other_thread [OF Cons.prems] by blast
  show ?case
  proof (cases "pair_takes l 1")
    case True
    with Cons.IH [of "pair_written (l\<lparr>tasks := q'\<rparr>)" "xs @ [(ty, a)]"] q' Cons.prems(2,3) show ?thesis
      by (cases ts) (auto simp: t pair_written_def pair_takes_def)
  next
    case False
    then show ?thesis using q'(2) by (simp add: t pair_takes_def)
  qed
qed

lemma wake_up_never_arrives_witness:
  "\<exists>l'. put_all (\<lambda>l (ty, a). AddTaskEventLoop (Epolldispatch None) (\<lambda>_. True) (\<lambda>_. Null) (destroy_call (small_world False None)) 9 l a ty) worker_loop
       [(ADD, 0), (DELETE, 0)] = Inr l' \<and> queue_rep (tasks l') [(ADD, 0), (DELETE, 0)] \<and> rx l' = (0, 16)"
  using wake_up_never_arrives [of worker_loop "[]" 9 "[(ADD, 0), (DELETE, 0)]" None "\<lambda>_. True" "\<lambda>_. Null" "small_world False None"]
  by (auto simp: worker_loop_def queue_rep_empty pair_takes_def split: if_splits)

end
