(* ===== verification/Task_Wake.thy ===== *)
theory Task_Wake
  imports Tcp_Connection
begin

text \<open>
  The task list of \<open>old/ReactorHttp_c/EventLoop.c\<close> between several threads, at the level of the
  mutex. Another thread locks it, links a node and unlocks (\<open>AddTaskEventLoop\<close>), then writes to
  the socket pair (\<open>taskWakeUp\<close>). The loop's thread waits in its dispatcher, runs callbacks, which
  may add tasks themselves, then locks, performs all tasks under the lock, unlocks
  (\<open>processTaskEventLoop\<close>) and goes on. \<open>tasks_step\<close> is one such action of one thread.
\<close>

section \<open>The protocol\<close>

datatype 'k holder = Nobody | Adder 'k | Looper

datatype tasks_pc = CWaits | CHandles | CLocks | CPerforms

text \<open>
  \<open>t_far\<close> are the bytes at the end of the socket pair that the loop does not watch (\<open>taskWakeUp\<close>
  fills no other, and nobody reads them), \<open>t_room\<close> how many it takes, \<open>t_waking\<close> the threads in
  \<open>taskWakeUp\<close> that have not written: \<open>write\<close> waits when there is no room. \<open>t_done\<close> and \<open>t_posted\<close> are the tasks
  performed and all tasks ever queued, in order.
\<close>

record 'k shared_tasks =
  t_list :: "'k list"
  t_holder :: "'k holder"
  t_waking :: nat
  t_far :: nat
  t_room :: nat
  t_pc :: tasks_pc
  t_done :: "'k list"
  t_posted :: "'k list"

definition pair_full :: "'k shared_tasks \<Rightarrow> bool" where
  "pair_full s \<longleftrightarrow> t_room s < t_far s + 8"

definition tasks_begin :: "nat \<Rightarrow> 'k shared_tasks" where
  "tasks_begin n = \<lparr>t_list = [], t_holder = Nobody, t_waking = 0, t_far = 0, t_room = n, t_pc = CWaits, t_done = [], t_posted = []\<rparr>"

definition link_task :: "'k \<Rightarrow> 'k shared_tasks \<Rightarrow> 'k shared_tasks" where
  "link_task k s = s\<lparr>t_list := t_list s @ [k], t_posted := t_posted s @ [k]\<rparr>"

text \<open>What goes on without new tasks; a wait ends for them only by its timeout (\<open>time_out\<close>).\<close>

inductive tasks_move :: "'k shared_tasks \<Rightarrow> 'k shared_tasks \<Rightarrow> bool" where
  link: "t_holder s = Adder k \<Longrightarrow> tasks_move s ((link_task k s)\<lparr>t_holder := Nobody, t_waking := Suc (t_waking s)\<rparr>)"
| wake: "0 < t_waking s \<Longrightarrow> \<not> pair_full s \<Longrightarrow> tasks_move s (s\<lparr>t_waking := t_waking s - 1, t_far := t_far s + 8\<rparr>)"
| time_out: "t_pc s = CWaits \<Longrightarrow> t_list s \<noteq> [] \<Longrightarrow> tasks_move s (s\<lparr>t_pc := CHandles\<rparr>)"
| handled: "t_pc s = CHandles \<Longrightarrow> tasks_move s (s\<lparr>t_pc := CLocks\<rparr>)"
| lock: "t_pc s = CLocks \<Longrightarrow> t_holder s = Nobody \<Longrightarrow> tasks_move s (s\<lparr>t_pc := CPerforms, t_holder := Looper\<rparr>)"
| perform: "t_pc s = CPerforms \<Longrightarrow> t_list s = k # ks \<Longrightarrow> tasks_move s (s\<lparr>t_list := ks, t_done := t_done s @ [k]\<rparr>)"
| unlock: "t_pc s = CPerforms \<Longrightarrow> t_list s = [] \<Longrightarrow> tasks_move s (s\<lparr>t_pc := CWaits, t_holder := Nobody\<rparr>)"

text \<open>
  New tasks: another thread locks the mutex, or a callback of the loop's own thread adds a task and
  goes on to the processing. A wait may end for any other reason, and after a callback's tasks more
  callbacks may run.
\<close>

inductive tasks_step :: "'k shared_tasks \<Rightarrow> 'k shared_tasks \<Rightarrow> bool" where
  move: "tasks_move s t \<Longrightarrow> tasks_step s t"
| add: "t_holder s = Nobody \<Longrightarrow> tasks_step s (s\<lparr>t_holder := Adder k\<rparr>)"
| own: "t_pc s = CHandles \<Longrightarrow> t_holder s = Nobody \<Longrightarrow> tasks_step s ((link_task k s)\<lparr>t_pc := CLocks\<rparr>)"
| event: "t_pc s = CWaits \<Longrightarrow> tasks_step s (s\<lparr>t_pc := CHandles\<rparr>)"
| more: "t_pc s = CPerforms \<Longrightarrow> t_list s = [] \<Longrightarrow> tasks_step s (s\<lparr>t_pc := CHandles, t_holder := Nobody\<rparr>)"

inductive_cases tasks_moveE: "tasks_move s t"
inductive_cases tasks_stepE: "tasks_step s t"

definition tasks_inv :: "'k shared_tasks \<Rightarrow> bool" where
  "tasks_inv s \<longleftrightarrow> t_posted s = t_done s @ t_list s \<and> (t_holder s = Looper \<longleftrightarrow> t_pc s = CPerforms)"

lemma tasks_move_inv: "tasks_move s t \<Longrightarrow> tasks_inv s \<Longrightarrow> tasks_inv t"
  by (erule tasks_moveE) (auto simp: tasks_inv_def link_task_def)

lemma tasks_step_inv: "tasks_step s t \<Longrightarrow> tasks_inv s \<Longrightarrow> tasks_inv t"
  by (erule tasks_stepE) (auto simp: tasks_inv_def link_task_def dest: tasks_move_inv)

lemma tasks_begin_inv: "tasks_inv (tasks_begin n)"
  by (simp add: tasks_inv_def tasks_begin_def)

lemma tasks_reach: "tasks_step\<^sup>*\<^sup>* (tasks_begin n) s \<Longrightarrow> tasks_inv s"
  by (induction rule: rtranclp_induct) (auto intro: tasks_begin_inv tasks_step_inv)

text \<open>Nothing makes room in a full pair: a thread that waits to write to it waits for good.\<close>

lemma tasks_move_full: "tasks_move s t \<Longrightarrow> pair_full s \<Longrightarrow> pair_full t \<and> t_far t = t_far s \<and> t_waking s \<le> t_waking t"
  by (erule tasks_moveE) (auto simp: pair_full_def link_task_def)

lemma tasks_step_full: "tasks_step s t \<Longrightarrow> pair_full s \<Longrightarrow> pair_full t \<and> t_far t = t_far s \<and> t_waking s \<le> t_waking t"
  by (erule tasks_stepE) (auto simp: pair_full_def link_task_def dest: tasks_move_full)

lemma tasks_full:
  "tasks_step\<^sup>*\<^sup>* s t \<Longrightarrow> pair_full s \<Longrightarrow> pair_full t \<and> t_far t = t_far s \<and> t_waking s \<le> t_waking t"
  by (induction rule: rtranclp_induct) (auto dest: tasks_step_full)

section \<open>Without new tasks the list empties\<close>

fun tasks_pc_left :: "tasks_pc \<Rightarrow> bool \<Rightarrow> nat" where
  "tasks_pc_left CWaits none = (if none then 0 else 4)"
| "tasks_pc_left CHandles none = 3"
| "tasks_pc_left CLocks none = 2"
| "tasks_pc_left CPerforms none = 1"

definition tasks_left :: "'k shared_tasks \<Rightarrow> nat" where
  "tasks_left s = (case t_holder s of Adder k \<Rightarrow> 10 | _ \<Rightarrow> 0) + t_waking s + length (t_list s) + tasks_pc_left (t_pc s) (t_list s = [])"

definition at_rest :: "'k shared_tasks \<Rightarrow> bool" where
  "at_rest s \<longleftrightarrow> t_pc s = CWaits \<and> t_list s = [] \<and> t_holder s = Nobody \<and> (t_waking s = 0 \<or> pair_full s)"

lemma tasks_pc_left_bounds: "tasks_pc_left pc b \<le> tasks_pc_left pc c + 4"
  by (cases pc) auto

lemma tasks_move_lowers: "tasks_inv s \<Longrightarrow> tasks_move s t \<Longrightarrow> tasks_left t < tasks_left s"
proof (erule tasks_moveE)
  fix k assume "tasks_inv s" "t = (link_task k s)\<lparr>t_holder := Nobody, t_waking := Suc (t_waking s)\<rparr>" "t_holder s = Adder k"
  then show "tasks_left t < tasks_left s"
    using tasks_pc_left_bounds [of "t_pc s" False "t_list s = []"] by (simp add: tasks_left_def link_task_def)
qed (auto simp: tasks_left_def tasks_inv_def split: holder.splits)

lemma tasks_moves: "tasks_inv s \<Longrightarrow> \<not> at_rest s \<Longrightarrow> \<exists>t. tasks_move s t"
proof -
  assume inv: "tasks_inv s" and more: "\<not> at_rest s"
  show ?thesis
  proof (cases "t_holder s")
    case (Adder k)
    show ?thesis by (rule exI) (rule tasks_move.link [OF Adder])
  next
    case Nobody
    with inv more show ?thesis
      using tasks_move.wake [of s] tasks_move.time_out [of s] tasks_move.handled [of s] tasks_move.lock [of s]
      by (cases "t_pc s") (auto simp: tasks_inv_def at_rest_def)
  next
    case Looper
    with inv have "t_pc s = CPerforms" by (simp add: tasks_inv_def)
    then show ?thesis using tasks_move.perform [of s] tasks_move.unlock [of s] by (cases "t_list s") auto
  qed
qed

interpretation task_list: lowering tasks_move tasks_inv tasks_left at_rest
  by unfold_locales (auto intro: tasks_move_inv tasks_move_lowers tasks_moves)

text \<open>All tasks queued, and the one whose thread has the mutex for it.\<close>

definition tasks_coming :: "'k shared_tasks \<Rightarrow> 'k list" where
  "tasks_coming s = t_posted s @ (case t_holder s of Adder k \<Rightarrow> [k] | _ \<Rightarrow> [])"

lemma tasks_move_coming: "tasks_move s t \<Longrightarrow> tasks_inv s \<Longrightarrow> tasks_coming t = tasks_coming s"
  by (erule tasks_moveE) (auto simp: tasks_coming_def tasks_inv_def link_task_def)

lemma tasks_moves_coming: "tasks_move\<^sup>*\<^sup>* s t \<Longrightarrow> tasks_inv s \<Longrightarrow> tasks_inv t \<and> tasks_coming t = tasks_coming s"
  by (induction rule: rtranclp_induct) (auto dest: tasks_move_inv tasks_move_coming)

lemma tasks_rest_done: "tasks_move\<^sup>*\<^sup>* s t \<Longrightarrow> tasks_inv s \<Longrightarrow> at_rest t \<Longrightarrow> t_done t = tasks_coming s"
  by (drule (1) tasks_moves_coming) (auto simp: tasks_coming_def tasks_inv_def at_rest_def)

section \<open>The loop's operations are runs of the protocol\<close>

definition shows_tasks :: "('d, 'a) eloop_scheme \<Rightarrow> task shared_tasks \<Rightarrow> bool" where
  "shows_tasks l s \<longleftrightarrow> queue_rep (tasks l) (t_list s) \<and> (mutex l \<longleftrightarrow> t_holder s \<noteq> Nobody) \<and>
     snd (rx l) = t_far s \<and> pair_room l = t_room s"

context loop_contract
begin

text \<open>
  \<open>AddTaskEventLoop\<close> from another thread, when it gets the mutex: the task is linked and the mutex
  released; then the thread writes and returns, or waits in \<open>write\<close>.
\<close>

lemma add_task_steps:
  assumes "threadID l \<noteq> self" and "shows_tasks l s" and "t_holder s = Nobody"
  shows "\<exists>s1. tasks_step\<^sup>*\<^sup>* s s1 \<and> t_posted s1 = t_posted s @ [(ty, a)] \<and> t_holder s1 = Nobody \<and>
     t_waking s1 = Suc (t_waking s) \<and> t_far s1 = t_far s \<and>
     (if pair_full s then AddTaskEventLoop D al junk dcb self l a ty = Inl Hang
      else \<exists>l' s'. AddTaskEventLoop D al junk dcb self l a ty = Inr l' \<and> tasks_move s1 s' \<and>
        t_waking s' = t_waking s \<and> t_posted s' = t_posted s1 \<and> shows_tasks l' s' \<and> rx l' = (fst (rx l), t_far s + 8))"
proof -
  have free: "\<not> mutex l" "queue_rep (tasks l) (t_list s)" using assms(2,3) by (simp_all add: shows_tasks_def)
  have room: "pair_takes l 1 \<longleftrightarrow> \<not> pair_full s" using assms(2) by (auto simp: shows_tasks_def pair_takes_def pair_full_def)
  obtain q' where q': "queue_rep q' (t_list s @ [(ty, a)])"
      "AddTaskEventLoop D al junk dcb self l a ty = (if pair_takes l 1 then Inr (pair_written (l\<lparr>tasks := q'\<rparr>)) else Inl Hang)"
    using add_task_other_thread [OF free(2,1) assms(1)] by blast
  let ?s1 = "s\<lparr>t_holder := Adder (ty, a)\<rparr>"
  let ?s2 = "(link_task (ty, a) ?s1)\<lparr>t_holder := Nobody, t_waking := Suc (t_waking ?s1)\<rparr>"
  let ?s3 = "?s2\<lparr>t_waking := t_waking ?s2 - 1, t_far := t_far ?s2 + 8\<rparr>"
  have "tasks_step s ?s1" using assms(3) by (rule tasks_step.add)
  moreover have "tasks_step ?s1 ?s2" by (intro tasks_step.move tasks_move.link) simp
  ultimately have two: "tasks_step\<^sup>*\<^sup>* s ?s2" by (meson r_into_rtranclp rtranclp.rtrancl_into_rtrancl)
  have three: "tasks_move ?s2 ?s3" if "\<not> pair_full s"
    by (rule tasks_move.wake) (use that in \<open>simp_all add: pair_full_def link_task_def\<close>)
  have shown: "shows_tasks (pair_written (l\<lparr>tasks := q'\<rparr>)) ?s3"
    using q'(1) free(1) assms(2) by (simp add: shows_tasks_def pair_written_def link_task_def)
  have far: "rx (pair_written (l\<lparr>tasks := q'\<rparr>)) = (fst (rx l), t_far s + 8)" using assms(2) by (simp add: shows_tasks_def pair_written_def)
  show ?thesis
    using two three shown far q'(2) room
    by (intro exI [of _ ?s2]) (auto simp: link_task_def intro!: exI [of _ ?s3])
qed

lemma perform_steps:
  "t_pc s = CPerforms \<Longrightarrow> tasks_move\<^sup>*\<^sup>* s (s\<lparr>t_list := [], t_done := t_done s @ t_list s\<rparr>)"
proof (induction "t_list s" arbitrary: s)
  case Nil
  then have "s\<lparr>t_list := [], t_done := t_done s @ t_list s\<rparr> = s" by (cases s) simp
  then show ?case by simp
next
  case (Cons k ks)
  let ?s = "s\<lparr>t_list := ks, t_done := t_done s @ [k]\<rparr>"
  have "tasks_move s ?s" using Cons.prems Cons.hyps(2) by (intro tasks_move.perform) simp_all
  moreover have "tasks_move\<^sup>*\<^sup>* ?s (?s\<lparr>t_list := [], t_done := t_done ?s @ t_list ?s\<rparr>)"
    by (rule Cons.hyps(1)) (use Cons.prems in simp_all)
  ultimately show ?case using Cons.hyps(2) [symmetric] by (simp add: converse_rtranclp_into_rtranclp)
qed

text \<open>\<open>processTaskEventLoop\<close>, when it gets the mutex: the list is performed, in order, and is empty then.\<close>

lemma process_tasks_steps:
  assumes "shows_tasks l s" and "t_holder s = Nobody" and "t_pc s = CLocks"
  shows "processTaskEventLoop D al junk dcb l = Inl e \<longleftrightarrow> put_all (perform D al junk dcb) (l\<lparr>mutex := True\<rparr>) (t_list s) = Inl e"
    and "processTaskEventLoop D al junk dcb l = Inr l' \<Longrightarrow>
     \<exists>s'. tasks_move\<^sup>*\<^sup>* s s' \<and> shows_tasks l' s' \<and> t_pc s' = CWaits \<and> t_list s' = [] \<and> t_done s' = t_done s @ t_list s"
proof -
  have free: "\<not> mutex l" "queue_rep (tasks l) (t_list s)" using assms(1,2) by (simp_all add: shows_tasks_def)
  note eq = process_tasks_eq [OF free(2,1), of al junk]
  show "processTaskEventLoop D al junk dcb l = Inl e \<longleftrightarrow> put_all (perform D al junk dcb) (l\<lparr>mutex := True\<rparr>) (t_list s) = Inl e"
    unfolding eq by (cases "put_all (perform D al junk dcb) (l\<lparr>mutex := True\<rparr>) (t_list s)") simp_all
  assume r: "processTaskEventLoop D al junk dcb l = Inr l'"
  let ?s1 = "s\<lparr>t_pc := CPerforms, t_holder := Looper\<rparr>"
  let ?s2 = "?s1\<lparr>t_list := [], t_done := t_done ?s1 @ t_list ?s1\<rparr>"
  let ?s3 = "?s2\<lparr>t_pc := CWaits, t_holder := Nobody\<rparr>"
  have "tasks_move s ?s1" using assms(2,3) by (intro tasks_move.lock)
  moreover have "tasks_move\<^sup>*\<^sup>* ?s1 ?s2" by (rule perform_steps) simp
  moreover have "tasks_move ?s2 ?s3" by (rule tasks_move.unlock) simp_all
  ultimately have "tasks_move\<^sup>*\<^sup>* s ?s3" by (meson converse_rtranclp_into_rtranclp rtranclp.rtrancl_into_rtrancl)
  moreover have "shows_tasks l' ?s3"
    using r assms(1) unfolding eq
    by (auto simp: shows_tasks_def queue_rep_def queue_at_def dest: put_all_keeps_pair intro: exI [of _ "[]"])
  ultimately show "\<exists>s'. tasks_move\<^sup>*\<^sup>* s s' \<and> shows_tasks l' s' \<and> t_pc s' = CWaits \<and> t_list s' = [] \<and> t_done s' = t_done s @ t_list s"
    by (intro exI [of _ ?s3]) simp
qed

end

section \<open>Properties\<close>

text \<open>
  C16: However other threads and the loop's own interleave on the task list of the C server: the tasks
  performed and those waiting are together all tasks queued, in order; only the loop's thread holds
  the mutex while it performs them. \<open>processTaskEventLoop\<close>, reached with the mutex free, fails only if
  a task fails and otherwise performs exactly the waiting tasks in order. \<open>AddTaskEventLoop\<close>, called by
  another thread while the mutex is free, appends its task and releases the mutex; it returns if the
  far end of the socket pair takes 8 more bytes, and otherwise it does not return: once the pair is full,
  every thread that waits to write waits in all states to come, as nobody reads that end. Without new
  tasks every step lowers a number, and when nothing is left to do, exactly the tasks queued so far and
  that of the thread that had the mutex have been performed, and no thread still waits to write
  unless the pair is full. \<open>AddTaskEventLoop\<close> leaves the watched end of the pair (\<open>fst (rx l)\<close>) as
  it was: a loop that waits is not woken up for its tasks, only its timeout or another event leads on.
\<close>

theorem tasks_reach_their_loop:
  assumes "tasks_step\<^sup>*\<^sup>* (tasks_begin n) s"
  shows "t_posted s = t_done s @ t_list s \<and> (t_holder s = Looper \<longleftrightarrow> t_pc s = CPerforms) \<and>
     (\<forall>l :: (epoll_data, 'a) tcp_loop_scheme. shows_tasks l s \<and> t_holder s = Nobody \<longrightarrow>
        (\<forall>self a ty. threadID l \<noteq> self \<longrightarrow> (\<exists>s1. tasks_step\<^sup>*\<^sup>* s s1 \<and> t_posted s1 = t_posted s @ [(ty, a)] \<and>
           t_holder s1 = Nobody \<and> t_waking s1 = Suc (t_waking s) \<and> t_far s1 = t_far s \<and>
           (if pair_full s then AddTaskEventLoop (Epolldispatch created) al junk (destroy_call W) self l a ty = Inl Hang
            else \<exists>l' s'. AddTaskEventLoop (Epolldispatch created) al junk (destroy_call W) self l a ty = Inr l' \<and>
              tasks_move s1 s' \<and> t_waking s' = t_waking s \<and> t_posted s' = t_posted s1 \<and> shows_tasks l' s' \<and>
              rx l' = (fst (rx l), t_far s + 8)))) \<and>
        (\<forall>e. t_pc s = CLocks \<longrightarrow> (processTaskEventLoop (Epolldispatch created) al junk (destroy_call W) l = Inl e \<longleftrightarrow>
           put_all (perform (Epolldispatch created) al junk (destroy_call W)) (l\<lparr>mutex := True\<rparr>) (t_list s) = Inl e)) \<and>
        (\<forall>l'. t_pc s = CLocks \<and> processTaskEventLoop (Epolldispatch created) al junk (destroy_call W) l = Inr l' \<longrightarrow>
           (\<exists>s'. tasks_move\<^sup>*\<^sup>* s s' \<and> shows_tasks l' s' \<and> t_pc s' = CWaits \<and> t_list s' = [] \<and> t_done s' = t_done s @ t_list s))) \<and>
     (\<forall>t. tasks_step\<^sup>*\<^sup>* s t \<and> pair_full s \<longrightarrow> pair_full t \<and> t_far t = t_far s \<and> t_waking s \<le> t_waking t) \<and>
     (\<exists>t. tasks_move\<^sup>*\<^sup>* s t \<and> at_rest t) \<and>
     (\<forall>t. tasks_move\<^sup>*\<^sup>* s t \<and> at_rest t \<longrightarrow> t_done t = t_posted s @ (case t_holder s of Adder k \<Rightarrow> [k] | _ \<Rightarrow> []) \<and>
        (t_waking t = 0 \<or> pair_full t)) \<and>
     (\<forall>t. tasks_move s t \<longrightarrow> tasks_left t < tasks_left s) \<and>
     (\<forall>t. t_pc s = CWaits \<and> tasks_move s t \<and> t_pc t \<noteq> CWaits \<longrightarrow> t = s\<lparr>t_pc := CHandles\<rparr>)"
proof -
  have inv: "tasks_inv s" using tasks_reach [OF assms] .
  have add: "\<exists>s1. tasks_step\<^sup>*\<^sup>* s s1 \<and> t_posted s1 = t_posted s @ [(ty, a)] \<and>
           t_holder s1 = Nobody \<and> t_waking s1 = Suc (t_waking s) \<and> t_far s1 = t_far s \<and>
           (if pair_full s then AddTaskEventLoop (Epolldispatch created) al junk (destroy_call W) self l a ty = Inl Hang
            else \<exists>l' s'. AddTaskEventLoop (Epolldispatch created) al junk (destroy_call W) self l a ty = Inr l' \<and>
              tasks_move s1 s' \<and> t_waking s' = t_waking s \<and> t_posted s' = t_posted s1 \<and> shows_tasks l' s' \<and>
              rx l' = (fst (rx l), t_far s + 8))"
    if "shows_tasks l s \<and> t_holder s = Nobody" "threadID l \<noteq> self"
    for l :: "(epoll_data, 'a) tcp_loop_scheme" and self a ty
    using that by (elim conjE) (rule tcp_loop.add_task_steps)
  have process: "processTaskEventLoop (Epolldispatch created) al junk (destroy_call W) l = Inl e \<longleftrightarrow>
      put_all (perform (Epolldispatch created) al junk (destroy_call W)) (l\<lparr>mutex := True\<rparr>) (t_list s) = Inl e"
    "processTaskEventLoop (Epolldispatch created) al junk (destroy_call W) l = Inr l' \<Longrightarrow>
      \<exists>s'. tasks_move\<^sup>*\<^sup>* s s' \<and> shows_tasks l' s' \<and> t_pc s' = CWaits \<and> t_list s' = [] \<and> t_done s' = t_done s @ t_list s"
    if "shows_tasks l s \<and> t_holder s = Nobody" "t_pc s = CLocks" for l l' :: "(epoll_data, 'a) tcp_loop_scheme" and e
    using tcp_loop.process_tasks_steps [of l s created al junk W] that by blast+
  have out: "\<forall>t. t_pc s = CWaits \<and> tasks_move s t \<and> t_pc t \<noteq> CWaits \<longrightarrow> t = s\<lparr>t_pc := CHandles\<rparr>"
    by (auto elim!: tasks_moveE simp: link_task_def)
  have reach: "\<exists>t. tasks_move\<^sup>*\<^sup>* s t \<and> at_rest t" using task_list.arrives [OF inv] by blast
  have rest: "\<forall>t. tasks_move\<^sup>*\<^sup>* s t \<and> at_rest t \<longrightarrow>
      t_done t = t_posted s @ (case t_holder s of Adder k \<Rightarrow> [k] | _ \<Rightarrow> []) \<and> (t_waking t = 0 \<or> pair_full t)"
    using tasks_rest_done inv by (auto simp: tasks_coming_def at_rest_def)
  show ?thesis
  proof (intro conjI)
    show "t_posted s = t_done s @ t_list s" "t_holder s = Looper \<longleftrightarrow> t_pc s = CPerforms"
      using inv by (simp_all add: tasks_inv_def)
    show "\<forall>t. tasks_move s t \<longrightarrow> tasks_left t < tasks_left s" using tasks_move_lowers [OF inv] by simp
    show "\<forall>t. tasks_step\<^sup>*\<^sup>* s t \<and> pair_full s \<longrightarrow> pair_full t \<and> t_far t = t_far s \<and> t_waking s \<le> t_waking t"
      using tasks_full by blast
  qed (use add process in \<open>blast\<close>, (fact reach rest out)+)
qed

lemma one_added: "tasks_step\<^sup>*\<^sup>* (tasks_begin n) ((tasks_begin n)\<lparr>t_holder := Adder (ADD, 7 :: nat)\<rparr>)"
  by (intro r_into_rtranclp tasks_step.add) (simp add: tasks_begin_def)

theorem tasks_reach_their_loop_witness:
  "\<exists>t. tasks_move\<^sup>*\<^sup>* ((tasks_begin 64)\<lparr>t_holder := Adder (ADD, 7 :: nat)\<rparr>) t \<and> at_rest t \<and> t_done t = [(ADD, 7)]"
proof -
  note r = tasks_reach_their_loop [OF one_added]
  then obtain t where "tasks_move\<^sup>*\<^sup>* ((tasks_begin 64)\<lparr>t_holder := Adder (ADD, 7 :: nat)\<rparr>) t" "at_rest t" by blast
  with r show ?thesis by (auto simp: tasks_begin_def)
qed

end
