(* ===== verification/Thread_Pool.thy ===== *)
theory Thread_Pool
  imports Byte_Queue
begin

text \<open>
  \<open>old/ReactorHttp_c/ThreadPool.c\<close> and \<open>initWorkThread\<close> of \<open>WorkerThread.c\<close>. The record
  \<open>thread_pool\<close> is \<open>struct ThreadPool\<close>: its workers are an array whose elements are
  \<open>None\<close> until \<open>initWorkThread\<close> has written them, and the loop of a worker is a value of
  type \<open>'l\<close>. \<open>own\<close> says whether the caller runs in the main loop's thread. Starting a
  thread is an argument: \<open>start i name\<close> is the loop thread \<open>i\<close> makes; the theory
  \<open>Worker_Thread\<close> shows that \<open>runWorkThread\<close> returns only when it has been published.
  The locale \<open>round_robin\<close> is the contract of a counter that wraps around.
\<close>

section \<open>Taking turns\<close>

text \<open>\<open>k\<close> calls in a row, and what they returned.\<close>

fun calls_in_turn :: "('s \<Rightarrow> ('s \<times> 'b) result) \<Rightarrow> nat \<Rightarrow> 's \<Rightarrow> ('s \<times> 'b list) result" where
  "calls_in_turn f 0 s = Inr (s, [])"
| "calls_in_turn f (Suc k) s = rbind (f s) (\<lambda>(s1, x). rbind (calls_in_turn f k s1) (\<lambda>(s2, xs). Inr (s2, x # xs)))"

locale round_robin =
  fixes take_next :: "'s \<Rightarrow> ('s \<times> nat) result"
    and turn :: "'s \<Rightarrow> nat"
    and members :: "'s \<Rightarrow> nat"
    and ok :: "'s \<Rightarrow> bool"
  assumes step: "ok s \<Longrightarrow> \<exists>s'. take_next s = Inr (s', turn s) \<and> ok s' \<and> members s' = members s \<and>
      turn s' = (turn s + 1) mod members s"
    and in_range: "ok s \<Longrightarrow> turn s < members s"
begin

lemma turns:
  "ok s \<Longrightarrow> \<exists>s'. calls_in_turn take_next k s = Inr (s', map (\<lambda>i. (turn s + i) mod members s) [0..<k]) \<and>
     ok s' \<and> members s' = members s \<and> turn s' = (turn s + k) mod members s"
proof (induction k arbitrary: s)
  case 0
  then show ?case using in_range by simp
next
  case (Suc k)
  obtain s1 where 1: "take_next s = Inr (s1, turn s)" "ok s1" "members s1 = members s"
      "turn s1 = (turn s + 1) mod members s"
    using step [OF Suc.prems] by blast
  obtain s' where 2: "calls_in_turn take_next k s1 = Inr (s', map (\<lambda>i. (turn s1 + i) mod members s1) [0..<k])"
      "ok s'" "members s' = members s" "turn s' = (turn s1 + k) mod members s"
    using Suc.IH [OF 1(2)] 1(3) by auto
  have "turn s # map (\<lambda>i. (turn s1 + i) mod members s1) [0..<k] = map (\<lambda>i. (turn s + i) mod members s) [0..<Suc k]"
    using in_range [OF Suc.prems] 1(3,4)
    by (simp add: map_upt_Suc mod_simps del: upt_Suc)
  with 1 2 show ?case by (auto simp: mod_simps)
qed

end

section \<open>The pool\<close>

record 'l worker =
  wname :: string
  wloop :: "'l option"

record 'l thread_pool =
  isStart :: bool
  threadNum :: int
  index :: int
  workthreads :: "'l worker option list"

datatype loop_ref = MainLoop | WorkerLoop nat

definition initThreadPool :: "int \<Rightarrow> 'l thread_pool" where
  "initThreadPool count =
     \<lparr>isStart = False, threadNum = count, index = 0, workthreads = replicate (nat count) None\<rparr>"

definition initWorkThread :: "int \<Rightarrow> 'l worker result" where
  "initWorkThread i =
     rbind (into_array 24 (''Subthread--'' @ dec i)) (\<lambda>name. Inr \<lparr>wname = name, wloop = None\<rparr>)"

text \<open>One round of the starting loop: \<open>initWorkThread\<close> and \<open>runWorkThread\<close> on slot \<open>i\<close>.\<close>

definition start_worker ::
  "(nat \<Rightarrow> string \<Rightarrow> 'l result) \<Rightarrow> 'l thread_pool \<Rightarrow> nat \<Rightarrow> 'l thread_pool result" where
  "start_worker start p i =
     (if i < length (workthreads p) then
        rbind (initWorkThread (int i)) (\<lambda>w.
        rbind (start i (wname w)) (\<lambda>l.
          Inr (p\<lparr>workthreads := (workthreads p)[i := Some (w\<lparr>wloop := Some l\<rparr>)]\<rparr>)))
      else Inl OutOfBounds)"

definition runThreadPool ::
  "(nat \<Rightarrow> string \<Rightarrow> 'l result) \<Rightarrow> bool \<Rightarrow> 'l thread_pool option \<Rightarrow> 'l thread_pool result" where
  "runThreadPool start own pp =
     (case pp of
        None \<Rightarrow> Inl AssertFail
      | Some p \<Rightarrow>
          if isStart p then Inl AssertFail
          else if \<not> own then Inl (Exit [])
          else if 0 < threadNum p
            then put_all (start_worker start) (p\<lparr>isStart := True\<rparr>) [0..<nat (threadNum p)]
          else Inr (p\<lparr>isStart := True\<rparr>))"

text \<open>
  The loop handed out is the worker's, or the main loop where there are no workers. The counter
  is advanced by \<open>pool->index = ++pool->index % pool->threadNum\<close>, read as \<open>index + 1\<close>.
\<close>

definition takeWorkEventLoop :: "bool \<Rightarrow> 'l thread_pool \<Rightarrow> ('l thread_pool \<times> loop_ref) result" where
  "takeWorkEventLoop own p =
     (if \<not> isStart p then Inl AssertFail
      else if \<not> own then Inl (Exit [])
      else if 0 < threadNum p then
        (if 0 \<le> index p \<and> nat (index p) < length (workthreads p)
         then Inr (p\<lparr>index := (index p + 1) mod threadNum p\<rparr>, WorkerLoop (nat (index p)))
         else Inl OutOfBounds)
      else Inr (p, MainLoop))"

section \<open>A started pool takes turns\<close>

definition pool_inv :: "'l thread_pool \<Rightarrow> bool" where
  "pool_inv p \<longleftrightarrow> isStart p \<and> 0 < threadNum p \<and> int (length (workthreads p)) = threadNum p \<and>
     0 \<le> index p \<and> index p < threadNum p"

definition take_worker :: "'l thread_pool \<Rightarrow> ('l thread_pool \<times> nat) result" where
  "take_worker p = rbind (takeWorkEventLoop True p) (\<lambda>(p', r).
     case r of MainLoop \<Rightarrow> Inl NullDeref | WorkerLoop i \<Rightarrow> Inr (p', i))"

lemma take_worker_ok:
  assumes "pool_inv p"
  shows "takeWorkEventLoop True p = Inr (p\<lparr>index := (index p + 1) mod threadNum p\<rparr>, WorkerLoop (nat (index p)))"
    and "pool_inv (p\<lparr>index := (index p + 1) mod threadNum p\<rparr>)"
  using assms by (auto simp: takeWorkEventLoop_def pool_inv_def nat_less_iff)

interpretation pool: round_robin take_worker "\<lambda>p. nat (index p)" "\<lambda>p. nat (threadNum p)" pool_inv
proof
  fix p :: "'l thread_pool"
  assume p: "pool_inv p"
  then show "nat (index p) < nat (threadNum p)" by (auto simp: pool_inv_def)
  have "nat ((index p + 1) mod threadNum p) = (nat (index p) + 1) mod nat (threadNum p)"
    using p by (simp add: pool_inv_def nat_mod_distrib nat_add_distrib)
  then show "\<exists>p'. take_worker p = Inr (p', nat (index p)) \<and> pool_inv p' \<and> nat (threadNum p') = nat (threadNum p) \<and>
      nat (index p') = (nat (index p) + 1) mod nat (threadNum p)"
    using take_worker_ok [OF p] by (simp add: take_worker_def)
qed

lemma turns_of_workers:
  "pool_inv p \<Longrightarrow> calls_in_turn take_worker k p = Inr (p', xs) \<Longrightarrow>
   calls_in_turn (takeWorkEventLoop True) k p = Inr (p', map WorkerLoop xs)"
proof (induction k arbitrary: p xs)
  case (Suc k)
  then show ?case using take_worker_ok [OF Suc.prems(1)] by (auto simp: take_worker_def)
qed simp

text \<open>Starting the pool starts its threads in order, each under its own name.\<close>

lemma worker_name: "int32 i \<Longrightarrow> initWorkThread i = Inr \<lparr>wname = ''Subthread--'' @ dec i, wloop = None\<rparr>"
  using dec_length [of i] by (simp add: initWorkThread_def mem_simps)

definition started :: "(nat \<Rightarrow> string \<Rightarrow> 'l) \<Rightarrow> nat \<Rightarrow> 'l worker" where
  "started ls i = (let name = ''Subthread--'' @ dec (int i) in \<lparr>wname = name, wloop = Some (ls i name)\<rparr>)"

lemma start_worker_ok:
  assumes "i < length (workthreads p)" and "int32 (int i)" and "\<forall>name. start i name = Inr (ls i name)"
  shows "start_worker start p i = Inr (p\<lparr>workthreads := (workthreads p)[i := Some (started ls i)]\<rparr>)"
  unfolding start_worker_def worker_name [OF assms(2)] started_def Let_def using assms(1,3) by simp

lemma start_workers:
  assumes "\<forall>i<n. \<forall>name. start i name = Inr (ls i name)" and "int32 (int n)" and "m \<le> n"
    and "length (workthreads p) = n"
  shows "put_all (start_worker start) p [0..<m] =
     Inr (p\<lparr>workthreads := map (\<lambda>i. Some (started ls i)) [0..<m] @ drop m (workthreads p)\<rparr>)"
  using assms(3)
proof (induction m)
  case 0
  then show ?case by simp
next
  case (Suc m)
  let ?ws = "map (\<lambda>i. Some (started ls i)) [0..<m] @ drop m (workthreads p)"
  have m: "m < n" "int32 (int m)" "\<forall>name. start m name = Inr (ls m name)"
    using assms(1,2) Suc.prems by (auto simp: int32_def)
  have "?ws[m := Some (started ls m)] = map (\<lambda>i. Some (started ls i)) [0..<Suc m] @ drop (Suc m) (workthreads p)"
    using m(1) assms(4) by (simp add: list_update_append upd_conv_take_nth_drop)
  moreover have "start_worker start (p\<lparr>workthreads := ?ws\<rparr>) m = Inr (p\<lparr>workthreads := ?ws[m := Some (started ls m)]\<rparr>)"
    using start_worker_ok [of m "p\<lparr>workthreads := ?ws\<rparr>" start ls] m assms(4) by simp
  ultimately show ?case using Suc by (simp add: put_all_append)
qed

lemma run_pool_ok:
  assumes "\<forall>i<nat count. \<forall>name. start i name = Inr (ls i name)" and "int32 count" and "0 < count"
  shows "\<exists>p. runThreadPool start True (Some (initThreadPool count)) = Inr p \<and> pool_inv p \<and> threadNum p = count \<and>
     index p = 0 \<and> (\<forall>i < nat count. workthreads p ! i = Some (started ls i))"
  using start_workers [of "nat count" start ls "nat count" "(initThreadPool count)\<lparr>isStart := True\<rparr>"] assms
  by (simp add: runThreadPool_def initThreadPool_def pool_inv_def)

section \<open>Properties\<close>

text \<open>
  Starting a pool of \<open>count\<close> workers and then taking a loop \<open>k\<close> times hands out the
  workers in turn: call number \<open>j\<close> gets worker \<open>j mod count\<close>.
\<close>

lemma workers_in_turn:
  assumes "\<forall>i<nat count. \<forall>name. start i name = Inr (ls i name)" and "int32 count" and "0 < count"
  shows "\<exists>p p'. runThreadPool start True (Some (initThreadPool count)) = Inr p \<and>
     calls_in_turn (takeWorkEventLoop True) k p = Inr (p', map (\<lambda>j. WorkerLoop (j mod nat count)) [0..<k])"
proof -
  obtain p where p: "runThreadPool start True (Some (initThreadPool count)) = Inr p" "pool_inv p"
      "threadNum p = count" "index p = 0"
    using run_pool_ok [OF assms] by blast
  obtain p' where p': "calls_in_turn take_worker k p = Inr (p', map (\<lambda>i. i mod nat count) [0..<k])"
    using pool.turns [OF p(2), of k] p(3,4) by auto
  have "calls_in_turn (takeWorkEventLoop True) k p = Inr (p', map WorkerLoop (map (\<lambda>i. i mod nat count) [0..<k]))"
    using p(2) p' turns_of_workers by blast
  with p(1) show ?thesis by (simp add: comp_def)
qed

lemma workers_in_turn_witness:
  "\<exists>p p'. runThreadPool (\<lambda>i name. Inr i) True (Some (initThreadPool 2)) = Inr p \<and>
     calls_in_turn (takeWorkEventLoop True) 3 p = Inr (p', [WorkerLoop 0, WorkerLoop 1, WorkerLoop 0])"
  using workers_in_turn [of 2 "\<lambda>i name. Inr i" "\<lambda>i name. i" 3] by (simp add: int32_def numeral_3_eq_3 mod_Suc)

end
