(* ===== verification/Tcp_Server.thy ===== *)
theory Tcp_Server
  imports Tcp_Connection Thread_Pool
begin

text \<open>
  \<open>old/ReactorHttp_c/TcpServer.c\<close>. \<open>struct TcpServer\<close> is the record \<open>server\<close>: the main
  loop extended by the thread pool, whose workers' loops it holds, and the listener (\<open>None\<close>
  when \<open>initListener\<close> returned NULL, which nobody tests). The results of the socket calls and
  the socket pairs of the loops are arguments; loops use \<open>Epolldispatch\<close>, as
  \<open>EventLoop.c\<close> sets it. Thread identifiers: \<open>tid i\<close> is the one of worker \<open>i\<close>.
\<close>

type_synonym worker_loop = "epoll_data tcp_loop"

record listener =
  port :: nat
  lfd :: int

record server = "epoll_data tcp_loop" +
  pool :: "worker_loop thread_pool"
  slistener :: "listener option"

section \<open>The operations\<close>

text \<open>What \<open>socket\<close>, \<open>setsockopt\<close>, \<open>bind\<close> and \<open>listen\<close> returned.\<close>

record listen_calls =
  r_socket :: int
  r_setsockopt :: int
  r_bind :: int
  r_listen :: int

definition initListener :: "listen_calls \<Rightarrow> nat \<Rightarrow> listener option" where
  "initListener r p =
     (if r_socket r = -1 then None
      else if r_setsockopt r = -1 then None
      else if r_bind r = -1 then None
      else if r_listen r = -1 then None
      else Some \<lparr>port = p, lfd = r_socket r\<rparr>)"

text \<open>A worker's loop, as its thread makes it.\<close>

definition worker_start ::
  "world \<Rightarrow> (nat \<Rightarrow> epoll_data option) \<Rightarrow> (nat \<Rightarrow> ((int \<times> int) \<times> nat) option) \<Rightarrow> (nat \<Rightarrow> nat) \<Rightarrow> nat \<Rightarrow> string \<Rightarrow>
   worker_loop result" where
  "worker_start W created sp tid i name =
     initEventLoopEx (Epolldispatch (created i)) (w_al W) (w_junk W) (destroy_call W) (tid i) (sp i)
       (tcp_loop_ext Map.empty 0 \<lparr>wire = (\<lambda>_. []), sends = 0, os_closed = []\<rparr> 0 ()) (Some name)"

definition initTcpServer ::
  "world \<Rightarrow> epoll_data option \<Rightarrow> ((int \<times> int) \<times> nat) option \<Rightarrow> listen_calls \<Rightarrow> nat \<Rightarrow> nat \<Rightarrow> int \<Rightarrow> server result" where
  "initTcpServer W created sp r self p n =
     initEventLoop (Epolldispatch created) (w_al W) (w_junk W) (destroy_call W) self sp
       (tcp_loop_ext Map.empty 0 \<lparr>wire = (\<lambda>_. []), sends = 0, os_closed = []\<rparr> 0
         (server_ext (initThreadPool n) (initListener r p) ()))"

text \<open>
  \<open>acceptConnection\<close>: \<open>cfd\<close> is what \<open>accept\<close> returned. The pool is asked for a loop in
  the thread \<open>self\<close>; a worker's pointer is followed without a test.
\<close>

definition on_worker ::
  "nat \<Rightarrow> (worker_loop \<Rightarrow> worker_loop result) \<Rightarrow> worker_loop thread_pool \<Rightarrow> worker_loop thread_pool result" where
  "on_worker i f p =
     (case workthreads p ! i of
        None \<Rightarrow> Inl Uninit
      | Some w \<Rightarrow>
          rbind (deref (wloop w)) (\<lambda>l.
          rbind (f l) (\<lambda>l'.
            Inr (p\<lparr>workthreads := (workthreads p)[i := Some (w\<lparr>wloop := Some l'\<rparr>)]\<rparr>))))"

definition acceptConnection :: "world \<Rightarrow> epoll_data option \<Rightarrow> nat \<Rightarrow> int \<Rightarrow> server \<Rightarrow> (server \<times> int) result" where
  "acceptConnection W created self cfd s =
     rbind (deref (slistener s)) (\<lambda>_.
     rbind (takeWorkEventLoop (threadID s = self) (pool s)) (\<lambda>(p, r).
       case r of
         MainLoop \<Rightarrow>
           rbind (initTcpConnection (Epolldispatch created) W self (s\<lparr>pool := p\<rparr>) cfd) (\<lambda>(s', _). Inr (s', 0))
       | WorkerLoop i \<Rightarrow>
           rbind (on_worker i (\<lambda>l. rbind (initTcpConnection (Epolldispatch created) W self l cfd) (\<lambda>(l', _). Inr l')) p)
             (\<lambda>p'. Inr (s\<lparr>pool := p'\<rparr>, 0))))"

text \<open>The callbacks of the main loop; \<open>acc\<close> is what \<open>accept\<close> returns.\<close>

definition main_call ::
  "world \<Rightarrow> epoll_data option \<Rightarrow> nat \<Rightarrow> int \<Rightarrow> callback \<Rightarrow> cb_arg \<Rightarrow> server \<Rightarrow> server result" where
  "main_call W created self acc f x s =
     (case (f, x) of
        (AcceptConnection, ServerArg) \<Rightarrow> rbind (acceptConnection W created self acc s) (\<lambda>(s', _). Inr s')
      | _ \<Rightarrow> worker_call (Epolldispatch created) W self f x s)"

definition runTcpServer ::
  "world \<Rightarrow> (nat \<Rightarrow> epoll_data option) \<Rightarrow> (nat \<Rightarrow> ((int \<times> int) \<times> nat) option) \<Rightarrow> (nat \<Rightarrow> nat) \<Rightarrow>
   epoll_data option \<Rightarrow> nat \<Rightarrow> int \<Rightarrow> epoll_ready list \<Rightarrow> server \<Rightarrow> (server \<times> int option) result" where
  "runTcpServer W wcreated sp tid created self acc waits s =
     rbind (runThreadPool (worker_start W wcreated sp tid) (threadID s = self) (Some (pool s))) (\<lambda>p.
     rbind (deref (slistener s)) (\<lambda>lis.
     let ch = initchannel (lfd lis) readevent None (Some AcceptConnection) None ServerArg;
         (s1, a) = new_channel (s\<lparr>pool := p\<rparr>) ch in
     rbind (AddTaskEventLoop (Epolldispatch created) (w_al W) (w_junk W) (destroy_call W) self s1 a ADD) (\<lambda>s2.
       RunEventLoop (Epolldispatch created) (w_al W) (w_junk W) (destroy_call W) (main_call W created self acc) self waits s2)))"

section \<open>Handing a connection to a worker\<close>

text \<open>A started server whose next worker is between two waits, with room for the descriptor, whose
  socket pair takes one more wake-up.\<close>

definition next_worker :: "server \<Rightarrow> worker_loop worker \<Rightarrow> worker_loop \<Rightarrow> bool" where
  "next_worker s w l \<longleftrightarrow> pool_inv (pool s) \<and> slistener s \<noteq> None \<and>
     workthreads (pool s) ! nat (index (pool s)) = Some w \<and> wloop w = Some l \<and>
     queue_rep (tasks l) [] \<and> \<not> mutex l \<and> threadID l \<noteq> threadID s \<and> pair_takes l 1"

lemma accept_eq:
  assumes "next_worker s w l"
  shows "acceptConnection W created (threadID s) cfd s =
     rbind (initTcpConnection (Epolldispatch created) W (threadID s) l cfd) (\<lambda>(l', _).
       Inr (s\<lparr>pool := (pool s)\<lparr>index := (index (pool s) + 1) mod threadNum (pool s),
         workthreads := (workthreads (pool s))[nat (index (pool s)) := Some (w\<lparr>wloop := Some l'\<rparr>)]\<rparr>\<rparr>, 0))"
proof -
  have s: "pool_inv (pool s)" "slistener s \<noteq> None" "workthreads (pool s) ! nat (index (pool s)) = Some w" "wloop w = Some l"
    using assms by (auto simp: next_worker_def)
  show ?thesis
    using s take_worker_ok(1) [OF s(1)]
    by (auto simp: acceptConnection_def on_worker_def rbind_assoc split_def)
qed

lemma accept_ok:
  assumes w: "next_worker s w l" and al: "granted W" and f: "admissible l cfd"
  shows "\<exists>l'. acceptConnection W created (threadID s) cfd s =
      Inr (s\<lparr>pool := (pool s)\<lparr>index := (index (pool s) + 1) mod threadNum (pool s),
         workthreads := (workthreads (pool s))[nat (index (pool s)) := Some (w\<lparr>wloop := Some l'\<rparr>)]\<rparr>\<rparr>, 0) \<and>
     threadID l' = threadID l \<and> isQuite l' = isQuite l \<and>
     (\<exists>l'' conn. processTaskEventLoop (Epolldispatch created) (w_al W) (w_junk W) (destroy_call W) l' = Inr l'' \<and>
        idle (threadID l) l'' \<and> connected l'' (freshconn l) conn cfd \<and> fresh conn \<and> same_io l l'' \<and> only_at cfd l l'' \<and>
        rx l'' = (fst (rx l), snd (rx l) + 8))"
proof -
  have l: "queue_rep (tasks l) []" "\<not> mutex l" "threadID l \<noteq> threadID s" "pair_takes l 1"
    using w by (auto simp: next_worker_def)
  obtain l' where l': "initTcpConnection (Epolldispatch created) W (threadID s) l cfd = Inr (l', freshconn l)"
      "threadID l' = threadID l" "isQuite l' = isQuite l"
      "\<exists>l'' conn. processTaskEventLoop (Epolldispatch created) (w_al W) (w_junk W) (destroy_call W) l' = Inr l'' \<and>
        idle (threadID l) l'' \<and> connected l'' (freshconn l) conn cfd \<and> fresh conn \<and> same_io l l'' \<and> only_at cfd l l'' \<and>
        rx l'' = (fst (rx l), snd (rx l) + 8)"
    using initTcpConnection_other [OF l al f, of created] by blast
  then show ?thesis unfolding accept_eq [OF w] by (intro exI [of _ l']) simp
qed

text \<open>When the pair of the worker is full, the main thread does not come back from the wake-up.\<close>

lemma accept_stuck:
  assumes w: "pool_inv (pool s)" "slistener s \<noteq> None" "workthreads (pool s) ! nat (index (pool s)) = Some w" "wloop w = Some l"
      "queue_rep (tasks l) []" "\<not> mutex l" "threadID l \<noteq> threadID s" "\<not> pair_takes l 1"
    and al: "granted W" and f: "int32 cfd"
  shows "acceptConnection W created (threadID s) cfd s = Inl Hang"
proof -
  have q: "queue_rep (tasks (admitted l cfd)) []" "\<not> mutex (admitted l cfd)" "threadID (admitted l cfd) \<noteq> threadID s"
    "\<not> pair_takes (admitted l cfd) 1"
    using w(5-8) by (simp_all add: admitted_def pair_takes_def)
  have "initTcpConnection (Epolldispatch created) W (threadID s) l cfd = Inl Hang"
    unfolding initTcpConnection_eq [OF al f]
    using tcp_loop.add_task_other_thread [OF q(1-3), of ADD "freshchan l" created "w_al W" "w_junk W" W] q(4) by auto
  then show ?thesis
    using w(2-4) take_worker_ok(1) [OF w(1)] by (auto simp: acceptConnection_def on_worker_def)
qed

section \<open>Properties\<close>

text \<open>
  Accepting a connection hands it to the worker whose turn it is and advances the turn; the
  other workers, the main loop and the listener are unchanged. When the worker next handles its
  tasks, the new connection, with empty buffers, is in its table and is watched for reading.
\<close>

lemma accept_hands_over:
  assumes "next_worker s w l" and "granted W" and "admissible l cfd"
  shows "\<exists>l' l'' conn. acceptConnection W created (threadID s) cfd s =
      Inr (s\<lparr>pool := (pool s)\<lparr>index := (index (pool s) + 1) mod threadNum (pool s),
         workthreads := (workthreads (pool s))[nat (index (pool s)) := Some (w\<lparr>wloop := Some l'\<rparr>)]\<rparr>\<rparr>, 0) \<and>
     processTaskEventLoop (Epolldispatch created) (w_al W) (w_junk W) (destroy_call W) l' = Inr l'' \<and>
     idle (threadID l) l'' \<and> connected l'' (freshconn l) conn cfd \<and> fresh conn"
  using accept_ok [OF assms, of created] by blast

definition small_server :: server where
  "small_server =
     \<lparr>isQuite = False, disepatherData = \<lparr>ep_interest = Map.empty, ep_refuses = (\<lambda>_. False)\<rparr>,
      tasks = empty_queue, channelmap = Some \<lparr>msize = 8, mlist = replicate 8 Null\<rparr>, threadID = 1,
      threadName = ''MainThread'', mutex = False, spair = (6, 7), rx = (0, 0), pair_room = 64,
      chans = Map.empty, freshchan = 0, closed = [], conns = Map.empty, freshconn = 0, net = silent, recvs = 0,
      pool = \<lparr>isStart = True, threadNum = 1, index = 0,
        workthreads = [Some \<lparr>wname = ''Subthread--0'', wloop = Some Tcp_Connection.worker_loop\<rparr>]\<rparr>,
      slistener = Some \<lparr>port = 8080, lfd = 4\<rparr>\<rparr>"

lemma small_server_next:
  "next_worker small_server \<lparr>wname = ''Subthread--0'', wloop = Some Tcp_Connection.worker_loop\<rparr> Tcp_Connection.worker_loop"
  by (simp add: next_worker_def small_server_def pool_inv_def pair_takes_def Tcp_Connection.worker_loop_def queue_rep_empty)

lemma accept_hands_over_witness:
  "\<exists>s' (l'' :: worker_loop) conn.
     acceptConnection (small_world True None) None (threadID small_server) 5 small_server = Inr (s', 0) \<and>
     connected l'' (freshconn Tcp_Connection.worker_loop) conn 5 \<and> fresh conn"
  using accept_hands_over [OF small_server_next small_world_simps(1) [of True None] worker_loop_admits, of None] by blast

end
