(* ===== verification/Tcp_Session.thy ===== *)
theory Tcp_Session
  imports Tcp_Server
begin

text \<open>
  Any number of requests through \<open>old/ReactorHttp_c\<close>: each connection is accepted by the main
  loop, which hands it to the worker whose turn it is (\<open>acceptConnection\<close>); that worker's next wait
  times out, it registers the connection, and the wait after that brings the request
  (\<open>RunEventLoop\<close>, two rounds).
\<close>

section \<open>One visit\<close>

text \<open>A client: its descriptor, its request, and the pieces in which the file sent is read.\<close>

record visit =
  v_fd :: int
  v_method :: string
  v_url :: string
  v_version :: string
  v_headers :: "(string \<times> string) list"
  v_file :: string
  v_chunks :: "char list list"

text \<open>The file with a 200 head if it exists, otherwise the page \<open>404.html\<close> with a 404 head.\<close>

definition v_reply :: "files \<Rightarrow> visit \<Rightarrow> string" where
  "v_reply F x = (case fstat F (v_file x) of
       None \<Rightarrow> response_head missing_response @ concat (v_chunks x)
     | Some st \<Rightarrow> response_head (file_response (v_file x) (st_size st)) @ concat (v_chunks x))"

definition v_page :: "files \<Rightarrow> visit \<Rightarrow> string" where
  "v_page F x = (case fstat F (v_file x) of None \<Rightarrow> ''404.html'' | Some st \<Rightarrow> v_file x)"

definition visits :: "world \<Rightarrow> nat \<Rightarrow> visit \<Rightarrow> bool" where
  "visits W n x \<longleftrightarrow> request_ok (v_method x) (v_url x) (v_version x) (v_headers x) \<and> length (v_headers x) \<le> HeaderSize \<and>
     strcasecmp_eq (v_method x) ''get'' \<and> names_file (v_url x) (v_file x) \<and> length (v_file x) < 128 \<and>
     w_recv W n (v_fd x) = Some (print_request (v_method x) (v_url x) (v_version x) (v_headers x)) \<and>
     length (print_request (v_method x) (v_url x) (v_version x) (v_headers x)) < 10240 \<and>
     (\<forall>st. fstat (w_files W) (v_file x) = Some st \<longrightarrow> \<not> st_isdir st) \<and>
     0 < fopen (w_files W) (v_page (w_files W) x) \<and> reads_from (w_files W) (v_page (w_files W) x) 0 (v_chunks x)"

text \<open>A worker between two waits.\<close>

definition resting :: "worker_loop \<Rightarrow> nat \<Rightarrow> bool" where
  "resting l main \<longleftrightarrow> idle (threadID l) l \<and> threadID l \<noteq> main \<and> \<not> isQuite l"

lemma admissible_again:
  assumes "admissible l f" and "only_at f l l'" and "gone_from f l'"
  shows "admissible l' g \<longleftrightarrow> admissible l g"
  using assms by (cases "g = f") (auto simp: admissible_def only_at_def gone_from_def)

text \<open>The file or the page, by the two lemmas on \<open>processRead\<close>.\<close>

lemma visit_served:
  assumes "idle self l" and "connected l c conn (v_fd x)" and "fresh conn" and "granted W" and "accepts_all (w_send W)"
    and v: "visits W (recvs l) x"
  shows "\<exists>l'. processRead (Epolldispatch created) W self c l = (if w_debug W then Inl UseAfterFree else Inr (l', None)) \<and>
     closed l' = closed l @ [v_fd x] \<and> idle self l' \<and>
     sent (net l) (v_fd x) (v_reply (w_files W) x) [fopen (w_files W) (v_page (w_files W) x)] (net l') \<and>
     recvs l' = Suc (recvs l) \<and> only_at (v_fd x) l l' \<and> gone_from (v_fd x) l' \<and> rx l' = rx l"
proof -
  note v' = v [unfolded visits_def]
  show ?thesis
  proof (cases "fstat (w_files W) (v_file x)")
    case None
    then show ?thesis
      using processRead_missing [OF assms(1-5), of "v_method x" "v_url x" "v_version x" "v_headers x" "v_file x" "v_chunks x" created]
        v' by (auto simp: v_reply_def v_page_def)
  next
    case (Some st)
    then show ?thesis
      using processRead_file [OF assms(1-5), of "v_method x" "v_url x" "v_version x" "v_headers x" "v_file x" st "v_chunks x" created]
        v' by (auto simp: v_reply_def v_page_def)
  qed
qed

section \<open>The server\<close>

text \<open>One worker runs for the given waits; a missing worker or loop is a NULL pointer.\<close>

definition run_worker :: "world \<Rightarrow> epoll_data option \<Rightarrow> nat \<Rightarrow> epoll_ready list \<Rightarrow> server \<Rightarrow> server result" where
  "run_worker W created i waits s =
     rbind (deref (workthreads (pool s) ! i)) (\<lambda>w.
     rbind (deref (wloop w)) (\<lambda>l.
     rbind (run_rounds (Epolldispatch created) (w_al W) (w_junk W) (destroy_call W)
              (worker_call (Epolldispatch created) W (threadID l)) waits l) (\<lambda>l'.
       Inr (s\<lparr>pool := (pool s)\<lparr>workthreads := (workthreads (pool s))[i := Some (w\<lparr>wloop := Some l'\<rparr>)]\<rparr>\<rparr>))))"

text \<open>Clients one after the other.\<close>

fun serve_all :: "world \<Rightarrow> epoll_data option \<Rightarrow> visit list \<Rightarrow> server \<Rightarrow> server result" where
  "serve_all W created [] s = Inr s"
| "serve_all W created (x # xs) s =
     rbind (acceptConnection W created (threadID s) (v_fd x) s) (\<lambda>(s1, _).
     rbind (run_worker W created (nat (index (pool s))) [Some [], Some [(v_fd x, EPOLLIN)]] s1) (serve_all W created xs))"

definition worker_at :: "server \<Rightarrow> nat \<Rightarrow> worker_loop" where
  "worker_at s i = the (wloop (the (workthreads (pool s) ! i)))"

definition serving :: "server \<Rightarrow> bool" where
  "serving s \<longleftrightarrow> pool_inv (pool s) \<and> slistener s \<noteq> None \<and>
     (\<forall>i < length (workthreads (pool s)). \<exists>w l. workthreads (pool s) ! i = Some w \<and> wloop w = Some l \<and> resting l (threadID s))"

text \<open>The clients of worker \<open>i\<close> among \<open>n\<close>, when it is the turn of \<open>j\<close>.\<close>

fun share_of :: "nat \<Rightarrow> nat \<Rightarrow> nat \<Rightarrow> 'x list \<Rightarrow> 'x list" where
  "share_of n i j [] = []"
| "share_of n i j (x # xs) = (if j = i then [x] else []) @ share_of n i ((j + 1) mod n) xs"

abbreviation own_visits :: "server \<Rightarrow> nat \<Rightarrow> visit list \<Rightarrow> visit list" where
  "own_visits s i xs \<equiv> share_of (nat (threadNum (pool s))) i (nat (index (pool s))) xs"

lemma serving_turn:
  assumes "serving s"
  obtains w where "pair_takes (worker_at s (nat (index (pool s)))) 1 \<Longrightarrow> next_worker s w (worker_at s (nat (index (pool s))))" "resting (worker_at s (nat (index (pool s)))) (threadID s)"
    "nat (index (pool s)) < length (workthreads (pool s))" "workthreads (pool s) ! nat (index (pool s)) = Some w"
    "wloop w = Some (worker_at s (nat (index (pool s))))"
proof -
  have i: "nat (index (pool s)) < length (workthreads (pool s))"
    using assms by (auto simp: serving_def pool_inv_def nat_less_iff)
  then obtain w l where "workthreads (pool s) ! nat (index (pool s)) = Some w" "wloop w = Some l" "resting l (threadID s)"
    using assms by (auto simp: serving_def)
  then show thesis using that [of w] i assms
    by (auto simp: worker_at_def next_worker_def serving_def resting_def idle_def)
qed

text \<open>What a visit changes: the turn, and the loop of the worker whose turn it was.\<close>

definition after_visit :: "server \<Rightarrow> worker_loop \<Rightarrow> server" where
  "after_visit s l = s\<lparr>pool := (pool s)\<lparr>index := (index (pool s) + 1) mod threadNum (pool s),
     workthreads := (workthreads (pool s))[nat (index (pool s)) :=
       Some (the (workthreads (pool s) ! nat (index (pool s)))\<lparr>wloop := Some l\<rparr>)]\<rparr>\<rparr>"

lemma visit_stuck:
  assumes s: "serving s" and "granted W" and "int32 (v_fd x)" and "\<not> pair_takes (worker_at s (nat (index (pool s)))) 1"
  shows "serve_all W created (x # xs) s = Inl Hang"
proof -
  obtain w where w: "resting (worker_at s (nat (index (pool s)))) (threadID s)"
      "workthreads (pool s) ! nat (index (pool s)) = Some w" "wloop w = Some (worker_at s (nat (index (pool s))))"
    by (rule serving_turn [OF s])
  have "pool_inv (pool s)" "slistener s \<noteq> None" using s by (simp_all add: serving_def)
  with w have "acceptConnection W created (threadID s) (v_fd x) s = Inl Hang"
    by (intro accept_stuck [OF _ _ w(2,3) _ _ _ assms(4,2,3)]) (simp_all add: resting_def idle_def)
  then show ?thesis by simp
qed

lemma one_visit:
  assumes s: "serving s" and W: "granted W" "accepts_all (w_send W)" and takes: "pair_takes l 1"
    and l: "l = worker_at s (nat (index (pool s)))" and x: "admissible l (v_fd x)" "visits W (recvs l) x"
  shows "\<exists>l2. serve_all W created (x # xs) s =
       (if w_debug W then Inl UseAfterFree else serve_all W created xs (after_visit s l2)) \<and> resting l2 (threadID s) \<and>
     sent (net l) (v_fd x) (v_reply (w_files W) x) [fopen (w_files W) (v_page (w_files W) x)] (net l2) \<and>
     closed l2 = closed l @ [v_fd x] \<and> recvs l2 = Suc (recvs l) \<and> (\<forall>g. admissible l2 g \<longleftrightarrow> admissible l g) \<and>
     snd (rx l2) = snd (rx l) + 8 \<and> pair_room l2 = pair_room l"
proof -
  let ?i = "nat (index (pool s))" and ?D = "Epolldispatch created :: (epoll_data, unit tcp_loop_ext, epoll_ready) Dispatcher"
  obtain w where w: "next_worker s w l" "resting l (threadID s)" "?i < length (workthreads (pool s))"
      "workthreads (pool s) ! ?i = Some w" "wloop w = Some l"
    using takes unfolding l by - (rule serving_turn [OF s], blast)
  obtain l1 la conn where 1: "acceptConnection W created (threadID s) (v_fd x) s =
      Inr (s\<lparr>pool := (pool s)\<lparr>index := (index (pool s) + 1) mod threadNum (pool s),
         workthreads := (workthreads (pool s))[?i := Some (w\<lparr>wloop := Some l1\<rparr>)]\<rparr>\<rparr>, 0)"
      "threadID l1 = threadID l" "isQuite l1 = isQuite l"
      "processTaskEventLoop ?D (w_al W) (w_junk W) (destroy_call W) l1 = Inr la"
      "idle (threadID l) la" "connected la (freshconn l) conn (v_fd x)" "fresh conn" "same_io l la" "only_at (v_fd x) l la"
      "rx la = (fst (rx l), snd (rx l) + 8)"
    using accept_ok [OF w(1) W(1) x(1), of created] by blast
  have io: "isQuite la = isQuite l" "recvs la = recvs l" "net la = net l" "closed la = closed l"
    using 1(8) by (simp_all add: same_io_def)
  obtain lb where b: "processRead ?D W (threadID l) (freshconn l) la = (if w_debug W then Inl UseAfterFree else Inr (lb, None))"
      "closed lb = closed l @ [v_fd x]"
      "idle (threadID l) lb" "sent (net l) (v_fd x) (v_reply (w_files W) x) [fopen (w_files W) (v_page (w_files W) x)] (net lb)"
      "recvs lb = Suc (recvs l)" "only_at (v_fd x) la lb" "gone_from (v_fd x) lb" "rx lb = rx la"
    using visit_served [OF 1(5-7) W(1,2), of created] x(2) unfolding io by blast
  have run: "\<not> isQuite l" using w(2) by (simp add: resting_def)
  obtain q where q: "queue_rep q []"
      "run_rounds ?D (w_al W) (w_junk W) (destroy_call W) (worker_call ?D W (threadID l)) [Some [], Some [(v_fd x, EPOLLIN)]] l1 =
       (if w_debug W then Inl UseAfterFree else Inr (lb\<lparr>tasks := q, mutex := False\<rparr>))"
    using worker_rounds [OF _ 1(4) _ 1(6) b(1,3)] run 1(3) io(1) by auto
  let ?l2 = "lb\<lparr>tasks := q, mutex := False\<rparr>"
  have "serve_all W created (x # xs) s =
      (if w_debug W then Inl UseAfterFree else serve_all W created xs (after_visit s ?l2))"
    using 1(1,2) q(2) w(3,4) by (simp add: run_worker_def after_visit_def del: run_rounds.simps)
  moreover have "resting ?l2 (threadID s)"
    using w(2) b(3,6) 1(9) q(1) by (simp add: resting_def idle_def only_at_def)
  moreover have "admissible ?l2 g \<longleftrightarrow> admissible l g" for g
    using admissible_again [OF x(1) only_at_trans [OF 1(9) b(6)] b(7), of g] by (simp add: admissible_def)
  moreover have "snd (rx ?l2) = snd (rx l) + 8" "pair_room ?l2 = pair_room l"
    using 1(9,10) b(6,8) by (simp_all add: only_at_def)
  ultimately show ?thesis using b(2,4,5) by (intro exI [of _ ?l2]) simp
qed

lemma after_visit_serving:
  assumes "serving s" and "resting l (threadID s)"
  shows "serving (after_visit s l)"
    and "threadNum (pool (after_visit s l)) = threadNum (pool s)"
    and "nat (index (pool (after_visit s l))) = (nat (index (pool s)) + 1) mod nat (threadNum (pool s))"
    and "i < nat (threadNum (pool s)) \<Longrightarrow>
      worker_at (after_visit s l) i = (if i = nat (index (pool s)) then l else worker_at s i)"
proof -
  have p: "pool_inv (pool s)" using assms(1) by (simp add: serving_def)
  then have "0 \<le> (index (pool s) + 1) mod threadNum (pool s)" "(index (pool s) + 1) mod threadNum (pool s) < threadNum (pool s)"
    by (simp_all add: pool_inv_def)
  then show "serving (after_visit s l)"
    using assms by (auto simp: serving_def after_visit_def pool_inv_def nth_list_update)
  show "nat (index (pool (after_visit s l))) = (nat (index (pool s)) + 1) mod nat (threadNum (pool s))"
    using p by (simp add: after_visit_def pool_inv_def nat_mod_distrib nat_add_distrib)
  show "i < nat (threadNum (pool s)) \<Longrightarrow>
      worker_at (after_visit s l) i = (if i = nat (index (pool s)) then l else worker_at s i)"
    using p by (auto simp: worker_at_def after_visit_def pool_inv_def nth_list_update)
qed (simp add: after_visit_def)

text \<open>
  Whether each worker's socket pair takes the wake-ups of its own clients. Nobody reads them, so
  they add up over the life of the server.
\<close>

definition pairs_take :: "server \<Rightarrow> visit list \<Rightarrow> bool" where
  "pairs_take s xs \<longleftrightarrow> (\<forall>i < nat (threadNum (pool s)). own_visits s i xs = [] \<or> pair_takes (worker_at s i) (length (own_visits s i xs)))"

lemma pairs_take_Cons:
  assumes "serving s" and l: "snd (rx l) = snd (rx (worker_at s (nat (index (pool s))))) + 8"
      "pair_room l = pair_room (worker_at s (nat (index (pool s))))" "resting l (threadID s)"
  shows "pairs_take s (x # xs) \<longleftrightarrow> pair_takes (worker_at s (nat (index (pool s)))) 1 \<and> pairs_take (after_visit s l) xs"
proof -
  let ?n = "nat (threadNum (pool s))" and ?j = "nat (index (pool s))"
  have j: "?j < ?n" using assms(1) by (auto simp: serving_def pool_inv_def)
  note a = after_visit_serving [OF assms(1) l(3)]
  let ?own = "\<lambda>i. share_of ?n i ((?j + 1) mod ?n) xs"
  have one: "own_visits s i (x # xs) = [] \<or> pair_takes (worker_at s i) (length (own_visits s i (x # xs))) \<longleftrightarrow>
      (i = ?j \<longrightarrow> pair_takes (worker_at s i) 1) \<and> (?own i = [] \<or> pair_takes (worker_at (after_visit s l) i) (length (?own i)))"
    if "i < ?n" for i
    using l(1,2) by (cases "?own i") (auto simp: a(4) [OF that] pair_takes_def)
  show ?thesis unfolding pairs_take_def a(2,3) using one j by blast
qed

text \<open>The other clients find their workers as they were.\<close>

lemma later_visits:
  assumes "serving s" and v: "\<forall>i < nat (threadNum (pool s)). \<forall>k < length (own_visits s i (x # xs)).
      admissible (worker_at s i) (v_fd (own_visits s i (x # xs) ! k)) \<and>
      visits W (recvs (worker_at s i) + k) (own_visits s i (x # xs) ! k)"
    and l: "resting l (threadID s)" "recvs l = Suc (recvs (worker_at s (nat (index (pool s)))))"
      "\<forall>g. admissible l g \<longleftrightarrow> admissible (worker_at s (nat (index (pool s)))) g"
  defines "own \<equiv> \<lambda>i. share_of (nat (threadNum (pool s))) i ((nat (index (pool s)) + 1) mod nat (threadNum (pool s))) xs"
  shows "\<forall>i < nat (threadNum (pool s)). \<forall>k < length (own i).
      admissible (worker_at (after_visit s l) i) (v_fd (own i ! k)) \<and>
      visits W (recvs (worker_at (after_visit s l) i) + k) (own i ! k)"
proof (intro allI impI)
  fix i k assume i: "i < nat (threadNum (pool s))" and k: "k < length (own i)"
  note a = after_visit_serving(4) [OF assms(1) l(1) i]
  show "admissible (worker_at (after_visit s l) i) (v_fd (own i ! k)) \<and>
      visits W (recvs (worker_at (after_visit s l) i) + k) (own i ! k)"
    using v [rule_format, of i "if i = nat (index (pool s)) then Suc k else k"] i k l(2,3) a by (auto simp: own_def split: if_splits)
qed

lemma all_visits:
  assumes "serving s" and "granted W" and "accepts_all (w_send W)" and "\<not> w_debug W"
    and "\<forall>i < nat (threadNum (pool s)). \<forall>k < length (own_visits s i xs).
      admissible (worker_at s i) (v_fd (own_visits s i xs ! k)) \<and>
      visits W (recvs (worker_at s i) + k) (own_visits s i xs ! k)"
  shows "if \<not> pairs_take s xs then serve_all W created xs s = Inl Hang
     else \<exists>s'. serve_all W created xs s = Inr s' \<and> serving s' \<and> threadNum (pool s') = threadNum (pool s) \<and>
     nat (index (pool s')) = (nat (index (pool s)) + length xs) mod nat (threadNum (pool s)) \<and>
     (\<forall>i < nat (threadNum (pool s)). let own = own_visits s i xs in
        closed (worker_at s' i) = closed (worker_at s i) @ map v_fd own \<and>
        (\<forall>f. wire (net (worker_at s' i)) f = wire (net (worker_at s i)) f @ concat (map (v_reply (w_files W)) (filter (\<lambda>x. v_fd x = f) own))) \<and>
        (\<forall>g. admissible (worker_at s' i) g \<longleftrightarrow> admissible (worker_at s i) g) \<and>
        snd (rx (worker_at s' i)) = snd (rx (worker_at s i)) + 8 * length own \<and>
        pair_room (worker_at s' i) = pair_room (worker_at s i))"
  using assms
proof (induction xs arbitrary: s)
  case Nil
  then show ?case by (auto simp: serving_def pool_inv_def pairs_take_def)
next
  case (Cons x xs)
  let ?n = "nat (threadNum (pool s))" and ?j = "nat (index (pool s))"
  let ?l = "worker_at s ?j"
  have j: "?j < ?n" using Cons.prems(1) by (auto simp: serving_def pool_inv_def)
  have x: "admissible ?l (v_fd x)" "visits W (recvs ?l) x" using Cons.prems(5) [rule_format, of ?j 0] j by simp_all
  show ?case
  proof (cases "pair_takes ?l 1")
    case False
    then have "\<not> pairs_take s (x # xs)"
      using j by (auto simp: pairs_take_def pair_takes_def intro!: exI [of _ ?j])
    moreover have "serve_all W created (x # xs) s = Inl Hang"
      using visit_stuck [OF Cons.prems(1,2) _ False] x(1) by (simp add: admissible_def)
    ultimately show ?thesis by (simp del: serve_all.simps share_of.simps)
  next
    case True
    obtain l2 where 2: "serve_all W created (x # xs) s = serve_all W created xs (after_visit s l2)" "resting l2 (threadID s)"
       "sent (net ?l) (v_fd x) (v_reply (w_files W) x) [fopen (w_files W) (v_page (w_files W) x)] (net l2)"
       "closed l2 = closed ?l @ [v_fd x]" "recvs l2 = Suc (recvs ?l)" "\<forall>g. admissible l2 g \<longleftrightarrow> admissible ?l g"
       "snd (rx l2) = snd (rx ?l) + 8" "pair_room l2 = pair_room ?l"
      using one_visit [OF Cons.prems(1-3) True refl x, of created xs] Cons.prems(4) by auto
    note a = after_visit_serving [OF Cons.prems(1) 2(2)]
    note takes = pairs_take_Cons [OF Cons.prems(1) 2(7,8,2), of x xs]
    have rest: "\<forall>i < ?n. \<forall>k < length (share_of ?n i ((?j + 1) mod ?n) xs).
        admissible (worker_at (after_visit s l2) i) (v_fd (share_of ?n i ((?j + 1) mod ?n) xs ! k)) \<and>
        visits W (recvs (worker_at (after_visit s l2) i) + k) (share_of ?n i ((?j + 1) mod ?n) xs ! k)"
      by (rule later_visits [OF Cons.prems(1,5) 2(2,5,6)])
    show ?thesis
    proof (cases "pairs_take (after_visit s l2) xs")
      case False
      then show ?thesis
        using Cons.IH [OF a(1) Cons.prems(2-4)] rest 2(1) takes unfolding a(2,3) by (simp del: serve_all.simps share_of.simps)
    next
      case fits: True
      obtain s' where s': "serve_all W created xs (after_visit s l2) = Inr s'" "serving s'" "threadNum (pool s') = threadNum (pool s)"
         "nat (index (pool s')) = ((?j + 1) mod ?n + length xs) mod ?n"
         "\<forall>i < ?n. let own = share_of ?n i ((?j + 1) mod ?n) xs; l = worker_at (after_visit s l2) i in
            closed (worker_at s' i) = closed l @ map v_fd own \<and>
            (\<forall>f. wire (net (worker_at s' i)) f = wire (net l) f @ concat (map (v_reply (w_files W)) (filter (\<lambda>x. v_fd x = f) own))) \<and>
            (\<forall>g. admissible (worker_at s' i) g \<longleftrightarrow> admissible l g) \<and>
            snd (rx (worker_at s' i)) = snd (rx l) + 8 * length own \<and> pair_room (worker_at s' i) = pair_room l"
        using Cons.IH [OF a(1) Cons.prems(2-4)] rest fits unfolding a(2,3) Let_def by auto
      have "\<forall>i < ?n. let own = share_of ?n i ?j (x # xs) in
            closed (worker_at s' i) = closed (worker_at s i) @ map v_fd own \<and>
            (\<forall>f. wire (net (worker_at s' i)) f = wire (net (worker_at s i)) f @ concat (map (v_reply (w_files W)) (filter (\<lambda>x. v_fd x = f) own))) \<and>
            (\<forall>g. admissible (worker_at s' i) g \<longleftrightarrow> admissible (worker_at s i) g) \<and>
            snd (rx (worker_at s' i)) = snd (rx (worker_at s i)) + 8 * length own \<and> pair_room (worker_at s' i) = pair_room (worker_at s i)"
        using s'(5) a(4) 2(3,4,6-8) by (auto simp: Let_def sent_def)
      with s'(1-4) 2(1) takes True fits show ?thesis
        by (auto simp: mod_simps simp del: serve_all.simps share_of.simps intro!: exI [of _ s'])
    qed
  qed
qed

section \<open>Properties\<close>


text \<open>Two workers, and three clients for the same file, two of them on one descriptor.\<close>

definition pair_server :: server where
  "pair_server = small_server\<lparr>pool := \<lparr>isStart = True, threadNum = 2, index = 1,
     workthreads = replicate 2 (Some \<lparr>wname = ''Subthread--0'', wloop = Some Tcp_Connection.worker_loop\<rparr>)\<rparr>\<rparr>"

definition text_visit :: "int \<Rightarrow> visit" where
  "text_visit f = \<lparr>v_fd = f, v_method = ''GET'', v_url = ''/d/a.txt'', v_version = ''HTTP/1.1'', v_headers = [],
     v_file = ''d/a.txt'', v_chunks = [''hello'']\<rparr>"

abbreviation text_world :: world where
  "text_world \<equiv> small_world False (Some (print_request ''GET'' ''/d/a.txt'' ''HTTP/1.1'' []))"

lemma text_visits: "visits text_world n (text_visit f)"
proof -
  have "fstat small_files ''d/a.txt'' = Some \<lparr>st_isdir = False, st_size = 5\<rparr>" "0 < fopen small_files ''d/a.txt''"
    "reads_from small_files ''d/a.txt'' 0 [''hello'']"
    by (simp_all add: small_files_def)
  then show ?thesis using get_txt_ok by (simp add: visits_def text_visit_def v_page_def HeaderSize_def)
qed

lemma pair_server_serving: "serving pair_server"
  by (auto simp: serving_def pair_server_def small_server_def pool_inv_def resting_def idle_def
      Tcp_Connection.worker_loop_def queue_rep_empty less_Suc_eq)

lemma worker_loop_admits_small: "0 \<le> f \<Longrightarrow> f < 8 \<Longrightarrow> admissible Tcp_Connection.worker_loop f"
  by (auto simp: admissible_def Tcp_Connection.worker_loop_def int32_def map_inv_def slot_at_def nth_replicate nat_less_iff)


end
