(* ===== verification/Simple_Http.thy ===== *)
theory Simple_Http
  imports Http_Serve Epoll_Dispatch
begin

text \<open>
  \<open>old/SimpleHttp/server.c\<close>, the first server of the repository: one epoll instance and a
  thread per event. Its text functions are those of \<open>Http_Text\<close>. A read is modelled by what
  \<open>recv\<close> delivered until it stopped, a response by the bytes \<open>send\<close> and \<open>sendfile\<close>
  took. \<open>SF n off left\<close> is the result of the n-th call of \<open>sendfile\<close> at an offset with
  \<open>left\<close> bytes to go; the bytes of a file are \<open>fcontent\<close>. The arrays \<open>method\<close> and
  \<open>path\<close> of \<open>parseRequestLine\<close> start with whatever the stack held (\<open>m0\<close>, \<open>p0\<close>).
\<close>

section \<open>The listening socket\<close>

definition initListenFD :: "int \<Rightarrow> int \<Rightarrow> int \<Rightarrow> int \<Rightarrow> int" where
  "initListenFD r_socket r_setsockopt r_bind r_listen =
     (if r_socket = -1 then -1
      else if r_setsockopt = -1 then -1
      else if r_bind = -1 then -1
      else if r_listen = -1 then -1
      else r_socket)"

section \<open>Responses\<close>

text \<open>The result of a \<open>send\<close> is dropped: what the kernel did not take is lost.\<close>

definition send_bytes :: "send_oracle \<Rightarrow> int \<Rightarrow> char list \<Rightarrow> os \<Rightarrow> os" where
  "send_bytes K cfd bs s = snd (sys_send K cfd bs s)"

definition head_text :: "int \<Rightarrow> string \<Rightarrow> string \<Rightarrow> int \<Rightarrow> string" where
  "head_text stat descr type len =
     ''http/1.1 '' @ dec stat @ '' '' @ descr @ CRLF @ ''content-type: '' @ type @ CRLF @
     ''content-length: '' @ dec len @ CRLF @ CRLF"

definition sendHeadMsg :: "send_oracle \<Rightarrow> int \<Rightarrow> int \<Rightarrow> string \<Rightarrow> string \<Rightarrow> int \<Rightarrow> os \<Rightarrow> os result" where
  "sendHeadMsg K cfd stat descr type len s =
     rbind (into_array 4096 (head_text stat descr type len)) (\<lambda>buffer. Inr (send_bytes K cfd buffer s))"

record file_bytes =
  fcontent :: "string \<Rightarrow> char list"
  sendfile_result :: "nat \<Rightarrow> nat \<Rightarrow> nat \<Rightarrow> int"

text \<open>
  The loop over \<open>sendfile\<close>: -1 leaves the offset, and the loop goes on. The size the loop
  runs to is an \<open>int\<close>, the result of \<open>lseek\<close> converted.
\<close>

partial_function (option) sendfile_loop ::
  "(nat \<Rightarrow> nat \<Rightarrow> nat \<Rightarrow> int) \<Rightarrow> char list \<Rightarrow> int \<Rightarrow> int \<Rightarrow> nat \<Rightarrow> nat \<Rightarrow> os \<Rightarrow> os option" where
  "sendfile_loop SF bytes sz cfd n off s =
     (if int off < sz then
        let k = nat (SF n off (length bytes - off)) in
        sendfile_loop SF bytes sz cfd (n + 1) (off + k)
          (s\<lparr>wire := (wire s)(cfd := wire s cfd @ take k (drop off bytes))\<rparr>)
      else Some s)"

definition sendFile_simple :: "files \<Rightarrow> file_bytes \<Rightarrow> string \<Rightarrow> int \<Rightarrow> os \<Rightarrow> os result" where
  "sendFile_simple F B name cfd s =
     (let fd = fopen F name in
      if \<not> 0 < fd then Inl AssertFail
      else
        case sendfile_loop (sendfile_result B) (fcontent B name) (wrap32 (int (length (fcontent B name)))) cfd 0 0 s of
          None \<Rightarrow> Inl Hang
        | Some s' \<Rightarrow> Inr (s'\<lparr>os_closed := os_closed s' @ [fd]\<rparr>))"

fun dir_entries_simple ::
  "files \<Rightarrow> send_oracle \<Rightarrow> string \<Rightarrow> int \<Rightarrow> string list \<Rightarrow> string \<Rightarrow> os \<Rightarrow> os result" where
  "dir_entries_simple F K dirName cfd [] buf s = Inr s"
| "dir_entries_simple F K dirName cfd (name # names) buf s =
     rbind (into_array 1024 (dirName @ ''/'' @ name)) (\<lambda>subPath.
     case fstat F subPath of
       None \<Rightarrow> Inl Uninit
     | Some info \<Rightarrow>
         rbind (into_array 4096 (buf @ dir_row name (st_isdir info) (st_size info))) (\<lambda>buf1.
           dir_entries_simple F K dirName cfd names [] (send_bytes K cfd buf1 s)))"

definition sendDir_simple :: "files \<Rightarrow> send_oracle \<Rightarrow> int \<Rightarrow> string \<Rightarrow> os \<Rightarrow> os result" where
  "sendDir_simple F K cfd dirName s =
     rbind (into_array 4096 (dir_head dirName)) (\<lambda>buf.
     rbind (dir_entries_simple F K dirName cfd (case fscandir F dirName of None \<Rightarrow> [] | Some ns \<Rightarrow> ns) buf s) (\<lambda>s1.
     let s2 = send_bytes K cfd dir_tail s1 in
       case fscandir F dirName of None \<Rightarrow> Inl WildPointer | Some _ \<Rightarrow> Inr s2))"

section \<open>Requests\<close>

text \<open>
  One conversion \<open>%[^ ]\<close> into an array: the longest prefix without a blank, which must not be
  empty, and its NUL, without a bound; \<open>None\<close> when it does not match. The C string at an
  offset of an array must end inside it.
\<close>

definition scan_word :: "char list \<Rightarrow> string \<Rightarrow> (char list \<times> string) option result" where
  "scan_word arr line =
     (let w = takeWhile (\<lambda>c. c \<noteq> CHR '' '') line in
      if w = [] then Inr None
      else rbind (store arr 0 (w @ [NUL])) (\<lambda>arr'. Inr (Some (arr', drop (length w) line))))"

definition is_space :: "char \<Rightarrow> bool" where
  "is_space c \<longleftrightarrow> c = CHR '' '' \<or> c \<in> {CHR 0x09, CHR 0x0A, CHR 0x0B, CHR 0x0C, CHR 0x0D}"

definition sscanf_words :: "string \<Rightarrow> char list \<Rightarrow> char list \<Rightarrow> (char list \<times> char list) result" where
  "sscanf_words line method path =
     rbind (scan_word method line) (\<lambda>r1.
       case r1 of
         None \<Rightarrow> Inr (method, path)
       | Some (method', line1) \<Rightarrow>
           rbind (scan_word path (dropWhile is_space line1)) (\<lambda>r2.
             case r2 of None \<Rightarrow> Inr (method', path) | Some (path', _) \<Rightarrow> Inr (method', path')))"

definition string_at :: "char list \<Rightarrow> nat \<Rightarrow> string result" where
  "string_at arr off = (if NUL \<in> set (drop off arr) then Inr (cstr (drop off arr)) else Inl OutOfBounds)"

definition parseRequestLine ::
  "files \<Rightarrow> file_bytes \<Rightarrow> send_oracle \<Rightarrow> char list \<Rightarrow> char list \<Rightarrow> string \<Rightarrow> int \<Rightarrow> os \<Rightarrow> (os \<times> int) result" where
  "parseRequestLine F B K m0 p0 line cfd s =
     rbind (decodeMsg p0 0 0) (\<lambda>p1.
     rbind (sscanf_words line m0 p1) (\<lambda>(marr, parr).
     rbind (string_at marr 0) (\<lambda>method.
       if \<not> strcasecmp_eq method ''get'' then Inr (s, -1)
       else
         rbind (string_at parr 0) (\<lambda>path.
         rbind (if path = ''/'' then Inr ''./'' else string_at parr 1) (\<lambda>file.
           case fstat F file of
             None \<Rightarrow>
               rbind (sendHeadMsg K cfd 404 ''Not Found'' (getFileType ''.html'') (-1) s) (\<lambda>s1.
               rbind (sendFile_simple F B ''404.html'' cfd s1) (\<lambda>s2. Inr (s2, 0)))
           | Some st \<Rightarrow>
               if st_isdir st then
                 rbind (sendHeadMsg K cfd 200 ''OK'' (getFileType ''.html'') (-1) s) (\<lambda>s1.
                 rbind (sendDir_simple F K cfd file s1) (\<lambda>s2. Inr (s2, 0)))
               else
                 rbind (sendHeadMsg K cfd 200 ''OK'' (getFileType file) (wrap32 (st_size st)) s) (\<lambda>s1.
                 rbind (sendFile_simple F B file cfd s1) (\<lambda>s2. Inr (s2, 0))))))))"

text \<open>
  The receiving loop of \<open>recvHttpRequest\<close>: \<open>totle\<close> is never changed, so every piece is
  copied to the start of the buffer.
\<close>

fun recv_pieces :: "char list \<Rightarrow> nat \<Rightarrow> char list list \<Rightarrow> char list" where
  "recv_pieces buffer totle [] = buffer"
| "recv_pieces buffer totle (tmp # pieces) =
     recv_pieces (if totle + length tmp < 4096 then blit buffer totle tmp else buffer) totle pieces"

text \<open>How \<open>recv\<close> stopped: the peer closed (0), EAGAIN, or another error.\<close>

datatype recv_end = PeerClosed | Again | RecvError

record simple_server =
  sepoll :: epoll_data
  sio :: os

definition recvHttpRequest ::
  "files \<Rightarrow> file_bytes \<Rightarrow> send_oracle \<Rightarrow> char list \<Rightarrow> char list \<Rightarrow> char list list \<Rightarrow> recv_end \<Rightarrow> int \<Rightarrow>
   simple_server \<Rightarrow> simple_server result" where
  "recvHttpRequest F B K m0 p0 pieces how f s =
     (let buffer = recv_pieces (replicate 4096 NUL) 0 pieces in
      case how of
        Again \<Rightarrow>
          (case memmem (cstr buffer) CRLF of
             None \<Rightarrow> Inl NullDeref
           | Some pos \<Rightarrow>
               rbind (put_byte buffer pos NUL) (\<lambda>buffer'.
               rbind (parseRequestLine F B K m0 p0 (cstr buffer') f (sio s)) (\<lambda>(io, _).
                 Inr (s\<lparr>sio := io\<rparr>))))
      | PeerClosed \<Rightarrow>
          Inr (s\<lparr>sepoll := fst (epoll_ctl (sepoll s) EPOLL_CTL_DEL f 0),
                 sio := (sio s)\<lparr>os_closed := os_closed (sio s) @ [f]\<rparr>\<rparr>)
      | RecvError \<Rightarrow> Inr s)"

section \<open>Connections and the event loop\<close>

definition EPOLLET :: "32 word" where "EPOLLET = 2147483648"

text \<open>\<open>cfd\<close> is what \<open>accept\<close> returned.\<close>

definition acceptClient :: "int \<Rightarrow> simple_server \<Rightarrow> simple_server" where
  "acceptClient cfd s =
     (if cfd = -1 then s
      else s\<lparr>sepoll := fst (epoll_ctl (sepoll s) EPOLL_CTL_ADD cfd (EPOLLIN OR EPOLLET))\<rparr>)"

datatype thread = AcceptThread int | RecvThread int

text \<open>What \<open>epollRun\<close> sets up, and the threads it creates for one batch of events.\<close>

definition epollRun_start :: "epoll_data option \<Rightarrow> int \<Rightarrow> epoll_data option" where
  "epollRun_start created lfd =
     (case created of
        None \<Rightarrow> None
      | Some d \<Rightarrow> (case epoll_ctl d EPOLL_CTL_ADD lfd EPOLLIN of (d', ret) \<Rightarrow> if ret = -1 then None else Some d'))"

definition epollRun_threads :: "int \<Rightarrow> (int \<times> 32 word) list \<Rightarrow> thread list" where
  "epollRun_threads lfd evs = map (\<lambda>(fd, _). if fd = lfd then AcceptThread fd else RecvThread fd) evs"

section \<open>Sending\<close>

lemma send_bytes_all: "accepts_all K \<Longrightarrow> sent s cfd bs [] (send_bytes K cfd bs s)"
  by (simp add: send_bytes_def sys_send_def accepts_all_def sent_def Let_def)

text \<open>\<open>sendfile\<close> makes progress when every call takes at least one byte and at most the rest.\<close>

definition makes_progress :: "file_bytes \<Rightarrow> bool" where
  "makes_progress B \<longleftrightarrow> (\<forall>n off rest. 0 < rest \<longrightarrow> 1 \<le> sendfile_result B n off rest \<and> sendfile_result B n off rest \<le> int rest)"

lemma makes_progress_D:
  "makes_progress B \<Longrightarrow> 0 < rest \<Longrightarrow>
   1 \<le> sendfile_result B n off rest \<and> sendfile_result B n off rest \<le> int rest"
  by (simp add: makes_progress_def)

lemma makes_progress_bounds:
  "makes_progress B \<Longrightarrow> 0 < rest \<Longrightarrow>
   1 \<le> nat (sendfile_result B n off rest) \<and> nat (sendfile_result B n off rest) \<le> rest"
  by (drule makes_progress_D [of _ rest n off]) auto

lemma sendfile_loop_ok:
  "makes_progress B \<Longrightarrow> off \<le> length bytes \<Longrightarrow>
   \<exists>s'. sendfile_loop (sendfile_result B) bytes (int (length bytes)) cfd n off s = Some s' \<and>
        sent s cfd (drop off bytes) [] s'"
proof (induction "length bytes - off" arbitrary: off n s rule: less_induct)
  case less
  show ?case
  proof (cases "off < length bytes")
    case False
    then show ?thesis by (simp add: sendfile_loop.simps sent_refl)
  next
    case True
    define k where "k = nat (sendfile_result B n off (length bytes - off))"
    have k: "1 \<le> k" "k \<le> length bytes - off"
      using makes_progress_bounds [OF less.prems(1)] True unfolding k_def by (metis zero_less_diff)+
    then have fits: "length bytes - (off + k) < length bytes - off" "off + k \<le> length bytes"
      using True by auto
    let ?s = "s\<lparr>wire := (wire s)(cfd := wire s cfd @ take k (drop off bytes))\<rparr>"
    obtain s' where s': "sendfile_loop (sendfile_result B) bytes (int (length bytes)) cfd (n + 1) (off + k) ?s = Some s'"
        "sent ?s cfd (drop (off + k) bytes) [] s'"
      using less.hyps [of "off + k" "n + 1" ?s, OF _ less.prems(1)] fits by blast
    have "sendfile_loop (sendfile_result B) bytes (int (length bytes)) cfd n off s = Some s'"
      using True s'(1) by (simp add: sendfile_loop.simps [of _ _ _ _ n off] k_def Let_def)
    moreover have "sent s cfd (take k (drop off bytes)) [] ?s" by (simp add: sent_def)
    from sent_trans [OF this s'(2)] have "sent s cfd (drop off bytes) [] s'"
      by (simp add: add.commute [of off] flip: drop_drop)
    ultimately show ?thesis by blast
  qed
qed

text \<open>
  How far the loop is after \<open>n\<close> calls, and when it ends: a call that fails, as on a socket with no room,
  moves nothing and is repeated.
\<close>

fun moved :: "file_bytes \<Rightarrow> nat \<Rightarrow> nat \<Rightarrow> nat" where
  "moved B sz 0 = 0"
| "moved B sz (Suc n) = moved B sz n + nat (sendfile_result B n (moved B sz n) (sz - moved B sz n))"

definition sendfile_ends :: "file_bytes \<Rightarrow> nat \<Rightarrow> bool" where
  "sendfile_ends B sz \<longleftrightarrow> (\<exists>n. sz \<le> moved B sz n)"

lemma sendfile_loop_from:
  "length bytes \<le> moved B (length bytes) (n + k) \<Longrightarrow>
   \<exists>s'. sendfile_loop (sendfile_result B) bytes (int (length bytes)) cfd n (moved B (length bytes) n) s = Some s' \<and>
        sent s cfd (drop (moved B (length bytes) n) bytes) [] s'"
proof (induction k arbitrary: n s)
  case 0
  then show ?case by (simp add: sendfile_loop.simps sent_refl)
next
  case (Suc k)
  let ?off = "moved B (length bytes) n" and ?off' = "moved B (length bytes) (Suc n)"
  show ?case
  proof (cases "?off < length bytes")
    case False
    then show ?thesis by (simp add: sendfile_loop.simps sent_refl)
  next
    case True
    define k where "k = nat (sendfile_result B n ?off (length bytes - ?off))"
    have off': "?off' = ?off + k" by (simp add: k_def)
    let ?s = "s\<lparr>wire := (wire s)(cfd := wire s cfd @ take k (drop ?off bytes))\<rparr>"
    obtain s' where s': "sendfile_loop (sendfile_result B) bytes (int (length bytes)) cfd (Suc n) ?off' ?s = Some s'"
        "sent ?s cfd (drop ?off' bytes) [] s'"
      using Suc.IH [of "Suc n" ?s] Suc.prems by auto
    have "sendfile_loop (sendfile_result B) bytes (int (length bytes)) cfd n ?off s = Some s'"
      using True s'(1) unfolding off' by (simp add: sendfile_loop.simps [of _ _ _ _ n ?off] Let_def flip: k_def)
    moreover have "sent s cfd (take k (drop ?off bytes)) [] ?s" by (simp add: sent_def)
    from sent_trans [OF this s'(2)] have "sent s cfd (drop ?off bytes) [] s'"
      unfolding off' by (simp add: add.commute [of ?off] flip: drop_drop)
    ultimately show ?thesis by blast
  qed
qed

lemma sendfile_loop_endless:
  assumes "\<not> sendfile_ends B (length bytes)"
  shows "sendfile_loop (sendfile_result B) bytes (int (length bytes)) cfd n (moved B (length bytes) n) s = None"
proof (rule ccontr)
  assume "sendfile_loop (sendfile_result B) bytes (int (length bytes)) cfd n (moved B (length bytes) n) s \<noteq> None"
  then obtain y where y: "sendfile_loop (sendfile_result B) bytes (int (length bytes)) cfd n (moved B (length bytes) n) s = Some y" by blast
  have lt: "int (moved B (length bytes) n) < int (length bytes)" for n
    using assms by (simp add: sendfile_ends_def not_le)
  have "sendfile_result B = sendfile_result B \<longrightarrow> bytes = bytes \<longrightarrow> int (length bytes) = int (length bytes) \<longrightarrow>
      moved B (length bytes) n \<noteq> moved B (length bytes) n"
  proof (rule sendfile_loop.raw_induct [where P = "\<lambda>SF bytes' sz cfd n off s y. SF = sendfile_result B \<longrightarrow> bytes' = bytes \<longrightarrow>
      sz = int (length bytes) \<longrightarrow> off \<noteq> moved B (length bytes) n", OF _ y])
    fix loop :: "(nat \<Rightarrow> nat \<Rightarrow> nat \<Rightarrow> int) \<Rightarrow> char list \<Rightarrow> int \<Rightarrow> int \<Rightarrow> nat \<Rightarrow> nat \<Rightarrow> os \<Rightarrow> os option" and SF bytes' sz cfd n off s y
    assume IH: "\<And>SF bytes' sz cfd n off s y. loop SF bytes' sz cfd n off s = Some y \<Longrightarrow>
        SF = sendfile_result B \<longrightarrow> bytes' = bytes \<longrightarrow> sz = int (length bytes) \<longrightarrow> off \<noteq> moved B (length bytes) n"
      and r: "(if int off < sz then
          let k = nat (SF n off (length bytes' - off)) in
          loop SF bytes' sz cfd (n + 1) (off + k) (s\<lparr>wire := (wire s)(cfd := wire s cfd @ take k (drop off bytes'))\<rparr>)
        else Some s) = Some y"
    show "SF = sendfile_result B \<longrightarrow> bytes' = bytes \<longrightarrow> sz = int (length bytes) \<longrightarrow> off \<noteq> moved B (length bytes) n"
    proof (intro impI notI)
      assume e: "SF = sendfile_result B" "bytes' = bytes" "sz = int (length bytes)" "off = moved B (length bytes) n"
      with r lt [of n] have "loop SF bytes' sz cfd (n + 1) (moved B (length bytes) (Suc n))
          (s\<lparr>wire := (wire s)(cfd := wire s cfd @ take (nat (SF n off (length bytes' - off))) (drop off bytes'))\<rparr>) = Some y"
        by (simp add: Let_def)
      from IH [OF this] e show False by simp
    qed
  qed
  then show False by simp
qed

lemma sendFile_simple_eq:
  assumes "0 < fopen F name" and "int32 (int (length (fcontent B name)))"
  shows "if sendfile_ends B (length (fcontent B name))
    then \<exists>s'. sendFile_simple F B name cfd s = Inr s' \<and> sent s cfd (fcontent B name) [fopen F name] s'
    else sendFile_simple F B name cfd s = Inl Hang"
proof (cases "sendfile_ends B (length (fcontent B name))")
  case True
  then obtain n where "length (fcontent B name) \<le> moved B (length (fcontent B name)) (0 + n)"
    by (auto simp: sendfile_ends_def)
  from sendfile_loop_from [OF this, of cfd s] True assms show ?thesis
    by (auto simp: sendFile_simple_def Let_def sent_def wrap32_id)
next
  case False
  from sendfile_loop_endless [OF this, of cfd 0 s] False assms show ?thesis
    by (simp add: sendFile_simple_def Let_def wrap32_id)
qed

lemma makes_progress_ends: "makes_progress B \<Longrightarrow> sendfile_ends B sz"
proof -
  assume p: "makes_progress B"
  have "min sz n \<le> moved B sz n" for n
  proof (induction n)
    case (Suc n)
    show ?case
    proof (cases "moved B sz n < sz")
      case True
      with makes_progress_bounds [OF p, of "sz - moved B sz n" n "moved B sz n"] Suc show ?thesis by auto
    qed auto
  qed simp
  from this [of sz] show ?thesis by (auto simp: sendfile_ends_def)
qed

lemma sendFile_simple_ok:
  assumes "makes_progress B" and "0 < fopen F name" and "int32 (int (length (fcontent B name)))"
  shows "\<exists>s'. sendFile_simple F B name cfd s = Inr s' \<and> sent s cfd (fcontent B name) [fopen F name] s'"
  using sendfile_loop_ok [OF assms(1), of 0 "fcontent B name" cfd 0 s] assms(2,3)
  by (auto simp: sendFile_simple_def Let_def sent_def wrap32_id)

lemma sendHeadMsg_ok:
  assumes "NUL \<notin> set descr" and "NUL \<notin> set type" and "length descr + length type < 3900" and "int32 stat" and "int32 len"
    and K: "accepts_all K"
  shows "\<exists>s'. sendHeadMsg K cfd stat descr type len s = Inr s' \<and> sent s cfd (head_text stat descr type len) [] s'"
proof -
  have "NUL \<notin> set (head_text stat descr type len)" "length (head_text stat descr type len) < 4096"
    using assms dec_length [of stat] dec_length [of len] by (auto simp: head_text_def)
  then show ?thesis
    using send_bytes_all [OF K] by (simp add: sendHeadMsg_def mem_simps)
qed

text \<open>A socket that does not block may take only a part of the head; the rest is lost.\<close>

lemma sendHeadMsg_part:
  assumes "NUL \<notin> set descr" and "NUL \<notin> set type" and "length descr + length type < 3900" and "int32 stat" and "int32 len"
  defines "h \<equiv> head_text stat descr type len"
  shows "\<exists>s'. sendHeadMsg K cfd stat descr type len s = Inr s' \<and> sent s cfd (take (nat (K (sends s) (length h))) h) [] s'"
proof -
  have "NUL \<notin> set h" "length h < 4096"
    using assms(1-5) dec_length [of stat] dec_length [of len] by (auto simp: h_def head_text_def)
  then show ?thesis
    by (simp add: sendHeadMsg_def mem_simps send_bytes_def sys_send_def sent_def Let_def flip: h_def)
qed

section \<open>Receiving\<close>

lemma string_at_start:
  "NUL \<notin> set w \<Longrightarrow> length w < length arr \<Longrightarrow> string_at (blit arr 0 (w @ [NUL])) 0 = Inr w"
  by (simp add: string_at_def blit_def cstr_append_NUL)

lemma string_at_next:
  "NUL \<notin> set (c # w) \<Longrightarrow> length (c # w) < length arr \<Longrightarrow> string_at (blit arr 0 ((c # w) @ [NUL])) 1 = Inr w"
  by (simp add: string_at_def blit_def cstr_append_NUL)

lemma scan_word_ok:
  assumes "CHR '' '' \<notin> set w" and "w \<noteq> []" and "length w < length arr"
  shows "scan_word arr (w @ CHR '' '' # rest) = Inr (Some (blit arr 0 (w @ [NUL]), CHR '' '' # rest))"
proof -
  have "takeWhile (\<lambda>c. c \<noteq> CHR '' '') (w @ CHR '' '' # rest) = w"
    using assms(1) by (simp add: takeWhile_tail takeWhile_append2 takeWhile_eq_all_conv) (metis takeWhile_eq_all_conv)
  then show ?thesis using assms(2,3) by (simp add: scan_word_def Let_def store_ok)
qed

lemma sscanf_request:
  assumes "CHR '' '' \<notin> set m" "m \<noteq> []" "length m < length marr"
    and "CHR '' '' \<notin> set (c # u)" "\<not> is_space c" "length (c # u) < length parr"
  shows "sscanf_words (m @ '' '' @ (c # u) @ '' '' @ v) marr parr =
     Inr (blit marr 0 (m @ [NUL]), blit parr 0 ((c # u) @ [NUL]))"
proof -
  have "dropWhile is_space (CHR '' '' # (c # u) @ CHR '' '' # v) = (c # u) @ CHR '' '' # v"
    using assms(5) by (simp add: is_space_def)
  then show ?thesis
    using scan_word_ok [OF assms(1-3), of "(c # u) @ CHR '' '' # v"] scan_word_ok [OF assms(4) _ assms(6), of v]
    by (simp add: sscanf_words_def)
qed

lemma decodeMsg_stack:
  assumes "NUL \<in> set p0"
  shows "\<exists>p1. decodeMsg p0 0 0 = Inr p1 \<and> length p1 = length p0"
proof -
  obtain s rest where "p0 = s @ NUL # rest" "NUL \<notin> set s"
    using split_list_first [OF assms] by blast
  then show ?thesis using decodeMsg_in_place [of s rest] by auto
qed

text \<open>Without a NUL in the array, the decoding of the uninitialised path leaves it.\<close>

lemma decodeMsg_no_NUL: "NUL \<notin> set (drop from' m) \<Longrightarrow> to \<le> from' \<Longrightarrow> decodeMsg m to from' = Inl OutOfBounds"
proof (induction m to from' rule: decodeMsg.induct)
  case (1 m to from')
  show ?case
  proof (cases "from' < length m")
    case False
    then show ?thesis by (simp add: decodeMsg.simps [of m to from'])
  next
    case True
    then have c: "m ! from' \<noteq> NUL" using "1.prems"(1) by (metis Cons_nth_drop_Suc list.set_intros(1))
    have tail: "NUL \<notin> set (drop k m)" if "from' \<le> k" for k
      using "1.prems"(1) set_drop_subset_set_drop [OF that, of m] by blast
    have keep: "drop (from' + k) (m[to := x]) = drop (from' + k) m" if "0 < k" for k x
      using "1.prems"(2) that by (simp add: drop_update_cancel)
    show ?thesis
    proof (cases "is_escape m from'")
      case (Inl e)
      then have "e = OutOfBounds" by (auto simp: is_escape_def byte_at_def split: if_splits)
      with Inl True c show ?thesis by (simp add: decodeMsg.simps [of m to from'])
    next
      case (Inr esc)
      have a: "byte_at m k = Inr a \<Longrightarrow> a = m ! k" "byte_at m k = Inl e \<Longrightarrow> e = OutOfBounds" for k a e
        by (auto simp: byte_at_def split: if_splits)
      have to: "to < length m" using True "1.prems"(2) by simp
      show ?thesis
      proof (cases esc)
        case False
        have "decodeMsg (m[to := m ! from']) (to + 1) (from' + 1) = Inl OutOfBounds"
          using "1.IH"(2) [OF True c Inr] False to tail keep "1.prems"(2) by simp
        with True c Inr False to show ?thesis by (simp add: decodeMsg.simps [of m to from'])
      next
        case esc: True
        show ?thesis
        proof (cases "\<exists>a b. byte_at m (from' + 1) = Inr a \<and> byte_at m (from' + 2) = Inr b")
          case ex: True
          then obtain a b where ab: "byte_at m (from' + 1) = Inr a" "byte_at m (from' + 2) = Inr b" by blast
          have "decodeMsg (m[to := escape_byte a b]) (to + 1) (from' + 3) = Inl OutOfBounds"
            using "1.IH"(1) [OF True c Inr esc ab to] tail keep "1.prems"(2) by simp
          with True c Inr esc ab to show ?thesis by (simp add: decodeMsg.simps [of m to from'])
        next
          case no: False
          with True c Inr esc show ?thesis
            by (cases "byte_at m (from' + 1)"; cases "byte_at m (from' + 2)")
              (simp_all add: decodeMsg.simps [of m to from'] a(2))
        qed
      qed
    qed
  qed
qed

text \<open>Only what the last piece left at the start of the buffer is looked at.\<close>

lemma recv_last: "length bs < 4096 \<Longrightarrow> recv_pieces buffer 0 (ps @ [bs]) = blit (recv_pieces buffer 0 ps) 0 bs"
  by (induction ps arbitrary: buffer) auto

lemma length_recv_pieces: "length buffer = 4096 \<Longrightarrow> length (recv_pieces buffer 0 ps) = 4096"
  by (induction ps arbitrary: buffer) auto

lemma recv_line:
  assumes "CR \<notin> set line" and "NUL \<notin> set line" and "length (line @ CRLF @ rest) < 4096"
  shows "\<exists>buffer'. put_byte (recv_pieces (replicate 4096 NUL) 0 (ps @ [line @ CRLF @ rest])) (length line) NUL = Inr buffer' \<and>
     cstr buffer' = line \<and>
     memmem (cstr (recv_pieces (replicate 4096 NUL) 0 (ps @ [line @ CRLF @ rest]))) CRLF = Some (length line)"
proof -
  let ?b = "recv_pieces (replicate 4096 NUL) 0 (ps @ [line @ CRLF @ rest])"
  let ?t = "rest @ drop (length (line @ CRLF @ rest)) (recv_pieces (replicate 4096 NUL) 0 ps)"
  have b: "?b = line @ CRLF @ ?t" using recv_last [OF assms(3)] by (simp add: blit_def)
  have "cstr ?b = line @ CRLF @ cstr ?t"
    unfolding b using assms(2) by (simp add: cstr_def takeWhile_append2 takeWhile_append)
  then have "memmem (cstr ?b) CRLF = Some (length line)"
    using memmem_first [OF assms(1), of "[CHR 0x0A]" "cstr ?t"] by simp
  moreover have "put_byte ?b (length line) NUL = Inr (line @ NUL # CHR 0x0A # ?t)"
    unfolding b by (simp add: put_byte_def list_update_append)
  ultimately show ?thesis using assms(2) by (simp add: cstr_append_NUL)
qed

section \<open>Serving\<close>

text \<open>
  A request line \<open>m u v\<close> the two arrays have room for: no blanks inside the words and a URL
  that names a file below the directory of the server.
\<close>

definition request_line :: "string \<Rightarrow> string \<Rightarrow> string \<Rightarrow> string" where
  "request_line m file v = m @ '' '' @ (CHR ''/'' # file) @ '' '' @ v"

definition fit_arrays :: "string \<Rightarrow> string \<Rightarrow> char list \<Rightarrow> char list \<Rightarrow> bool" where
  "fit_arrays m file m0 p0 \<longleftrightarrow>
     CHR '' '' \<notin> set m \<and> NUL \<notin> set m \<and> m \<noteq> [] \<and> length m < length m0 \<and>
     CHR '' '' \<notin> set file \<and> NUL \<notin> set file \<and> file \<noteq> [] \<and> length file + 1 < length p0"

definition short_words :: "string \<Rightarrow> string \<Rightarrow> char list \<Rightarrow> char list \<Rightarrow> bool" where
  "short_words m file m0 p0 \<longleftrightarrow>
     CHR '' '' \<notin> set m \<and> NUL \<notin> set m \<and> m \<noteq> [] \<and> length m < length m0 \<and>
     CHR '' '' \<notin> set file \<and> NUL \<notin> set file \<and> file \<noteq> [] \<and> length file + 1 < length p0 \<and> NUL \<in> set p0"

lemma short_words_fit: "short_words m file m0 p0 \<longleftrightarrow> fit_arrays m file m0 p0 \<and> NUL \<in> set p0"
  by (auto simp: short_words_def fit_arrays_def)

lemma parse_words:
  assumes w: "short_words m file m0 p0" and m: "strcasecmp_eq m ''get''"
    and info: "fstat F file = Some st" "\<not> st_isdir st"
  shows "parseRequestLine F B K m0 p0 (request_line m file v) cfd s =
     rbind (sendHeadMsg K cfd 200 ''OK'' (getFileType file) (wrap32 (st_size st)) s) (\<lambda>s1.
     rbind (sendFile_simple F B file cfd s1) (\<lambda>s2. Inr (s2, 0)))"
proof -
  obtain p1 where p1: "decodeMsg p0 0 0 = Inr p1" "length p1 = length p0"
    using decodeMsg_stack w by (auto simp: short_words_def)
  have "sscanf_words (request_line m file v) m0 p1 =
      Inr (blit m0 0 (m @ [NUL]), blit p1 0 ((CHR ''/'' # file) @ [NUL]))"
    unfolding request_line_def
    by (rule sscanf_request) (use w p1(2) in \<open>auto simp: short_words_def is_space_def\<close>)
  moreover have "string_at (blit m0 0 (m @ [NUL])) 0 = Inr m"
    by (rule string_at_start) (use w in \<open>auto simp: short_words_def\<close>)
  moreover have "string_at (blit p1 0 ((CHR ''/'' # file) @ [NUL])) 0 = Inr (CHR ''/'' # file)"
    by (rule string_at_start) (use w p1(2) in \<open>auto simp: short_words_def\<close>)
  moreover have "string_at (blit p1 0 ((CHR ''/'' # file) @ [NUL])) 1 = Inr file"
    by (rule string_at_next) (use w p1(2) in \<open>auto simp: short_words_def\<close>)
  moreover have "CHR ''/'' # file \<noteq> ''/''" using w by (simp add: short_words_def)
  ultimately show ?thesis using m info p1(1) by (simp add: parseRequestLine_def)
qed

lemma serve_words:
  assumes w: "short_words m file m0 p0" and m: "strcasecmp_eq m ''get''"
    and info: "fstat F file = Some st" "\<not> st_isdir st" "0 < fopen F file" "int32 (int (length (fcontent B file)))"
    and K: "accepts_all K" "makes_progress B"
  shows "\<exists>s'. parseRequestLine F B K m0 p0 (request_line m file v) cfd s = Inr (s', 0) \<and>
     sent s cfd (head_text 200 ''OK'' (getFileType file) (wrap32 (st_size st)) @ fcontent B file) [fopen F file] s'"
proof -
  obtain s1 where 1: "sendHeadMsg K cfd 200 ''OK'' (getFileType file) (wrap32 (st_size st)) s = Inr s1"
      "sent s cfd (head_text 200 ''OK'' (getFileType file) (wrap32 (st_size st))) [] s1"
    using sendHeadMsg_ok [OF _ _ _ _ int32_wrap32 K(1), of "''OK''" "getFileType file" 200 cfd "st_size st" s]
      getFileType_length [of "file"] by (auto simp: int32_def)
  obtain s2 where 2: "sendFile_simple F B file cfd s1 = Inr s2" "sent s1 cfd (fcontent B file) [fopen F file] s2"
    using sendFile_simple_ok [OF K(2) info(3,4)] by blast
  from 1(1) 2(1) sent_trans [OF 1(2) 2(2)] parse_words [OF w m info(1,2)] show ?thesis by simp
qed

lemma recv_request:
  assumes "CR \<notin> set line" and "NUL \<notin> set line" and "length (line @ CRLF @ rest) < 4096"
  shows "recvHttpRequest F B K m0 p0 (ps @ [line @ CRLF @ rest]) Again f s =
     rbind (parseRequestLine F B K m0 p0 line f (sio s)) (\<lambda>(io, _). Inr (s\<lparr>sio := io\<rparr>))"
  using recv_line [OF assms, of ps] by (auto simp: recvHttpRequest_def Let_def)

text \<open>A method too long for its array, and a failing \<open>sendfile\<close>.\<close>

lemma scan_word_long:
  assumes "CHR '' '' \<notin> set w" and "w \<noteq> []" and "length arr \<le> length w"
  shows "scan_word arr (w @ CHR '' '' # rest) = Inl OutOfBounds"
proof -
  have "takeWhile (\<lambda>c. c \<noteq> CHR '' '') (w @ CHR '' '' # rest) = w"
    using assms(1) by (simp add: takeWhile_tail takeWhile_append2 takeWhile_eq_all_conv) (metis takeWhile_eq_all_conv)
  then show ?thesis using assms(2,3) by (simp add: scan_word_def Let_def store_def)
qed

lemma sendfile_stuck:
  assumes "int off < sz"
  shows "sendfile_loop (\<lambda>_ _ _. -1) bytes sz cfd n off s = None"
proof (rule ccontr)
  assume "sendfile_loop (\<lambda>_ _ _. -1) bytes sz cfd n off s \<noteq> None"
  then obtain y where y: "sendfile_loop (\<lambda>_ _ _. -1) bytes sz cfd n off s = Some y" by blast
  have "(\<lambda>(_ :: nat) (_ :: nat) (_ :: nat). -1 :: int) = (\<lambda>_ _ _. -1) \<longrightarrow> \<not> int off < sz"
  proof (rule sendfile_loop.raw_induct [where P = "\<lambda>SF bytes sz cfd n off s y. SF = (\<lambda>_ _ _. -1) \<longrightarrow> \<not> int off < sz", OF _ y])
  qed (auto simp: Let_def split: if_splits)
  with assms show False by blast
qed

lemma request_served:
  assumes "short_words m file m0 p0" and "strcasecmp_eq m ''get''"
    and "CR \<notin> set (request_line m file v)" and "NUL \<notin> set v"
    and "length (request_line m file v @ CRLF @ rest) < 4096"
    and "fstat F file = Some st" and "\<not> st_isdir st" and "0 < fopen F file"
    and "int32 (int (length (fcontent B file)))" and "accepts_all K" and "makes_progress B"
  shows "\<exists>s'. recvHttpRequest F B K m0 p0 (ps @ [request_line m file v @ CRLF @ rest]) Again f s = Inr s' \<and>
     sepoll s' = sepoll s \<and>
     sent (sio s) f (''http/1.1 200 OK'' @ CRLF @ ''content-type: '' @ getFileType file @ CRLF @
       ''content-length: '' @ dec (wrap32 (st_size st)) @ CRLF @ CRLF @ fcontent B file) [fopen F file] (sio s')"
proof -
  have "NUL \<notin> set (request_line m file v)"
    using assms(1,4) by (auto simp: request_line_def short_words_def)
  moreover have "head_text 200 ''OK'' (getFileType file) (wrap32 (st_size st)) @ fcontent B file =
      ''http/1.1 200 OK'' @ CRLF @ ''content-type: '' @ getFileType file @ CRLF @
       ''content-length: '' @ dec (wrap32 (st_size st)) @ CRLF @ CRLF @ fcontent B file"
    by (simp add: head_text_def dec_status)
  ultimately show ?thesis
    using recv_request [OF assms(3) _ assms(5), of F B K m0 p0 ps f s]
      serve_words [OF assms(1,2,6-11), of v f "sio s"] by fastforce
qed

section \<open>Properties\<close>


definition zeros :: "nat \<Rightarrow> char list" where "zeros n = replicate n NUL"

lemma zeros [simp]: "length (zeros n) = n" "0 < n \<Longrightarrow> NUL \<in> set (zeros n)"
  by (simp_all add: zeros_def)

definition small_bytes :: file_bytes where
  "small_bytes = \<lparr>fcontent = (\<lambda>_. ''hello''), sendfile_result = (\<lambda>_ _ rest. int (min 2 rest))\<rparr>"

definition small_simple :: simple_server where
  "small_simple = \<lparr>sepoll = \<lparr>ep_interest = Map.empty, ep_refuses = (\<lambda>_. False)\<rparr>, sio = silent\<rparr>"

lemma small_bytes_progress: "makes_progress small_bytes"
  by (auto simp: makes_progress_def small_bytes_def)

text \<open>A socket that takes 8 bytes of the head, and a \<open>sendfile\<close> that fails once on the way.\<close>

definition full_at_times :: file_bytes where
  "full_at_times = \<lparr>fcontent = (\<lambda>_. ''hello''), sendfile_result = (\<lambda>n _ rest. if n = 1 then -1 else int (min 2 rest))\<rparr>"


text \<open>
  The words of the request line are read without a bound: a first word that fills the array
  for the method is written behind its end.
\<close>

lemma simple_long_method_overflows:
  assumes "CHR '' '' \<notin> set m" and "m \<noteq> []" and "length m0 \<le> length m" and "NUL \<in> set p0"
    and "CR \<notin> set (m @ '' '' @ w)" and "NUL \<notin> set (m @ '' '' @ w)" and "length ((m @ '' '' @ w) @ CRLF @ rest) < 4096"
  shows "recvHttpRequest F B K m0 p0 (ps @ [(m @ '' '' @ w) @ CRLF @ rest]) Again f s = Inl OutOfBounds"
proof -
  obtain p1 where "decodeMsg p0 0 0 = Inr p1" using decodeMsg_stack [OF assms(4)] by blast
  then show ?thesis
    unfolding recv_request [OF assms(5-7)]
    using scan_word_long [OF assms(1-3), of w] by (simp add: parseRequestLine_def sscanf_words_def)
qed

lemma simple_long_method_overflows_witness:
  "recvHttpRequest small_files small_bytes all_sent (zeros 12) (zeros 1024)
     [''OPTIONSOPTIONS /'' @ CRLF] Again 7 small_simple = Inl OutOfBounds"
  using simple_long_method_overflows [of "''OPTIONSOPTIONS''" "zeros 12" "zeros 1024" "''/''" "[]"
      small_files small_bytes all_sent "[]" 7 small_simple]
  by simp

end
