(* ===== verification/Simple_Threads.thy ===== *)
theory Simple_Threads
  imports Simple_Http
begin

text \<open>
  The threads of \<open>old/SimpleHttp/server.c\<close>. \<open>epollRun\<close> starts a thread for every event: on the
  listening socket, which is level-triggered and blocking, one that accepts, and on a connection,
  which is edge-triggered and non-blocking, one that receives until \<open>EAGAIN\<close> or the end and then
  answers or closes. \<open>simple_step\<close> is one action of one thread, of a client or of the loop.
\<close>

section \<open>The run\<close>

text \<open>
  A thread in \<open>recvHttpRequest\<close> is receiving (with the pieces so far) or has left the loop.
  The kernel's side: \<open>r_backlog\<close> are the clients not accepted yet, with what they sent and whether
  they have closed; \<open>r_open\<close> the open sockets, \<open>r_in\<close> their unread bytes, \<open>r_gone\<close> those whose
  client has closed, \<open>r_ready\<close> those with an edge epoll has not reported.
\<close>

datatype http_thread = Accepting | Receiving int "char list list" | Answering int "char list list" recv_end

record simple_run =
  r_server :: simple_server
  r_threads :: "http_thread list"
  r_backlog :: "(char list \<times> bool) list"
  r_open :: "int set"
  r_in :: "int \<Rightarrow> char list"
  r_gone :: "int set"
  r_ready :: "int set"

abbreviation watches :: "simple_run \<Rightarrow> int \<rightharpoonup> 32 word" where
  "watches s \<equiv> ep_interest (sepoll (r_server s))"

primrec started_thread :: "thread \<Rightarrow> http_thread" where
  "started_thread (AcceptThread f) = Accepting"
| "started_thread (RecvThread f) = Receiving f []"

text \<open>What \<open>epoll_wait\<close> may report, and how the receiving loop may end.\<close>

definition may_report :: "int \<Rightarrow> simple_run \<Rightarrow> (int \<times> 32 word) list \<Rightarrow> bool" where
  "may_report lfd s evs \<longleftrightarrow> evs \<noteq> [] \<and> length evs \<le> 1024 \<and> distinct (map fst evs) \<and>
     (\<forall>f \<in> fst ` set evs. if f = lfd then r_backlog s \<noteq> [] else f \<in> r_ready s)"

definition recv_stops :: "simple_run \<Rightarrow> int \<Rightarrow> recv_end \<Rightarrow> bool" where
  "recv_stops s f how \<longleftrightarrow>
     (if f \<in> r_open s then r_in s f = [] \<and> how = (if f \<in> r_gone s then PeerClosed else Again) else how = RecvError)"

definition edge :: "int \<Rightarrow> simple_run \<Rightarrow> simple_run" where
  "edge f s = (if watches s f = None then s else s\<lparr>r_ready := insert f (r_ready s)\<rparr>)"

definition enter :: "int \<Rightarrow> char list \<Rightarrow> bool \<Rightarrow> simple_run \<Rightarrow> simple_run" where
  "enter f bs gone s =
     (let s1 = s\<lparr>r_server := acceptClient f (r_server s), r_open := insert f (r_open s), r_in := (r_in s)(f := bs),
                 r_gone := (if gone then insert f (r_gone s) else r_gone s - {f}), r_ready := r_ready s - {f}\<rparr>
      in if bs \<noteq> [] \<or> gone then edge f s1 else s1)"

definition shut :: "int \<Rightarrow> simple_run \<Rightarrow> simple_run" where
  "shut f s = s\<lparr>r_open := r_open s - {f}, r_in := (r_in s)(f := []), r_gone := r_gone s - {f}, r_ready := r_ready s - {f}\<rparr>"

inductive simple_step :: "files \<Rightarrow> file_bytes \<Rightarrow> send_oracle \<Rightarrow> int \<Rightarrow> simple_run \<Rightarrow> simple_run \<Rightarrow> bool"
  for F B K lfd where
  connect: "simple_step F B K lfd s (s\<lparr>r_backlog := r_backlog s @ [(bs, gone)]\<rparr>)"
| arrive: "f \<in> r_open s - {lfd} \<Longrightarrow> f \<notin> r_gone s \<Longrightarrow>
     simple_step F B K lfd s (edge f (s\<lparr>r_in := (r_in s)(f := r_in s f @ bs)\<rparr>))"
| leave: "f \<in> r_open s - {lfd} \<Longrightarrow> simple_step F B K lfd s (edge f (s\<lparr>r_gone := insert f (r_gone s)\<rparr>))"
| events: "may_report lfd s evs \<Longrightarrow>
     simple_step F B K lfd s (s\<lparr>r_threads := r_threads s @ map started_thread (epollRun_threads lfd evs),
       r_ready := r_ready s - fst ` set evs\<rparr>)"
| accept: "r_threads s = us @ Accepting # vs \<Longrightarrow> r_backlog s = (bs, gone) # cs \<Longrightarrow> 0 \<le> f \<Longrightarrow> f \<notin> r_open s \<Longrightarrow>
     simple_step F B K lfd s (enter f bs gone (s\<lparr>r_threads := us @ vs, r_backlog := cs\<rparr>))"
| accept_fails: "r_threads s = us @ Accepting # vs \<Longrightarrow>
     simple_step F B K lfd s (s\<lparr>r_threads := us @ vs, r_server := acceptClient (-1) (r_server s)\<rparr>)"
| receive: "r_threads s = us @ Receiving f ps # vs \<Longrightarrow> f \<in> r_open s \<Longrightarrow> r_in s f = bs @ later \<Longrightarrow> bs \<noteq> [] \<Longrightarrow> length bs \<le> 1024 \<Longrightarrow>
     simple_step F B K lfd s (s\<lparr>r_threads := us @ Receiving f (ps @ [bs]) # vs, r_in := (r_in s)(f := later)\<rparr>)"
| stop: "r_threads s = us @ Receiving f ps # vs \<Longrightarrow> recv_stops s f how \<Longrightarrow>
     simple_step F B K lfd s (s\<lparr>r_threads := us @ Answering f ps how # vs\<rparr>)"
| answer: "r_threads s = us @ Answering f ps how # vs \<Longrightarrow> recvHttpRequest F B K m0 p0 ps how f (r_server s) = Inr srv \<Longrightarrow>
     simple_step F B K lfd s ((if how = PeerClosed then shut f else id) (s\<lparr>r_threads := us @ vs, r_server := srv\<rparr>))"

inductive_cases simple_stepE: "simple_step F B K lfd s t"

text \<open>The state \<open>epollRun\<close> begins with, after it has registered the listening socket.\<close>

definition simple_begin :: "int \<Rightarrow> epoll_data \<Rightarrow> os \<Rightarrow> simple_run" where
  "simple_begin lfd d io = \<lparr>r_server = \<lparr>sepoll = d, sio = io\<rparr>, r_threads = [], r_backlog = [], r_open = {lfd},
     r_in = (\<lambda>_. []), r_gone = {}, r_ready = {}\<rparr>"

section \<open>No edge is lost\<close>

fun thread_fd :: "http_thread \<Rightarrow> int option" where
  "thread_fd Accepting = None"
| "thread_fd (Receiving f ps) = Some f"
| "thread_fd (Answering f ps how) = Some f"

definition attended :: "simple_run \<Rightarrow> int \<Rightarrow> bool" where
  "attended s f \<longleftrightarrow> f \<in> r_ready s \<or> (\<exists>ps. Receiving f ps \<in> set (r_threads s))"

definition closing :: "simple_run \<Rightarrow> int \<Rightarrow> bool" where
  "closing s f \<longleftrightarrow> (\<exists>ps. Answering f ps PeerClosed \<in> set (r_threads s))"

definition watch_ok :: "int \<Rightarrow> simple_run \<Rightarrow> bool" where
  "watch_ok lfd s \<longleftrightarrow> watches s lfd = Some EPOLLIN \<and> lfd \<in> r_open s \<and> dom (watches s) \<subseteq> r_open s \<and>
     (\<forall>f. ep_refuses (sepoll (r_server s)) f \<longrightarrow> watches s f = None) \<and>
     (\<forall>f \<in> r_open s - {lfd}. watches s f = Some (EPOLLIN OR EPOLLET) \<or> ep_refuses (sepoll (r_server s)) f) \<and>
     r_ready s \<subseteq> dom (watches s) - {lfd} \<and> Some lfd \<notin> thread_fd ` set (r_threads s)"

definition edges_ok :: "int \<Rightarrow> simple_run \<Rightarrow> bool" where
  "edges_ok lfd s \<longleftrightarrow> (\<forall>f. f \<noteq> lfd \<and> watches s f \<noteq> None \<longrightarrow>
     (r_in s f \<noteq> [] \<longrightarrow> attended s f) \<and> (f \<in> r_gone s \<longrightarrow> attended s f \<or> closing s f))"

lemma acceptClient_minus [simp]: "acceptClient (-1) s = s"
  by (simp add: acceptClient_def)

lemma recv_keeps_epoll: "recvHttpRequest F B K m0 p0 ps how f s = Inr s' \<Longrightarrow>
    sepoll s' = (if how = PeerClosed then fst (epoll_ctl (sepoll s) EPOLL_CTL_DEL f 0) else sepoll s)"
  by (cases how) (auto simp: recvHttpRequest_def Let_def split: option.splits)

lemma started_fd: "h \<in> started_thread ` set (epollRun_threads lfd evs) \<Longrightarrow> thread_fd h \<noteq> Some lfd"
  by (auto simp: epollRun_threads_def split: if_splits)

lemma started_receives: "f \<in> fst ` set evs \<Longrightarrow> f \<noteq> lfd \<Longrightarrow> Receiving f [] \<in> started_thread ` set (epollRun_threads lfd evs)"
  by (force simp: epollRun_threads_def)

lemma edge_simps [simp]:
  "r_server (edge f s) = r_server s" "r_threads (edge f s) = r_threads s" "r_backlog (edge f s) = r_backlog s"
  "r_open (edge f s) = r_open s" "r_in (edge f s) = r_in s" "r_gone (edge f s) = r_gone s"
  "r_ready (edge f s) = (if watches s f = None then r_ready s else insert f (r_ready s))"
  by (simp_all add: edge_def)

lemma enter_simps [simp]:
  "r_server (enter f bs gone s) = acceptClient f (r_server s)" "r_threads (enter f bs gone s) = r_threads s"
  "r_backlog (enter f bs gone s) = r_backlog s" "r_open (enter f bs gone s) = insert f (r_open s)"
  "r_in (enter f bs gone s) = (r_in s)(f := bs)"
  "r_gone (enter f bs gone s) = (if gone then insert f (r_gone s) else r_gone s - {f})"
  "r_ready (enter f bs gone s) = (if (bs \<noteq> [] \<or> gone) \<and> ep_interest (sepoll (acceptClient f (r_server s))) f \<noteq> None
     then insert f (r_ready s) else r_ready s - {f})"
  by (auto simp: enter_def Let_def)

lemma watch_step: "simple_step F B K lfd s t \<Longrightarrow> watch_ok lfd s \<Longrightarrow> watch_ok lfd t"
proof (erule simple_stepE)
  fix evs assume w: "watch_ok lfd s" and t: "t = s\<lparr>r_threads := r_threads s @ map started_thread (epollRun_threads lfd evs),
       r_ready := r_ready s - fst ` set evs\<rparr>"
  have "Some lfd \<notin> thread_fd ` started_thread ` set (epollRun_threads lfd evs)" using started_fd [of _ lfd evs] by fastforce
  then show "watch_ok lfd t" using w by (auto simp: watch_ok_def t image_image)
next
  fix us vs bs gone cs f assume "watch_ok lfd s" "t = enter f bs gone (s\<lparr>r_threads := us @ vs, r_backlog := cs\<rparr>)"
    "r_threads s = us @ Accepting # vs" "0 \<le> f" "f \<notin> r_open s"
  then show "watch_ok lfd t"
    by (auto simp: watch_ok_def acceptClient_def epoll_ctl_def split: if_splits)
next
  fix us f ps how vs m0 p0 srv
  assume "watch_ok lfd s" "t = (if how = PeerClosed then shut f else id) (s\<lparr>r_threads := us @ vs, r_server := srv\<rparr>)"
    "r_threads s = us @ Answering f ps how # vs" "recvHttpRequest F B K m0 p0 ps how f (r_server s) = Inr srv"
  then show "watch_ok lfd t"
    using recv_keeps_epoll [of F B K m0 p0 ps how f "r_server s" srv]
    by (auto simp: watch_ok_def shut_def epoll_ctl_def split: if_splits)
qed (auto simp: watch_ok_def)

lemma edge_attended: "watches s f \<noteq> None \<Longrightarrow> attended (edge f s) f"
  by (auto simp: attended_def)

lemma edges_step: "simple_step F B K lfd s t \<Longrightarrow> watch_ok lfd s \<Longrightarrow> edges_ok lfd s \<Longrightarrow> edges_ok lfd t"
proof (erule simple_stepE)
  fix evs assume e: "edges_ok lfd s" and t: "t = s\<lparr>r_threads := r_threads s @ map started_thread (epollRun_threads lfd evs),
       r_ready := r_ready s - fst ` set evs\<rparr>"
  have "attended t f" if "attended s f" "f \<noteq> lfd" for f
    using that started_receives [of f evs lfd] by (auto simp: attended_def t)
  then show "edges_ok lfd t" using e by (auto simp: edges_ok_def t closing_def)
next
  fix us vs bs gone cs f assume "edges_ok lfd s" "t = enter f bs gone (s\<lparr>r_threads := us @ vs, r_backlog := cs\<rparr>)"
    "r_threads s = us @ Accepting # vs" "0 \<le> f" "f \<notin> r_open s" "watch_ok lfd s"
  then show "edges_ok lfd t"
    by (auto simp: edges_ok_def attended_def closing_def acceptClient_def epoll_ctl_def split: if_splits)
next
  fix us f ps how vs m0 p0 srv
  assume "edges_ok lfd s" "t = (if how = PeerClosed then shut f else id) (s\<lparr>r_threads := us @ vs, r_server := srv\<rparr>)"
    "r_threads s = us @ Answering f ps how # vs" "recvHttpRequest F B K m0 p0 ps how f (r_server s) = Inr srv" "watch_ok lfd s"
  then show "edges_ok lfd t"
    using recv_keeps_epoll [of F B K m0 p0 ps how f "r_server s" srv]
    by (auto simp: edges_ok_def attended_def closing_def watch_ok_def shut_def epoll_ctl_def split: if_splits)
next
  fix us f ps vs how assume "edges_ok lfd s" "t = s\<lparr>r_threads := us @ Answering f ps how # vs\<rparr>"
    "r_threads s = us @ Receiving f ps # vs" "recv_stops s f how" "watch_ok lfd s"
  moreover from this have "f \<in> r_open s \<or> watches s f = None" by (auto simp: watch_ok_def)
  ultimately show "edges_ok lfd t"
    by (auto simp: edges_ok_def attended_def closing_def recv_stops_def split: if_splits; metis)
next
  fix us f ps vs bs later assume "edges_ok lfd s" "t = s\<lparr>r_threads := us @ Receiving f (ps @ [bs]) # vs, r_in := (r_in s)(f := later)\<rparr>"
    "r_threads s = us @ Receiving f ps # vs" "r_in s f = bs @ later" "bs \<noteq> []"
  then show "edges_ok lfd t" by (auto simp: edges_ok_def attended_def closing_def)
qed (auto simp: edges_ok_def attended_def closing_def)

lemma simple_begin_ok:
  assumes "epollRun_start (Some d0) lfd = Some d" and "ep_interest d0 = Map.empty"
  shows "watch_ok lfd (simple_begin lfd d io)" "edges_ok lfd (simple_begin lfd d io)"
  using assms by (auto simp: watch_ok_def edges_ok_def simple_begin_def epollRun_start_def epoll_ctl_def split: if_splits)

lemma simple_reach:
  "(simple_step F B K lfd)\<^sup>*\<^sup>* s t \<Longrightarrow> watch_ok lfd s \<Longrightarrow> edges_ok lfd s \<Longrightarrow> watch_ok lfd t \<and> edges_ok lfd t"
  by (induction rule: rtranclp_induct) (auto intro: watch_step edges_step)

section \<open>Requests are served\<close>

definition serves :: "files \<Rightarrow> file_bytes \<Rightarrow> string \<Rightarrow> file_stat \<Rightarrow> int \<Rightarrow> simple_run \<Rightarrow> simple_run \<Rightarrow> bool" where
  "serves F B file st f s t \<longleftrightarrow> sepoll (r_server t) = sepoll (r_server s) \<and> r_in t f = [] \<and> r_open t = r_open s \<and>
     sent (sio (r_server s)) f (''http/1.1 200 OK'' @ CRLF @ ''content-type: '' @ getFileType file @ CRLF @
       ''content-length: '' @ dec (wrap32 (st_size st)) @ CRLF @ CRLF @ fcontent B file) [fopen F file] (sio (r_server t))"

text \<open>What is unread is a request line for an existing file, short enough for one \<open>recv\<close> and the arrays.\<close>

definition asks_for :: "files \<Rightarrow> file_bytes \<Rightarrow> simple_run \<Rightarrow> int \<Rightarrow> string \<Rightarrow> file_stat \<Rightarrow> bool" where
  "asks_for F B s f file st \<longleftrightarrow> (\<exists>m v rest. r_in s f = request_line m file v @ CRLF @ rest \<and> length (r_in s f) \<le> 1024 \<and>
     short_words m file (replicate 12 NUL) (replicate 1024 NUL) \<and> strcasecmp_eq m ''get'' \<and> CR \<notin> set (request_line m file v) \<and>
     NUL \<notin> set v) \<and> fstat F file = Some st \<and> \<not> st_isdir st \<and> 0 < fopen F file \<and> int32 (int (length (fcontent B file)))"

text \<open>A thread that receives the request as its last piece answers it.\<close>

lemma receiving_serves:
  assumes run: "r_threads s = us @ Receiving f ps # vs" "f \<in> r_open s" "f \<notin> r_gone s" "r_in s f = req" "length req \<le> 1024" "req \<noteq> []"
    and ans: "\<And>ps sv. \<exists>sv'. recvHttpRequest F B K m0 p0 (ps @ [req]) Again f sv = Inr sv' \<and> sepoll sv' = sepoll sv \<and> sent (sio sv) f out files (sio sv')"
  shows "\<exists>t. (simple_step F B K lfd)\<^sup>*\<^sup>* s t \<and> sepoll (r_server t) = sepoll (r_server s) \<and> r_in t f = [] \<and> r_open t = r_open s \<and>
     sent (sio (r_server s)) f out files (sio (r_server t))"
proof -
  let ?s1 = "s\<lparr>r_threads := us @ Receiving f (ps @ [req]) # vs, r_in := (r_in s)(f := [])\<rparr>"
  let ?s2 = "?s1\<lparr>r_threads := us @ Answering f (ps @ [req]) Again # vs\<rparr>"
  obtain sv where sv: "recvHttpRequest F B K m0 p0 (ps @ [req]) Again f (r_server s) = Inr sv"
      "sepoll sv = sepoll (r_server s)" "sent (sio (r_server s)) f out files (sio sv)"
    using ans by blast
  let ?s3 = "?s2\<lparr>r_threads := us @ vs, r_server := sv\<rparr>"
  have "simple_step F B K lfd s ?s1" using run by (intro simple_step.receive) simp_all
  moreover have "simple_step F B K lfd ?s1 ?s2"
    by (rule simple_step.stop) (use run in \<open>simp_all add: recv_stops_def\<close>)
  moreover have "simple_step F B K lfd ?s2 ?s3"
    using simple_step.answer [of ?s2 us f "ps @ [req]" Again vs F B K m0 p0 sv lfd] sv(1) by simp
  ultimately have "(simple_step F B K lfd)\<^sup>*\<^sup>* s ?s3" by (meson r_into_rtranclp rtranclp.rtrancl_into_rtrancl)
  then show ?thesis using sv(2,3) by (intro exI [of _ ?s3]) simp
qed

text \<open>When the connection's edge has not been reported, the loop first starts a thread for it.\<close>

lemma attended_receives:
  assumes "attended s f" and "f \<noteq> lfd"
  shows "\<exists>t us ps vs. (simple_step F B K lfd)\<^sup>*\<^sup>* s t \<and> r_threads t = us @ Receiving f ps # vs \<and>
     r_server t = r_server s \<and> r_open t = r_open s \<and> r_in t = r_in s \<and> r_gone t = r_gone s"
proof (cases "f \<in> r_ready s")
  case True
  let ?t = "s\<lparr>r_threads := r_threads s @ map started_thread (epollRun_threads lfd [(f, EPOLLIN)]),
       r_ready := r_ready s - fst ` set [(f, EPOLLIN)]\<rparr>"
  have "simple_step F B K lfd s ?t" using True assms(2) by (intro simple_step.events) (simp add: may_report_def)
  then show ?thesis using assms(2)
    by (intro exI [of _ ?t] exI [of _ "r_threads s"] exI [of _ "[]"]) (simp add: epollRun_threads_def)
next
  case False
  then obtain ps where "Receiving f ps \<in> set (r_threads s)" using assms(1) by (auto simp: attended_def)
  then obtain us vs where "r_threads s = us @ Receiving f ps # vs" by (auto dest: split_list)
  then show ?thesis by (intro exI [of _ s] exI) simp
qed

section \<open>Threads without work\<close>

text \<open>
  The loop starts another accepting thread each time it waits while a client is in the backlog:
  one client suffices for any number of threads of which all but one wait for ever.
\<close>

definition crowd :: "int \<Rightarrow> epoll_data \<Rightarrow> os \<Rightarrow> (char list \<times> bool) list \<Rightarrow> nat \<Rightarrow> simple_run" where
  "crowd lfd d io cs n = (simple_begin lfd d io)\<lparr>r_threads := replicate n Accepting, r_backlog := cs\<rparr>"

lemma crowd_grows: "simple_step F B K lfd (crowd lfd d io [c] n) (crowd lfd d io [c] (Suc n))"
proof -
  have "may_report lfd (crowd lfd d io [c] n) [(lfd, EPOLLIN)]" by (simp add: may_report_def crowd_def)
  from simple_step.events [OF this, of F B K] show ?thesis
    by (simp add: crowd_def simple_begin_def epollRun_threads_def replicate_append_same)
qed

lemma crowd_reached: "(simple_step F B K lfd)\<^sup>*\<^sup>* (simple_begin lfd d io) (crowd lfd d io [c] n)"
proof (induction n)
  case 0
  have "simple_step F B K lfd (simple_begin lfd d io) (crowd lfd d io [c] 0)"
    using simple_step.connect [of F B K lfd "simple_begin lfd d io" "fst c" "snd c"] by (simp add: crowd_def simple_begin_def)
  then show ?case by blast
next
  case (Suc n)
  then show ?case using crowd_grows by (rule rtranclp.rtrancl_into_rtrancl)
qed

lemma accept_threads_pile_up:
  assumes "f \<noteq> lfd" and "0 \<le> f"
  shows "\<exists>s. (simple_step F B K lfd)\<^sup>*\<^sup>* (simple_begin lfd d io) s \<and> r_threads s = replicate n Accepting \<and> r_backlog s = [] \<and>
     r_open s = {f, lfd}"
proof -
  let ?s = "crowd lfd d io [([], False)] (Suc n)"
  let ?t = "enter f [] False (?s\<lparr>r_threads := [] @ replicate n Accepting, r_backlog := []\<rparr>)"
  have "simple_step F B K lfd ?s ?t"
    by (rule simple_step.accept) (use assms in \<open>simp_all add: crowd_def simple_begin_def\<close>)
  with crowd_reached have "(simple_step F B K lfd)\<^sup>*\<^sup>* (simple_begin lfd d io) ?t" by (rule rtranclp.rtrancl_into_rtrancl)
  then show ?thesis by (intro exI [of _ ?t]) (auto simp: crowd_def simple_begin_def)
qed

text \<open>
  A client that closes while a thread still receives gets a second thread, and both of them close the
  descriptor; by the second time its number may be another client's.
\<close>

lemma closed_twice:
  assumes s: "r_threads s = [Receiving f ps]" "f \<in> r_open s - {lfd}" "watches s f \<noteq> None" "r_in s f = []"
  shows "\<exists>t. (simple_step F B K lfd)\<^sup>*\<^sup>* s t \<and> r_threads t = [] \<and> os_closed (sio (r_server t)) = os_closed (sio (r_server s)) @ [f, f]"
proof -
  let ?s1 = "edge f (s\<lparr>r_gone := insert f (r_gone s)\<rparr>)"
  let ?s2 = "?s1\<lparr>r_threads := [Receiving f ps, Receiving f []], r_ready := r_ready ?s1 - {f}\<rparr>"
  let ?s3 = "?s2\<lparr>r_threads := [Answering f ps PeerClosed, Receiving f []]\<rparr>"
  let ?s4 = "?s3\<lparr>r_threads := [Answering f ps PeerClosed, Answering f [] PeerClosed]\<rparr>"
  let ?sv = "\<lambda>sv. sv\<lparr>sepoll := fst (epoll_ctl (sepoll sv) EPOLL_CTL_DEL f 0), sio := (sio sv)\<lparr>os_closed := os_closed (sio sv) @ [f]\<rparr>\<rparr>"
  let ?s5 = "shut f (?s4\<lparr>r_threads := [Answering f [] PeerClosed], r_server := ?sv (r_server s)\<rparr>)"
  let ?s6 = "shut f (?s5\<lparr>r_threads := [], r_server := ?sv (?sv (r_server s))\<rparr>)"
  have "simple_step F B K lfd s ?s1" using s(2) by (rule simple_step.leave)
  moreover have "simple_step F B K lfd ?s1 ?s2"
    using simple_step.events [of lfd ?s1 "[(f, EPOLLIN)]" F B K] s by (auto simp: may_report_def epollRun_threads_def)
  moreover have "simple_step F B K lfd ?s2 ?s3"
    using simple_step.stop [of ?s2 "[]" f ps "[Receiving f []]" PeerClosed F B K lfd] s by (simp add: recv_stops_def)
  moreover have "simple_step F B K lfd ?s3 ?s4"
    using simple_step.stop [of ?s3 "[Answering f ps PeerClosed]" f "[]" "[]" PeerClosed F B K lfd] s by (simp add: recv_stops_def)
  moreover have "simple_step F B K lfd ?s4 ?s5"
    using simple_step.answer [of ?s4 "[]" f ps PeerClosed "[Answering f [] PeerClosed]" F B K m0 p0 "?sv (r_server s)" lfd]
    by (simp add: recvHttpRequest_def)
  moreover have "simple_step F B K lfd ?s5 ?s6"
    using simple_step.answer [of ?s5 "[]" f "[]" PeerClosed "[]" F B K m0 p0 "?sv (?sv (r_server s))" lfd]
    by (simp add: recvHttpRequest_def shut_def)
  ultimately have "(simple_step F B K lfd)\<^sup>*\<^sup>* s ?s6" by (meson r_into_rtranclp rtranclp.rtrancl_into_rtrancl)
  then show ?thesis by (intro exI [of _ ?s6]) (simp add: shut_def)
qed

section \<open>Properties\<close>

text \<open>
  C35: However the threads of SimpleHttp, its loop and its clients interleave, whatever a client sends
  and wherever a read is cut: the listening socket stays watched; each open connection is watched for
  edges, unless epoll refuses its descriptor; and no edge is lost: a watched connection with unread
  bytes has an edge the loop is still to be told of or a thread that will receive them, and one whose
  client has closed has an edge, a receiving thread or a thread about to close it. From each such
  state, a client whose request line for an existing file is what is unread can be answered with the
  200 head and the file, whatever thread gets it, and stays watched and open.
\<close>

theorem simple_edges_not_lost:
  assumes "epollRun_start (Some d0) lfd = Some d" and "ep_interest d0 = Map.empty"
    and "(simple_step F B K lfd)\<^sup>*\<^sup>* (simple_begin lfd d io) s" and "accepts_all K" and "makes_progress B"
  shows "watches s lfd = Some EPOLLIN \<and>
     (\<forall>f \<in> r_open s - {lfd}. watches s f = Some (EPOLLIN OR EPOLLET) \<or> ep_refuses (sepoll (r_server s)) f) \<and>
     (\<forall>f. f \<noteq> lfd \<and> watches s f \<noteq> None \<longrightarrow>
        (r_in s f \<noteq> [] \<longrightarrow> attended s f) \<and> (f \<in> r_gone s \<longrightarrow> attended s f \<or> closing s f) \<and>
        (\<forall>file st. f \<notin> r_gone s \<and> asks_for F B s f file st \<longrightarrow>
           (\<exists>t. (simple_step F B K lfd)\<^sup>*\<^sup>* s t \<and> serves F B file st f s t)))"
proof -
  have ok: "watch_ok lfd s" "edges_ok lfd s" using simple_reach [OF assms(3)] simple_begin_ok [OF assms(1,2)] by blast+
  have served: "\<exists>t. (simple_step F B K lfd)\<^sup>*\<^sup>* s t \<and> serves F B file st f s t"
    if f: "f \<noteq> lfd" "watches s f \<noteq> None" "f \<notin> r_gone s" and "asks_for F B s f file st" for f "file" st
  proof -
    from that(4) obtain m v rest where req: "r_in s f = request_line m file v @ CRLF @ rest" "length (r_in s f) \<le> 1024"
        "short_words m file (replicate 12 NUL) (replicate 1024 NUL)" "strcasecmp_eq m ''get''" "CR \<notin> set (request_line m file v)"
        "NUL \<notin> set v" "fstat F file = Some st" "\<not> st_isdir st" "0 < fopen F file" "int32 (int (length (fcontent B file)))"
      unfolding asks_for_def by blast
    have "attended s f" using ok(2) f req(1) by (simp add: edges_ok_def)
    then obtain t0 us ps vs where t0: "(simple_step F B K lfd)\<^sup>*\<^sup>* s t0" "r_threads t0 = us @ Receiving f ps # vs"
        "r_server t0 = r_server s" "r_open t0 = r_open s" "r_in t0 = r_in s" "r_gone t0 = r_gone s"
      using attended_receives f(1) by blast
    let ?req = "request_line m file v @ CRLF @ rest"
    have open_f: "f \<in> r_open t0" "f \<notin> r_gone t0" "r_in t0 f = ?req" "length ?req \<le> 1024" "?req \<noteq> []"
      using ok(1) f t0 req(1,2) by (auto simp: watch_ok_def)
    then have short: "length ?req < 4096" by linarith
    from receiving_serves [OF t0(2) open_f request_served [OF req(3-6) short req(7-10) assms(4,5)]]
    obtain t where "(simple_step F B K lfd)\<^sup>*\<^sup>* t0 t" "serves F B file st f s t"
      unfolding serves_def t0(3,4) by blast
    with t0(1) show ?thesis by (meson rtranclp_trans)
  qed
  from ok(1) have "watches s lfd = Some EPOLLIN"
    "\<forall>f \<in> r_open s - {lfd}. watches s f = Some (EPOLLIN OR EPOLLET) \<or> ep_refuses (sepoll (r_server s)) f"
    by (simp_all add: watch_ok_def)
  then show ?thesis using ok(2) [unfolded edges_ok_def] served by blast
qed

definition visited :: simple_run where
  "visited = enter 5 (request_line ''GET'' ''d/a.txt'' ''HTTP/1.1'' @ CRLF @ CRLF) False
     (simple_begin 3 \<lparr>ep_interest = [3 \<mapsto> EPOLLIN], ep_refuses = (\<lambda>_. False)\<rparr> silent)"

lemma visited_reached:
  "(simple_step F B K 3)\<^sup>*\<^sup>* (simple_begin 3 \<lparr>ep_interest = [3 \<mapsto> EPOLLIN], ep_refuses = (\<lambda>_. False)\<rparr> silent) visited"
proof -
  let ?d = "\<lparr>ep_interest = [3 \<mapsto> EPOLLIN], ep_refuses = (\<lambda>_. False)\<rparr>"
  let ?c = "(request_line ''GET'' ''d/a.txt'' ''HTTP/1.1'' @ CRLF @ CRLF, False)"
  have "simple_step F B K 3 (crowd 3 ?d silent [?c] 1) (enter 5 (fst ?c) False ((crowd 3 ?d silent [?c] 1)\<lparr>r_threads := [] @ [], r_backlog := []\<rparr>))"
    by (rule simple_step.accept) (simp_all add: crowd_def simple_begin_def)
  moreover have "enter 5 (fst ?c) False ((crowd 3 ?d silent [?c] 1)\<lparr>r_threads := [] @ [], r_backlog := []\<rparr>) = visited"
    by (simp add: visited_def crowd_def simple_begin_def)
  ultimately have "simple_step F B K 3 (crowd 3 ?d silent [?c] 1) visited" by argo
  with crowd_reached show ?thesis by (rule rtranclp.rtrancl_into_rtrancl)
qed

lemma visitor_asks: "asks_for small_files small_bytes visited 5 ''d/a.txt'' \<lparr>st_isdir = False, st_size = 5\<rparr>"
proof -
  have "short_words ''GET'' ''d/a.txt'' (replicate 12 NUL) (replicate 1024 NUL)" by (simp add: short_words_def)
  moreover have "strcasecmp_eq ''GET'' ''get''" by (simp add: strcasecmp_eq_def tolower_def char_of_def bit_0 cstr_def)
  ultimately show ?thesis unfolding asks_for_def
    by (intro conjI exI [of _ "''GET''"] exI [of _ "''HTTP/1.1''"] exI [of _ CRLF])
      (simp_all add: visited_def request_line_def small_files_def small_bytes_def int32_def)
qed

theorem simple_edges_not_lost_witness:
  "\<exists>t. (simple_step small_files small_bytes all_sent 3)\<^sup>*\<^sup>* visited t \<and>
     serves small_files small_bytes ''d/a.txt'' \<lparr>st_isdir = False, st_size = 5\<rparr> 5 visited t"
proof -
  have start: "epollRun_start (Some \<lparr>ep_interest = Map.empty, ep_refuses = (\<lambda>_. False)\<rparr>) 3 =
      Some \<lparr>ep_interest = [3 \<mapsto> EPOLLIN], ep_refuses = (\<lambda>_. False)\<rparr>"
    by (simp add: epollRun_start_def epoll_ctl_def)
  have v: "(5 :: int) \<noteq> 3 \<and> watches visited 5 \<noteq> None" "5 \<notin> r_gone visited"
    by (simp_all add: visited_def simple_begin_def acceptClient_def epoll_ctl_def)
  have none: "ep_interest \<lparr>ep_interest = Map.empty, ep_refuses = (\<lambda>_. False)\<rparr> = Map.empty" by simp
  note r = simple_edges_not_lost [OF start none visited_reached all_sent_ok small_bytes_progress, THEN conjunct2, THEN conjunct2,
    rule_format, OF v(1), THEN conjunct2, THEN conjunct2, rule_format]
  show ?thesis using v(2) visitor_asks by (intro r conjI)
qed

end
