(* ===== verification/Cxx_Poller.thy ===== *)
theory Cxx_Poller
  imports Epoll_Dispatch
begin

text \<open>
  \<open>Channel.h\<close>, \<open>Channel.cc\<close>, \<open>Poller.h\<close>, \<open>Poller.cc\<close>, \<open>EpollPoller.cc\<close> and
  \<open>DefaultPoller.cc\<close> of the C++ library. The record \<open>cchannel\<close> is the class \<open>Channel\<close>,
  with a bound callback as a name (\<open>chandler\<close>); the record \<open>reactor\<close> is \<open>EpollPoller\<close>
  together with the channels of its loop (\<open>cheap\<close>, by address): \<open>channels\<close> is
  \<open>channels_\<close>, \<open>pepoll\<close> the kernel's interest list with the pointer stored in
  \<open>data.ptr\<close>, \<open>prefuses\<close> the descriptors \<open>epoll_ctl\<close> rejects and \<open>pevents\<close> the
  length of \<open>events_\<close>. Sums of flags are 32-bit words. The lemmas show that the three places
  that say what is watched (the channel, the map and the kernel) always agree.
\<close>

section \<open>Channels\<close>

datatype chandler = LoopRead | AcceptRead | ConnRead nat | ConnWrite nat | ConnClose nat | ConnError nat

record cchannel =
  cfd :: int
  cevents :: "32 word"
  crevents :: "32 word"
  cindex :: int
  tie :: "nat option"
  tied :: bool
  readCallback :: "chandler option"
  writeCallback :: "chandler option"
  closeCallback :: "chandler option"
  errorCallback :: "chandler option"

definition EPOLLPRI :: "32 word" where "EPOLLPRI = 2"

definition kNoneEvent :: "32 word" where "kNoneEvent = 0"
definition kReadEvent :: "32 word" where "kReadEvent = EPOLLIN OR EPOLLPRI"
definition kWriteEvent :: "32 word" where "kWriteEvent = EPOLLOUT"

definition new_Channel :: "int \<Rightarrow> cchannel" where
  "new_Channel f =
     \<lparr>cfd = f, cevents = 0, crevents = 0, cindex = -1, tie = None, tied = False,
      readCallback = None, writeCallback = None, closeCallback = None, errorCallback = None\<rparr>"

definition isNoneEvent :: "cchannel \<Rightarrow> bool" where "isNoneEvent ch \<longleftrightarrow> cevents ch = kNoneEvent"
definition isWriting :: "cchannel \<Rightarrow> bool" where "isWriting ch \<longleftrightarrow> cevents ch AND kWriteEvent \<noteq> 0"
definition isReading :: "cchannel \<Rightarrow> bool" where "isReading ch \<longleftrightarrow> cevents ch AND kReadEvent \<noteq> 0"

section \<open>The poller\<close>

definition kNew :: int where "kNew = -1"
definition kAdded :: int where "kAdded = 1"
definition kDeleted :: int where "kDeleted = 2"

lemmas index_states = kNew_def kAdded_def kDeleted_def

record reactor =
  channels :: "int \<rightharpoonup> nat"
  pepoll :: "int \<rightharpoonup> 32 word \<times> nat"
  prefuses :: "int \<Rightarrow> bool"
  pevents :: nat
  cheap :: "nat \<rightharpoonup> cchannel"
  cfresh :: nat

text \<open>
  \<open>created\<close> is the new epoll instance, given by the descriptors it will refuse (\<open>-1\<close>, those that
  are not open or cannot be polled), or \<open>None\<close> when \<open>epoll_create1\<close> failed.
\<close>

definition new_EpollPoller :: "(int \<Rightarrow> bool) option \<Rightarrow> reactor result" where
  "new_EpollPoller created =
     (case created of
        Some refuses \<Rightarrow> Inr \<lparr>channels = Map.empty, pepoll = Map.empty, prefuses = refuses, pevents = 16,
                cheap = Map.empty, cfresh = 0\<rparr>
      | None \<Rightarrow> Inl (Exit ''epoll_create''))"

text \<open>With the environment variable set, the default poller is a null pointer.\<close>

definition newDefaultPoller :: "bool \<Rightarrow> (int \<Rightarrow> bool) option \<Rightarrow> reactor option result" where
  "newDefaultPoller usr_poll created =
     (if usr_poll then Inr None else rbind (new_EpollPoller created) (\<lambda>p. Inr (Some p)))"

definition cchan_at :: "'z reactor_scheme \<Rightarrow> nat \<Rightarrow> cchannel result" where
  "cchan_at R a = (case cheap R a of None \<Rightarrow> Inl UseAfterFree | Some ch \<Rightarrow> Inr ch)"

definition upd_chan :: "nat \<Rightarrow> (cchannel \<Rightarrow> cchannel) \<Rightarrow> 'z reactor_scheme \<Rightarrow> 'z reactor_scheme result" where
  "upd_chan a f R = rbind (cchan_at R a) (\<lambda>ch. Inr (R\<lparr>cheap := (cheap R)(a \<mapsto> f ch)\<rparr>))"

definition hasChannel :: "nat \<Rightarrow> 'z reactor_scheme \<Rightarrow> bool result" where
  "hasChannel a R = rbind (cchan_at R a) (\<lambda>ch. Inr (channels R (cfd ch) = Some a))"

text \<open>\<open>epoll_ctl\<close> with a pointer as data.\<close>

definition kernel_ctl :: "ctl_op \<Rightarrow> int \<Rightarrow> 32 word \<Rightarrow> nat \<Rightarrow> 'z reactor_scheme \<Rightarrow> 'z reactor_scheme \<times> int" where
  "kernel_ctl op f evs a R =
     (if prefuses R f then (R, -1)
      else case op of
        EPOLL_CTL_ADD \<Rightarrow>
          if pepoll R f = None then (R\<lparr>pepoll := (pepoll R)(f \<mapsto> (evs, a))\<rparr>, 0) else (R, -1)
      | EPOLL_CTL_DEL \<Rightarrow>
          if pepoll R f = None then (R, -1) else (R\<lparr>pepoll := (pepoll R)(f := None)\<rparr>, 0)
      | EPOLL_CTL_MOD \<Rightarrow>
          if pepoll R f = None then (R, -1) else (R\<lparr>pepoll := (pepoll R)(f \<mapsto> (evs, a))\<rparr>, 0))"

definition poller_update :: "ctl_op \<Rightarrow> nat \<Rightarrow> 'z reactor_scheme \<Rightarrow> 'z reactor_scheme result" where
  "poller_update op a R =
     rbind (cchan_at R a) (\<lambda>ch.
       case kernel_ctl op (cfd ch) (cevents ch) a R of (R', ret) \<Rightarrow>
         if ret < 0 then (if op = EPOLL_CTL_DEL then Inr R' else Inl (Exit ''epoll_ctl add/mod error''))
         else Inr R')"

definition updateChannel :: "nat \<Rightarrow> 'z reactor_scheme \<Rightarrow> 'z reactor_scheme result" where
  "updateChannel a R =
     rbind (cchan_at R a) (\<lambda>ch.
       let index = cindex ch in
       if index = kNew \<or> index = kDeleted then
         (let R1 = (if index = kNew then R\<lparr>channels := (channels R)(cfd ch \<mapsto> a)\<rparr> else R) in
          rbind (upd_chan a (\<lambda>ch. ch\<lparr>cindex := kAdded\<rparr>) R1) (poller_update EPOLL_CTL_ADD a))
       else if isNoneEvent ch then
         rbind (poller_update EPOLL_CTL_DEL a R) (upd_chan a (\<lambda>ch. ch\<lparr>cindex := kDeleted\<rparr>))
       else poller_update EPOLL_CTL_MOD a R)"

definition removeChannel :: "nat \<Rightarrow> 'z reactor_scheme \<Rightarrow> 'z reactor_scheme result" where
  "removeChannel a R =
     rbind (cchan_at R a) (\<lambda>ch.
       let R1 = R\<lparr>channels := (channels R)(cfd ch := None)\<rparr> in
       rbind (if cindex ch = kAdded then poller_update EPOLL_CTL_DEL a R1 else Inr R1)
         (upd_chan a (\<lambda>ch. ch\<lparr>cindex := kNew\<rparr>)))"

text \<open>
  \<open>epoll_wait\<close> delivers the pointers and the events of ready descriptors, \<open>None\<close> for -1;
  the result is the list of active channels.
\<close>

type_synonym cready = "(nat \<times> 32 word) list option"

fun fillActiveChannels :: "(nat \<times> 32 word) list \<Rightarrow> nat list \<Rightarrow> 'z reactor_scheme \<Rightarrow> ('z reactor_scheme \<times> nat list) result" where
  "fillActiveChannels [] active R = Inr (R, active)"
| "fillActiveChannels ((a, evs) # rest) active R =
     rbind (upd_chan a (\<lambda>ch. ch\<lparr>crevents := evs\<rparr>) R) (fillActiveChannels rest (active @ [a]))"

definition poll :: "cready \<Rightarrow> 'z reactor_scheme \<Rightarrow> ('z reactor_scheme \<times> nat list) result" where
  "poll ready R =
     (case ready of
        None \<Rightarrow> Inr (R, [])
      | Some evs \<Rightarrow>
          if evs \<noteq> [] then
            rbind (fillActiveChannels evs [] R) (\<lambda>(R1, active).
              Inr (if length evs = pevents R1 then R1\<lparr>pevents := pevents R1 * 2\<rparr> else R1, active))
          else Inr (R, []))"

section \<open>Operations of a channel\<close>

definition set_events :: "nat \<Rightarrow> (32 word \<Rightarrow> 32 word) \<Rightarrow> 'z reactor_scheme \<Rightarrow> 'z reactor_scheme result" where
  "set_events a f R = rbind (upd_chan a (\<lambda>ch. ch\<lparr>cevents := f (cevents ch)\<rparr>) R) (updateChannel a)"

definition enableReading :: "nat \<Rightarrow> 'z reactor_scheme \<Rightarrow> 'z reactor_scheme result" where
  "enableReading a = set_events a (\<lambda>e. e OR kReadEvent)"

definition disableReading :: "nat \<Rightarrow> 'z reactor_scheme \<Rightarrow> 'z reactor_scheme result" where
  "disableReading a = set_events a (\<lambda>e. e AND NOT kReadEvent)"

definition enableWriting :: "nat \<Rightarrow> 'z reactor_scheme \<Rightarrow> 'z reactor_scheme result" where
  "enableWriting a = set_events a (\<lambda>e. e OR kWriteEvent)"

text \<open>As written, \<open>disableWriting\<close> clears the read events.\<close>

definition disableWriting :: "nat \<Rightarrow> 'z reactor_scheme \<Rightarrow> 'z reactor_scheme result" where
  "disableWriting a = set_events a (\<lambda>e. e AND NOT kReadEvent)"

definition disableAll :: "nat \<Rightarrow> 'z reactor_scheme \<Rightarrow> 'z reactor_scheme result" where
  "disableAll a = set_events a (\<lambda>e. kNoneEvent)"

definition set_tie :: "nat \<Rightarrow> nat \<Rightarrow> 'z reactor_scheme \<Rightarrow> 'z reactor_scheme result" where
  "set_tie a obj = upd_chan a (\<lambda>ch. ch\<lparr>tie := Some obj, tied := True\<rparr>)"

text \<open>
  \<open>handleEvent\<close>: \<open>alive\<close> is what locking the weak pointer finds, \<open>call\<close> runs a callback. The
  channel is read again after every callback.
\<close>

definition call_if ::
  "(chandler \<Rightarrow> 'z reactor_scheme \<Rightarrow> 'z reactor_scheme result) \<Rightarrow> nat \<Rightarrow> (32 word \<Rightarrow> bool) \<Rightarrow>
   (cchannel \<Rightarrow> chandler option) \<Rightarrow> 'z reactor_scheme \<Rightarrow> 'z reactor_scheme result" where
  "call_if call a test cb R =
     rbind (cchan_at R a) (\<lambda>ch.
       if test (crevents ch) then (case cb ch of None \<Rightarrow> Inr R | Some h \<Rightarrow> call h R) else Inr R)"

definition handleEventWithGuard ::
  "(chandler \<Rightarrow> 'z reactor_scheme \<Rightarrow> 'z reactor_scheme result) \<Rightarrow> nat \<Rightarrow> 'z reactor_scheme \<Rightarrow> 'z reactor_scheme result" where
  "handleEventWithGuard call a R =
     rbind (call_if call a (\<lambda>r. r AND EPOLLHUP \<noteq> 0 \<and> \<not> r AND EPOLLIN \<noteq> 0) closeCallback R) (\<lambda>R1.
     rbind (call_if call a (\<lambda>r. r AND EPOLLERR \<noteq> 0) errorCallback R1) (\<lambda>R2.
     rbind (call_if call a (\<lambda>r. r AND (EPOLLIN OR EPOLLPRI) \<noteq> 0) readCallback R2)
       (call_if call a (\<lambda>r. r AND EPOLLOUT \<noteq> 0) writeCallback)))"

definition handleEvent ::
  "(chandler \<Rightarrow> 'z reactor_scheme \<Rightarrow> 'z reactor_scheme result) \<Rightarrow> ('z reactor_scheme \<Rightarrow> nat \<Rightarrow> bool) \<Rightarrow> nat \<Rightarrow>
   'z reactor_scheme \<Rightarrow> 'z reactor_scheme result" where
  "handleEvent call alive a R =
     rbind (cchan_at R a) (\<lambda>ch.
       if tied ch then
         (case tie ch of
            None \<Rightarrow> Inr R
          | Some obj \<Rightarrow> if alive R obj then handleEventWithGuard call a R else Inr R)
       else handleEventWithGuard call a R)"

section \<open>The channel, the map and the kernel agree\<close>

text \<open>
  A channel is new (not in the map, not watched), added (in the map and watched for exactly its
  events) or deleted (in the map, not watched); everything watched belongs to a channel; two
  channels never share a descriptor; and the addresses from \<open>cfresh\<close> on are free.
\<close>

definition chan_ok :: "'z reactor_scheme \<Rightarrow> nat \<Rightarrow> cchannel \<Rightarrow> bool" where
  "chan_ok R a ch \<longleftrightarrow>
     (cindex ch = kNew \<and> channels R (cfd ch) = None \<and> pepoll R (cfd ch) = None) \<or>
     (cindex ch = kAdded \<and> channels R (cfd ch) = Some a \<and> pepoll R (cfd ch) = Some (cevents ch, a)) \<or>
     (cindex ch = kDeleted \<and> channels R (cfd ch) = Some a \<and> pepoll R (cfd ch) = None)"

text \<open>A channel on a descriptor that the kernel refuses has never been registered.\<close>

definition poller_inv :: "'z reactor_scheme \<Rightarrow> bool" where
  "poller_inv R \<longleftrightarrow>
     (\<forall>a ch. cheap R a = Some ch \<longrightarrow> chan_ok R a ch \<and> a < cfresh R) \<and>
     (\<forall>f a. channels R f = Some a \<longrightarrow> (\<exists>ch. cheap R a = Some ch \<and> cfd ch = f)) \<and>
     (\<forall>f m a. pepoll R f = Some (m, a) \<longrightarrow> (\<exists>ch. cheap R a = Some ch \<and> cfd ch = f)) \<and>
     (\<forall>a b ch ch'. cheap R a = Some ch \<longrightarrow> cheap R b = Some ch' \<longrightarrow> cfd ch = cfd ch' \<longrightarrow> a = b) \<and>
     (\<forall>a ch. cheap R a = Some ch \<longrightarrow> prefuses R (cfd ch) \<longrightarrow> cindex ch = kNew)"

text \<open>A loop whose channels are all on descriptors that the kernel takes.\<close>

definition reactor_inv :: "'z reactor_scheme \<Rightarrow> bool" where
  "reactor_inv R \<longleftrightarrow> poller_inv R \<and> (\<forall>a ch. cheap R a = Some ch \<longrightarrow> \<not> prefuses R (cfd ch))"

lemmas reactor_inv_defs = reactor_inv_def poller_inv_def

lemma chan_at_Inr [simp]: "cchan_at R a = Inr ch \<longleftrightarrow> cheap R a = Some ch"
  by (cases "cheap R a") (simp_all add: cchan_at_def)

lemma chan_at_Some: "cheap R a = Some ch \<Longrightarrow> cchan_at R a = Inr ch"
  by simp

lemma upd_chan_Some: "cheap R a = Some ch \<Longrightarrow> upd_chan a f R = Inr (R\<lparr>cheap := (cheap R)(a \<mapsto> f ch)\<rparr>)"
  by (simp add: upd_chan_def chan_at_Some)

lemma poller_inv_chan: "poller_inv R \<Longrightarrow> cheap R a = Some ch \<Longrightarrow> chan_ok R a ch"
  by (simp add: poller_inv_def)

lemma inv_chan: "reactor_inv R \<Longrightarrow> cheap R a = Some ch \<Longrightarrow> chan_ok R a ch"
  by (simp add: reactor_inv_def poller_inv_chan)

lemma reactor_invD:
  assumes "reactor_inv R"
  shows "poller_inv R" and "cheap R a = Some ch \<Longrightarrow> \<not> prefuses R (cfd ch)"
  using assms by (simp_all add: reactor_inv_def)

text \<open>Changing one channel, its entry in the map and what is watched of its descriptor.\<close>

lemma poller_inv_change:
  assumes inv: "poller_inv R" and ch: "cheap R a = Some ch"
    and ch': "cfd ch' = cfd ch"
    and R': "cheap R' = (cheap R)(a \<mapsto> ch')" "channels R' = (channels R)(cfd ch := m)"
      "pepoll R' = (pepoll R)(cfd ch := w)" "prefuses R' = prefuses R" "cfresh R' = cfresh R"
    and state: "(cindex ch' = kNew \<and> m = None \<and> w = None) \<or>
       (cindex ch' = kAdded \<and> m = Some a \<and> w = Some (cevents ch', a)) \<or>
       (cindex ch' = kDeleted \<and> m = Some a \<and> w = None)"
    and open_fd: "prefuses R (cfd ch) \<Longrightarrow> cindex ch' = kNew"
  shows "poller_inv R'"
proof -
  have ok: "chan_ok R b c" "b < cfresh R" if "cheap R b = Some c" for b c
    using inv that by (simp_all add: poller_inv_def)
  have uniq: "a = b" if "cheap R b = Some c" "cfd c = cfd ch" for b c
    using inv ch that unfolding poller_inv_def by metis
  have "chan_ok R' a ch'" using state by (simp add: chan_ok_def R' ch')
  moreover have "chan_ok R' b c" if "cheap R b = Some c" "b \<noteq> a" for b c
    using ok(1) [OF that(1)] uniq [OF that(1)] that(2) by (auto simp: chan_ok_def R')
  ultimately have 1: "chan_ok R' b c \<and> b < cfresh R'" if "cheap R' b = Some c" for b c
    using that ok(2) ch by (auto simp: R' split: if_splits)
  have own: "\<exists>c. cheap R b = Some c \<and> cfd c = f" if "channels R f = Some b" for f b
    using inv that by (simp add: poller_inv_def)
  have watched: "\<exists>c. cheap R b = Some c \<and> cfd c = f" if "pepoll R f = Some (k, b)" for f k b
    using inv that by (simp add: poller_inv_def)
  have 2: "\<exists>c. cheap R' b = Some c \<and> cfd c = f" if "channels R' f = Some b" for f b
    using that own state ch' ch by (fastforce simp: R' split: if_splits)
  have 3: "\<exists>c. cheap R' b = Some c \<and> cfd c = f" if "pepoll R' f = Some (k, b)" for f k b
    using that watched state ch' ch by (fastforce simp: R' split: if_splits)
  have 4: "b = c" if "cheap R' b = Some d" "cheap R' c = Some d'" "cfd d = cfd d'" for b c d d'
    using that ch' uniq inv by (auto simp: R' poller_inv_def split: if_splits)
  have 5: "cindex c = kNew" if "cheap R' b = Some c" "prefuses R' (cfd c)" for b c
    using that inv open_fd ch' by (auto simp: R' poller_inv_def split: if_splits)
  from 1 2 3 4 5 show ?thesis unfolding poller_inv_def by blast
qed

lemma inv_change:
  assumes inv: "reactor_inv R" and ch: "cheap R a = Some ch"
    and ch': "cfd ch' = cfd ch"
    and R': "cheap R' = (cheap R)(a \<mapsto> ch')" "channels R' = (channels R)(cfd ch := m)"
      "pepoll R' = (pepoll R)(cfd ch := w)" "prefuses R' = prefuses R" "cfresh R' = cfresh R"
    and state: "(cindex ch' = kNew \<and> m = None \<and> w = None) \<or>
       (cindex ch' = kAdded \<and> m = Some a \<and> w = Some (cevents ch', a)) \<or>
       (cindex ch' = kDeleted \<and> m = Some a \<and> w = None)"
  shows "reactor_inv R'"
  using poller_inv_change [OF reactor_invD(1) [OF inv] ch ch' R' state] reactor_invD(2) [OF inv] ch ch' R'(1,4)
  by (auto simp: reactor_inv_def split: if_splits)

lemma cindex_same: "cindex ch = i \<Longrightarrow> ch\<lparr>cindex := i\<rparr> = ch"
  by (cases ch) simp

text \<open>What an update does to a channel in its three states.\<close>

definition registered :: "nat \<Rightarrow> cchannel \<Rightarrow> 'z reactor_scheme \<Rightarrow> 'z reactor_scheme" where
  "registered a ch R =
     (if cindex ch = kAdded \<and> isNoneEvent ch
      then R\<lparr>cheap := (cheap R)(a \<mapsto> ch\<lparr>cindex := kDeleted\<rparr>), pepoll := (pepoll R)(cfd ch := None)\<rparr>
      else R\<lparr>cheap := (cheap R)(a \<mapsto> ch\<lparr>cindex := kAdded\<rparr>), channels := (channels R)(cfd ch \<mapsto> a),
             pepoll := (pepoll R)(cfd ch \<mapsto> (cevents ch, a))\<rparr>)"

lemma poller_set_events_eq:
  assumes inv: "poller_inv R" and ch: "cheap R a = Some ch" and free: "\<not> prefuses R (cfd ch)"
  shows "set_events a f R = Inr (registered a (ch\<lparr>cevents := f (cevents ch)\<rparr>) R)"
proof -
  from poller_inv_chan [OF inv ch] show ?thesis
    unfolding chan_ok_def
  proof (elim disjE conjE)
    assume "cindex ch = kNew" "channels R (cfd ch) = None" "pepoll R (cfd ch) = None"
    then show ?thesis
      by (simp add: set_events_def upd_chan_Some [OF ch] updateChannel_def chan_at_Some upd_chan_Some
          poller_update_def kernel_ctl_def free registered_def index_states Let_def)
  next
    assume s: "cindex ch = kAdded" "channels R (cfd ch) = Some a" "pepoll R (cfd ch) = Some (cevents ch, a)"
    then have "(channels R)(cfd ch \<mapsto> a) = channels R" by (simp add: fun_upd_idem)
    with s show ?thesis
      by (simp add: set_events_def upd_chan_Some [OF ch] updateChannel_def chan_at_Some upd_chan_Some
          poller_update_def kernel_ctl_def free registered_def index_states isNoneEvent_def cindex_same Let_def)
  next
    assume s: "cindex ch = kDeleted" "channels R (cfd ch) = Some a" "pepoll R (cfd ch) = None"
    then have "(channels R)(cfd ch \<mapsto> a) = channels R" by (simp add: fun_upd_idem)
    with s show ?thesis
      by (simp add: set_events_def upd_chan_Some [OF ch] updateChannel_def chan_at_Some upd_chan_Some
          poller_update_def kernel_ctl_def free registered_def index_states Let_def)
  qed
qed

lemma set_events_eq:
  assumes "reactor_inv R" and "cheap R a = Some ch"
  shows "set_events a f R = Inr (registered a (ch\<lparr>cevents := f (cevents ch)\<rparr>) R)"
  using poller_set_events_eq reactor_invD assms by blast

text \<open>The kernel refuses: \<open>LOG_FATAL\<close> ends the program.\<close>

lemma set_events_refused:
  assumes inv: "poller_inv R" and ch: "cheap R a = Some ch" and refused: "prefuses R (cfd ch)"
  shows "set_events a f R = Inl (Exit ''epoll_ctl add/mod error'')"
proof -
  have "cindex ch = kNew" using assms by (simp add: poller_inv_def)
  then show ?thesis
    by (simp add: set_events_def upd_chan_Some [OF ch] updateChannel_def chan_at_Some upd_chan_Some
        poller_update_def kernel_ctl_def refused index_states Let_def)
qed

lemma registered_poller_inv:
  assumes inv: "poller_inv R" and ch: "cheap R a = Some ch" and ch': "cfd ch' = cfd ch" "cindex ch' = cindex ch"
    and free: "\<not> prefuses R (cfd ch)"
  shows "poller_inv (registered a ch' R)"
proof (cases "cindex ch' = kAdded \<and> isNoneEvent ch'")
  case True
  have "channels R (cfd ch) = Some a"
    using poller_inv_chan [OF inv ch] True ch' by (auto simp: chan_ok_def index_states)
  then show ?thesis
    using True by (intro poller_inv_change [OF inv ch, of "ch'\<lparr>cindex := kDeleted\<rparr>" _ "Some a" None])
      (simp_all add: registered_def ch' fun_upd_idem free)
next
  case False
  then show ?thesis
    by (intro poller_inv_change [OF inv ch, of "ch'\<lparr>cindex := kAdded\<rparr>" _ "Some a" "Some (cevents ch', a)"])
      (auto simp: registered_def ch' free)
qed

lemma registered_inv:
  assumes inv: "reactor_inv R" and ch: "cheap R a = Some ch" and ch': "cfd ch' = cfd ch" "cindex ch' = cindex ch"
  shows "reactor_inv (registered a ch' R)"
  using registered_poller_inv [OF reactor_invD(1) [OF inv] ch ch'] reactor_invD(2) [OF inv] ch ch'
  by (auto simp: reactor_inv_def registered_def split: if_splits)

lemma poller_removeChannel_eq:
  assumes inv: "poller_inv R" and ch: "cheap R a = Some ch"
  shows "removeChannel a R = Inr (R\<lparr>channels := (channels R)(cfd ch := None), pepoll := (pepoll R)(cfd ch := None),
     cheap := (cheap R)(a \<mapsto> ch\<lparr>cindex := kNew\<rparr>)\<rparr>)"
proof -
  have free: "\<not> prefuses R (cfd ch)" if "cindex ch \<noteq> kNew" using inv ch that by (auto simp: poller_inv_def)
  have idle: "(pepoll R)(cfd ch := None) = pepoll R" if "pepoll R (cfd ch) = None"
    using that by (simp add: fun_upd_idem)
  from poller_inv_chan [OF inv ch] show ?thesis
    unfolding chan_ok_def
    by (elim disjE conjE)
      (use free in \<open>simp_all add: removeChannel_def chan_at_Some [OF ch] chan_at_Some upd_chan_Some [OF ch] upd_chan_Some
        poller_update_def kernel_ctl_def ch idle index_states Let_def\<close>)
qed

lemmas removeChannel_eq = poller_removeChannel_eq [OF reactor_invD(1)]

lemma removeChannel_inv:
  assumes "poller_inv R" and "cheap R a = Some ch" and "removeChannel a R = Inr R'"
  shows "poller_inv R'"
  using assms(3) unfolding poller_removeChannel_eq [OF assms(1,2)]
  by (intro poller_inv_change [OF assms(1,2), of "ch\<lparr>cindex := kNew\<rparr>" _ None None]) auto

section \<open>Every state a loop's poller can reach\<close>

datatype chan_op = EnableReading | DisableReading | EnableWriting | DisableWriting | DisableAll | Remove

fun chan_do :: "chan_op \<Rightarrow> nat \<Rightarrow> 'z reactor_scheme \<Rightarrow> 'z reactor_scheme result" where
  "chan_do EnableReading = enableReading"
| "chan_do DisableReading = disableReading"
| "chan_do EnableWriting = enableWriting"
| "chan_do DisableWriting = disableWriting"
| "chan_do DisableAll = disableAll"
| "chan_do Remove = removeChannel"

lemma chan_do_events: "op \<noteq> Remove \<Longrightarrow> \<exists>f. chan_do op a R = set_events a f R"
  by (cases op) (auto simp: enableReading_def disableReading_def enableWriting_def disableWriting_def disableAll_def)

lemma chan_do_cases: "(\<exists>f. chan_do op a R = set_events a f R) \<or> chan_do op a R = removeChannel a R"
  by (cases op) (auto simp: enableReading_def disableReading_def enableWriting_def disableWriting_def disableAll_def)

lemma chan_do_ok:
  assumes inv: "poller_inv R" and ch: "cheap R a = Some ch" and free: "\<not> prefuses R (cfd ch) \<or> op = Remove"
  shows "\<exists>R'. chan_do op a R = Inr R' \<and> poller_inv R'"
proof (cases "op = Remove")
  case True
  then show ?thesis using removeChannel_inv [OF inv ch] by (simp add: poller_removeChannel_eq [OF inv ch])
next
  case False
  then obtain f where f: "chan_do op a R = set_events a f R" using chan_do_events by blast
  have "poller_inv (registered a (ch\<lparr>cevents := f (cevents ch)\<rparr>) R)"
    by (rule registered_poller_inv [OF inv ch]) (use free False in simp_all)
  then show ?thesis using free False by (simp add: f poller_set_events_eq [OF inv ch])
qed

lemma chan_do_refused:
  assumes inv: "poller_inv R" and ch: "cheap R a = Some ch" and "prefuses R (cfd ch)" and "op \<noteq> Remove"
  shows "chan_do op a R = Inl (Exit ''epoll_ctl add/mod error'')"
proof -
  obtain f where "chan_do op a R = set_events a f R" using chan_do_events [OF assms(4)] by blast
  then show ?thesis using set_events_refused [OF assms(1-3)] by simp
qed

lemma chan_do_Some:
  assumes "chan_do op a R = Inr R'"
  shows "\<exists>ch. cheap R a = Some ch"
proof (cases "cheap R a")
  case None
  then have "cchan_at R a = Inl UseAfterFree" by (simp add: cchan_at_def)
  with chan_do_cases [of op a R] assms show ?thesis
    by (auto simp add: set_events_def upd_chan_def removeChannel_def simp del: chan_at_Inr rbind_Inr_iff)
qed simp

definition add_channel :: "cchannel \<Rightarrow> 'z reactor_scheme \<Rightarrow> 'z reactor_scheme \<times> nat" where
  "add_channel ch R = (R\<lparr>cheap := (cheap R)(cfresh R \<mapsto> ch), cfresh := Suc (cfresh R)\<rparr>, cfresh R)"

definition free_channel :: "nat \<Rightarrow> 'z reactor_scheme \<Rightarrow> 'z reactor_scheme" where
  "free_channel a R = R\<lparr>cheap := (cheap R)(a := None)\<rparr>"

lemma add_channel_poller_inv:
  assumes inv: "poller_inv R" and free: "\<forall>a ch. cheap R a = Some ch \<longrightarrow> cfd ch \<noteq> f"
    and ch: "cfd ch = f" "cindex ch = kNew"
  shows "poller_inv (fst (add_channel ch R))"
proof -
  have new: "cheap R (cfresh R) = None" using inv by (auto simp: poller_inv_def) (metis less_irrefl option.exhaust)
  have none: "channels R f = None" "pepoll R f = None"
    using inv free unfolding poller_inv_def by (metis not_Some_eq, metis not_Some_eq surj_pair)
  have "chan_ok (fst (add_channel ch R)) (cfresh R) ch" by (simp add: add_channel_def chan_ok_def ch none)
  moreover have "chan_ok (fst (add_channel ch R)) a c" if "cheap R a = Some c" for a c
    using poller_inv_chan [OF inv that] by (simp add: add_channel_def chan_ok_def)
  moreover have "channels R g \<noteq> Some (cfresh R) \<and> pepoll R g \<noteq> Some (m, cfresh R)" for g m
    using inv new unfolding poller_inv_def by fastforce
  moreover have "cfd c \<noteq> cfd ch \<and> cfd ch \<noteq> cfd c" if "cheap R a = Some c" for a c
    using free that ch(1) by metis
  ultimately show ?thesis
    using inv new ch(2) unfolding poller_inv_def add_channel_def fst_conv
    by (auto simp: less_Suc_eq)
qed

lemma free_channel_poller_inv:
  assumes inv: "poller_inv R" and ch: "cheap R a = Some ch" "cindex ch = kNew"
  shows "poller_inv (free_channel a R)"
proof -
  have "channels R f \<noteq> Some a \<and> pepoll R f \<noteq> Some (m, a)" for f m
    using inv poller_inv_chan [OF inv ch(1)] ch unfolding poller_inv_def chan_ok_def index_states by fastforce
  then show ?thesis
    using inv unfolding poller_inv_def free_channel_def chan_ok_def by simp
qed

lemma add_channel_inv:
  assumes inv: "reactor_inv R" and free: "\<forall>a ch. cheap R a = Some ch \<longrightarrow> cfd ch \<noteq> f" and takes: "\<not> prefuses R f"
    and ch: "cfd ch = f" "cindex ch = kNew"
  shows "reactor_inv (fst (add_channel ch R))"
  using add_channel_poller_inv [OF reactor_invD(1) [OF inv] free ch] reactor_invD(2) [OF inv] takes ch(1)
  by (auto simp: reactor_inv_def add_channel_def split: if_splits)

lemma free_channel_inv:
  assumes inv: "reactor_inv R" and ch: "cheap R a = Some ch" "cindex ch = kNew"
  shows "reactor_inv (free_channel a R)"
  using free_channel_poller_inv [OF reactor_invD(1) [OF inv] ch] reactor_invD(2) [OF inv]
  by (auto simp: reactor_inv_def free_channel_def split: if_splits)

text \<open>Fields of a channel that say nothing about what is watched.\<close>

lemma upd_chan_poller_inv:
  assumes inv: "poller_inv R" and ch: "cheap R a = Some ch"
    and f: "cfd (f ch) = cfd ch" "cevents (f ch) = cevents ch" "cindex (f ch) = cindex ch"
  shows "\<exists>R'. upd_chan a f R = Inr R' \<and> poller_inv R' \<and> dom (cheap R') = dom (cheap R) \<and>
     channels R' = channels R \<and> pepoll R' = pepoll R \<and> R' = R\<lparr>cheap := (cheap R)(a \<mapsto> f ch)\<rparr>"
proof -
  have "poller_inv (R\<lparr>cheap := (cheap R)(a \<mapsto> f ch)\<rparr>)"
    using poller_inv_chan [OF inv ch] unfolding chan_ok_def
    by (intro poller_inv_change [OF inv ch f(1), of _ "channels R (cfd ch)" "pepoll R (cfd ch)"]) (use inv ch in \<open>auto simp: f poller_inv_def\<close>)
  with upd_chan_Some [OF ch, of f] ch show ?thesis by auto
qed

lemma upd_chan_inv:
  assumes "reactor_inv R" and "cheap R a = Some ch"
    and "cfd (f ch) = cfd ch" "cevents (f ch) = cevents ch" "cindex (f ch) = cindex ch"
  shows "\<exists>R'. upd_chan a f R = Inr R' \<and> reactor_inv R' \<and> dom (cheap R') = dom (cheap R) \<and>
     channels R' = channels R \<and> pepoll R' = pepoll R \<and> R' = R\<lparr>cheap := (cheap R)(a \<mapsto> f ch)\<rparr>"
  using upd_chan_poller_inv [where f = f, OF reactor_invD(1) [OF assms(1)] assms(2-5)] reactor_invD(2) [OF assms(1)] assms(2,3)
  by (auto simp: reactor_inv_def split: if_splits)

lemma fill_ok:
  "poller_inv R \<Longrightarrow> \<forall>(a, e)\<in>set evs. a \<in> dom (cheap R) \<Longrightarrow>
   \<exists>R'. fillActiveChannels evs active R = Inr (R', active @ map fst evs) \<and> poller_inv R' \<and>
     dom (cheap R') = dom (cheap R) \<and> channels R' = channels R \<and> pepoll R' = pepoll R"
proof (induction evs active R rule: fillActiveChannels.induct)
  case (1 active R)
  then show ?case by simp
next
  case (2 a e rest active R)
  then obtain ch where ch: "cheap R a = Some ch" by auto
  from upd_chan_poller_inv [OF "2.prems"(1) ch, of "\<lambda>ch. ch\<lparr>crevents := e\<rparr>"]
  obtain R1 where R1: "upd_chan a (\<lambda>ch. ch\<lparr>crevents := e\<rparr>) R = Inr R1" "poller_inv R1"
      "dom (cheap R1) = dom (cheap R)" "channels R1 = channels R" "pepoll R1 = pepoll R"
    by auto
  with "2.IH" [OF R1(1) R1(2)] "2.prems"(2) show ?case by auto
qed

text \<open>\<open>epoll_wait\<close> reports registered descriptors only, with the pointers stored for them.\<close>

definition reports :: "'z reactor_scheme \<Rightarrow> cready \<Rightarrow> bool" where
  "reports R ready \<longleftrightarrow>
     (case ready of None \<Rightarrow> True | Some evs \<Rightarrow> \<forall>(a, e)\<in>set evs. \<exists>f m. pepoll R f = Some (m, a))"

lemma pevents_poller_inv: "poller_inv R \<Longrightarrow> poller_inv (R\<lparr>pevents := n\<rparr>)"
  by (simp add: poller_inv_def chan_ok_def)

lemma pevents_inv: "reactor_inv R \<Longrightarrow> reactor_inv (R\<lparr>pevents := n\<rparr>)"
  by (simp add: reactor_inv_def pevents_poller_inv)

lemma poll_ok:
  assumes inv: "poller_inv R" and k: "reports R ready"
  shows "\<exists>R'. poll ready R = Inr (R', case ready of None \<Rightarrow> [] | Some evs \<Rightarrow> map fst evs) \<and> poller_inv R' \<and>
     dom (cheap R') = dom (cheap R) \<and> channels R' = channels R \<and> pepoll R' = pepoll R"
proof (cases ready)
  case None
  with inv show ?thesis by (simp add: poll_def)
next
  case (Some evs)
  have "\<forall>(a, e)\<in>set evs. a \<in> dom (cheap R)"
    using inv k unfolding Some reports_def poller_inv_def by (fastforce simp: dom_def)
  from fill_ok [OF inv this, of "[]"] obtain R1 where R1: "fillActiveChannels evs [] R = Inr (R1, map fst evs)"
      "poller_inv R1" "dom (cheap R1) = dom (cheap R)" "channels R1 = channels R" "pepoll R1 = pepoll R"
    by auto
  show ?thesis
  proof (cases "evs = []")
    case True
    with inv show ?thesis by (simp add: poll_def Some)
  next
    case False
    then have "poll ready R = Inr (if length evs = pevents R1 then R1\<lparr>pevents := pevents R1 * 2\<rparr> else R1, map fst evs)"
      using R1(1) by (simp add: poll_def Some)
    then show ?thesis using R1(2-5) pevents_poller_inv [OF R1(2)] by (simp add: Some)
  qed
qed

inductive reactor_step :: "reactor \<Rightarrow> reactor \<Rightarrow> bool" where
  create: "\<forall>a ch. cheap R a = Some ch \<longrightarrow> cfd ch \<noteq> f \<Longrightarrow> reactor_step R (fst (add_channel (new_Channel f) R))"
| operate: "chan_do op a R = Inr R' \<Longrightarrow> reactor_step R R'"
| wait: "reports R ready \<Longrightarrow> poll ready R = Inr (R', active) \<Longrightarrow> reactor_step R R'"
| destroy: "cheap R a = Some ch \<Longrightarrow> cindex ch = kNew \<Longrightarrow> reactor_step R (free_channel a R)"

inductive_cases reactor_stepE: "reactor_step R R'"

lemma reactor_step_inv: "reactor_step R R' \<Longrightarrow> poller_inv R \<Longrightarrow> poller_inv R'"
proof (induction rule: reactor_step.induct)
  case (create R f)
  then show ?case by (intro add_channel_poller_inv [of R f]) (simp_all add: new_Channel_def kNew_def)
next
  case (operate op a R R')
  obtain ch where ch: "cheap R a = Some ch" using chan_do_Some [OF operate(1)] by blast
  then have "\<not> prefuses R (cfd ch) \<or> op = Remove" using chan_do_refused [OF operate(2) ch, of op] operate(1) by auto
  with chan_do_ok [OF operate(2) ch, of op] operate(1) show ?case by auto
next
  case (wait R ready R' active)
  with poll_ok [of R ready] show ?case by fastforce
next
  case (destroy R a ch)
  then show ?case by (intro free_channel_poller_inv) auto
qed

lemma new_EpollPoller_inv: "new_EpollPoller created = Inr R \<Longrightarrow> poller_inv R"
  by (auto simp: new_EpollPoller_def poller_inv_def split: option.splits)

lemma reactor_steps_inv: "reactor_step\<^sup>*\<^sup>* R R' \<Longrightarrow> poller_inv R \<Longrightarrow> poller_inv R'"
  by (induction rule: rtranclp_induct) (auto intro: reactor_step_inv)

section \<open>Which callbacks run\<close>

text \<open>The callbacks of a ready channel, in the order they run.\<close>

definition ready_calls :: "cchannel \<Rightarrow> chandler list" where
  "ready_calls ch =
     (let r = crevents ch; on = (\<lambda>c cb. if c then (case cb of None \<Rightarrow> [] | Some h \<Rightarrow> [h]) else []) in
      on (r AND EPOLLHUP \<noteq> 0 \<and> r AND EPOLLIN = 0) (closeCallback ch) @
      on (r AND EPOLLERR \<noteq> 0) (errorCallback ch) @
      on (r AND (EPOLLIN OR EPOLLPRI) \<noteq> 0) (readCallback ch) @
      on (r AND EPOLLOUT \<noteq> 0) (writeCallback ch))"

definition same_calls :: "cchannel \<Rightarrow> cchannel \<Rightarrow> bool" where
  "same_calls ch ch' \<longleftrightarrow> crevents ch' = crevents ch \<and> closeCallback ch' = closeCallback ch \<and>
     errorCallback ch' = errorCallback ch \<and> readCallback ch' = readCallback ch \<and> writeCallback ch' = writeCallback ch"

lemma same_calls_refl: "same_calls ch ch"
  by (simp add: same_calls_def)

text \<open>
  Callbacks may change what a channel waits for, but neither its pending events nor its
  callbacks, nor may they free it while it is tied.
\<close>

definition keeps_calls ::
  "(chandler \<Rightarrow> 'z reactor_scheme \<Rightarrow> 'z reactor_scheme result) \<Rightarrow> nat \<Rightarrow> cchannel \<Rightarrow> bool" where
  "keeps_calls call a ch \<longleftrightarrow>
     (\<forall>h R R' c. cheap R a = Some c \<longrightarrow> same_calls ch c \<longrightarrow> call h R = Inr R' \<longrightarrow>
        (\<exists>c'. cheap R' a = Some c' \<and> same_calls ch c'))"

lemma call_if_eq:
  assumes "keeps_calls call a ch" and "cheap R a = Some c" and "same_calls ch c"
    and cb: "cb c = cb ch"
  shows "call_if call a test cb R = put_all (\<lambda>R h. call h R) R (if test (crevents ch) then (case cb ch of None \<Rightarrow> [] | Some h \<Rightarrow> [h]) else [])"
    and "call_if call a test cb R = Inr R' \<Longrightarrow> \<exists>c'. cheap R' a = Some c' \<and> same_calls ch c'"
proof -
  have r: "crevents c = crevents ch" using assms(3) by (simp add: same_calls_def)
  show "call_if call a test cb R = put_all (\<lambda>R h. call h R) R (if test (crevents ch) then (case cb ch of None \<Rightarrow> [] | Some h \<Rightarrow> [h]) else [])"
    by (cases "cb ch") (simp_all add: call_if_def chan_at_Some [OF assms(2)] r cb)
  show "call_if call a test cb R = Inr R' \<Longrightarrow> \<exists>c'. cheap R' a = Some c' \<and> same_calls ch c'"
    using assms(1-3) unfolding keeps_calls_def
    by (cases "cb ch") (auto simp: call_if_def chan_at_Some [OF assms(2)] r cb split: if_splits)
qed

fun call_ifs ::
  "(chandler \<Rightarrow> 'z reactor_scheme \<Rightarrow> 'z reactor_scheme result) \<Rightarrow> nat \<Rightarrow>
   ((32 word \<Rightarrow> bool) \<times> (cchannel \<Rightarrow> chandler option)) list \<Rightarrow> 'z reactor_scheme \<Rightarrow> 'z reactor_scheme result" where
  "call_ifs call a [] R = Inr R"
| "call_ifs call a ((test, cb) # xs) R = rbind (call_if call a test cb R) (call_ifs call a xs)"

lemma call_ifs_fun:
  "call_ifs call a [] = Inr"
  "call_ifs call a ((test, cb) # xs) = (\<lambda>R. rbind (call_if call a test cb R) (call_ifs call a xs))"
  by (simp_all add: fun_eq_iff)

lemma call_ifs_eq:
  assumes keep: "keeps_calls call a ch"
  shows "cheap R a = Some c \<Longrightarrow> same_calls ch c \<Longrightarrow> \<forall>(test, cb)\<in>set xs. \<forall>c. same_calls ch c \<longrightarrow> cb c = cb ch \<Longrightarrow>
   call_ifs call a xs R = put_all (\<lambda>R h. call h R) R
     (concat (map (\<lambda>(test, cb). if test (crevents ch) then (case cb ch of None \<Rightarrow> [] | Some h \<Rightarrow> [h]) else []) xs))"
proof (induction xs arbitrary: R c)
  case Nil
  then show ?case by simp
next
  case (Cons x xs)
  obtain test cb where x: "x = (test, cb)" by (cases x)
  have cb: "cb c = cb ch" using Cons.prems(2,3) by (simp add: x)
  note eq = call_if_eq(1) [OF keep Cons.prems(1,2) cb, of test]
  have "call_ifs call a xs R1 = put_all (\<lambda>R h. call h R) R1
     (concat (map (\<lambda>(test, cb). if test (crevents ch) then (case cb ch of None \<Rightarrow> [] | Some h \<Rightarrow> [h]) else []) xs))"
    if "call_if call a test cb R = Inr R1" for R1
    using call_if_eq(2) [OF keep Cons.prems(1,2) cb that] Cons.IH [of R1] Cons.prems(3) by auto
  then show ?case
    unfolding x call_ifs.simps eq by (cases "call_if call a test cb R") (simp_all add: put_all_append flip: eq)
qed

lemma handle_calls:
  assumes keep: "keeps_calls call a ch" and ch: "cheap R a = Some ch"
  shows "handleEventWithGuard call a R = put_all (\<lambda>R h. call h R) R (ready_calls ch)"
proof -
  have "handleEventWithGuard call a R = call_ifs call a
     [(\<lambda>r. r AND EPOLLHUP \<noteq> 0 \<and> \<not> r AND EPOLLIN \<noteq> 0, closeCallback), (\<lambda>r. r AND EPOLLERR \<noteq> 0, errorCallback),
      (\<lambda>r. r AND (EPOLLIN OR EPOLLPRI) \<noteq> 0, readCallback), (\<lambda>r. r AND EPOLLOUT \<noteq> 0, writeCallback)] R"
    by (simp add: handleEventWithGuard_def call_ifs_fun)
  also have "\<dots> = put_all (\<lambda>R h. call h R) R (ready_calls ch)"
    by (subst call_ifs_eq [OF keep ch same_calls_refl]) (auto simp: same_calls_def ready_calls_def Let_def)
  finally show ?thesis .
qed

section \<open>Properties\<close>


definition start_reactor :: reactor where
  "start_reactor = \<lparr>channels = Map.empty, pepoll = Map.empty, prefuses = (\<lambda>f. f < 0), pevents = 16,
     cheap = Map.empty, cfresh = 0\<rparr>"

lemma start_reactor: "new_EpollPoller (Some (\<lambda>f. f < 0)) = Inr start_reactor"
  by (simp add: new_EpollPoller_def start_reactor_def)

text \<open>Channels on descriptor 5 and on -1.\<close>

definition two_channels :: reactor where
  "two_channels = start_reactor\<lparr>cheap := [0 \<mapsto> new_Channel 5, 1 \<mapsto> new_Channel (-1)], cfresh := 2\<rparr>"

lemma two_channels_reached: "reactor_step\<^sup>*\<^sup>* start_reactor two_channels"
proof -
  let ?R = "fst (add_channel (new_Channel 5) start_reactor)"
  have "reactor_step start_reactor ?R"
    by (rule reactor_step.create) (simp add: start_reactor_def)
  moreover have "reactor_step ?R (fst (add_channel (new_Channel (-1)) ?R))"
    by (rule reactor_step.create) (simp add: start_reactor_def add_channel_def new_Channel_def)
  moreover have "fst (add_channel (new_Channel (-1)) ?R) = two_channels"
    by (simp add: add_channel_def start_reactor_def two_channels_def)
  ultimately show ?thesis by (metis rtranclp.rtrancl_into_rtrancl rtranclp.rtrancl_refl)
qed


text \<open>
  The callbacks of a ready channel run in a fixed order, each at most once: close on a hang-up
  without data to read, then error, then read, then write, and only those that are set. A tied
  channel whose object is gone runs none. (The callbacks may not free the channel or replace
  its callbacks while they run.)
\<close>

lemma events_in_order:
  assumes "cheap R a = Some ch" and "keeps_calls call a ch"
  shows "handleEvent call alive a R =
     (if tied ch \<and> \<not> (\<exists>obj. tie ch = Some obj \<and> alive R obj) then Inr R
      else put_all (\<lambda>R h. call h R) R (ready_calls ch))"
  using handle_calls [OF assms(2,1)]
  by (cases "tie ch") (auto simp: handleEvent_def chan_at_Some [OF assms(1)])

lemma events_in_order_witness:
  "handleEvent (\<lambda>h R. Inr (R\<lparr>pevents := (case h of ConnClose _ \<Rightarrow> 1 | _ \<Rightarrow> 2)\<rparr>)) (\<lambda>_ _. True) 0
     (start_reactor\<lparr>cheap := [0 \<mapsto> (new_Channel 5)\<lparr>crevents := EPOLLHUP, closeCallback := Some (ConnClose 0),
        readCallback := Some (ConnRead 0)\<rparr>]\<rparr>) =
   Inr (start_reactor\<lparr>pevents := 1, cheap := [0 \<mapsto> (new_Channel 5)\<lparr>crevents := EPOLLHUP, closeCallback := Some (ConnClose 0),
        readCallback := Some (ConnRead 0)\<rparr>]\<rparr>)"
proof -
  let ?ch = "(new_Channel 5)\<lparr>crevents := EPOLLHUP, closeCallback := Some (ConnClose 0), readCallback := Some (ConnRead 0)\<rparr>"
  let ?call = "\<lambda>h R. Inr (R\<lparr>pevents := (case h of ConnClose _ \<Rightarrow> 1 | _ \<Rightarrow> 2)\<rparr>) :: reactor result"
  have "keeps_calls ?call 0 ?ch" by (auto simp: keeps_calls_def)
  moreover have "ready_calls ?ch = [ConnClose 0]"
    by (simp add: ready_calls_def new_Channel_def EPOLLHUP_def EPOLLIN_def EPOLLPRI_def EPOLLERR_def EPOLLOUT_def)
  moreover have "\<not> tied ?ch" by (simp add: new_Channel_def)
  ultimately show ?thesis
    using events_in_order [of "start_reactor\<lparr>cheap := [0 \<mapsto> ?ch]\<rparr>" 0 ?ch ?call "\<lambda>_ _. True"] by simp
qed

text \<open>
  Switching writing off switches reading off instead: a channel that waits for both is then
  watched for writing only, in the map, in its own record and in the kernel.
\<close>

lemma disableWriting_deafens:
  assumes "reactor_inv R" and "cheap R a = Some ch" and "cevents ch = kReadEvent OR kWriteEvent"
  shows "\<exists>R' ch'. disableWriting a R = Inr R' \<and> cheap R' a = Some ch' \<and> isWriting ch' \<and> \<not> isReading ch' \<and>
     pepoll R' (cfd ch) = Some (kWriteEvent, a)"
proof -
  let ?ch = "ch\<lparr>cevents := cevents ch AND NOT kReadEvent\<rparr>"
  have e: "cevents ?ch = kWriteEvent"
    using assms(3) by (simp add: kReadEvent_def kWriteEvent_def EPOLLIN_def EPOLLPRI_def EPOLLOUT_def)
  have "disableWriting a R = Inr (registered a ?ch R)"
    unfolding disableWriting_def by (rule set_events_eq [OF assms(1,2)])
  moreover have "\<not> isNoneEvent ?ch" "isWriting ?ch" "\<not> isReading ?ch"
    unfolding isNoneEvent_def isWriting_def isReading_def e
    by (simp_all add: kNoneEvent_def kReadEvent_def kWriteEvent_def EPOLLIN_def EPOLLPRI_def EPOLLOUT_def)
  ultimately show ?thesis using e by (simp add: registered_def isWriting_def isReading_def)
qed

lemma disableWriting_deafens_witness:
  "\<exists>R'. disableWriting 0 (start_reactor\<lparr>cheap := [0 \<mapsto> (new_Channel 5)\<lparr>cevents := 7\<rparr>], cfresh := 1\<rparr>) = Inr R' \<and>
     pepoll R' 5 = Some (kWriteEvent, 0)"
proof -
  let ?ch = "(new_Channel 5)\<lparr>cevents := 7\<rparr>" and ?R = "start_reactor\<lparr>cheap := [0 \<mapsto> (new_Channel 5)\<lparr>cevents := 7\<rparr>], cfresh := 1\<rparr>"
  have "reactor_inv ?R"
    by (simp add: reactor_inv_defs chan_ok_def start_reactor_def new_Channel_def index_states)
  moreover have "cevents ?ch = kReadEvent OR kWriteEvent"
    by (simp add: kReadEvent_def kWriteEvent_def EPOLLIN_def EPOLLPRI_def EPOLLOUT_def)
  ultimately show ?thesis
    using disableWriting_deafens [of ?R 0 ?ch] by (auto simp: new_Channel_def)
qed

end
