(* ===== verification/Cxx_Loop.thy ===== *)
theory Cxx_Loop
  imports Cxx_Poller
begin

text \<open>
  \<open>EventLoop.h\<close> and \<open>EventLoop.cc\<close> of the C++ library. The record \<open>cloop\<close> extends the
  poller of \<open>Cxx_Poller\<close> by the fields of \<open>EventLoop\<close>; \<open>wakeups\<close> is the counter of the
  eventfd behind \<open>wakeupFd_\<close>. A functor is a value of type \<open>'f\<close> and \<open>exec\<close> runs it;
  \<open>self\<close> is the thread that makes a call. The second half of the theory is the protocol by
  which other threads hand functors to a loop, as a step relation over single accesses.
\<close>

record 'f cloop = reactor +
  looping :: bool
  quit :: bool
  ctid :: nat
  wakefd :: int
  wakechan :: nat
  wakeups :: nat
  calling :: bool
  pending :: "'f list"

section \<open>The operations\<close>

text \<open>
  The constructor: \<open>there\<close> says whether this thread has a loop already, \<open>evtfd\<close> is what
  \<open>eventfd\<close> returned, and \<open>ext\<close> the fields of a record that extends the loop's.
\<close>

definition new_EventLoop ::
  "bool \<Rightarrow> (int \<Rightarrow> bool) option \<Rightarrow> int \<Rightarrow> bool \<Rightarrow> nat \<Rightarrow> 'z \<Rightarrow> ('f, 'z) cloop_scheme result" where
  "new_EventLoop usr_poll created evtfd there self ext =
     rbind (newDefaultPoller usr_poll created) (\<lambda>p.
       if evtfd < 0 then Inl (Exit ''events error'')
       else if there then Inl (Exit ''Another EventLoop'')
       else
         rbind (deref p) (\<lambda>R.
           let ch = (new_Channel evtfd)\<lparr>readCallback := Some LoopRead\<rparr>;
               (R1, a) = add_channel ch R
           in enableReading a (reactor.extend R1
                \<lparr>looping = False, quit = False, ctid = self, wakefd = evtfd, wakechan = a,
                 wakeups = 0, calling = False, pending = [], \<dots> = ext\<rparr>)))"

text \<open>The destructor; its second result is the descriptors it closes.\<close>

definition destroy_EventLoop :: "('f, 'z) cloop_scheme \<Rightarrow> (('f, 'z) cloop_scheme \<times> int list) result" where
  "destroy_EventLoop l =
     rbind (disableAll (wakechan l) l) (\<lambda>l1.
     rbind (removeChannel (wakechan l1) l1) (\<lambda>l2. Inr (free_channel (wakechan l2) l2, [wakefd l2])))"

text \<open>
  A write adds 1 to the counter, unless that would make it $2^{64}-1$, and a read sets it to 0;
  failures of both are only logged.
\<close>

definition wakeup :: "('f, 'z) cloop_scheme \<Rightarrow> ('f, 'z) cloop_scheme" where
  "wakeup l = (if wakeups l < 2 ^ 64 - 2 then l\<lparr>wakeups := wakeups l + 1\<rparr> else l)"

definition loop_handleRead :: "('f, 'z) cloop_scheme \<Rightarrow> ('f, 'z) cloop_scheme" where
  "loop_handleRead l = l\<lparr>wakeups := 0\<rparr>"

text \<open>
  \<open>CurrentThread::tid\<close>: the id is asked for once and kept in the thread's variable \<open>t_cachedTid\<close>;
  \<open>gettid\<close> is what the system call returns.
\<close>

definition cacheTid :: "int \<Rightarrow> int \<Rightarrow> int" where
  "cacheTid gettid t_cachedTid = (if t_cachedTid = 0 then wrap32 gettid else t_cachedTid)"

definition current_tid :: "int \<Rightarrow> int \<Rightarrow> int \<times> int" where
  "current_tid gettid t_cachedTid =
     (let t = (if t_cachedTid = 0 then cacheTid gettid t_cachedTid else t_cachedTid) in (t, t))"

lemma current_tid_kept: "current_tid g 0 = (t, r) \<Longrightarrow> t \<noteq> 0 \<Longrightarrow> r = wrap32 g \<and> current_tid g' t = (t, r)"
  by (auto simp: current_tid_def cacheTid_def Let_def)

definition isInLoopThread :: "nat \<Rightarrow> ('f, 'z) cloop_scheme \<Rightarrow> bool" where
  "isInLoopThread self l \<longleftrightarrow> ctid l = self"

definition queueInloop :: "nat \<Rightarrow> 'f \<Rightarrow> ('f, 'z) cloop_scheme \<Rightarrow> ('f, 'z) cloop_scheme" where
  "queueInloop self cb l =
     (let l1 = l\<lparr>pending := pending l @ [cb]\<rparr>
      in if \<not> isInLoopThread self l1 \<or> calling l1 then wakeup l1 else l1)"

definition runInloop ::
  "('f \<Rightarrow> ('f, 'z) cloop_scheme \<Rightarrow> ('f, 'z) cloop_scheme result) \<Rightarrow> nat \<Rightarrow> 'f \<Rightarrow>
   ('f, 'z) cloop_scheme \<Rightarrow> ('f, 'z) cloop_scheme result" where
  "runInloop exec self cb l = (if isInLoopThread self l then exec cb l else Inr (queueInloop self cb l))"

definition quit_loop :: "nat \<Rightarrow> ('f, 'z) cloop_scheme \<Rightarrow> ('f, 'z) cloop_scheme" where
  "quit_loop self l =
     (let l1 = l\<lparr>quit := True\<rparr> in if \<not> isInLoopThread self l1 then wakeup l1 else l1)"

definition doPendingFunctors ::
  "('f \<Rightarrow> ('f, 'z) cloop_scheme \<Rightarrow> ('f, 'z) cloop_scheme result) \<Rightarrow> ('f, 'z) cloop_scheme \<Rightarrow>
   ('f, 'z) cloop_scheme result" where
  "doPendingFunctors exec l =
     rbind (put_all (\<lambda>l f. exec f l) (l\<lparr>calling := True, pending := []\<rparr>) (pending l)) (\<lambda>l1.
       Inr (l1\<lparr>calling := False\<rparr>))"

text \<open>The loop along the given results of \<open>epoll_wait\<close>: it stops after the last, or once \<open>quit\<close> is set.\<close>

fun loop_rounds ::
  "('f \<Rightarrow> ('f, 'z) cloop_scheme \<Rightarrow> ('f, 'z) cloop_scheme result) \<Rightarrow>
   (chandler \<Rightarrow> ('f, 'z) cloop_scheme \<Rightarrow> ('f, 'z) cloop_scheme result) \<Rightarrow>
   (('f, 'z) cloop_scheme \<Rightarrow> nat \<Rightarrow> bool) \<Rightarrow> cready list \<Rightarrow> ('f, 'z) cloop_scheme \<Rightarrow>
   ('f, 'z) cloop_scheme result" where
  "loop_rounds exec call alive [] l = Inr l"
| "loop_rounds exec call alive (ready # rest) l =
     (if quit l then Inr l
      else
        rbind (poll ready l) (\<lambda>(l1, active).
        rbind (put_all (\<lambda>l a. handleEvent call alive a l) l1 active) (\<lambda>l2.
        rbind (doPendingFunctors exec l2) (loop_rounds exec call alive rest))))"

definition loop_run ::
  "('f \<Rightarrow> ('f, 'z) cloop_scheme \<Rightarrow> ('f, 'z) cloop_scheme result) \<Rightarrow>
   (chandler \<Rightarrow> ('f, 'z) cloop_scheme \<Rightarrow> ('f, 'z) cloop_scheme result) \<Rightarrow>
   (('f, 'z) cloop_scheme \<Rightarrow> nat \<Rightarrow> bool) \<Rightarrow> cready list \<Rightarrow> ('f, 'z) cloop_scheme \<Rightarrow>
   ('f, 'z) cloop_scheme result" where
  "loop_run exec call alive waits l =
     rbind (loop_rounds exec call alive waits (l\<lparr>looping := True, quit := False\<rparr>)) (\<lambda>l1.
       Inr (if quit l1 then l1\<lparr>looping := False\<rparr> else l1))"

section \<open>Functors of a loop\<close>

text \<open>
  What a loop relies on when it runs functors: a functor may queue more (which, while functors
  run, wakes the loop), but it takes none away and does not change who the loop is.
\<close>

lemma wakeup_simps [simp]:
  "pending (wakeup l) = pending l" "calling (wakeup l) = calling l" "ctid (wakeup l) = ctid l" "quit (wakeup l) = quit l"
  "0 < wakeups (wakeup l)" "wakeups l \<le> wakeups (wakeup l)"
  by (auto simp: wakeup_def)

definition queues_more :: "('f, 'z) cloop_scheme \<Rightarrow> ('f, 'z) cloop_scheme \<Rightarrow> bool" where
  "queues_more l l' \<longleftrightarrow> calling l' = calling l \<and> ctid l' = ctid l \<and>
     (\<exists>more. pending l' = pending l @ more \<and> (more \<noteq> [] \<longrightarrow> 0 < wakeups l')) \<and> wakeups l \<le> wakeups l'"

lemma queues_more_refl: "queues_more l l"
  by (simp add: queues_more_def)

lemma queues_more_trans: "queues_more l l1 \<Longrightarrow> queues_more l1 l2 \<Longrightarrow> queues_more l l2"
  by (fastforce simp: queues_more_def)

lemma queueInloop_more: "calling l \<or> ctid l \<noteq> self \<Longrightarrow> queues_more l (queueInloop self f l)"
  by (auto simp: queues_more_def queueInloop_def isInLoopThread_def Let_def wakeup_def)

locale loop_functors =
  fixes exec :: "'f \<Rightarrow> ('f, 'z) cloop_scheme \<Rightarrow> ('f, 'z) cloop_scheme result"
  assumes exec_more: "calling l \<Longrightarrow> exec f l = Inr l' \<Longrightarrow> queues_more l l'"
begin

lemma run_functors: "calling l \<Longrightarrow> put_all (\<lambda>l f. exec f l) l fs = Inr l' \<Longrightarrow> queues_more l l'"
proof (induction fs arbitrary: l)
  case Nil
  then show ?case by (simp add: queues_more_refl)
next
  case (Cons f fs)
  then obtain l1 where l1: "exec f l = Inr l1" "put_all (\<lambda>l f. exec f l) l1 fs = Inr l'" by auto
  have "queues_more l l1" using exec_more [OF Cons.prems(1) l1(1)] .
  moreover from this Cons.prems(1) have "calling l1" by (simp add: queues_more_def)
  ultimately show ?case using Cons.IH [OF _ l1(2)] by (blast intro: queues_more_trans)
qed

text \<open>After the functors have run, those they queued wait, and the loop will not sleep.\<close>

lemma doPending:
  assumes "doPendingFunctors exec l = Inr l'"
  shows "\<exists>l1. put_all (\<lambda>l f. exec f l) (l\<lparr>calling := True, pending := []\<rparr>) (pending l) = Inr l1 \<and>
     l' = l1\<lparr>calling := False\<rparr> \<and> ctid l' = ctid l \<and> (pending l' \<noteq> [] \<longrightarrow> 0 < wakeups l')"
proof -
  obtain l1 where l1: "put_all (\<lambda>l f. exec f l) (l\<lparr>calling := True, pending := []\<rparr>) (pending l) = Inr l1"
      "l' = l1\<lparr>calling := False\<rparr>"
    using assms by (auto simp: doPendingFunctors_def)
  with run_functors [OF _ l1(1)] show ?thesis by (auto simp: queues_more_def)
qed

end

section \<open>Handing functors to a loop\<close>

text \<open>
  The threads around one loop. \<open>wpc\<close> is where the loop is: waiting in \<open>epoll_wait\<close>, handling
  events (\<open>Handling True\<close> while \<open>handleRead\<close> of the eventfd is still to come), or running
  functors, with \<open>wbatch\<close> left to run. \<open>wposting\<close> counts the other threads that have
  appended a functor and not yet written to the eventfd, \<open>wself\<close> says the same of the loop's
  own thread. \<open>wdone\<close> and \<open>wqueued\<close> record the functors run and queued so far.
\<close>

datatype wphase = Waiting | Handling bool | Running

record 'f wake_state =
  wpc :: wphase
  wpending :: "'f list"
  wbatch :: "'f list"
  wcount :: nat
  wposting :: nat
  wself :: bool
  wdone :: "'f list"
  wqueued :: "'f list"

definition wake_start :: "'f wake_state" where
  "wake_start = \<lparr>wpc = Waiting, wpending = [], wbatch = [], wcount = 0, wposting = 0, wself = False,
     wdone = [], wqueued = []\<rparr>"

definition wpost :: "'f \<Rightarrow> 'f wake_state \<Rightarrow> 'f wake_state" where
  "wpost f s = s\<lparr>wpending := wpending s @ [f], wqueued := wqueued s @ [f]\<rparr>"

text \<open>\<open>epoll_wait\<close> may return at any time (another descriptor is ready, or ten seconds are over).\<close>

inductive wake_step :: "'f wake_state \<Rightarrow> 'f wake_state \<Rightarrow> bool" where
  other_append: "wake_step s ((wpost f s)\<lparr>wposting := Suc (wposting s)\<rparr>)"
| other_write: "0 < wposting s \<Longrightarrow> wake_step s (s\<lparr>wposting := wposting s - 1, wcount := Suc (wcount s)\<rparr>)"
| wait_returns: "wpc s = Waiting \<Longrightarrow> wake_step s (s\<lparr>wpc := Handling (0 < wcount s)\<rparr>)"
| handle_append: "wpc s = Handling b \<Longrightarrow> wake_step s (wpost f s)"
| handle_read: "wpc s = Handling True \<Longrightarrow> wake_step s (s\<lparr>wpc := Handling False, wcount := 0\<rparr>)"
| swap: "wpc s = Handling False \<Longrightarrow> wake_step s (s\<lparr>wpc := Running, wbatch := wpending s, wpending := []\<rparr>)"
| run: "wpc s = Running \<Longrightarrow> \<not> wself s \<Longrightarrow> wbatch s = f # fs \<Longrightarrow>
    wake_step s (s\<lparr>wbatch := fs, wdone := wdone s @ [f]\<rparr>)"
| run_append: "wpc s = Running \<Longrightarrow> \<not> wself s \<Longrightarrow> wake_step s ((wpost f s)\<lparr>wself := True\<rparr>)"
| run_write: "wself s \<Longrightarrow> wake_step s (s\<lparr>wself := False, wcount := Suc (wcount s)\<rparr>)"
| finish: "wpc s = Running \<Longrightarrow> \<not> wself s \<Longrightarrow> wbatch s = [] \<Longrightarrow> wake_step s (s\<lparr>wpc := Waiting\<rparr>)"

inductive_cases wake_stepE: "wake_step s t"

definition wake_inv :: "'f wake_state \<Rightarrow> bool" where
  "wake_inv s \<longleftrightarrow> wdone s @ wbatch s @ wpending s = wqueued s \<and>
     (wpc s \<noteq> Running \<longrightarrow> wbatch s = [] \<and> \<not> wself s) \<and>
     (wpc s \<in> {Waiting, Running} \<longrightarrow> wpending s \<noteq> [] \<longrightarrow> 0 < wcount s \<or> 0 < wposting s \<or> wself s)"

lemma wake_step_inv: "wake_step s t \<Longrightarrow> wake_inv s \<Longrightarrow> wake_inv t"
  by (erule wake_stepE) (auto simp: wake_inv_def wpost_def)

lemma wake_reach: "wake_step\<^sup>*\<^sup>* s t \<Longrightarrow> wake_inv s \<Longrightarrow> wake_inv t"
  by (induction rule: rtranclp_induct) (auto intro: wake_step_inv)

lemma wake_start_inv: "wake_inv wake_start"
  by (simp add: wake_inv_def wake_start_def)

section \<open>Properties\<close>

text \<open>
  C13: No functor is lost and no wake-up missed. However the threads interleave: the functors run,
  those being run and those waiting are together the functors queued, in that order; and when
  the loop is in \<open>epoll_wait\<close> while functors are waiting, the eventfd is readable or some
  thread is about to make it so.
\<close>

theorem no_lost_wakeup:
  assumes "wake_step\<^sup>*\<^sup>* wake_start s"
  shows "wdone s @ wbatch s @ wpending s = wqueued s \<and>
     (wpc s = Waiting \<longrightarrow> wpending s \<noteq> [] \<longrightarrow> 0 < wcount s \<or> 0 < wposting s)"
  using wake_reach [OF assms wake_start_inv] by (auto simp: wake_inv_def)

theorem no_lost_wakeup_witness:
  "\<exists>s :: nat wake_state. wake_step\<^sup>*\<^sup>* wake_start s \<and> wpc s = Waiting \<and> wpending s = [7] \<and> 0 < wposting s"
proof -
  let ?s = "(wpost 7 wake_start)\<lparr>wposting := Suc 0\<rparr> :: nat wake_state"
  have "wake_step wake_start ((wpost 7 wake_start)\<lparr>wposting := Suc (wposting (wake_start :: nat wake_state))\<rparr> :: nat wake_state)"
    by (rule wake_step.other_append)
  then have r: "wake_step\<^sup>*\<^sup>* wake_start ?s" by (simp add: wake_start_def r_into_rtranclp)
  have "wpc ?s = Waiting" "wpending ?s = [7]" "wcount ?s = 0" by (simp_all add: wpost_def wake_start_def)
  with no_lost_wakeup [OF r] r show ?thesis by (metis less_irrefl not_Cons_self2)
qed

end
