(* ===== verification/Cxx_Buffer.thy ===== *)
theory Cxx_Buffer
  imports C_Buffer
begin

text \<open>
  \<open>Buffer.h\<close> and \<open>Buffer.cc\<close>, the buffer of the C++ library. The record \<open>cbuffer\<close> is the
  class: \<open>vbuffer\<close> (\<open>buffer_\<close>) is the \<open>std::vector\<close> as the list of its bytes, and the two positions
  are of type \<open>size_t\<close>, so every sum and difference is taken modulo $2^{64}$. \<open>al\<close> says
  for which sizes a vector gets its memory. What \<open>readv\<close> delivers and what \<open>write\<close>
  takes are arguments, as in \<open>C_Buffer\<close>. The lemmas show that this buffer is a queue of
  bytes under any sequence of operations, and agrees with the one of the C server.
\<close>

record cbuffer =
  vbuffer :: "char list"
  readerIndex :: int
  wirteIndex :: int

section \<open>The operations\<close>

definition kChreapPrepend :: int where "kChreapPrepend = 8"
definition kInitialSize :: int where "kInitialSize = 1024"

text \<open>The constructor.\<close>

definition new_Buffer :: "int \<Rightarrow> cbuffer" where
  "new_Buffer initalSize =
     \<lparr>vbuffer = replicate (nat (size_t (kChreapPrepend + initalSize))) NUL,
      readerIndex = kChreapPrepend, wirteIndex = kChreapPrepend\<rparr>"

definition readableBytes :: "cbuffer \<Rightarrow> int" where
  "readableBytes b = size_t (wirteIndex b - readerIndex b)"

definition writeableBytes :: "cbuffer \<Rightarrow> int" where
  "writeableBytes b = size_t (int (length (vbuffer b)) - wirteIndex b)"

definition prependableBytes :: "cbuffer \<Rightarrow> int" where
  "prependableBytes b = readerIndex b"

definition retrieveAll :: "cbuffer \<Rightarrow> cbuffer" where
  "retrieveAll b = b\<lparr>readerIndex := kChreapPrepend, wirteIndex := kChreapPrepend\<rparr>"

definition retrieve :: "int \<Rightarrow> cbuffer \<Rightarrow> cbuffer" where
  "retrieve len b =
     (if len < readableBytes b then b\<lparr>readerIndex := size_t (readerIndex b + len)\<rparr>
      else retrieveAll b)"

definition retrieveAsstring :: "int \<Rightarrow> cbuffer \<Rightarrow> (cbuffer \<times> string) result" where
  "retrieveAsstring len b =
     rbind (load (vbuffer b) (readerIndex b) len) (\<lambda>r. Inr (retrieve len b, r))"

definition retrieveAllAsString :: "cbuffer \<Rightarrow> (cbuffer \<times> string) result" where
  "retrieveAllAsString b = retrieveAsstring (readableBytes b) b"

text \<open>
  \<open>std::vector<char>::resize\<close>: shorter cuts the vector, longer pads it with zeros; a length
  above \<open>max_size()\<close>, or one there is no memory for, is an exception. \<open>std::copy\<close> inside
  the vector requires that the destination does not lie in the range that is copied.
\<close>

definition vector_resize :: "alloc \<Rightarrow> char list \<Rightarrow> int \<Rightarrow> char list result" where
  "vector_resize al v n =
     (if n \<le> int (length v) then Inr (take (nat n) v)
      else if 2 ^ 63 \<le> n then Inl (Thrown ''length_error'')
      else if al n then Inr (v @ replicate (nat n - length v) NUL)
      else Inl (Thrown ''bad_alloc''))"

definition copy_within :: "char list \<Rightarrow> int \<Rightarrow> int \<Rightarrow> int \<Rightarrow> char list result" where
  "copy_within v lo hi dest =
     rbind (load v lo (hi - lo)) (\<lambda>ys.
       if lo \<le> dest \<and> dest < hi then Inl Overlap else store v dest ys)"

definition makeSpace :: "alloc \<Rightarrow> int \<Rightarrow> cbuffer \<Rightarrow> cbuffer result" where
  "makeSpace al len b =
     (if size_t (writeableBytes b + prependableBytes b) < size_t (len + kChreapPrepend)
      then rbind (vector_resize al (vbuffer b) (size_t (wirteIndex b + len))) (\<lambda>v. Inr (b\<lparr>vbuffer := v\<rparr>))
      else
        (let readable = readableBytes b in
         rbind (copy_within (vbuffer b) (readerIndex b) (wirteIndex b) kChreapPrepend) (\<lambda>v.
           Inr (b\<lparr>vbuffer := v, readerIndex := kChreapPrepend,
                  wirteIndex := size_t (kChreapPrepend + readable)\<rparr>))))"

definition ensureWriteableBytes :: "alloc \<Rightarrow> int \<Rightarrow> cbuffer \<Rightarrow> cbuffer result" where
  "ensureWriteableBytes al len b = (if writeableBytes b < len then makeSpace al len b else Inr b)"

definition append_buf :: "alloc \<Rightarrow> char list \<Rightarrow> int \<Rightarrow> cbuffer \<Rightarrow> cbuffer result" where
  "append_buf al src len b =
     rbind (ensureWriteableBytes al len b) (\<lambda>b1.
     rbind (load src 0 len) (\<lambda>bytes.
     rbind (store (vbuffer b1) (wirteIndex b1) bytes) (\<lambda>v.
       Inr (b1\<lparr>vbuffer := v, wirteIndex := size_t (wirteIndex b1 + len)\<rparr>))))"

text \<open>
  \<open>readv\<close> fills the free part of the vector and then, when that is shorter than 64 KB, the
  array \<open>extrabuf\<close>. \<open>rv\<close> is what it delivered, \<open>None\<close> for -1; the result is the number
  of bytes.
\<close>

definition readFd :: "alloc \<Rightarrow> char list option \<Rightarrow> cbuffer \<Rightarrow> (cbuffer \<times> int) result" where
  "readFd al rv b =
     (let writeable = writeableBytes b in
      case rv of
        None \<Rightarrow> Inr (b, -1)
      | Some bs \<Rightarrow>
          (let n = int (length bs) in
           rbind (store (vbuffer b) (wirteIndex b) (take (nat writeable) bs)) (\<lambda>v.
             if n \<le> writeable
             then Inr (b\<lparr>vbuffer := v, wirteIndex := size_t (wirteIndex b + n)\<rparr>, n)
             else
               rbind (append_buf al (drop (nat writeable) bs) (n - writeable)
                        (b\<lparr>vbuffer := v, wirteIndex := int (length v)\<rparr>)) (\<lambda>b'. Inr (b', n)))))"

definition writeFd :: "send_oracle \<Rightarrow> int \<Rightarrow> cbuffer \<Rightarrow> os \<Rightarrow> (int \<times> os) result" where
  "writeFd K f b s =
     rbind (load (vbuffer b) (readerIndex b) (readableBytes b)) (\<lambda>bs. Inr (sys_send K f bs s))"

section \<open>Well-formedness and the unread bytes\<close>

definition cbuf_inv :: "cbuffer \<Rightarrow> bool" where
  "cbuf_inv b \<longleftrightarrow> kChreapPrepend \<le> readerIndex b \<and> readerIndex b \<le> wirteIndex b \<and>
     wirteIndex b \<le> int (length (vbuffer b)) \<and> int (length (vbuffer b)) < 2 ^ 63"

definition unread :: "cbuffer \<Rightarrow> char list" where
  "unread b = window (vbuffer b) (nat (readerIndex b)) (nat (wirteIndex b))"

lemma cbuf_invD:
  assumes "cbuf_inv b"
  shows "8 \<le> readerIndex b" "readerIndex b \<le> wirteIndex b" "wirteIndex b \<le> int (length (vbuffer b))"
    "int (length (vbuffer b)) < 9223372036854775808"
  using assms by (simp_all add: cbuf_inv_def kChreapPrepend_def)

lemma cbuf_sizes:
  assumes "cbuf_inv b"
  shows "readableBytes b = wirteIndex b - readerIndex b"
    and "writeableBytes b = int (length (vbuffer b)) - wirteIndex b"
  using cbuf_invD [OF assms] by (simp_all add: readableBytes_def writeableBytes_def)

lemma length_unread: "cbuf_inv b \<Longrightarrow> int (length (unread b)) = readableBytes b"
  using cbuf_invD [of b] by (simp add: unread_def cbuf_sizes)

lemma load_unread: "cbuf_inv b \<Longrightarrow> load (vbuffer b) (readerIndex b) (readableBytes b) = Inr (unread b)"
  using cbuf_invD [of b]
  by (simp add: load_ok cbuf_sizes unread_def window_def drop_take nat_diff_distrib)

lemma new_Buffer_ok:
  assumes "0 \<le> n" and "n < 2 ^ 32"
  shows "cbuf_inv (new_Buffer n)" and "unread (new_Buffer n) = []"
proof -
  have "size_t (8 + n) = 8 + n" using assms by simp
  then have b: "new_Buffer n = \<lparr>vbuffer = replicate (nat (8 + n)) NUL, readerIndex = 8, wirteIndex = 8\<rparr>"
    by (simp only: new_Buffer_def kChreapPrepend_def)
  have len: "int (length (replicate (nat (8 + n)) NUL)) = 8 + n" using assms(1) by simp
  show "cbuf_inv (new_Buffer n)"
    unfolding b cbuf_inv_def cbuffer.simps len kChreapPrepend_def using assms by simp
  show "unread (new_Buffer n) = []" unfolding b unread_def cbuffer.simps by (rule window_empty)
qed

section \<open>Taking bytes out\<close>

lemma retrieveAll_ok: "cbuf_inv b \<Longrightarrow> cbuf_inv (retrieveAll b)" "unread (retrieveAll b) = []"
  by (simp_all add: retrieveAll_def cbuf_inv_def unread_def kChreapPrepend_def)

lemma retrieve_ok:
  assumes inv: "cbuf_inv b"
  shows "cbuf_inv (retrieve (int n) b)" and "unread (retrieve (int n) b) = drop n (unread b)"
proof -
  note inv' = cbuf_invD [OF inv]
  have "cbuf_inv (retrieve (int n) b) \<and> unread (retrieve (int n) b) = drop n (unread b)"
  proof (cases "int n < readableBytes b")
    case True
    then have n: "readerIndex b + int n \<le> wirteIndex b" by (simp add: cbuf_sizes [OF inv])
    with inv' have "size_t (readerIndex b + int n) = readerIndex b + int n" by simp
    with True n inv' show ?thesis
      by (simp add: retrieve_def cbuf_inv_def unread_def kChreapPrepend_def nat_add_distrib window_shift)
  next
    case False
    then have "length (unread b) \<le> n" using length_unread [OF inv] by linarith
    with False retrieveAll_ok [of b] inv show ?thesis by (simp add: retrieve_def)
  qed
  then show "cbuf_inv (retrieve (int n) b)" "unread (retrieve (int n) b) = drop n (unread b)" by auto
qed

lemma retrieveAllAsString_ok:
  "cbuf_inv b \<Longrightarrow> retrieveAllAsString b = Inr (retrieveAll b, unread b)"
  by (simp add: retrieveAllAsString_def retrieveAsstring_def load_unread retrieve_def)

section \<open>Putting bytes in\<close>

text \<open>Memory for every vector of up to \<open>n\<close> more bytes.\<close>

definition growable :: "alloc \<Rightarrow> cbuffer \<Rightarrow> nat \<Rightarrow> bool" where
  "growable al b n \<longleftrightarrow> int (length (vbuffer b)) + int n < 2 ^ 63 \<and>
     (\<forall>k. int (length (vbuffer b)) < k \<and> k \<le> int (length (vbuffer b)) + int n \<longrightarrow> al k)"

lemma growable_mono:
  "growable al b (m + n) \<Longrightarrow> int (length (vbuffer b)) \<le> int (length (vbuffer b')) \<Longrightarrow>
   int (length (vbuffer b')) \<le> int (length (vbuffer b)) + int m \<Longrightarrow> growable al b' n"
  by (auto simp: growable_def)

lemma ensure_ok:
  assumes inv: "cbuf_inv b" and room: "growable al b n"
  shows "\<exists>b'. ensureWriteableBytes al (int n) b = Inr b' \<and> cbuf_inv b' \<and> unread b' = unread b \<and>
     int n \<le> writeableBytes b' \<and> length (vbuffer b) \<le> length (vbuffer b') \<and>
     length (vbuffer b') \<le> length (vbuffer b) + n"
proof -
  note inv' = cbuf_invD [OF inv]
  note sizes = cbuf_sizes [OF inv]
  have room': "int (length (vbuffer b)) + int n < 9223372036854775808" using room by (simp add: growable_def)
  consider (fits) "int n \<le> writeableBytes b"
    | (grow) "writeableBytes b < int n" "writeableBytes b + prependableBytes b < int n + 8"
    | (compact) "writeableBytes b < int n" "int n + 8 \<le> writeableBytes b + prependableBytes b"
    by linarith
  then show ?thesis
  proof cases
    case fits
    with inv show ?thesis by (simp add: ensureWriteableBytes_def)
  next
    case grow
    let ?v = "vbuffer b @ replicate (nat (wirteIndex b + int n) - length (vbuffer b)) NUL"
    have w: "int (length (vbuffer b)) < wirteIndex b + int n" "wirteIndex b + int n < 2 ^ 63"
      using grow(1) room' inv' by (simp_all add: sizes)
    have "al (wirteIndex b + int n)" using room w inv' by (simp add: growable_def)
    then have "vector_resize al (vbuffer b) (size_t (wirteIndex b + int n)) = Inr ?v"
      using w inv' by (simp add: vector_resize_def)
    moreover have "size_t (writeableBytes b + prependableBytes b) < size_t (int n + kChreapPrepend)"
      using grow(2) room' inv' by (simp add: sizes prependableBytes_def kChreapPrepend_def)
    ultimately have "ensureWriteableBytes al (int n) b = Inr (b\<lparr>vbuffer := ?v\<rparr>)"
      using grow(1) by (simp add: ensureWriteableBytes_def makeSpace_def)
    moreover have v: "int (length ?v) = wirteIndex b + int n" using w by (simp add: of_nat_diff)
    then have "cbuf_inv (b\<lparr>vbuffer := ?v\<rparr>)" using inv w by (simp add: cbuf_inv_def)
    moreover from cbuf_sizes(2) [OF this] v have "int n \<le> writeableBytes (b\<lparr>vbuffer := ?v\<rparr>)" by simp
    moreover have "unread (b\<lparr>vbuffer := ?v\<rparr>) = unread b" using inv' by (simp add: unread_def window_append)
    moreover have "length ?v \<le> length (vbuffer b) + n" using inv'(3) by simp
    ultimately show ?thesis by fastforce
  next
    case compact
    let ?u = "unread b" and ?v = "blit (vbuffer b) 8 (unread b)"
    have r: "8 < readerIndex b" using compact by (simp add: sizes prependableBytes_def)
    have u: "load (vbuffer b) (readerIndex b) (wirteIndex b - readerIndex b) = Inr ?u"
      using load_unread [OF inv] by (simp add: sizes)
    have len: "int (length ?u) = wirteIndex b - readerIndex b" using length_unread [OF inv] by (simp add: sizes)
    have "copy_within (vbuffer b) (readerIndex b) (wirteIndex b) kChreapPrepend = Inr ?v"
      using u r len inv' by (simp add: copy_within_def store_ok kChreapPrepend_def)
    moreover have "\<not> size_t (writeableBytes b + prependableBytes b) < size_t (int n + kChreapPrepend)"
      using compact(2) room' inv' by (simp add: sizes prependableBytes_def kChreapPrepend_def)
    ultimately have "ensureWriteableBytes al (int n) b =
        Inr (b\<lparr>vbuffer := ?v, readerIndex := 8, wirteIndex := 8 + int (length ?u)\<rparr>)" (is "_ = Inr ?b")
      using compact(1) inv' len
      by (simp add: ensureWriteableBytes_def makeSpace_def Let_def kChreapPrepend_def sizes)
    moreover have fits: "8 + length ?u \<le> length (vbuffer b)" using len r inv' by linarith
    then have inv1: "cbuf_inv ?b" using inv by (simp add: cbuf_inv_def kChreapPrepend_def)
    moreover have "int n \<le> writeableBytes ?b"
      using cbuf_sizes(2) [OF inv1] compact(2) fits len by (simp add: sizes prependableBytes_def)
    moreover have "unread ?b = ?u"
      using window_blit [of 8 8 ?u "vbuffer b"] fits by (simp add: unread_def nat_add_distrib)
    ultimately show ?thesis using fits by fastforce
  qed
qed

definition put_bytes :: "alloc \<Rightarrow> cbuffer \<Rightarrow> char list \<Rightarrow> cbuffer result" where
  "put_bytes al b xs = append_buf al xs (int (length xs)) b"

lemma put_bytes_ok:
  assumes inv: "cbuf_inv b" and room: "growable al b (length xs + n)"
  shows "\<exists>b'. put_bytes al b xs = Inr b' \<and> cbuf_inv b' \<and> unread b' = unread b @ xs \<and> growable al b' n"
proof -
  have "growable al b (length xs)" using room by (auto simp: growable_def)
  from ensure_ok [OF inv this] obtain b1 where b1: "ensureWriteableBytes al (int (length xs)) b = Inr b1"
      "cbuf_inv b1" "unread b1 = unread b" "int (length xs) \<le> writeableBytes b1"
      "length (vbuffer b) \<le> length (vbuffer b1)" "length (vbuffer b1) \<le> length (vbuffer b) + length xs"
    by blast
  note inv1 = cbuf_invD [OF b1(2)]
  have fits: "wirteIndex b1 + int (length xs) \<le> int (length (vbuffer b1))"
    using b1(4) by (simp add: cbuf_sizes [OF b1(2)])
  let ?b = "b1\<lparr>vbuffer := blit (vbuffer b1) (nat (wirteIndex b1)) xs, wirteIndex := wirteIndex b1 + int (length xs)\<rparr>"
  have "put_bytes al b xs = Inr ?b"
    using b1(1) fits inv1 by (simp add: put_bytes_def append_buf_def mem_simps)
  moreover have "cbuf_inv ?b" using b1(2) fits inv1 by (simp add: cbuf_inv_def le_nat_iff)
  moreover have "unread ?b = unread b @ xs"
    using window_blit [of "nat (readerIndex b1)" "nat (wirteIndex b1)" xs "vbuffer b1"] fits inv1 b1(3)
    by (simp add: unread_def nat_add_distrib)
  moreover have "growable al ?b n" using growable_mono [OF room, of ?b] b1(5,6) fits inv1 by (simp add: le_nat_iff)
  ultimately show ?thesis by blast
qed

interpretation cxxbuf: byte_queue cbuf_inv unread "put_bytes al" "growable al" "\<lambda>_. True" "\<lambda>b n. retrieve (int n) b"
  by unfold_locales (auto simp: put_bytes_ok retrieve_ok)

section \<open>Reading and sending\<close>

lemma readFd_ok:
  assumes inv: "cbuf_inv b" and room: "growable al b (length bs + n)"
  shows "\<exists>b'. readFd al (Some bs) b = Inr (b', int (length bs)) \<and> cbuf_inv b' \<and> unread b' = unread b @ bs \<and>
     growable al b' n"
proof -
  note inv' = cbuf_invD [OF inv]
  define k where "k = nat (writeableBytes b)"
  have k: "writeableBytes b = int k" "nat (wirteIndex b) + k = length (vbuffer b)"
    using inv' by (simp_all add: k_def cbuf_sizes(2) [OF inv] flip: int_eq_iff)
  let ?v = "blit (vbuffer b) (nat (wirteIndex b)) (take k bs)"
  have st: "store (vbuffer b) (wirteIndex b) (take k bs) = Inr ?v"
    using k(2) inv' by (simp add: store_ok)
  have len: "length ?v = length (vbuffer b)" using k(2) by simp
  have u: "window ?v (nat (readerIndex b)) (nat (wirteIndex b) + length (take k bs)) = unread b @ take k bs"
    using window_blit [of "nat (readerIndex b)" "nat (wirteIndex b)" "take k bs" "vbuffer b"] k(2) inv'
    by (simp add: unread_def)
  show ?thesis
  proof (cases "length bs \<le> k")
    case True
    let ?b = "b\<lparr>vbuffer := ?v, wirteIndex := wirteIndex b + int (length bs)\<rparr>"
    have "readFd al (Some bs) b = Inr (?b, int (length bs))"
      using True st k inv' by (simp add: readFd_def Let_def)
    moreover have "cbuf_inv ?b" using inv inv' True k(2) by (simp add: cbuf_inv_def)
    moreover have "unread ?b = unread b @ bs" using u True inv' by (simp add: unread_def nat_add_distrib)
    moreover have "growable al ?b n" using room len by (auto simp: growable_def)
    ultimately show ?thesis by blast
  next
    case False
    let ?b = "b\<lparr>vbuffer := ?v, wirteIndex := int (length ?v)\<rparr>" and ?rest = "drop k bs"
    have i: "cbuf_inv ?b" using inv inv' len by (simp add: cbuf_inv_def)
    have "nat (wirteIndex b) + length (take k bs) = length ?v" using False k(2) len by simp
    then have ub: "unread ?b = unread b @ take k bs" using u by (simp add: unread_def)
    have "growable al ?b (length ?rest + n)" using room len by (auto simp: growable_def)
    from put_bytes_ok [OF i this] obtain b' where b': "put_bytes al ?b ?rest = Inr b'" "cbuf_inv b'"
        "unread b' = unread ?b @ ?rest" "growable al b' n"
      by blast
    have "int (length ?rest) = int (length bs) - int k" using False by simp
    with b'(1) have "append_buf al ?rest (int (length bs) - int k) ?b = Inr b'" by (simp add: put_bytes_def)
    then have "readFd al (Some bs) b = Inr (b', int (length bs))"
      using False st k(1) by (simp add: readFd_def Let_def)
    moreover have "unread b' = unread b @ bs" using b'(3) ub by simp
    ultimately show ?thesis using b'(2,4) by blast
  qed
qed

lemma writeFd_eq: "cbuf_inv b \<Longrightarrow> writeFd K f b s = Inr (sys_send K f (unread b) s)"
  by (simp add: writeFd_def load_unread)

section \<open>Any sequence of operations\<close>

text \<open>The three operations on a buffer that the C server has too; \<open>Send\<close> is a write followed by
  the retrieval of what was taken, as \<open>TcpConnection::handleWrite\<close> does.\<close>

fun cxx_step :: "alloc \<Rightarrow> send_oracle \<Rightarrow> int \<Rightarrow> cbuffer \<times> os \<Rightarrow> buf_op \<Rightarrow> (cbuffer \<times> os) result" where
  "cxx_step al K f (b, s) (Append xs) = rbind (put_bytes al b xs) (\<lambda>b'. Inr (b', s))"
| "cxx_step al K f (b, s) (Receive rv) = rbind (readFd al rv b) (\<lambda>(b', _). Inr (b', s))"
| "cxx_step al K f (b, s) Send =
     rbind (writeFd K f b s) (\<lambda>(n, s'). Inr (if 0 < n then retrieve n b else b, s'))"

lemma cxx_step_ok:
  assumes inv: "cbuf_inv b" and K: "send_contract K" and room: "growable al b (length (op_input x) + n)"
  shows "\<exists>b' s'. cxx_step al K f (b, s) x = Inr (b', s') \<and> cbuf_inv b' \<and> growable al b' n \<and>
     wire s' f @ unread b' = wire s f @ unread b @ op_input x"
proof (cases x)
  case (Append xs)
  with put_bytes_ok [OF inv, of al xs n] room show ?thesis by auto
next
  case (Receive rv)
  show ?thesis
  proof (cases rv)
    case None
    with inv room show ?thesis by (simp add: Receive readFd_def)
  next
    case (Some bs)
    with readFd_ok [OF inv, of al bs n] room show ?thesis by (auto simp: Receive)
  qed
next
  case Send
  let ?k = "K (sends s) (length (unread b))"
  have k: "-1 \<le> ?k" "nat ?k \<le> length (unread b)" using K by (auto simp: send_contract_def nat_le_iff)
  show ?thesis
  proof (cases "0 < ?k")
    case True
    have len: "length (vbuffer (retrieve ?k b)) = length (vbuffer b)"
      by (simp add: retrieve_def retrieveAll_def)
    have r: "retrieve ?k b = retrieve (int (nat ?k)) b" using True by simp
    have "growable al (retrieve ?k b) n" using room len by (simp add: growable_def Send)
    then show ?thesis
      using True retrieve_ok [OF inv, of "nat ?k"]
      by (simp add: Send writeFd_eq [OF inv] sys_send_def Let_def r [symmetric])
  next
    case False
    then have "nat ?k = 0" using k(1) by simp
    with False inv room show ?thesis by (simp add: Send writeFd_eq [OF inv] sys_send_def Let_def)
  qed
qed

lemma cxx_run_ok:
  assumes K: "send_contract K"
  shows "cbuf_inv b \<Longrightarrow> growable al b (length (concat (map op_input ops))) \<Longrightarrow>
   \<exists>b' s'. put_all (cxx_step al K f) (b, s) ops = Inr (b', s') \<and> cbuf_inv b' \<and>
     wire s' f @ unread b' = wire s f @ unread b @ concat (map op_input ops)"
proof (induction ops arbitrary: b s)
  case Nil
  then show ?case by simp
next
  case (Cons x ops)
  obtain b1 s1 where 1: "cxx_step al K f (b, s) x = Inr (b1, s1)" "cbuf_inv b1"
      "growable al b1 (length (concat (map op_input ops)))" "wire s1 f @ unread b1 = wire s f @ unread b @ op_input x"
    using cxx_step_ok [OF Cons.prems(1) K, of al x] Cons.prems(2) by fastforce
  from Cons.IH [OF 1(2,3), of s1] 1(1,4) show ?case by fastforce
qed

section \<open>The two buffers of the repository\<close>

text \<open>
  Run side by side, each operation meets the same kernel in both runs: it carries what a \<open>send\<close> made
  in it answers, for every length. The buffer of the C server and this one then hold the same bytes and
  send the same bytes. (A count of the calls would not do: with nothing to send, the C server makes
  none, the library writes 0 bytes.)
\<close>

definition takes_part :: "(nat \<Rightarrow> int) \<Rightarrow> bool" where
  "takes_part answer \<longleftrightarrow> (\<forall>len. 0 \<le> answer len \<and> answer len \<le> int len)"

fun c_meets :: "alloc \<Rightarrow> int \<Rightarrow> buffer \<times> os \<Rightarrow> (nat \<Rightarrow> int) \<times> buf_op \<Rightarrow> (buffer \<times> os) result" where
  "c_meets al f bs (answer, x) = buf_step al (\<lambda>_. answer) f bs x"

fun cxx_meets :: "alloc \<Rightarrow> int \<Rightarrow> cbuffer \<times> os \<Rightarrow> (nat \<Rightarrow> int) \<times> buf_op \<Rightarrow> (cbuffer \<times> os) result" where
  "cxx_meets al f bs (answer, x) = cxx_step al (\<lambda>_. answer) f bs x"

definition same_queue :: "int \<Rightarrow> buffer \<times> os \<Rightarrow> cbuffer \<times> os \<Rightarrow> bool" where
  "same_queue f = (\<lambda>(b, s) (b', s'). buf_inv b \<and> cbuf_inv b' \<and> contents b = unread b' \<and> wire s f = wire s' f)"

lemma same_queue_put:
  assumes "same_queue f (b, s) (b', s')" and "buf_inv b1" and "contents b1 = contents b @ xs"
    and "cbuf_inv b1'" and "unread b1' = unread b' @ xs"
  shows "same_queue f (b1, s) (b1', s')"
  using assms by (simp add: same_queue_def)

lemma cxx_send_eq:
  assumes "cbuf_inv b" and "send_contract K" and "0 \<le> K (sends s) (length (unread b))"
  defines "k \<equiv> nat (K (sends s) (length (unread b)))"
  shows "\<exists>b' s'. cxx_step al K f (b, s) Send = Inr (b', s') \<and> cbuf_inv b' \<and> unread b' = drop k (unread b) \<and>
     wire s' f = wire s f @ take k (unread b) \<and> length (vbuffer b') = length (vbuffer b)"
proof (cases "0 < K (sends s) (length (unread b))")
  case True
  then have "retrieve (K (sends s) (length (unread b))) b = retrieve (int k) b" by (simp add: k_def)
  moreover have "length (vbuffer (retrieve (int k) b)) = length (vbuffer b)"
    by (simp add: retrieve_def retrieveAll_def)
  ultimately show ?thesis
    using True retrieve_ok [OF assms(1), of k] by (simp add: writeFd_eq [OF assms(1)] sys_send_def Let_def k_def)
next
  case False
  with assms show ?thesis by (simp add: writeFd_eq sys_send_def Let_def)
qed

lemma same_step:
  assumes a: "takes_part answer" and K_def: "K = (\<lambda>_. answer)" and rel: "same_queue f (b, s) (b', s')"
    and c: "buf_step al K f (b, s) x = Inr (b1, s1)" and room: "growable al' b' (length (op_input x) + n)"
  shows "\<exists>b1' s1'. cxx_step al' K f (b', s') x = Inr (b1', s1') \<and> same_queue f (b1, s1) (b1', s1') \<and>
     growable al' b1' n"
proof -
  have K: "send_contract K" "\<And>n len. 0 \<le> K n len" using a by (auto simp: K_def takes_part_def send_contract_def intro: order_trans [of "- 1" 0])
  have inv: "buf_inv b" "cbuf_inv b'" "contents b = unread b'" "wire s f = wire s' f"
    using rel by (simp_all add: same_queue_def)
  show ?thesis
  proof (cases x)
    case (Append xs)
    with c have "append_bytes al b xs = Inr b1" "s1 = s" by auto
    with append_bytes_Inr [OF inv(1)] put_bytes_ok [OF inv(2), of al' xs n] room Append
      same_queue_put [OF rel, of b1 xs] show ?thesis by fastforce
  next
    case (Receive rv)
    show ?thesis
    proof (cases rv)
      case None
      with c room rel show ?thesis by (simp add: Receive readFd_def socketReadBuffer_def Let_def)
    next
      case (Some bs)
      with c obtain r where "socketReadBuffer al b (Some bs) = Inr (b1, r)" "s1 = s" by (auto simp: Receive)
      with socketReadBuffer_Inr [OF inv(1)] readFd_ok [OF inv(2), of al' bs n] room Receive Some
        same_queue_put [OF rel, of b1 bs] show ?thesis by fastforce
    qed
  next
    case Send
    have nonneg: "send_contract K" "0 \<le> K (sends s) (length (contents b))" "0 \<le> K (sends s') (length (unread b'))"
      "K (sends s) (length (contents b)) = K (sends s') (length (unread b'))"
      using K inv(3) by (auto simp: K_def)
    obtain r where r: "sendDataBuffer K b f s = Inr (b1, s1, r)" using c by (auto simp: Send)
    have "contents b1 = drop (nat (K (sends s) (length (contents b)))) (contents b) \<and>
        wire s1 f = wire s f @ take (nat (K (sends s) (length (contents b)))) (contents b) \<and> buf_inv b1"
    proof (cases "contents b = []")
      case True
      then show ?thesis using r sendDataBuffer_empty [OF inv(1)] inv(1) by simp
    next
      case False
      then show ?thesis
        using r sendDataBuffer_eq [OF inv(1) False, of K f s] sendDataBuffer_ok [OF inv(1) nonneg(1,2), of f]
        by auto
    qed
    moreover obtain b1' s1' where "cxx_step al' K f (b', s') Send = Inr (b1', s1')" "cbuf_inv b1'"
        "unread b1' = drop (nat (K (sends s') (length (unread b')))) (unread b')"
        "wire s1' f = wire s' f @ take (nat (K (sends s') (length (unread b')))) (unread b')"
        "length (vbuffer b1') = length (vbuffer b')"
      using cxx_send_eq [OF inv(2) nonneg(1,3)] by blast
    moreover from this(5) room have "growable al' b1' n" by (simp add: growable_def Send)
    ultimately show ?thesis
      using inv(3,4) nonneg(4) unfolding Send same_queue_def by fastforce
  qed
qed

lemma same_run:
  "same_queue f (b, s) (b', s') \<Longrightarrow> growable al' b' (length (concat (map (\<lambda>x. op_input (snd x)) ops))) \<Longrightarrow>
   list_all (\<lambda>x. takes_part (fst x)) ops \<Longrightarrow> put_all (c_meets al f) (b, s) ops = Inr (b1, s1) \<Longrightarrow>
   \<exists>b1' s1'. put_all (cxx_meets al' f) (b', s') ops = Inr (b1', s1') \<and> same_queue f (b1, s1) (b1', s1')"
proof (induction ops arbitrary: b s b' s')
  case Nil
  then show ?case by auto
next
  case (Cons o' ops)
  obtain answer x where o': "o' = (answer, x)" by fastforce
  obtain b2 s2 where 2: "buf_step al (\<lambda>_. answer) f (b, s) x = Inr (b2, s2)" "put_all (c_meets al f) (b2, s2) ops = Inr (b1, s1)"
    using Cons.prems(4) by (auto simp: o')
  have a: "takes_part answer" "list_all (\<lambda>x. takes_part (fst x)) ops" using Cons.prems(3) by (simp_all add: o')
  have room: "growable al' b' (length (op_input x) + length (concat (map (\<lambda>x. op_input (snd x)) ops)))"
    using Cons.prems(2) by (simp add: o')
  obtain b2' s2' where 3: "cxx_step al' (\<lambda>_. answer) f (b', s') x = Inr (b2', s2')" "same_queue f (b2, s2) (b2', s2')"
      "growable al' b2' (length (concat (map (\<lambda>x. op_input (snd x)) ops)))"
    using same_step [OF a(1) refl Cons.prems(1) 2(1) room] by blast
  from Cons.IH [OF 3(2,3) a(2) 2(2)] 3(1) show ?case by (simp add: o')
qed

lemma c_meets_stream:
  assumes "buf_inv b" and "list_all (\<lambda>x. takes_part (fst x)) ops" and "put_all (c_meets al f) (b, s) ops = Inr (b1, s1)"
  shows "buf_inv b1 \<and> wire s1 f @ contents b1 = wire s f @ contents b @ concat (map (\<lambda>x. op_input (snd x)) ops)"
  using assms
proof (induction ops arbitrary: b s)
  case Nil
  then show ?case by simp
next
  case (Cons o' ops)
  obtain answer x where o': "o' = (answer, x)" by fastforce
  obtain b2 s2 where 2: "buf_step al (\<lambda>_. answer) f (b, s) x = Inr (b2, s2)" "put_all (c_meets al f) (b2, s2) ops = Inr (b1, s1)"
    using Cons.prems(3) by (auto simp: o')
  have K: "send_contract (\<lambda>_. answer)" "\<And>len. 0 \<le> answer len" using Cons.prems(2)
    by (auto simp: o' takes_part_def send_contract_def intro: order_trans [of _ 0])
  from Cons.IH [OF _ _ 2(2)] buf_step_stream [OF Cons.prems(1) K 2(1)] Cons.prems(2) show ?case by (simp add: o')
qed

section \<open>Properties\<close>

text \<open>
  C29: The buffer of the C++ library is a FIFO, and never fails while there is memory: after any
  sequence of appends, reads and partial writes, errors of the kernel included, the bytes written
  to the descriptor followed by the unread bytes are the initial unread bytes followed by
  everything put in, in order. (Of the buffer of the C server this holds only without failed
  sends, and only for runs that do not fail.)
\<close>

theorem cxx_buffer_is_fifo:
  assumes "cbuf_inv b" and "send_contract K" and "growable al b (length (concat (map op_input ops)))"
  shows "\<exists>b' s'. put_all (cxx_step al K f) (b, s) ops = Inr (b', s') \<and> cbuf_inv b' \<and>
     wire s' f @ unread b' = wire s f @ unread b @ concat (map op_input ops)"
  using cxx_run_ok [OF assms(2,1,3)] .

lemma growable_all: "cbuf_inv b \<Longrightarrow> int (length (vbuffer b)) + int n < 2 ^ 63 \<Longrightarrow> growable (\<lambda>_. True) b n"
  by (simp add: growable_def)

definition empty_cbuffer :: cbuffer where
  "empty_cbuffer = \<lparr>vbuffer = replicate 16 NUL, readerIndex = 8, wirteIndex = 8\<rparr>"

lemma empty_cbuffer_ok: "cbuf_inv empty_cbuffer" "unread empty_cbuffer = []" "n < 1000 \<Longrightarrow> growable (\<lambda>_. True) empty_cbuffer n"
  by (simp_all add: empty_cbuffer_def cbuf_inv_def kChreapPrepend_def unread_def growable_def)

theorem cxx_buffer_is_fifo_witness:
  "\<exists>b' s'. put_all (cxx_step (\<lambda>_. True) (\<lambda>n len. if n = 0 then -1 else min 2 (int len)) 5)
       (empty_cbuffer, \<lparr>wire = (\<lambda>_. []), sends = 0, os_closed = []\<rparr>)
       [Append ''hello'', Send, Receive (Some '' world''), Send, Receive None, Send] = Inr (b', s') \<and>
     wire s' 5 @ unread b' = ''hello world''"
proof -
  let ?K = "\<lambda>n len. if n = 0 then -1 else min 2 (int len)" and ?s = "\<lparr>wire = (\<lambda>_. []), sends = 0, os_closed = []\<rparr>"
  let ?ops = "[Append ''hello'', Send, Receive (Some '' world''), Send, Receive None, Send]"
  have K: "send_contract ?K" by (auto simp: send_contract_def)
  have total: "concat (map op_input ?ops) = ''hello world''" by simp
  have "growable (\<lambda>_. True) empty_cbuffer (length (concat (map op_input ?ops)))"
    unfolding total by (rule empty_cbuffer_ok(3)) simp
  from cxx_buffer_is_fifo [OF empty_cbuffer_ok(1) K this, of 5 ?s]
  show ?thesis unfolding total empty_cbuffer_ok(2) by (simp only: os.simps append_Nil) blast
qed

text \<open>
  C17: The two buffers are interchangeable, on any sequence of operations that the buffer of the C
  server survives and in which none of its sends fails. If each operation meets the same kernel in both
  runs (the same answer to a send of the same length), the one of the library returns too, ends with
  the same unread bytes and has written the same bytes to the descriptor. And over any kernel of its
  own, one that fails included, what it has written followed by its unread bytes is the same.
\<close>

theorem buffers_agree:
  assumes "list_all (\<lambda>x. takes_part (fst x)) ops" and "buf_inv b" and "cbuf_inv b'" and "contents b = unread b'"
    and "growable al' b' (length (concat (map (\<lambda>x. op_input (snd x)) ops)))"
    and "put_all (c_meets al f) (b, s) ops = Inr (b1, s1)"
  shows "(\<exists>b1' s1'. put_all (cxx_meets al' f) (b', s) ops = Inr (b1', s1') \<and> unread b1' = contents b1 \<and> wire s1' f = wire s1 f) \<and>
     (\<forall>K. send_contract K \<longrightarrow> (\<exists>b2 s2. put_all (cxx_step al' K f) (b', s) (map snd ops) = Inr (b2, s2) \<and>
       wire s2 f @ unread b2 = wire s1 f @ contents b1))"
proof
  show "\<exists>b1' s1'. put_all (cxx_meets al' f) (b', s) ops = Inr (b1', s1') \<and> unread b1' = contents b1 \<and> wire s1' f = wire s1 f"
    using same_run [OF _ assms(5,1,6)] assms(2-4) unfolding same_queue_def by fastforce
  show "\<forall>K. send_contract K \<longrightarrow> (\<exists>b2 s2. put_all (cxx_step al' K f) (b', s) (map snd ops) = Inr (b2, s2) \<and>
       wire s2 f @ unread b2 = wire s1 f @ contents b1)"
  proof (intro allI impI)
    fix K :: send_oracle assume "send_contract K"
    with cxx_run_ok [of K b' al' "map snd ops" f s, unfolded map_map comp_def] assms(3,5) c_meets_stream [OF assms(2,1,6)] assms(4)
    show "\<exists>b2 s2. put_all (cxx_step al' K f) (b', s) (map snd ops) = Inr (b2, s2) \<and> wire s2 f @ unread b2 = wire s1 f @ contents b1"
      by auto
  qed
qed

text \<open>A kernel that takes one byte the first time and everything the second.\<close>

theorem buffers_agree_witness:
  "\<exists>b1' s1'. put_all (cxx_meets (\<lambda>_. True) 5) (empty_cbuffer, \<lparr>wire = (\<lambda>_. []), sends = 0, os_closed = []\<rparr>)
       [(int, Append ''OK''), (\<lambda>len. min 1 (int len), Send), (int, Send)] = Inr (b1', s1') \<and>
     wire s1' 5 = ''OK''"
proof -
  let ?ops = "[(int, Append ''OK''), (\<lambda>len. min 1 (int len), Send), (int, Send)]" and ?s = "\<lparr>wire = (\<lambda>_. []), sends = 0, os_closed = []\<rparr>"
  let ?b = "\<lparr>data = replicate 4 NUL, capacity = 4, readPos = 0, writePos = 0\<rparr>"
  let ?s' = "\<lparr>wire = (\<lambda>_. [])(5 := ''OK''), sends = 2, os_closed = []\<rparr>"
  have b: "buf_inv ?b" "contents ?b = []" by (simp_all add: buf_inv_def contents_def int32_def)
  have a: "list_all (\<lambda>x. takes_part (fst x)) ?ops" by (simp add: takes_part_def)
  have r: "put_all (c_meets (\<lambda>_. True) 5) (?b, ?s) ?ops =
      Inr (\<lparr>data = ''OK'' @ replicate 2 NUL, capacity = 4, readPos = 2, writePos = 2\<rparr>, ?s')"
    by (simp add: append_bytes_def appendDataBuffer_def extendRoomBuffer_def bufferWriteAbleSize_def sendDataBuffer_def
        bufferReadAbleSize_def sys_send_def load_def store_def blit_def numeral_2_eq_2 numeral_eq_Suc Let_def)
  have g: "growable (\<lambda>_. True) empty_cbuffer (length (concat (map (\<lambda>x. op_input (snd x)) ?ops)))"
    by (rule empty_cbuffer_ok(3)) simp
  have "contents ?b = unread empty_cbuffer" unfolding b(2) empty_cbuffer_ok(2) ..
  from conjunct1 [OF buffers_agree [OF a b(1) empty_cbuffer_ok(1) this g r]] obtain b1' s1' where
    "put_all (cxx_meets (\<lambda>_. True) 5) (empty_cbuffer, ?s) ?ops = Inr (b1', s1')" "wire s1' 5 = wire ?s' 5" by blast
  moreover have "wire ?s' 5 = ''OK''" by simp
  ultimately have "put_all (cxx_meets (\<lambda>_. True) 5) (empty_cbuffer, ?s) ?ops = Inr (b1', s1') \<and> wire s1' 5 = ''OK''" by (simp only: simp_thms)
  then show ?thesis by (intro exI)
qed

end
