(* ===== verification/Cxx_Connection.thy ===== *)
theory Cxx_Connection
  imports Cxx_Loop Cxx_Buffer
begin

text \<open>
  \<open>TcpConnection.h\<close> and \<open>TcpConnection.cc\<close> of the C++ library. The record \<open>mconn\<close> is a
  connection; \<open>conn_loop\<close> extends a loop by the connections that belong to it, the bytes
  written so far (\<open>cos\<close>), and the descriptors whose sending side has been shut down. A bound
  functor is a \<open>cfunctor\<close>. The callbacks the user sets are an argument \<open>U\<close> (\<open>None\<close> for an
  empty \<open>std::function\<close>, which throws when it is called); the kernel and the allocator are
  the argument \<open>W\<close>, and \<open>self\<close> is the thread that makes a call.
\<close>

section \<open>Connections\<close>

datatype StateE = kConnecting | kConnected | kDisconnectiong | kDisconnected

text \<open>The states in the order a connection goes through them.\<close>

fun state_rank :: "StateE \<Rightarrow> nat" where
  "state_rank kConnecting = 0" | "state_rank kConnected = 1" | "state_rank kDisconnectiong = 2" | "state_rank kDisconnected = 3"

instantiation StateE :: linorder
begin

definition less_eq_StateE :: "StateE \<Rightarrow> StateE \<Rightarrow> bool" where "less_eq_StateE s t \<longleftrightarrow> state_rank s \<le> state_rank t"
definition less_StateE :: "StateE \<Rightarrow> StateE \<Rightarrow> bool" where "less_StateE s t \<longleftrightarrow> state_rank s < state_rank t"

instance
proof
  fix s t u :: StateE
  show "s < t \<longleftrightarrow> s \<le> t \<and> \<not> t \<le> s" "s \<le> s" "s \<le> t \<Longrightarrow> t \<le> u \<Longrightarrow> s \<le> u" "s \<le> t \<or> t \<le> s"
    by (auto simp: less_eq_StateE_def less_StateE_def)
  show "s \<le> t \<Longrightarrow> t \<le> s \<Longrightarrow> s = t"
    by (cases s; cases t) (simp_all add: less_eq_StateE_def)
qed

end

lemma kDisconnected_top [simp]: "s \<le> kDisconnected" "kConnected \<le> kDisconnectiong"
  by (cases s) (simp_all add: less_eq_StateE_def)

record mconn =
  cname :: string
  cstate :: StateE
  csock :: int
  cchan :: nat
  highWaterMark :: int
  inputBuffer :: cbuffer
  outputBuffer :: cbuffer

datatype conn_ref = OnBase nat | OnSub nat nat

datatype cfunctor =
    ConnectEstablished nat
  | SendInLoop nat "string option"
  | ShutdownInLoop nat
  | WriteComplete nat
  | HighWater nat int
  | Listen
  | RemoveInLoop conn_ref
  | ConnectDestroy conn_ref

record conn_loop = "cfunctor cloop" +
  mconns :: "nat \<rightharpoonup> mconn"
  mfresh :: nat
  cos :: os
  shut :: "int list"
  creads :: nat

record cworld =
  cw_al :: alloc
  cw_recv :: "nat \<Rightarrow> int \<Rightarrow> char list option"
  cw_send :: send_oracle
  cw_broken :: "nat \<Rightarrow> bool"

text \<open>The callbacks of the user: \<open>cw_broken n\<close> above says that the n-th write failed with EPIPE or
  ECONNRESET.\<close>

record 's user_calls =
  on_connection :: "(nat \<Rightarrow> 's \<Rightarrow> 's result) option"
  on_message :: "(nat \<Rightarrow> 's \<Rightarrow> 's result) option"
  on_writeComplete :: "(nat \<Rightarrow> 's \<Rightarrow> 's result) option"
  on_highWater :: "(nat \<Rightarrow> int \<Rightarrow> 's \<Rightarrow> 's result) option"
  on_close :: "(nat \<Rightarrow> 's \<Rightarrow> 's result) option"

definition user_call :: "(nat \<Rightarrow> 's \<Rightarrow> 's result) option \<Rightarrow> nat \<Rightarrow> 's \<Rightarrow> 's result" where
  "user_call f c s = (case f of None \<Rightarrow> Inl (Thrown ''bad_function_call'') | Some g \<Rightarrow> g c s)"

definition mconn_at :: "'z conn_loop_scheme \<Rightarrow> nat \<Rightarrow> mconn result" where
  "mconn_at l c = (case mconns l c of None \<Rightarrow> Inl UseAfterFree | Some conn \<Rightarrow> Inr conn)"

definition upd_conn :: "nat \<Rightarrow> (mconn \<Rightarrow> mconn) \<Rightarrow> 'z conn_loop_scheme \<Rightarrow> 'z conn_loop_scheme result" where
  "upd_conn c f l = rbind (mconn_at l c) (\<lambda>conn. Inr (l\<lparr>mconns := (mconns l)(c \<mapsto> f conn)\<rparr>))"

definition setState :: "nat \<Rightarrow> StateE \<Rightarrow> 'z conn_loop_scheme \<Rightarrow> 'z conn_loop_scheme result" where
  "setState c st = upd_conn c (\<lambda>conn. conn\<lparr>cstate := st\<rparr>)"

definition new_TcpConnection ::
  "string \<Rightarrow> int \<Rightarrow> 'z conn_loop_scheme \<Rightarrow> 'z conn_loop_scheme \<times> nat" where
  "new_TcpConnection name sockfd l =
     (let c = mfresh l;
          (l1, a) = add_channel ((new_Channel sockfd)\<lparr>readCallback := Some (ConnRead c),
             writeCallback := Some (ConnWrite c), closeCallback := Some (ConnClose c),
             errorCallback := Some (ConnError c)\<rparr>) l;
          conn = \<lparr>cname = name, cstate = kConnecting, csock = sockfd, cchan = a, highWaterMark = 64 * 1024 * 1024,
             inputBuffer = new_Buffer kInitialSize, outputBuffer = new_Buffer kInitialSize\<rparr>
      in (l1\<lparr>mconns := (mconns l1)(c \<mapsto> conn), mfresh := Suc c\<rparr>, c))"

text \<open>The members go with the object: the channel is freed and the socket closed.\<close>

definition destroy_TcpConnection :: "nat \<Rightarrow> 'z conn_loop_scheme \<Rightarrow> 'z conn_loop_scheme result" where
  "destroy_TcpConnection c l =
     rbind (mconn_at l c) (\<lambda>conn.
       let l1 = free_channel (cchan conn) l in
       Inr (l1\<lparr>mconns := (mconns l1)(c := None),
               cos := (cos l1)\<lparr>os_closed := os_closed (cos l1) @ [csock conn]\<rparr>\<rparr>))"

section \<open>Operations\<close>

definition connectEstablished :: "('z conn_loop_scheme) user_calls \<Rightarrow> nat \<Rightarrow> 'z conn_loop_scheme \<Rightarrow> 'z conn_loop_scheme result" where
  "connectEstablished U c l =
     rbind (setState c kConnected l) (\<lambda>l1.
     rbind (mconn_at l1 c) (\<lambda>conn.
     rbind (set_tie (cchan conn) c l1) (\<lambda>l2.
     rbind (enableReading (cchan conn) l2) (user_call (on_connection U) c))))"

definition connectDestroy :: "('z conn_loop_scheme) user_calls \<Rightarrow> nat \<Rightarrow> 'z conn_loop_scheme \<Rightarrow> 'z conn_loop_scheme result" where
  "connectDestroy U c l =
     rbind (mconn_at l c) (\<lambda>conn.
     rbind (if cstate conn = kConnected
            then rbind (setState c kDisconnected l) (\<lambda>l1.
                 rbind (disableAll (cchan conn) l1) (user_call (on_connection U) c))
            else Inr l) (removeChannel (cchan conn)))"

definition handleClose :: "('z conn_loop_scheme) user_calls \<Rightarrow> nat \<Rightarrow> 'z conn_loop_scheme \<Rightarrow> 'z conn_loop_scheme result" where
  "handleClose U c l =
     rbind (setState c kDisconnected l) (\<lambda>l1.
     rbind (mconn_at l1 c) (\<lambda>conn.
     rbind (disableAll (cchan conn) l1) (\<lambda>l2.
     rbind (user_call (on_connection U) c l2) (user_call (on_close U) c))))"

text \<open>\<open>handleError\<close> asks for the error and logs it.\<close>

definition handleError :: "nat \<Rightarrow> 'z conn_loop_scheme \<Rightarrow> 'z conn_loop_scheme result" where
  "handleError c l = rbind (mconn_at l c) (\<lambda>conn. rbind (cchan_at l (cchan conn)) (\<lambda>_. Inr l))"

definition conn_handleRead ::
  "cworld \<Rightarrow> ('z conn_loop_scheme) user_calls \<Rightarrow> nat \<Rightarrow> 'z conn_loop_scheme \<Rightarrow> 'z conn_loop_scheme result" where
  "conn_handleRead W U c l =
     rbind (mconn_at l c) (\<lambda>conn.
     rbind (cchan_at l (cchan conn)) (\<lambda>ch.
     rbind (readFd (cw_al W) (cw_recv W (creads l) (cfd ch)) (inputBuffer conn)) (\<lambda>(b, n).
     rbind (upd_conn c (\<lambda>conn. conn\<lparr>inputBuffer := b\<rparr>) (l\<lparr>creads := Suc (creads l)\<rparr>)) (\<lambda>l1.
       if 0 < n then user_call (on_message U) c l1
       else if n = 0 then handleClose U c l1
       else handleError c l1))))"

text \<open>\<open>Socket::shutdownWrite\<close>; a failure is only logged.\<close>

definition shutdownWrite :: "int \<Rightarrow> 'z conn_loop_scheme \<Rightarrow> 'z conn_loop_scheme" where
  "shutdownWrite sockfd l = l\<lparr>shut := shut l @ [sockfd]\<rparr>"

declare shutdownWrite_def [simp]

definition shutdownInLoop :: "nat \<Rightarrow> 'z conn_loop_scheme \<Rightarrow> 'z conn_loop_scheme result" where
  "shutdownInLoop c l =
     rbind (mconn_at l c) (\<lambda>conn.
     rbind (cchan_at l (cchan conn)) (\<lambda>ch.
       Inr (if \<not> isWriting ch then shutdownWrite (csock conn) l else l)))"

definition handleWrite ::
  "cworld \<Rightarrow> ('z conn_loop_scheme) user_calls \<Rightarrow> nat \<Rightarrow> nat \<Rightarrow> 'z conn_loop_scheme \<Rightarrow> 'z conn_loop_scheme result" where
  "handleWrite W U self c l =
     rbind (mconn_at l c) (\<lambda>conn.
     rbind (cchan_at l (cchan conn)) (\<lambda>ch.
       if isWriting ch then
         rbind (writeFd (cw_send W) (cfd ch) (outputBuffer conn) (cos l)) (\<lambda>(n, s).
         let l1 = l\<lparr>cos := s\<rparr> in
         if 0 < n then
           (let out = retrieve n (outputBuffer conn) in
            rbind (upd_conn c (\<lambda>conn. conn\<lparr>outputBuffer := out\<rparr>) l1) (\<lambda>l2.
              if readableBytes out = 0 then
                rbind (disableWriting (cchan conn) l2) (\<lambda>l3.
                let l4 = (if on_writeComplete U \<noteq> None then queueInloop self (WriteComplete c) l3 else l3) in
                if cstate conn = kDisconnectiong then shutdownInLoop c l4 else Inr l4)
              else Inr l2))
         else Inr l1)
       else Inr l))"

text \<open>
  \<open>remaining\<close> and \<open>nwrote\<close> after the first write, and whether it failed for good: nothing is
  written when something waits already or the channel is waiting to write.
\<close>

definition first_write ::
  "cworld \<Rightarrow> ('z conn_loop_scheme) user_calls \<Rightarrow> nat \<Rightarrow> nat \<Rightarrow> mconn \<Rightarrow> cchannel \<Rightarrow> string \<Rightarrow>
   'z conn_loop_scheme \<Rightarrow> int \<times> bool \<times> 'z conn_loop_scheme" where
  "first_write W U self c conn ch buf l =
     (if \<not> isWriting ch \<and> readableBytes (outputBuffer conn) = 0 then
        (let nth = sends (cos l); (nwrote, s) = sys_send (cw_send W) (cfd ch) buf (cos l); l1 = l\<lparr>cos := s\<rparr> in
         if 0 \<le> nwrote then
           (nwrote, False,
            if int (length buf) - nwrote = 0 \<and> on_writeComplete U \<noteq> None
            then queueInloop self (WriteComplete c) l1 else l1)
         else (0, cw_broken W nth, l1))
      else (0, False, l))"

definition sendInLoop ::
  "cworld \<Rightarrow> ('z conn_loop_scheme) user_calls \<Rightarrow> nat \<Rightarrow> nat \<Rightarrow> string \<Rightarrow> 'z conn_loop_scheme \<Rightarrow>
   'z conn_loop_scheme result" where
  "sendInLoop W U self c buf l =
     rbind (mconn_at l c) (\<lambda>conn.
       if cstate conn = kDisconnected then Inr l
       else
         rbind (cchan_at l (cchan conn)) (\<lambda>ch.
         case first_write W U self c conn ch buf l of (nwrote, faultError, l1) \<Rightarrow>
         let remaining = int (length buf) - nwrote in
         if \<not> faultError \<and> 0 < remaining then
           (let oldlen = readableBytes (outputBuffer conn);
                l2 = (if highWaterMark conn \<le> oldlen + remaining \<and> oldlen < highWaterMark conn \<and> on_highWater U \<noteq> None
                      then queueInloop self (HighWater c (oldlen + remaining)) l1 else l1) in
            rbind (append_buf (cw_al W) (drop (nat nwrote) buf) remaining (outputBuffer conn)) (\<lambda>out.
            rbind (upd_conn c (\<lambda>conn. conn\<lparr>outputBuffer := out\<rparr>) l2) (\<lambda>l3.
              if \<not> isWriting ch then enableWriting (cchan conn) l3 else Inr l3)))
         else Inr l1))"

text \<open>
  \<open>send\<close> from another thread binds the characters of \<open>buf\<close> by their address: \<open>kept\<close> says
  whether the caller's string is still there when the functor runs.
\<close>

definition send ::
  "cworld \<Rightarrow> ('z conn_loop_scheme) user_calls \<Rightarrow> bool \<Rightarrow> nat \<Rightarrow> nat \<Rightarrow> string \<Rightarrow> 'z conn_loop_scheme \<Rightarrow>
   'z conn_loop_scheme result" where
  "send W U kept self c buf l =
     rbind (mconn_at l c) (\<lambda>conn.
       if cstate conn = kConnected then
         (if isInLoopThread self l then sendInLoop W U self c buf l
          else Inr (queueInloop self (SendInLoop c (if kept then Some buf else None)) l))
       else Inr l)"

definition shutdown :: "nat \<Rightarrow> nat \<Rightarrow> 'z conn_loop_scheme \<Rightarrow> 'z conn_loop_scheme result" where
  "shutdown self c l =
     rbind (mconn_at l c) (\<lambda>conn.
       if cstate conn = kConnected
       then rbind (setState c kDisconnectiong l) (runInloop (\<lambda>_. shutdownInLoop c) self (ShutdownInLoop c))
       else Inr l)"

text \<open>
  Running a functor and handling an event; \<open>srv\<close> and \<open>acc\<close> are the server's part of both.
\<close>

fun exec_functor ::
  "cworld \<Rightarrow> ('z conn_loop_scheme) user_calls \<Rightarrow> (cfunctor \<Rightarrow> 'z conn_loop_scheme \<Rightarrow> 'z conn_loop_scheme result) \<Rightarrow> nat \<Rightarrow>
   cfunctor \<Rightarrow> 'z conn_loop_scheme \<Rightarrow> 'z conn_loop_scheme result" where
  "exec_functor W U srv self (ConnectEstablished c) l = connectEstablished U c l"
| "exec_functor W U srv self (SendInLoop c buf) l =
     (case buf of None \<Rightarrow> Inl UseAfterFree | Some s \<Rightarrow> sendInLoop W U self c s l)"
| "exec_functor W U srv self (ShutdownInLoop c) l = shutdownInLoop c l"
| "exec_functor W U srv self (WriteComplete c) l = user_call (on_writeComplete U) c l"
| "exec_functor W U srv self (HighWater c n) l =
     (case on_highWater U of None \<Rightarrow> Inl (Thrown ''bad_function_call'') | Some g \<Rightarrow> g c n l)"
| "exec_functor W U srv self f l = srv f l"

fun conn_call ::
  "cworld \<Rightarrow> ('z conn_loop_scheme) user_calls \<Rightarrow> ('z conn_loop_scheme \<Rightarrow> 'z conn_loop_scheme result) \<Rightarrow> nat \<Rightarrow>
   chandler \<Rightarrow> 'z conn_loop_scheme \<Rightarrow> 'z conn_loop_scheme result" where
  "conn_call W U acc self LoopRead l = Inr (loop_handleRead l)"
| "conn_call W U acc self AcceptRead l = acc l"
| "conn_call W U acc self (ConnRead c) l = conn_handleRead W U c l"
| "conn_call W U acc self (ConnWrite c) l = handleWrite W U self c l"
| "conn_call W U acc self (ConnClose c) l = handleClose U c l"
| "conn_call W U acc self (ConnError c) l = handleError c l"

definition conn_alive :: "'z conn_loop_scheme \<Rightarrow> nat \<Rightarrow> bool" where
  "conn_alive l c \<longleftrightarrow> mconns l c \<noteq> None"

section \<open>What the operations leave alone\<close>

lemma reactor_inv_cong:
  assumes "channels l' = channels l" "pepoll l' = pepoll l" "prefuses l' = prefuses l" "cheap l' = cheap l" "cfresh l' = cfresh l"
  shows "reactor_inv l' \<longleftrightarrow> reactor_inv l"
  using assms by (simp add: reactor_inv_defs chan_ok_def)

lemma inv_fields [simp]:
  "reactor_inv (l\<lparr>mconns := m\<rparr>) = reactor_inv l" "reactor_inv (l\<lparr>cos := s\<rparr>) = reactor_inv l"
  "reactor_inv (l\<lparr>shut := fs\<rparr>) = reactor_inv l" "reactor_inv (l\<lparr>creads := n\<rparr>) = reactor_inv l"
  by (rule reactor_inv_cong; simp)+

lemma queueInloop_fields [simp]:
  "channels (queueInloop self f l) = channels l" "pepoll (queueInloop self f l) = pepoll l"
  "prefuses (queueInloop self f l) = prefuses l" "cheap (queueInloop self f l) = cheap l"
  "cfresh (queueInloop self f l) = cfresh l" "ctid (queueInloop self f l) = ctid l"
  "calling (queueInloop self f l) = calling l" "pending (queueInloop self f l) = pending l @ [f]"
  by (simp_all add: queueInloop_def wakeup_def Let_def)

lemma queueInloop_conn [simp]:
  "mconns (queueInloop self f l) = mconns l" "cos (queueInloop self f l) = cos l"
  "shut (queueInloop self f l) = shut l" "creads (queueInloop self f l) = creads l" "mfresh (queueInloop self f l) = mfresh l"
  by (simp_all add: queueInloop_def wakeup_def Let_def)

lemma queueInloop_inv [simp]: "reactor_inv (queueInloop self f l) = reactor_inv l"
  by (rule reactor_inv_cong) simp_all

lemma set_events_ok:
  assumes "reactor_inv l" and "cheap l a = Some ch"
  shows "\<exists>m w ch'. set_events a f l = Inr (l\<lparr>channels := m, pepoll := w, cheap := (cheap l)(a \<mapsto> ch')\<rparr>) \<and>
     reactor_inv (l\<lparr>channels := m, pepoll := w, cheap := (cheap l)(a \<mapsto> ch')\<rparr>) \<and>
     cevents ch' = f (cevents ch) \<and> cfd ch' = cfd ch \<and> same_calls ch ch' \<and> tie ch' = tie ch \<and> tied ch' = tied ch \<and>
     (cevents ch' \<noteq> 0 \<longrightarrow> w (cfd ch) = Some (cevents ch', a)) \<and> (\<forall>g. g \<noteq> cfd ch \<longrightarrow> w g = pepoll l g)"
proof -
  let ?ch = "ch\<lparr>cevents := f (cevents ch)\<rparr>"
  have r: "set_events a f l = Inr (registered a ?ch l)" by (rule set_events_eq [OF assms])
  have inv: "reactor_inv (registered a ?ch l)" by (rule registered_inv [OF assms]) simp_all
  have "\<exists>m w ch'. registered a ?ch l = l\<lparr>channels := m, pepoll := w, cheap := (cheap l)(a \<mapsto> ch')\<rparr> \<and>
     cevents ch' = f (cevents ch) \<and> cfd ch' = cfd ch \<and> same_calls ch ch' \<and> tie ch' = tie ch \<and> tied ch' = tied ch \<and>
     (cevents ch' \<noteq> 0 \<longrightarrow> w (cfd ch) = Some (cevents ch', a)) \<and> (\<forall>g. g \<noteq> cfd ch \<longrightarrow> w g = pepoll l g)"
  proof (cases "cindex ?ch = kAdded \<and> isNoneEvent ?ch")
    case True
    then show ?thesis
      by (intro exI [of _ "channels l"] exI [of _ "(pepoll l)(cfd ch := None)"] exI [of _ "?ch\<lparr>cindex := kDeleted\<rparr>"])
        (auto simp: registered_def same_calls_def isNoneEvent_def kNoneEvent_def)
  next
    case False
    then show ?thesis
      by (intro exI [of _ "(channels l)(cfd ch \<mapsto> a)"] exI [of _ "(pepoll l)(cfd ch \<mapsto> (f (cevents ch), a))"]
          exI [of _ "?ch\<lparr>cindex := kAdded\<rparr>"]) (auto simp: registered_def same_calls_def)
  qed
  then obtain m w ch' where 1: "registered a ?ch l = l\<lparr>channels := m, pepoll := w, cheap := (cheap l)(a \<mapsto> ch')\<rparr>"
      "cevents ch' = f (cevents ch) \<and> cfd ch' = cfd ch \<and> same_calls ch ch' \<and> tie ch' = tie ch \<and> tied ch' = tied ch \<and>
       (cevents ch' \<noteq> 0 \<longrightarrow> w (cfd ch) = Some (cevents ch', a)) \<and> (\<forall>g. g \<noteq> cfd ch \<longrightarrow> w g = pepoll l g)"
    by blast
  with r inv show ?thesis by (intro exI [of _ m] exI [of _ w] exI [of _ ch']) simp
qed

lemma isWriting_bit: "isWriting ch \<longleftrightarrow> bit (cevents ch) 2"
  using and_exp_eq_0_iff_not_bit [of "cevents ch" 2] by (simp add: isWriting_def kWriteEvent_def EPOLLOUT_def)

lemma event_bits_cxx: "bit kWriteEvent n \<longleftrightarrow> n = 2" "\<not> bit kReadEvent 2"
  using bit_exp_iff [where 'a = "32 word", of 2 n]
  by (auto simp: kWriteEvent_def EPOLLOUT_def possible_bit_def kReadEvent_def EPOLLIN_def EPOLLPRI_def bit_iff_odd_drop_bit drop_bit_eq_div)

section \<open>An open connection\<close>

text \<open>
  The connection, its channel and its buffers are well formed, and whatever waits to be sent is
  waited for: the channel is watched for writing.
\<close>

definition open_conn :: "'z conn_loop_scheme \<Rightarrow> nat \<Rightarrow> mconn \<Rightarrow> cchannel \<Rightarrow> bool" where
  "open_conn l c conn ch \<longleftrightarrow> reactor_inv l \<and> mconns l c = Some conn \<and> cheap l (cchan conn) = Some ch \<and>
     cfd ch = csock conn \<and> cbuf_inv (inputBuffer conn) \<and> cbuf_inv (outputBuffer conn) \<and>
     (unread (outputBuffer conn) \<noteq> [] \<longrightarrow> isWriting ch)"

lemma open_connD:
  assumes "open_conn l c conn ch"
  shows "mconn_at l c = Inr conn" "cchan_at l (cchan conn) = Inr ch" "reactor_inv l"
    "cbuf_inv (outputBuffer conn)" "cbuf_inv (inputBuffer conn)" "cfd ch = csock conn"
  using assms by (simp_all add: open_conn_def mconn_at_def)

lemma upd_conn_Some: "mconns l c = Some conn \<Longrightarrow> upd_conn c f l = Inr (l\<lparr>mconns := (mconns l)(c \<mapsto> f conn)\<rparr>)"
  by (simp add: upd_conn_def mconn_at_def)

lemma open_conn_queue [simp]: "open_conn (queueInloop self f l) c conn ch = open_conn l c conn ch"
  by (simp add: open_conn_def)

lemma open_conn_cos [simp]: "open_conn (l\<lparr>cos := s\<rparr>) c conn ch = open_conn l c conn ch"
  by (simp add: open_conn_def)

lemma empty_output: "cbuf_inv b \<Longrightarrow> readableBytes b = 0 \<longleftrightarrow> unread b = []"
  using length_unread [of b] by fastforce

text \<open>Storing an output buffer and, when asked, switching writing on.\<close>

lemma store_output:
  assumes oc: "open_conn l c conn ch" and b: "cbuf_inv b"
  shows "\<exists>l' ch'. (rbind (upd_conn c (\<lambda>conn. conn\<lparr>outputBuffer := b\<rparr>) l) (\<lambda>l3.
       if \<not> isWriting ch then enableWriting (cchan conn) l3 else Inr l3)) = Inr l' \<and>
     open_conn l' c (conn\<lparr>outputBuffer := b\<rparr>) ch' \<and> cos l' = cos l \<and> shut l' = shut l \<and> isWriting ch' \<and> pending l' = pending l"
proof -
  note oc' = oc [unfolded open_conn_def]
  let ?conn = "conn\<lparr>outputBuffer := b\<rparr>" and ?l = "l\<lparr>mconns := (mconns l)(c \<mapsto> conn\<lparr>outputBuffer := b\<rparr>)\<rparr>"
  have u: "upd_conn c (\<lambda>conn. conn\<lparr>outputBuffer := b\<rparr>) l = Inr ?l" using oc' by (simp add: upd_conn_Some)
  show ?thesis
  proof (cases "isWriting ch")
    case True
    have "open_conn ?l c ?conn ch" using oc' b True by (simp add: open_conn_def)
    with u True show ?thesis by auto
  next
    case False
    have i: "reactor_inv ?l" "cheap ?l (cchan conn) = Some ch" using oc' by simp_all
    from set_events_ok [OF i, of "\<lambda>e. e OR kWriteEvent"] obtain m w ch' where
      e: "enableWriting (cchan conn) ?l = Inr (?l\<lparr>channels := m, pepoll := w, cheap := (cheap ?l)(cchan conn \<mapsto> ch')\<rparr>)"
        "reactor_inv (?l\<lparr>channels := m, pepoll := w, cheap := (cheap ?l)(cchan conn \<mapsto> ch')\<rparr>)"
        "cevents ch' = cevents ch OR kWriteEvent" "cfd ch' = cfd ch"
      unfolding enableWriting_def by blast
    have w: "isWriting ch'" by (simp add: isWriting_bit e(3) bit_or_iff event_bits_cxx)
    have "open_conn (?l\<lparr>channels := m, pepoll := w, cheap := (cheap ?l)(cchan conn \<mapsto> ch')\<rparr>) c ?conn ch'"
      using oc' b w e(2,4) by (simp add: open_conn_def)
    with u False e(1) w show ?thesis by auto
  qed
qed

section \<open>Sending\<close>

text \<open>
  Unless the connection is broken or gone, the bytes on the wire followed by those that wait are
  extended by exactly what is sent.
\<close>

lemma first_write_ok:
  assumes oc: "open_conn l c conn ch" and K: "send_contract (cw_send W)" "\<forall>n. \<not> cw_broken W n"
  shows "\<exists>nwrote l1. first_write W U self c conn ch buf l = (nwrote, False, l1) \<and>
     open_conn l1 c conn ch \<and> 0 \<le> nwrote \<and> nat nwrote \<le> length buf \<and> shut l1 = shut l \<and>
     wire (cos l1) (csock conn) @ unread (outputBuffer conn) =
       wire (cos l) (csock conn) @ unread (outputBuffer conn) @ take (nat nwrote) buf"
proof (cases "\<not> isWriting ch \<and> readableBytes (outputBuffer conn) = 0")
  case True
  note oc' = open_connD [OF oc]
  let ?k = "cw_send W (sends (cos l)) (length buf)"
  have empty: "unread (outputBuffer conn) = []" using empty_output [OF oc'(4)] True by simp
  have k: "nat ?k \<le> length buf" using K(1) by (auto simp: send_contract_def nat_le_iff)
  show ?thesis
  proof (cases "0 \<le> ?k")
    case True2: True
    show ?thesis using True True2 k oc empty oc'(6) by (simp add: first_write_def sys_send_def Let_def)
  next
    case False
    then have "nat ?k = 0" by simp
    then show ?thesis using True False K(2) oc empty by (simp add: first_write_def sys_send_def Let_def)
  qed
next
  case False
  then show ?thesis using oc by (auto simp: first_write_def)
qed

lemma sendInLoop_stream:
  assumes oc: "open_conn l c conn ch" and st: "cstate conn \<noteq> kDisconnected"
    and K: "send_contract (cw_send W)" "\<forall>n. \<not> cw_broken W n"
    and room: "growable (cw_al W) (outputBuffer conn) (length buf + m)"
  shows "\<exists>l' out ch'. sendInLoop W U self c buf l = Inr l' \<and> open_conn l' c (conn\<lparr>outputBuffer := out\<rparr>) ch' \<and>
     growable (cw_al W) out m \<and>
     wire (cos l') (csock conn) @ unread out = wire (cos l) (csock conn) @ unread (outputBuffer conn) @ buf \<and> shut l' = shut l"
proof -
  note oc' = open_connD [OF oc]
  obtain nwrote l1 where fw: "first_write W U self c conn ch buf l = (nwrote, False, l1)"
    "open_conn l1 c conn ch" "0 \<le> nwrote" "nat nwrote \<le> length buf" "shut l1 = shut l"
    "wire (cos l1) (csock conn) @ unread (outputBuffer conn) = wire (cos l) (csock conn) @ unread (outputBuffer conn) @ take (nat nwrote) buf"
    using first_write_ok [OF oc K] by blast
  let ?rest = "drop (nat nwrote) buf" and ?n = "int (length buf) - nwrote"
  have n: "?n = int (length ?rest)" using fw(3,4) by simp
  show ?thesis
  proof (cases "?rest = []")
    case True
    then have "sendInLoop W U self c buf l = Inr l1" using st fw n by (simp add: sendInLoop_def oc')
    moreover have "take (nat nwrote) buf = buf" using True by simp
    moreover have "conn\<lparr>outputBuffer := outputBuffer conn\<rparr> = conn" by simp
    moreover have "growable (cw_al W) (outputBuffer conn) m" using room by (auto simp: growable_def)
    ultimately show ?thesis using fw(2,5,6) by metis
  next
    case False
    have "growable (cw_al W) (outputBuffer conn) (length ?rest + m)" using room by (auto simp: growable_def)
    from put_bytes_ok [OF oc'(4) this] obtain out where out: "append_buf (cw_al W) ?rest ?n (outputBuffer conn) = Inr out"
        "cbuf_inv out" "unread out = unread (outputBuffer conn) @ ?rest" "growable (cw_al W) out m"
      unfolding put_bytes_def n by blast
    define l2 where "l2 = (if highWaterMark conn \<le> readableBytes (outputBuffer conn) + ?n \<and>
        readableBytes (outputBuffer conn) < highWaterMark conn \<and> on_highWater U \<noteq> None
      then queueInloop self (HighWater c (readableBytes (outputBuffer conn) + ?n)) l1 else l1)"
    have l2: "open_conn l2 c conn ch" "cos l2 = cos l1" "shut l2 = shut l1" using fw(2) by (simp_all add: l2_def)
    from store_output [OF l2(1) out(2)] obtain l3 ch' where l3:
      "rbind (upd_conn c (\<lambda>conn. conn\<lparr>outputBuffer := out\<rparr>) l2) (\<lambda>l3.
         if \<not> isWriting ch then enableWriting (cchan conn) l3 else Inr l3) = Inr l3"
      "open_conn l3 c (conn\<lparr>outputBuffer := out\<rparr>) ch'" "cos l3 = cos l2" "shut l3 = shut l2"
      by blast
    have "0 < ?n" using False n by simp
    then have "sendInLoop W U self c buf l = Inr l3"
      using st fw(1) out(1) l3(1) by (simp add: sendInLoop_def oc' Let_def l2_def del: rbind_Inr_iff split: if_splits)
    moreover have "wire (cos l3) (csock conn) @ unread out = wire (cos l) (csock conn) @ unread (outputBuffer conn) @ buf"
      using fw(6) out(3) l3(3) l2(2) by (metis append.assoc append_take_drop_id)
    ultimately show ?thesis using l3(2,4) l2(3) fw(5) out(4) by metis
  qed
qed

section \<open>Reading\<close>

lemma handleRead_some:
  assumes oc: "open_conn l c conn ch" and rv: "cw_recv W (creads l) (csock conn) = Some bs"
    and room: "growable (cw_al W) (inputBuffer conn) (length bs)"
  shows "\<exists>b l1. l1 = l\<lparr>creads := Suc (creads l), mconns := (mconns l)(c \<mapsto> conn\<lparr>inputBuffer := b\<rparr>)\<rparr> \<and>
     unread b = unread (inputBuffer conn) @ bs \<and> open_conn l1 c (conn\<lparr>inputBuffer := b\<rparr>) ch \<and>
     conn_handleRead W U c l = (if bs = [] then handleClose U c l1 else user_call (on_message U) c l1)"
proof -
  note oc' = open_connD [OF oc]
  obtain b where b: "readFd (cw_al W) (Some bs) (inputBuffer conn) = Inr (b, int (length bs))" "cbuf_inv b"
    "unread b = unread (inputBuffer conn) @ bs"
    using readFd_ok [OF oc'(5), of "cw_al W" bs 0] room by auto
  define l1 where "l1 = l\<lparr>creads := Suc (creads l), mconns := (mconns l)(c \<mapsto> conn\<lparr>inputBuffer := b\<rparr>)\<rparr>"
  have "upd_conn c (\<lambda>conn. conn\<lparr>inputBuffer := b\<rparr>) (l\<lparr>creads := Suc (creads l)\<rparr>) = Inr l1"
    using oc by (simp add: open_conn_def upd_conn_Some l1_def)
  then have "conn_handleRead W U c l = (if bs = [] then handleClose U c l1 else user_call (on_message U) c l1)"
    by (simp add: conn_handleRead_def oc' rv b(1))
  moreover have "open_conn l1 c (conn\<lparr>inputBuffer := b\<rparr>) ch" using oc b(2) by (simp add: open_conn_def l1_def)
  ultimately show ?thesis using b(3) l1_def by blast
qed

section \<open>Writing what waits\<close>

text \<open>
  What \<open>handleWrite\<close> does when the kernel takes \<open>k\<close> bytes: none of them stays in the buffer,
  and once the buffer is empty, reading is switched off and writing stays on.
\<close>

lemma handleWrite_nothing:
  assumes oc: "open_conn l c conn ch" and K: "cw_send W (sends (cos l)) (length (unread (outputBuffer conn))) \<le> 0"
    "isWriting ch"
  shows "handleWrite W U self c l = Inr (l\<lparr>cos := (cos l)\<lparr>sends := Suc (sends (cos l))\<rparr>\<rparr>)"
proof -
  note oc' = open_connD [OF oc]
  have "nat (cw_send W (sends (cos l)) (length (unread (outputBuffer conn)))) = 0" using K(1) by simp
  then show ?thesis
    using K by (simp add: handleWrite_def oc' writeFd_eq [OF oc'(4)] sys_send_def Let_def)
qed

lemma handleWrite_some:
  assumes oc: "open_conn l c conn ch" and w: "isWriting ch" and k: "0 < k" "k \<le> length (unread (outputBuffer conn))"
    and K: "cw_send W (sends (cos l)) (length (unread (outputBuffer conn))) = int k"
  shows "\<exists>l' out ch'. handleWrite W U self c l = Inr l' \<and> open_conn l' c (conn\<lparr>outputBuffer := out\<rparr>) ch' \<and>
     unread out = drop k (unread (outputBuffer conn)) \<and> length (vbuffer out) = length (vbuffer (outputBuffer conn)) \<and>
     wire (cos l') (csock conn) = wire (cos l) (csock conn) @ take k (unread (outputBuffer conn)) \<and> shut l' = shut l \<and>
     cevents ch' = (if unread out = [] then cevents ch AND NOT kReadEvent else cevents ch) \<and>
     (unread out = [] \<longrightarrow> pepoll l' (csock conn) = Some (cevents ch', cchan conn))"
proof -
  note oc' = open_connD [OF oc]
  let ?b = "outputBuffer conn" and ?out = "retrieve (int k) (outputBuffer conn)"
  let ?conn = "conn\<lparr>outputBuffer := ?out\<rparr>"
  note out = retrieve_ok [OF oc'(4), of k]
  have len: "length (vbuffer ?out) = length (vbuffer ?b)" by (simp add: retrieve_def retrieveAll_def)
  define s where "s = snd (sys_send (cw_send W) (csock conn) (unread ?b) (cos l))"
  have ws: "wire s (csock conn) = wire (cos l) (csock conn) @ take k (unread ?b)"
    by (simp add: s_def sys_send_def Let_def K)
  have sys: "sys_send (cw_send W) (csock conn) (unread ?b) (cos l) = (int k, s)"
    by (simp add: s_def sys_send_def Let_def K)
  let ?l2 = "l\<lparr>cos := s, mconns := (mconns l)(c \<mapsto> ?conn)\<rparr>"
  have u: "upd_conn c (\<lambda>conn. conn\<lparr>outputBuffer := ?out\<rparr>) (l\<lparr>cos := s\<rparr>) = Inr ?l2"
    using oc by (simp add: open_conn_def upd_conn_Some)
  have oc2: "open_conn ?l2 c ?conn ch" using oc out w by (simp add: open_conn_def)
  show ?thesis
  proof (cases "unread ?out = []")
    case False
    then have "readableBytes ?out \<noteq> 0" using empty_output [OF out(1)] by simp
    then have "handleWrite W U self c l = Inr ?l2"
      using w k(1) u by (simp add: handleWrite_def oc' writeFd_eq [OF oc'(4)] sys Let_def)
    then show ?thesis using oc2 out len ws False by (intro exI [of _ ?l2] exI [of _ ?out] exI [of _ ch]) simp
  next
    case True
    then have r0: "readableBytes ?out = 0" using empty_output [OF out(1)] by simp
    have "cheap ?l2 (cchan conn) = Some ch" using oc by (simp add: open_conn_def)
    from set_events_ok [OF open_connD(3) [OF oc2] this, of "\<lambda>e. e AND NOT kReadEvent"]
    obtain m e ch' where dis: "disableWriting (cchan conn) ?l2 = Inr (?l2\<lparr>channels := m, pepoll := e, cheap := (cheap ?l2)(cchan conn \<mapsto> ch')\<rparr>)"
        "reactor_inv (?l2\<lparr>channels := m, pepoll := e, cheap := (cheap ?l2)(cchan conn \<mapsto> ch')\<rparr>)"
        "cevents ch' = cevents ch AND NOT kReadEvent" "cfd ch' = cfd ch" "cevents ch' \<noteq> 0 \<longrightarrow> e (cfd ch) = Some (cevents ch', cchan conn)"
      unfolding disableWriting_def by blast
    define l3 where "l3 = ?l2\<lparr>channels := m, pepoll := e, cheap := (cheap ?l2)(cchan conn \<mapsto> ch')\<rparr>"
    have w': "isWriting ch'" using w by (simp add: isWriting_bit dis(3) bit_and_iff bit_not_iff event_bits_cxx possible_bit_def)
    have oc3: "open_conn l3 c ?conn ch'" using oc2 dis(2,4) w' by (simp add: open_conn_def l3_def)
    define l4 where "l4 = (if on_writeComplete U \<noteq> None then queueInloop self (WriteComplete c) l3 else l3)"
    have oc4: "open_conn l4 c ?conn ch'" "cos l4 = s" "shut l4 = shut l" using oc3 by (simp_all add: l4_def l3_def)
    have "cevents ch' \<noteq> 0" using w' by (auto simp: isWriting_def)
    with dis(5) oc'(6) have reg: "pepoll l4 (csock conn) = Some (cevents ch', cchan conn)" by (simp add: l4_def l3_def)
    have sh: "shutdownInLoop c l4 = Inr l4" using open_connD [OF oc4(1)] w' by (simp add: shutdownInLoop_def)
    have "handleWrite W U self c l = (if cstate conn = kDisconnectiong then shutdownInLoop c l4 else Inr l4)"
      using w k(1) u r0 dis(1)
      by (simp add: handleWrite_def oc' writeFd_eq [OF oc'(4)] sys Let_def l4_def l3_def del: rbind_Inr_iff)
    then have "handleWrite W U self c l = Inr l4" by (simp add: sh)
    then show ?thesis
      using oc4 out len ws dis(3) True reg by (intro exI [of _ l4] exI [of _ ?out] exI [of _ ch']) simp
  qed
qed

text \<open>Sends and writable events in any order.\<close>

datatype conn_op = Say string | Writable

fun conn_do ::
  "cworld \<Rightarrow> ('z conn_loop_scheme) user_calls \<Rightarrow> nat \<Rightarrow> nat \<Rightarrow> 'z conn_loop_scheme \<Rightarrow> conn_op \<Rightarrow> 'z conn_loop_scheme result" where
  "conn_do W U self c l (Say s) = sendInLoop W U self c s l"
| "conn_do W U self c l Writable = handleWrite W U self c l"

fun said :: "conn_op \<Rightarrow> string" where
  "said (Say s) = s"
| "said Writable = []"

lemma conn_do_stream:
  assumes oc: "open_conn l c conn ch" and st: "cstate conn \<noteq> kDisconnected"
    and K: "send_contract (cw_send W)" "\<forall>n. \<not> cw_broken W n"
    and room: "growable (cw_al W) (outputBuffer conn) (length (said x) + m)"
  shows "\<exists>l' out ch'. conn_do W U self c l x = Inr l' \<and> open_conn l' c (conn\<lparr>outputBuffer := out\<rparr>) ch' \<and>
     growable (cw_al W) out m \<and>
     wire (cos l') (csock conn) @ unread out = wire (cos l) (csock conn) @ unread (outputBuffer conn) @ said x \<and> shut l' = shut l"
proof (cases x)
  case (Say s)
  with sendInLoop_stream [OF oc st K, of s m U self] room show ?thesis by simp
next
  case Writable
  let ?k = "cw_send W (sends (cos l)) (length (unread (outputBuffer conn)))"
  have self_conn: "conn\<lparr>outputBuffer := outputBuffer conn\<rparr> = conn" by simp
  have room': "growable (cw_al W) (outputBuffer conn) m" using room Writable by simp
  consider (off) "\<not> isWriting ch" | (none) "isWriting ch" "?k \<le> 0" | (some) "isWriting ch" "0 < ?k" by linarith
  then show ?thesis
  proof cases
    case off
    have "conn_do W U self c l x = Inr l"
      using off open_connD [OF oc] by (simp add: Writable handleWrite_def)
    then show ?thesis using oc room' self_conn Writable by (metis append_Nil2 said.simps(2))
  next
    case none
    from handleWrite_nothing [OF oc none(2,1), of U self] oc room' self_conn Writable show ?thesis
      by (intro exI [of _ "l\<lparr>cos := (cos l)\<lparr>sends := Suc (sends (cos l))\<rparr>\<rparr>"] exI [of _ "outputBuffer conn"] exI [of _ ch]) simp
  next
    case some
    have k: "0 < nat ?k" "nat ?k \<le> length (unread (outputBuffer conn))" "?k = int (nat ?k)"
      using some(2) K(1) by (auto simp: send_contract_def nat_le_iff)
    from handleWrite_some [OF oc some(1) k, of U self] obtain l' out ch' where
      r: "handleWrite W U self c l = Inr l'" "open_conn l' c (conn\<lparr>outputBuffer := out\<rparr>) ch'"
        "unread out = drop (nat ?k) (unread (outputBuffer conn))" "length (vbuffer out) = length (vbuffer (outputBuffer conn))"
        "wire (cos l') (csock conn) = wire (cos l) (csock conn) @ take (nat ?k) (unread (outputBuffer conn))" "shut l' = shut l"
      by blast
    have "growable (cw_al W) out m" using room' r(4) by (simp add: growable_def)
    then show ?thesis using r Writable by (intro exI [of _ l'] exI [of _ out] exI [of _ ch']) simp
  qed
qed

lemma conn_run_stream:
  assumes K: "send_contract (cw_send W)" "\<forall>n. \<not> cw_broken W n"
  shows "open_conn l c conn ch \<Longrightarrow> cstate conn \<noteq> kDisconnected \<Longrightarrow>
   growable (cw_al W) (outputBuffer conn) (length (concat (map said ops))) \<Longrightarrow>
   \<exists>l' out ch'. put_all (conn_do W U self c) l ops = Inr l' \<and> open_conn l' c (conn\<lparr>outputBuffer := out\<rparr>) ch' \<and>
     wire (cos l') (csock conn) @ unread out =
       wire (cos l) (csock conn) @ unread (outputBuffer conn) @ concat (map said ops) \<and> shut l' = shut l"
proof (induction ops arbitrary: l conn ch)
  case Nil
  then show ?case by (intro exI [of _ l] exI [of _ "outputBuffer conn"] exI [of _ ch]) simp
next
  case (Cons x ops)
  obtain l1 out1 ch1 where 1: "conn_do W U self c l x = Inr l1" "open_conn l1 c (conn\<lparr>outputBuffer := out1\<rparr>) ch1"
    "growable (cw_al W) out1 (length (concat (map said ops)))"
    "wire (cos l1) (csock conn) @ unread out1 = wire (cos l) (csock conn) @ unread (outputBuffer conn) @ said x" "shut l1 = shut l"
    using conn_do_stream [OF Cons.prems(1,2) K, of x "length (concat (map said ops))" U self] Cons.prems(3) by auto
  from Cons.IH [OF 1(2)] 1(3) Cons.prems(2) obtain l2 out2 ch2 where
    2: "put_all (conn_do W U self c) l1 ops = Inr l2" "open_conn l2 c (conn\<lparr>outputBuffer := out2\<rparr>) ch2"
      "wire (cos l2) (csock conn) @ unread out2 = wire (cos l1) (csock conn) @ unread out1 @ concat (map said ops)" "shut l2 = shut l1"
    by auto
  have "wire (cos l2) (csock conn) @ unread out2 =
      wire (cos l) (csock conn) @ unread (outputBuffer conn) @ concat (map said (x # ops))"
    using 1(4) 2(3) by (metis append.assoc concat.simps(2) list.simps(9))
  with 1(1,5) 2 show ?case by (intro exI [of _ l2] exI [of _ out2] exI [of _ ch2]) simp
qed

section \<open>What every operation respects\<close>

text \<open>
  A reflexive and transitive relation between the states of a loop that the elementary changes
  respect (of a channel, of a connection whose state may go from \<open>s\<close> to any \<open>t\<close> with
  \<open>le s t\<close>, of the counters, and queuing a functor) is respected by every operation on a connection.
\<close>

locale conn_relation =
  fixes R :: "'z conn_loop_scheme \<Rightarrow> 'z conn_loop_scheme \<Rightarrow> bool" and le :: "StateE \<Rightarrow> StateE \<Rightarrow> bool"
  assumes refl: "R l l" and trans: "R l l1 \<Longrightarrow> R l1 l2 \<Longrightarrow> R l l2"
    and le: "le st st" "le st kDisconnected" "le kConnected kDisconnectiong"
    and channel: "set_events a g l = Inr l' \<Longrightarrow> R l l'" "set_tie a obj l = Inr l' \<Longrightarrow> R l l'" "removeChannel a l = Inr l' \<Longrightarrow> R l l'"
    and conn: "upd_conn c f l = Inr l' \<Longrightarrow> (\<And>conn. mconns l c = Some conn \<Longrightarrow>
      le (cstate conn) (cstate (f conn)) \<and> csock (f conn) = csock conn \<and> cchan (f conn) = cchan conn) \<Longrightarrow> R l l'"
    and fields: "R l (l\<lparr>cos := s\<rparr>)" "R l (l\<lparr>shut := fs\<rparr>)" "R l (l\<lparr>creads := n\<rparr>)"
    and queue: "R l (queueInloop self q l)"
begin

lemma setState_rel:
  "setState c st l = Inr l' \<Longrightarrow> (\<And>conn. mconns l c = Some conn \<Longrightarrow> le (cstate conn) st) \<Longrightarrow> R l l'"
  unfolding setState_def by (erule conn) simp

lemma buffers_rel:
  "upd_conn c (\<lambda>conn. conn\<lparr>outputBuffer := b\<rparr>) l = Inr l' \<Longrightarrow> R l l'"
  "upd_conn c (\<lambda>conn. conn\<lparr>inputBuffer := b\<rparr>) l = Inr l' \<Longrightarrow> R l l'"
  by (erule conn, simp add: le)+

lemma shutdownInLoop_rel:
  assumes "shutdownInLoop c l = Inr l'"
  shows "R l l'"
proof -
  obtain conn :: mconn and ch where "Inr (if \<not> isWriting ch then l\<lparr>shut := shut l @ [csock conn]\<rparr> else l) = (Inr l' :: 'z conn_loop_scheme result)"
    using assms unfolding shutdownInLoop_def shutdownWrite_def rbind_Inr_iff by (elim exE conjE) (rule that)
  then show ?thesis by (cases "isWriting ch") (auto intro: refl fields)
qed

lemma shutdown_rel:
  assumes "shutdown self c l = Inr l'"
  shows "R l l'"
proof (cases "mconns l c")
  case None
  with assms show ?thesis by (simp add: shutdown_def mconn_at_def)
next
  case (Some conn)
  show ?thesis
  proof (cases "cstate conn = kConnected")
    case True
    then obtain l1 where 1: "setState c kDisconnectiong l = Inr l1"
      "runInloop (\<lambda>_. shutdownInLoop c) self (ShutdownInLoop c) l1 = Inr l'"
      using assms Some by (auto simp: shutdown_def mconn_at_def)
    have "R l l1" using 1(1) by (rule setState_rel) (simp add: Some True le)
    moreover have "R l1 l'"
      using 1(2) shutdownInLoop_rel [of c l1 l'] by (auto simp: runInloop_def intro: queue split: if_splits)
    ultimately show ?thesis by (rule trans)
  qed (use assms Some in \<open>simp add: shutdown_def mconn_at_def refl\<close>)
qed

lemma first_write_rel: "first_write W U self c conn ch buf l = (n, broken, l1) \<Longrightarrow> R l l1"
  by (auto simp: first_write_def sys_send_def Let_def refl fields queue trans [OF fields(1) queue] split: if_splits)

lemma sendInLoop_rel:
  assumes r: "sendInLoop W U self c buf l = Inr l'"
  shows "R l l'"
proof -
  obtain conn where conn: "mconn_at l c = Inr conn" using r by (auto simp: sendInLoop_def)
  show ?thesis
  proof (cases "cstate conn = kDisconnected")
    case True
    with r conn show ?thesis by (simp add: sendInLoop_def refl)
  next
    case False
    obtain ch where ch: "cchan_at l (cchan conn) = Inr ch"
      using r conn False unfolding sendInLoop_def by (cases "cchan_at l (cchan conn)") simp_all
    obtain n broken l1 where fw: "first_write W U self c conn ch buf l = (n, broken, l1)"
      by (cases "first_write W U self c conn ch buf l")
    have 1: "R l l1" using fw by (rule first_write_rel)
    show ?thesis
    proof (cases "\<not> broken \<and> 0 < int (length buf) - n")
      case True
      define l2 where "l2 = (if highWaterMark conn \<le> readableBytes (outputBuffer conn) + (int (length buf) - n) \<and>
          readableBytes (outputBuffer conn) < highWaterMark conn \<and> on_highWater U \<noteq> None
        then queueInloop self (HighWater c (readableBytes (outputBuffer conn) + (int (length buf) - n))) l1 else l1)"
      have 2: "R l1 l2" by (simp add: l2_def refl queue)
      have "rbind (append_buf (cw_al W) (drop (nat n) buf) (int (length buf) - n) (outputBuffer conn)) (\<lambda>out.
          rbind (upd_conn c (\<lambda>conn. conn\<lparr>outputBuffer := out\<rparr>) l2) (\<lambda>l3.
            if \<not> isWriting ch then enableWriting (cchan conn) l3 else Inr l3)) = Inr l'"
        using r True False
        by (simp add: sendInLoop_def conn ch fw Let_def l2_def del: rbind_Inr_iff split: if_splits)
      then obtain out l3 where "upd_conn c (\<lambda>conn. conn\<lparr>outputBuffer := out\<rparr>) l2 = Inr l3"
        and e: "(if \<not> isWriting ch then enableWriting (cchan conn) l3 else Inr l3) = Inr l'"
        unfolding rbind_Inr_iff by (elim exE conjE) (rule that)
      then have 3: "R l2 l3" by (intro buffers_rel)
      have "R l3 l'" using e channel(1) by (cases "isWriting ch") (auto simp: enableWriting_def refl)
      with 1 2 3 show ?thesis by (blast intro: trans)
    next
      case False2: False
      have "l' = l1" using r False False2 by (auto simp: sendInLoop_def conn ch fw Let_def)
      with 1 show ?thesis by simp
    qed
  qed
qed

lemma handleWrite_rel:
  assumes r: "handleWrite W U self c l = Inr l'"
  shows "R l l'"
proof -
  obtain conn where conn: "mconn_at l c = Inr conn" using r by (auto simp: handleWrite_def)
  obtain ch where ch: "cchan_at l (cchan conn) = Inr ch"
    using r conn unfolding handleWrite_def by (cases "cchan_at l (cchan conn)") simp_all
  show ?thesis
  proof (cases "isWriting ch")
    case False
    with r show ?thesis by (simp add: handleWrite_def conn ch refl)
  next
    case True
    obtain n s where w: "writeFd (cw_send W) (cfd ch) (outputBuffer conn) (cos l) = Inr (n, s)"
      using r True conn ch unfolding handleWrite_def by (cases "writeFd (cw_send W) (cfd ch) (outputBuffer conn) (cos l)") auto
    define l1 where "l1 = l\<lparr>cos := s\<rparr>"
    have 1: "R l l1" by (simp add: l1_def fields)
    show ?thesis
    proof (cases "0 < n")
      case False
      with r True 1 show ?thesis by (simp add: handleWrite_def conn ch w Let_def l1_def)
    next
      case pos: True
      define out where "out = retrieve n (outputBuffer conn)"
      have "rbind (upd_conn c (\<lambda>conn. conn\<lparr>outputBuffer := out\<rparr>) l1) (\<lambda>l2.
          if readableBytes out = 0 then rbind (disableWriting (cchan conn) l2) (\<lambda>l3.
            if cstate conn = kDisconnectiong
            then shutdownInLoop c (if on_writeComplete U \<noteq> None then queueInloop self (WriteComplete c) l3 else l3)
            else Inr (if on_writeComplete U \<noteq> None then queueInloop self (WriteComplete c) l3 else l3)) else Inr l2) = Inr l'"
        using r True pos by (simp add: handleWrite_def conn ch w l1_def out_def Let_def del: rbind_Inr_iff not_None_eq cong del: if_weak_cong)
      then obtain l2 where l2: "upd_conn c (\<lambda>conn. conn\<lparr>outputBuffer := out\<rparr>) l1 = Inr l2"
        and rest: "(if readableBytes out = 0 then rbind (disableWriting (cchan conn) l2) (\<lambda>l3.
            if cstate conn = kDisconnectiong
            then shutdownInLoop c (if on_writeComplete U \<noteq> None then queueInloop self (WriteComplete c) l3 else l3)
            else Inr (if on_writeComplete U \<noteq> None then queueInloop self (WriteComplete c) l3 else l3)) else Inr l2) = Inr l'"
        unfolding rbind_Inr_iff [of "upd_conn c (\<lambda>conn. conn\<lparr>outputBuffer := out\<rparr>) l1"] by blast
      have 2: "R l1 l2" using l2 by (rule buffers_rel(1))
      show ?thesis
      proof (cases "readableBytes out = 0")
        case False
        with rest 1 2 show ?thesis by (auto intro: trans)
      next
        case z: True
        obtain l3 where l3: "set_events (cchan conn) (\<lambda>e. e AND NOT kReadEvent) l2 = Inr l3"
          "(if cstate conn = kDisconnectiong
            then shutdownInLoop c (if on_writeComplete U \<noteq> None then queueInloop self (WriteComplete c) l3 else l3)
            else Inr (if on_writeComplete U \<noteq> None then queueInloop self (WriteComplete c) l3 else l3)) = Inr l'"
          using rest unfolding if_P [OF z] disableWriting_def rbind_Inr_iff [of "set_events (cchan conn) (\<lambda>e. e AND NOT kReadEvent) l2"] by blast
        define l4 where "l4 = (if on_writeComplete U \<noteq> None then queueInloop self (WriteComplete c) l3 else l3)"
        have "R l2 l3" using l3(1) by (rule channel)
        moreover have "R l3 l4" by (simp add: l4_def refl queue)
        moreover have "R l4 l'"
          using l3(2) shutdownInLoop_rel [of c l4 l'] unfolding l4_def [symmetric]
          by (auto simp: refl split: if_splits)
        ultimately show ?thesis using 1 2 by (blast intro: trans)
      qed
    qed
  qed
qed

lemma send_rel: "send W U kept self c buf l = Inr l' \<Longrightarrow> R l l'"
  by (auto simp: send_def intro: refl queue sendInLoop_rel split: if_splits)

end

text \<open>The same with callbacks of the user that respect the relation.\<close>

locale conn_callbacks = conn_relation R le
  for R :: "'z conn_loop_scheme \<Rightarrow> 'z conn_loop_scheme \<Rightarrow> bool" and le +
  fixes U :: "('z conn_loop_scheme) user_calls"
  assumes callbacks: "f \<in> {on_connection U, on_message U, on_writeComplete U, on_close U} \<Longrightarrow> f = Some g \<Longrightarrow>
      g c l = Inr l' \<Longrightarrow> R l l'"
    and highWater: "on_highWater U = Some h \<Longrightarrow> h c n l = Inr l' \<Longrightarrow> R l l'"
begin

lemma user_call_rel:
  assumes "user_call f c l = Inr l'" and "f \<in> {on_connection U, on_message U, on_writeComplete U, on_close U}"
  shows "R l l'"
  using assms callbacks [OF assms(2)] by (cases f) (auto simp: user_call_def)

lemma handleClose_rel:
  assumes "handleClose U c l = Inr l'"
  shows "R l l'"
proof -
  obtain l1 l2 l3 and conn :: mconn where 1: "setState c kDisconnected l = Inr l1" "set_events (cchan conn) (\<lambda>e. kNoneEvent) l1 = Inr l2"
    "user_call (on_connection U) c l2 = Inr l3" "user_call (on_close U) c l3 = Inr l'"
    using assms unfolding handleClose_def disableAll_def rbind_Inr_iff by (elim exE conjE) (rule that)
  have "R l l1" using 1(1) by (rule setState_rel) (rule le)
  moreover have "R l1 l2" using 1(2) by (rule channel)
  moreover have "R l2 l3" using 1(3) by (rule user_call_rel) simp
  moreover have "R l3 l'" using 1(4) by (rule user_call_rel) simp
  ultimately show ?thesis by (blast intro: trans)
qed

lemma handleRead_rel:
  assumes "conn_handleRead W U c l = Inr l'"
  shows "R l l'"
proof -
  obtain b n l1 where 1: "upd_conn c (\<lambda>conn. conn\<lparr>inputBuffer := b\<rparr>) (l\<lparr>creads := Suc (creads l)\<rparr>) = Inr l1"
    "(if 0 < n then user_call (on_message U) c l1 else if n = (0 :: int) then handleClose U c l1 else handleError c l1) = Inr l'"
    using assms by (auto simp: conn_handleRead_def)
  have "R l (l\<lparr>creads := Suc (creads l)\<rparr>)" by (rule fields)
  moreover have "R (l\<lparr>creads := Suc (creads l)\<rparr>) l1" by (rule buffers_rel(2) [OF 1(1)])
  moreover have "R l1 l'"
    using 1(2) user_call_rel [of "on_message U" c l1 l'] handleClose_rel [of c l1 l']
    by (auto simp: handleError_def refl split: if_splits)
  ultimately show ?thesis by (blast intro: trans)
qed

lemma connectDestroy_rel:
  assumes "connectDestroy U c l = Inr l'"
  shows "R l l'"
proof -
  obtain conn l1 where 1: "mconn_at l c = Inr conn" "removeChannel (cchan conn) l1 = Inr l'"
    "(if cstate conn = kConnected then rbind (setState c kDisconnected l) (\<lambda>l1.
       rbind (disableAll (cchan conn) l1) (user_call (on_connection U) c)) else Inr l) = Inr l1"
    using assms unfolding connectDestroy_def rbind_Inr_iff by (elim exE conjE) (rule that)
  have "R l l1"
  proof (cases "cstate conn = kConnected")
    case True
    with 1(3) obtain l2 l3 where 2: "setState c kDisconnected l = Inr l2" "set_events (cchan conn) (\<lambda>e. kNoneEvent) l2 = Inr l3"
      "user_call (on_connection U) c l3 = Inr l1"
      unfolding disableAll_def if_P [OF True] rbind_Inr_iff by (elim exE conjE) (rule that)
    have "R l l2" using 2(1) by (rule setState_rel) (rule le)
    moreover have "R l2 l3" using 2(2) by (rule channel)
    moreover have "R l3 l1" using 2(3) by (rule user_call_rel) simp
    ultimately show ?thesis by (blast intro: trans)
  qed (use 1(3) in \<open>simp add: refl\<close>)
  then show ?thesis using channel(3) [OF 1(2)] by (rule trans)
qed

lemma connectEstablished_rel:
  assumes "connectEstablished U c l = Inr l'" and "\<And>conn. mconns l c = Some conn \<Longrightarrow> le (cstate conn) kConnected"
  shows "R l l'"
proof -
  obtain l1 l2 l3 and conn :: mconn where 1: "setState c kConnected l = Inr l1" "set_tie (cchan conn) c l1 = Inr l2"
    "set_events (cchan conn) (\<lambda>e. e OR kReadEvent) l2 = Inr l3" "user_call (on_connection U) c l3 = Inr l'"
    using assms(1) unfolding connectEstablished_def enableReading_def rbind_Inr_iff by (elim exE conjE) (rule that)
  have "R l l1" using 1(1) assms(2) by (rule setState_rel)
  moreover have "R l1 l2" using 1(2) by (rule channel)
  moreover have "R l2 l3" using 1(3) by (rule channel)
  moreover have "R l3 l'" using 1(4) by (rule user_call_rel) simp
  ultimately show ?thesis by (blast intro: trans)
qed

lemma conn_call_rel: "conn_call W U acc self h l = Inr l' \<Longrightarrow> h \<notin> {AcceptRead, LoopRead} \<Longrightarrow> R l l'"
  by (cases h) (auto simp: handleError_def intro: fields handleRead_rel handleWrite_rel handleClose_rel refl)

lemma exec_functor_rel:
  assumes "exec_functor W U srv self f l = Inr l'" and "\<And>l'. srv f l = Inr l' \<Longrightarrow> R l l'"
    and "\<And>c conn. f = ConnectEstablished c \<Longrightarrow> mconns l c = Some conn \<Longrightarrow> le (cstate conn) kConnected"
  shows "R l l'"
proof (cases f)
  case (HighWater c n)
  with assms(1) show ?thesis by (auto split: option.splits intro: highWater)
next
  case (WriteComplete c)
  with assms(1) show ?thesis using user_call_rel [of "on_writeComplete U"] by simp
next
  case (SendInLoop c b)
  with assms(1) show ?thesis by (auto split: option.splits intro: sendInLoop_rel)
qed (use assms in \<open>auto intro: shutdownInLoop_rel connectEstablished_rel\<close>)

end

section \<open>The state only moves forward\<close>

text \<open>
  \<open>advances l l'\<close>: every connection is still there, with its socket and channel, in the same
  state or a later one.
\<close>

definition advances :: "'z conn_loop_scheme \<Rightarrow> 'z conn_loop_scheme \<Rightarrow> bool" where
  "advances l l' \<longleftrightarrow> (\<forall>c conn. mconns l c = Some conn \<longrightarrow>
     (\<exists>conn'. mconns l' c = Some conn' \<and> cstate conn \<le> cstate conn' \<and> csock conn' = csock conn \<and> cchan conn' = cchan conn))"

lemma advances_same: "mconns l' = mconns l \<Longrightarrow> advances l l'"
  by (simp add: advances_def)

lemma poller_mconns:
  "upd_chan a g l = Inr l' \<Longrightarrow> mconns l' = mconns l"
  "poller_update op a l = Inr l' \<Longrightarrow> mconns l' = mconns l"
  by (auto simp: upd_chan_def poller_update_def kernel_ctl_def split: if_splits ctl_op.splits)

lemma updateChannel_mconns: "updateChannel a l = Inr l' \<Longrightarrow> mconns l' = mconns l"
  by (auto simp: updateChannel_def Let_def dest!: poller_mconns split: if_splits)

lemma channel_mconns:
  "set_events a g l = Inr l' \<Longrightarrow> mconns l' = mconns l"
  "set_tie a obj l = Inr l' \<Longrightarrow> mconns l' = mconns l"
  "removeChannel a l = Inr l' \<Longrightarrow> mconns l' = mconns l"
  by (auto simp: set_events_def set_tie_def removeChannel_def Let_def dest!: poller_mconns updateChannel_mconns split: if_splits)

interpretation forward: conn_relation advances "(\<le>)"
proof
  fix l l1 l2 :: "'z conn_loop_scheme"
  assume 1: "advances l l1" and 2: "advances l1 l2"
  show "advances l l2"
    unfolding advances_def
  proof (intro allI impI)
    fix c conn assume "mconns l c = Some conn"
    with 1 obtain c1 where c1: "mconns l1 c = Some c1" "cstate conn \<le> cstate c1" "csock c1 = csock conn" "cchan c1 = cchan conn"
      by (auto simp: advances_def)
    with 2 obtain c2 where "mconns l2 c = Some c2" "cstate c1 \<le> cstate c2" "csock c2 = csock c1" "cchan c2 = cchan c1"
      unfolding advances_def by blast
    with c1 show "\<exists>conn'. mconns l2 c = Some conn' \<and> cstate conn \<le> cstate conn' \<and> csock conn' = csock conn \<and> cchan conn' = cchan conn"
      using order_trans by auto
  qed
next
  fix c f and l l' :: "'z conn_loop_scheme"
  assume "upd_conn c f l = Inr l'" and "\<And>conn. mconns l c = Some conn \<Longrightarrow>
    cstate conn \<le> cstate (f conn) \<and> csock (f conn) = csock conn \<and> cchan (f conn) = cchan conn"
  then show "advances l l'" by (auto simp: upd_conn_def mconn_at_def advances_def split: option.splits)
qed (auto intro!: advances_same dest: channel_mconns)

section \<open>Functors are only added\<close>

text \<open>While functors run: the queue of the loop grows at its end, and the loop has been woken up then.\<close>

definition keeps_queue :: "'z conn_loop_scheme \<Rightarrow> 'z conn_loop_scheme \<Rightarrow> bool" where
  "keeps_queue l l' \<longleftrightarrow> (calling l \<longrightarrow> queues_more l l')"

definition same_queue_fields :: "'z conn_loop_scheme \<Rightarrow> 'z conn_loop_scheme \<Rightarrow> bool" where
  "same_queue_fields l l' \<longleftrightarrow> calling l' = calling l \<and> ctid l' = ctid l \<and> pending l' = pending l \<and> wakeups l' = wakeups l"

lemma keeps_queue_same: "same_queue_fields l l' \<Longrightarrow> keeps_queue l l'"
  by (simp add: keeps_queue_def queues_more_def same_queue_fields_def)

lemma channel_queue:
  "upd_chan a g l = Inr l' \<Longrightarrow> same_queue_fields l l'"
  "poller_update op a l = Inr l' \<Longrightarrow> same_queue_fields l l'"
  by (auto simp: upd_chan_def poller_update_def kernel_ctl_def same_queue_fields_def split: if_splits ctl_op.splits)

lemma updateChannel_queue: "updateChannel a l = Inr l' \<Longrightarrow> same_queue_fields l l'"
  by (auto simp: updateChannel_def Let_def dest!: channel_queue split: if_splits) (auto simp: same_queue_fields_def)

lemma channel_keeps_queue:
  "set_events a g l = Inr l' \<Longrightarrow> same_queue_fields l l'"
  "set_tie a obj l = Inr l' \<Longrightarrow> same_queue_fields l l'"
  "removeChannel a l = Inr l' \<Longrightarrow> same_queue_fields l l'"
  by (auto simp: set_events_def set_tie_def removeChannel_def Let_def dest!: channel_queue updateChannel_queue split: if_splits)
    (auto simp: same_queue_fields_def)

interpretation queueing: conn_relation keeps_queue "\<lambda>_ _. True"
proof
  fix l l1 l2 :: "'z conn_loop_scheme"
  assume "keeps_queue l l1" and "keeps_queue l1 l2"
  then show "keeps_queue l l2" unfolding keeps_queue_def by (metis queues_more_def queues_more_trans)
next
  fix self q and l :: "'z conn_loop_scheme"
  show "keeps_queue l (queueInloop self q l)" by (simp add: keeps_queue_def queueInloop_more)
next
  fix c f and l l' :: "'z conn_loop_scheme"
  assume "upd_conn c f l = Inr l'"
  then show "keeps_queue l l'"
    by (intro keeps_queue_same) (auto simp: upd_conn_def mconn_at_def same_queue_fields_def split: option.splits)
qed (auto intro: keeps_queue_same channel_keeps_queue simp: same_queue_fields_def)

section \<open>A new connection is open\<close>

lemma new_conn_open:
  assumes inv: "reactor_inv l" and free: "\<forall>a ch. cheap l a = Some ch \<longrightarrow> cfd ch \<noteq> f" "\<not> prefuses l f"
    and new: "new_TcpConnection name f l = (l', c)"
  shows "\<exists>conn ch. open_conn l' c conn ch \<and> cstate conn = kConnecting \<and> csock conn = f \<and>
     unread (outputBuffer conn) = [] \<and> cevents ch = 0 \<and> outputBuffer conn = new_Buffer kInitialSize \<and>
     inputBuffer conn = new_Buffer kInitialSize \<and> cname conn = name \<and> c = mfresh l \<and> cchan conn = cfresh l \<and>
     readCallback ch = Some (ConnRead c) \<and>
     l' = l\<lparr>cheap := (cheap l)(cfresh l \<mapsto> ch), cfresh := Suc (cfresh l), mconns := (mconns l)(c \<mapsto> conn), mfresh := Suc (mfresh l)\<rparr>"
proof -
  define ch where "ch = (new_Channel f)\<lparr>readCallback := Some (ConnRead (mfresh l)), writeCallback := Some (ConnWrite (mfresh l)),
     closeCallback := Some (ConnClose (mfresh l)), errorCallback := Some (ConnError (mfresh l))\<rparr>"
  define conn where "conn = \<lparr>cname = name, cstate = kConnecting, csock = f, cchan = cfresh l, highWaterMark = 64 * 1024 * 1024,
     inputBuffer = new_Buffer kInitialSize, outputBuffer = new_Buffer kInitialSize\<rparr>"
  have l': "l' = (fst (add_channel ch l))\<lparr>mconns := (mconns l)(mfresh l \<mapsto> conn), mfresh := Suc (mfresh l)\<rparr>" "c = mfresh l"
    using new by (auto simp: new_TcpConnection_def Let_def add_channel_def ch_def conn_def)
  have "reactor_inv (fst (add_channel ch l))"
    by (rule add_channel_inv [OF inv free]) (simp_all add: ch_def new_Channel_def kNew_def)
  then have i: "reactor_inv l'" unfolding l'(1) by (subst reactor_inv_cong) simp_all
  have "0 \<le> kInitialSize" "kInitialSize < 2 ^ 32" by (simp_all add: kInitialSize_def)
  note b = new_Buffer_ok [OF this]
  have "open_conn l' c conn ch"
    using i b unfolding open_conn_def by (simp add: l' conn_def ch_def add_channel_def new_Channel_def)
  then show ?thesis
    using b by (intro exI [of _ conn] exI [of _ ch]) (simp add: l' conn_def ch_def new_Channel_def add_channel_def)
qed

lemma isReading_or:
  assumes "cevents ch = e OR kReadEvent"
  shows "isReading ch"
proof -
  have "(e OR kReadEvent) AND kReadEvent = kReadEvent" by (rule bit_eqI) (auto simp: bit_or_iff bit_and_iff)
  then show ?thesis by (simp add: isReading_def assms kReadEvent_def EPOLLIN_def EPOLLPRI_def)
qed

text \<open>\<open>connectEstablished\<close>, with a callback that changes nothing.\<close>

lemma connectEstablished_open:
  assumes oc: "open_conn l c conn ch" and U: "on_connection U = Some g" "\<And>l. g c l = Inr l"
  shows "\<exists>m w ch'. connectEstablished U c l = Inr (l\<lparr>mconns := (mconns l)(c \<mapsto> conn\<lparr>cstate := kConnected\<rparr>), channels := m,
        pepoll := w, cheap := (cheap l)(cchan conn \<mapsto> ch')\<rparr>) \<and>
     open_conn (l\<lparr>mconns := (mconns l)(c \<mapsto> conn\<lparr>cstate := kConnected\<rparr>), channels := m,
        pepoll := w, cheap := (cheap l)(cchan conn \<mapsto> ch')\<rparr>) c (conn\<lparr>cstate := kConnected\<rparr>) ch' \<and>
     isReading ch' \<and> tie ch' = Some c \<and> tied ch' \<and> cevents ch' = cevents ch OR kReadEvent \<and> same_calls ch ch' \<and>
     w (csock conn) = Some (cevents ch', cchan conn)"
proof -
  let ?conn = "conn\<lparr>cstate := kConnected\<rparr>"
  define l1 where "l1 = l\<lparr>mconns := (mconns l)(c \<mapsto> ?conn)\<rparr>"
  define tch where "tch = ch\<lparr>tie := Some c, tied := True\<rparr>"
  define l2 where "l2 = l1\<lparr>cheap := (cheap l1)(cchan conn \<mapsto> tch)\<rparr>"
  note oc' = oc [unfolded open_conn_def]
  have 1: "setState c kConnected l = Inr l1" "mconn_at l1 c = Inr ?conn"
    using oc' by (simp_all add: setState_def upd_conn_Some mconn_at_def l1_def)
  have i1: "reactor_inv l1" "cheap l1 (cchan conn) = Some ch" using oc' by (simp_all add: l1_def)
  have 2: "set_tie (cchan conn) c l1 = Inr l2" "reactor_inv l2"
    using upd_chan_inv [OF i1, of "\<lambda>ch. ch\<lparr>tie := Some c, tied := True\<rparr>"] by (auto simp: set_tie_def l2_def tch_def)
  have "cheap l2 (cchan conn) = Some tch" by (simp add: l2_def)
  from set_events_ok [OF 2(2) this, of "\<lambda>e. e OR kReadEvent"] obtain m w ch' where
    3: "enableReading (cchan conn) l2 = Inr (l2\<lparr>channels := m, pepoll := w, cheap := (cheap l2)(cchan conn \<mapsto> ch')\<rparr>)"
      "reactor_inv (l2\<lparr>channels := m, pepoll := w, cheap := (cheap l2)(cchan conn \<mapsto> ch')\<rparr>)"
      "cevents ch' = cevents tch OR kReadEvent" "cfd ch' = cfd tch" "tie ch' = tie tch" "tied ch' = tied tch" "same_calls tch ch'"
      "cevents ch' \<noteq> 0 \<longrightarrow> w (cfd tch) = Some (cevents ch', cchan conn)"
    unfolding enableReading_def by blast
  define l3 where "l3 = l2\<lparr>channels := m, pepoll := w, cheap := (cheap l2)(cchan conn \<mapsto> ch')\<rparr>"
  have "connectEstablished U c l = Inr l3"
    using 1 2(1) 3(1) U by (simp add: connectEstablished_def user_call_def l3_def)
  moreover have e: "cevents ch' = cevents ch OR kReadEvent" using 3(3) by (simp add: tch_def)
  moreover have "isWriting ch' = isWriting ch" by (simp add: isWriting_bit e bit_or_iff event_bits_cxx)
  moreover from this have "open_conn l3 c ?conn ch'"
    using oc' 3(2,4) by (simp add: open_conn_def l3_def l2_def l1_def tch_def)
  moreover have "w (csock conn) = Some (cevents ch', cchan conn)"
    using 3(8) isReading_or [OF e] oc' by (auto simp: isReading_def tch_def)
  ultimately show ?thesis
    using 3(5-7) isReading_or [OF e] by (intro exI [of _ m] exI [of _ w] exI [of _ ch']) (simp add: l3_def l2_def l1_def tch_def same_calls_def)
qed

section \<open>Properties\<close>

text \<open>
  C7: A connection delivers what is sent on it, once, in order and without gaps: after any sequence
  of sends and writable events, with a kernel that takes any part of each write, the bytes on the
  wire followed by those waiting in the output buffer are what was there before followed by
  everything sent; none of these calls fails; and as long as bytes wait, the connection is
  watched for writing.
\<close>

theorem connection_stream:
  assumes "open_conn l c conn ch" and "cstate conn \<noteq> kDisconnected"
    and "send_contract (cw_send W)" and "\<forall>n. \<not> cw_broken W n"
    and "growable (cw_al W) (outputBuffer conn) (length (concat (map said ops)))"
  shows "\<exists>l' out ch'. put_all (conn_do W U self c) l ops = Inr l' \<and> open_conn l' c (conn\<lparr>outputBuffer := out\<rparr>) ch' \<and>
     wire (cos l') (csock conn) @ unread out = wire (cos l) (csock conn) @ unread (outputBuffer conn) @ concat (map said ops) \<and>
     (unread out \<noteq> [] \<longrightarrow> isWriting ch')"
proof -
  obtain l' out ch' where r: "put_all (conn_do W U self c) l ops = Inr l'" "open_conn l' c (conn\<lparr>outputBuffer := out\<rparr>) ch'"
    "wire (cos l') (csock conn) @ unread out = wire (cos l) (csock conn) @ unread (outputBuffer conn) @ concat (map said ops)"
    using conn_run_stream [OF assms(3,4,1,2,5)] by metis
  from r(2) have "unread out \<noteq> [] \<longrightarrow> isWriting ch'" by (simp add: open_conn_def)
  with r show ?thesis by blast
qed

text \<open>A loop with one connection, on descriptor 7; its output buffer is \<open>b\<close>.\<close>

definition one_conn :: "StateE \<Rightarrow> cbuffer \<Rightarrow> mconn" where
  "one_conn st b = \<lparr>cname = ''c'', cstate = st, csock = 7, cchan = 0, highWaterMark = 64, inputBuffer = empty_cbuffer, outputBuffer = b\<rparr>"

definition one_loop :: "cchannel \<Rightarrow> mconn \<Rightarrow> conn_loop" where
  "one_loop ch conn = \<lparr>channels = [7 \<mapsto> 0], pepoll = [7 \<mapsto> (cevents ch, 0)], prefuses = (\<lambda>_. False), pevents = 16,
     cheap = [0 \<mapsto> ch], cfresh = 1, looping = True, quit = False, ctid = 1, wakefd = 3, wakechan = 9, wakeups = 0,
     calling = False, pending = [], mconns = [0 \<mapsto> conn], mfresh = 1,
     cos = \<lparr>wire = (\<lambda>_. []), sends = 0, os_closed = []\<rparr>, shut = [], creads = 0\<rparr>"

definition one_chan :: "32 word \<Rightarrow> cchannel" where
  "one_chan e = (new_Channel 7)\<lparr>cindex := kAdded, cevents := e\<rparr>"

lemma one_open: "cbuf_inv b \<Longrightarrow> unread b \<noteq> [] \<Longrightarrow> isWriting (one_chan e) \<Longrightarrow>
    open_conn (one_loop (one_chan e) (one_conn st b)) 0 (one_conn st b) (one_chan e)"
  "cbuf_inv b \<Longrightarrow> unread b = [] \<Longrightarrow> open_conn (one_loop (one_chan e) (one_conn st b)) 0 (one_conn st b) (one_chan e)"
  by (auto simp: open_conn_def one_loop_def one_conn_def one_chan_def reactor_inv_defs chan_ok_def new_Channel_def
      index_states empty_cbuffer_ok)

definition two_at_a_time :: cworld where
  "two_at_a_time = \<lparr>cw_al = (\<lambda>_. True), cw_recv = (\<lambda>_ _. None), cw_send = (\<lambda>_ len. min 2 (int len)), cw_broken = (\<lambda>_. False)\<rparr>"

lemma two_at_a_time: "send_contract (cw_send two_at_a_time)" "\<forall>n. \<not> cw_broken two_at_a_time n"
  by (auto simp: send_contract_def two_at_a_time_def)

theorem connection_stream_witness:
  "\<exists>l' out. put_all (conn_do two_at_a_time \<lparr>on_connection = None, on_message = None, on_writeComplete = None,
       on_highWater = None, on_close = None\<rparr> 1 0)
     (one_loop (one_chan kReadEvent) (one_conn kConnected empty_cbuffer)) [Say ''hello'', Say ''!'', Writable] = Inr l' \<and>
     wire (cos l') 7 @ unread out = ''hello!''"
proof -
  let ?conn = "one_conn kConnected empty_cbuffer"
  have t: "concat (map said [Say ''hello'', Say ''!'', Writable]) = ''hello!''" by simp
  have "growable (cw_al two_at_a_time) (outputBuffer ?conn) (length (concat (map said [Say ''hello'', Say ''!'', Writable])))"
    unfolding t one_conn_def two_at_a_time_def cworld.simps mconn.simps by (rule empty_cbuffer_ok(3)) simp
  moreover have "cstate ?conn \<noteq> kDisconnected" by (simp add: one_conn_def)
  moreover have o: "csock ?conn = 7" "unread (outputBuffer ?conn) = []" "wire (cos (one_loop (one_chan kReadEvent) ?conn)) 7 = []"
    by (simp_all add: one_conn_def empty_cbuffer_ok one_loop_def)
  ultimately show ?thesis
    using connection_stream [OF one_open(2) [OF empty_cbuffer_ok(1,2), of kReadEvent kConnected] _ two_at_a_time,
      of "[Say ''hello'', Say ''!'', Writable]" "\<lparr>on_connection = None, on_message = None, on_writeComplete = None,
       on_highWater = None, on_close = None\<rparr>" 1]
    unfolding o t append_Nil by blast
qed

text \<open>
  C37: Once the last waiting byte of a connection is written, the connection never hears from its
  peer again: its descriptor is registered with the kernel for writing and no longer for reading, its sending side is not shut
  down even when that was asked for (\<open>kDisconnectiong\<close>), and every later writable event
  leaves all of this as it is. (\<open>disableWriting\<close> clears the read events.)
\<close>

theorem drained_connection_deaf:
  assumes "open_conn l c conn ch" and "isWriting ch" and "unread (outputBuffer conn) \<noteq> []"
    and "cw_send W (sends (cos l)) (length (unread (outputBuffer conn))) = int (length (unread (outputBuffer conn)))"
    and "\<forall>n. cw_send W n 0 \<le> 0"
  shows "\<exists>l' conn'. handleWrite W U self c l = Inr l' \<and> mconns l' c = Some conn' \<and> unread (outputBuffer conn') = [] \<and>
     (\<exists>m. pepoll l' (csock conn) = Some (m, cchan conn) \<and> m AND kReadEvent = 0 \<and> m AND kWriteEvent \<noteq> 0) \<and> shut l' = shut l \<and>
     (\<forall>n. handleWrite W U self c (l'\<lparr>cos := (cos l')\<lparr>sends := n\<rparr>\<rparr>) = Inr (l'\<lparr>cos := (cos l')\<lparr>sends := Suc n\<rparr>\<rparr>))"
proof -
  let ?k = "length (unread (outputBuffer conn))"
  have k: "0 < ?k" "?k \<le> ?k" using assms(3) by simp_all
  obtain l' out ch' where r: "handleWrite W U self c l = Inr l'" "open_conn l' c (conn\<lparr>outputBuffer := out\<rparr>) ch'"
    "unread out = []" "shut l' = shut l" "cevents ch' = cevents ch AND NOT kReadEvent"
    "pepoll l' (csock conn) = Some (cevents ch', cchan conn)"
    using handleWrite_some [OF assms(1,2) k assms(4), of U self] by auto
  note oc = r(2) [unfolded open_conn_def]
  have w: "isWriting ch'" using assms(2) by (simp add: isWriting_bit r(5) bit_and_iff bit_not_iff event_bits_cxx possible_bit_def)
  have "cevents ch' AND kReadEvent = 0" by (rule bit_eqI) (auto simp: r(5) bit_and_iff bit_not_iff)
  then have "\<exists>m. pepoll l' (csock conn) = Some (m, cchan conn) \<and> m AND kReadEvent = 0 \<and> m AND kWriteEvent \<noteq> 0"
    using w r(6) by (auto simp: isWriting_def)
  moreover have "handleWrite W U self c (l'\<lparr>cos := (cos l')\<lparr>sends := n\<rparr>\<rparr>) = Inr (l'\<lparr>cos := (cos l')\<lparr>sends := Suc n\<rparr>\<rparr>)" for n
    using handleWrite_nothing [of "l'\<lparr>cos := (cos l')\<lparr>sends := n\<rparr>\<rparr>" c "conn\<lparr>outputBuffer := out\<rparr>" ch' W U self] r(2,3) w assms(5)
    by simp
  ultimately show ?thesis using r(1,3,4) oc by (intro exI [of _ l'] exI [of _ "conn\<lparr>outputBuffer := out\<rparr>"]) simp
qed

text \<open>The connection below waits to write the two bytes \<open>OK\<close> and has been asked to shut down.\<close>

definition ok_cbuffer :: cbuffer where
  "ok_cbuffer = \<lparr>vbuffer = replicate 8 NUL @ ''OK'', readerIndex = 8, wirteIndex = 10\<rparr>"

lemma ok_cbuffer: "cbuf_inv ok_cbuffer" "unread ok_cbuffer = ''OK''"
  by (simp_all add: ok_cbuffer_def cbuf_inv_def kChreapPrepend_def unread_def window_def numeral_eq_Suc)

theorem drained_connection_deaf_witness:
  "\<exists>l'. handleWrite two_at_a_time \<lparr>on_connection = None, on_message = None, on_writeComplete = None,
       on_highWater = None, on_close = None\<rparr> 1 0
     (one_loop (one_chan (kReadEvent OR kWriteEvent)) (one_conn kDisconnectiong ok_cbuffer)) = Inr l' \<and> shut l' = [] \<and>
     (\<exists>m. pepoll l' 7 = Some (m, 0) \<and> m AND kReadEvent = 0)"
proof -
  let ?conn = "one_conn kDisconnectiong ok_cbuffer" and ?ch = "one_chan (kReadEvent OR kWriteEvent)"
  have w: "isWriting ?ch" by (simp add: isWriting_bit one_chan_def bit_or_iff event_bits_cxx)
  have o: "outputBuffer ?conn = ok_cbuffer" "shut (one_loop ?ch ?conn) = []" "csock ?conn = 7" "cchan ?conn = 0" by (simp_all add: one_conn_def one_loop_def)
  have ne: "unread (outputBuffer ?conn) \<noteq> []" "unread ok_cbuffer \<noteq> []" by (simp_all add: o ok_cbuffer)
  have "cw_send two_at_a_time (sends (cos (one_loop ?ch ?conn))) (length (unread (outputBuffer ?conn))) =
      int (length (unread (outputBuffer ?conn)))" "\<forall>n. cw_send two_at_a_time n 0 \<le> 0"
    unfolding o ok_cbuffer by (simp_all add: two_at_a_time_def)
  from drained_connection_deaf [OF one_open(1) [OF ok_cbuffer(1) ne(2) w] w ne(1) this] show ?thesis unfolding o(2-4) by blast
qed

text \<open>
  \<open>send\<close> from another thread hands the loop the address of the caller's characters, not the
  characters: unless the caller keeps its string, the functor reads freed memory when the loop
  runs it, whatever is sent.
\<close>

lemma send_from_other_thread_dangles:
  assumes "mconns l c = Some conn" and "cstate conn = kConnected" and "ctid l \<noteq> self"
  shows "\<exists>l'. send W U False self c buf l = Inr l' \<and> pending l' = pending l @ [SendInLoop c None] \<and>
     (\<forall>l1 srv self'. exec_functor W U srv self' (last (pending l')) l1 = Inl UseAfterFree)"
  using assms by (simp add: send_def mconn_at_def isInLoopThread_def)

lemma send_from_other_thread_dangles_witness:
  "\<exists>l'. send two_at_a_time \<lparr>on_connection = None, on_message = None, on_writeComplete = None,
       on_highWater = None, on_close = None\<rparr> False 2 0 ''hello''
     (one_loop (one_chan kReadEvent) (one_conn kConnected empty_cbuffer)) = Inr l' \<and> pending l' = [SendInLoop 0 None]"
proof -
  let ?l = "one_loop (one_chan kReadEvent) (one_conn kConnected empty_cbuffer)"
  have "mconns ?l 0 = Some (one_conn kConnected empty_cbuffer)" "cstate (one_conn kConnected empty_cbuffer) = kConnected"
    "ctid ?l \<noteq> 2" "pending ?l = []"
    by (simp_all add: one_loop_def one_conn_def)
  with send_from_other_thread_dangles [of ?l 0] show ?thesis by (metis append_Nil)
qed

end
