(* ===== verification/Cxx_Pool.thy ===== *)
theory Cxx_Pool
  imports Worker_Thread Thread_Pool
begin

text \<open>
  \<open>Thread.cc\<close>, \<open>EventLoopThread.cc\<close> and \<open>EventLoopThreadPool.cc\<close> of the C++ library.
  The first part is the objects: a thread with its name, and the pool, whose threads are started
  by the argument \<open>start\<close> (the loop that a thread of that name makes). The second part is what
  happens between the two threads of \<open>startLoop\<close>, as a step relation over single calls and
  assignments, with the semaphore of \<open>Thread::start\<close> and the mutex and condition variable of
  \<open>EventLoopThread\<close>. The pool is the second instance of the contract \<open>round_robin\<close>.
\<close>

section \<open>Threads\<close>

record cthread =
  th_started :: bool
  joined :: bool
  running :: bool
  tname :: string

definition setDefaultName :: "int \<Rightarrow> string \<Rightarrow> int \<times> string" where
  "setDefaultName numCreated name =
     (let num = wrap32 (numCreated + 1)
      in (num, if name = [] then snprintf 32 (''Thread'' @ dec num) else name))"

definition new_Thread :: "int \<Rightarrow> string \<Rightarrow> int \<times> cthread" where
  "new_Thread numCreated name =
     (case setDefaultName numCreated name of (num, nm) \<Rightarrow>
        (num, \<lparr>th_started = False, joined = False, running = False, tname = nm\<rparr>))"

text \<open>\<open>start\<close> returns when the thread has posted the semaphore.\<close>

definition thread_start :: "cthread \<Rightarrow> cthread" where
  "thread_start t = t\<lparr>th_started := True, running := True\<rparr>"

definition thread_join :: "cthread \<Rightarrow> cthread result" where
  "thread_join t =
     (if \<not> th_started t then Inl NullDeref
      else if joined t then Inl (Thrown ''system_error'')
      else Inr (t\<lparr>joined := True, running := False\<rparr>))"

text \<open>Destroying the object; the result says whether the thread runs on, detached.\<close>

definition destroy_Thread :: "cthread \<Rightarrow> bool" where
  "destroy_Thread t \<longleftrightarrow> th_started t \<and> \<not> joined t"

lemma default_name:
  assumes "int32 (numCreated + 1)"
  shows "setDefaultName numCreated [] = (numCreated + 1, ''Thread'' @ dec (numCreated + 1))"
  using dec_length [OF assms] by (simp add: setDefaultName_def wrap32_id [OF assms] snprintf_fits Let_def)

section \<open>The pool\<close>

text \<open>\<open>created\<close> is the static counter \<open>Thread::numCreated_\<close>; the counter \<open>next_\<close> is \<open>turn\<close>.\<close>

record 'l loop_pool =
  lp_name :: string
  lp_started :: bool
  numThreads :: int
  turn :: int
  threads :: "cthread list"
  loops :: "'l list"

definition new_EventLoopThreadPoll :: "string \<Rightarrow> 'l loop_pool" where
  "new_EventLoopThreadPoll name =
     \<lparr>lp_name = name, lp_started = False, numThreads = 0, turn = 0, threads = [], loops = []\<rparr>"

definition setThreadNum :: "int \<Rightarrow> 'l loop_pool \<Rightarrow> 'l loop_pool" where
  "setThreadNum n p = p\<lparr>numThreads := n\<rparr>"

text \<open>\<open>new EventLoopThread(cb, buf)\<close>, \<open>push_back\<close> and \<open>startLoop\<close> for thread \<open>i\<close>.\<close>

definition start_thread ::
  "(nat \<Rightarrow> string \<Rightarrow> 'l result) \<Rightarrow> int \<times> 'l loop_pool \<Rightarrow> nat \<Rightarrow> (int \<times> 'l loop_pool) result" where
  "start_thread start = (\<lambda>(created, p) i.
     let buf = snprintf (length (lp_name p) + 32) (cstr (lp_name p) @ dec (int i));
         (created1, t) = new_Thread created buf
     in rbind (start i (tname t)) (\<lambda>l.
          Inr (created1, p\<lparr>threads := threads p @ [thread_start t], loops := loops p @ [l]\<rparr>)))"

text \<open>\<open>init\<close> is the callback \<open>cb\<close> applied to the base loop, \<open>None\<close> for an empty one.\<close>

definition start_pool ::
  "(nat \<Rightarrow> string \<Rightarrow> 'l result) \<Rightarrow> ('b \<Rightarrow> 'b result) option \<Rightarrow> int \<Rightarrow> 'b \<Rightarrow> 'l loop_pool \<Rightarrow>
   (int \<times> 'b \<times> 'l loop_pool) result" where
  "start_pool start init created base p =
     rbind (put_all (start_thread start) (created, p\<lparr>lp_started := True\<rparr>) [0..<nat (numThreads p)]) (\<lambda>(created1, p1).
       case init of
         Some cb \<Rightarrow> if numThreads p1 = 0 then rbind (cb base) (\<lambda>base1. Inr (created1, base1, p1)) else Inr (created1, base, p1)
       | None \<Rightarrow> Inr (created1, base, p1))"

definition getNextLoop :: "'l loop_pool \<Rightarrow> ('l loop_pool \<times> loop_ref) result" where
  "getNextLoop p =
     (if loops p = [] then Inr (p, MainLoop)
      else if 0 \<le> turn p \<and> nat (turn p) < length (loops p) then
        rbind (chk (turn p + 1)) (\<lambda>n.
          Inr (p\<lparr>turn := (if int (length (loops p)) \<le> size_t n then 0 else n)\<rparr>, WorkerLoop (nat (turn p))))
      else Inl OutOfBounds)"

definition getAllLoops :: "'l loop_pool \<Rightarrow> loop_ref list" where
  "getAllLoops p = (if loops p = [] then [MainLoop] else map WorkerLoop [0..<length (loops p)])"

text \<open>A started pool takes turns.\<close>

definition cpool_inv :: "'l loop_pool \<Rightarrow> bool" where
  "cpool_inv p \<longleftrightarrow> 0 \<le> turn p \<and> turn p < int (length (loops p)) \<and> int32 (int (length (loops p)))"

definition take_loop :: "'l loop_pool \<Rightarrow> ('l loop_pool \<times> nat) result" where
  "take_loop p = rbind (getNextLoop p) (\<lambda>(p', r).
     case r of MainLoop \<Rightarrow> Inl NullDeref | WorkerLoop i \<Rightarrow> Inr (p', i))"

lemma getNextLoop_ok:
  assumes "cpool_inv p"
  shows "getNextLoop p = Inr (p\<lparr>turn := (turn p + 1) mod int (length (loops p))\<rparr>, WorkerLoop (nat (turn p)))"
    and "cpool_inv (p\<lparr>turn := (turn p + 1) mod int (length (loops p))\<rparr>)"
proof -
  have b: "0 \<le> turn p" "turn p < int (length (loops p))" "int32 (turn p + 1)" "loops p \<noteq> []"
    using assms by (auto simp: cpool_inv_def int32_def)
  have s: "size_t (turn p + 1) = turn p + 1" using b by (intro size_t_id) auto
  have "(turn p + 1) mod int (length (loops p)) = (if int (length (loops p)) \<le> turn p + 1 then 0 else turn p + 1)"
    using b by (cases "turn p + 1 = int (length (loops p))") auto
  with b s show "getNextLoop p = Inr (p\<lparr>turn := (turn p + 1) mod int (length (loops p))\<rparr>, WorkerLoop (nat (turn p)))"
    by (simp add: getNextLoop_def nat_less_iff)
  show "cpool_inv (p\<lparr>turn := (turn p + 1) mod int (length (loops p))\<rparr>)"
    using assms b by (simp add: cpool_inv_def)
qed

interpretation cxxpool: round_robin take_loop "\<lambda>p. nat (turn p)" "\<lambda>p. length (loops p)" cpool_inv
proof
  fix p :: "'l loop_pool"
  assume p: "cpool_inv p"
  then show "nat (turn p) < length (loops p)" by (auto simp: cpool_inv_def)
  have "nat ((turn p + 1) mod int (length (loops p))) = (nat (turn p) + 1) mod length (loops p)"
    using p by (simp add: cpool_inv_def nat_mod_distrib nat_add_distrib)
  then show "\<exists>p'. take_loop p = Inr (p', nat (turn p)) \<and> cpool_inv p' \<and> length (loops p') = length (loops p) \<and>
      nat (turn p') = (nat (turn p) + 1) mod length (loops p)"
    using getNextLoop_ok [OF p] by (simp add: take_loop_def)
qed

lemma turns_of_loops:
  "cpool_inv p \<Longrightarrow> calls_in_turn take_loop k p = Inr (p', xs) \<Longrightarrow>
   calls_in_turn getNextLoop k p = Inr (p', map WorkerLoop xs)"
proof (induction k arbitrary: p xs)
  case (Suc k)
  then show ?case using getNextLoop_ok [OF Suc.prems(1)] by (auto simp: take_loop_def)
qed simp

text \<open>Starting the pool starts its threads in order, each under its own name.\<close>

definition loop_name :: "string \<Rightarrow> nat \<Rightarrow> string" where
  "loop_name name i = name @ dec (int i)"

lemma dec_not_Nil [simp]: "dec i \<noteq> []"
  by (simp add: dec_def digits.simps [of "nat i"])

lemma start_thread_ok:
  assumes "NUL \<notin> set (lp_name p)" and "int32 (int i)" and "\<forall>name. start i name = Inr (ls i name)"
  shows "start_thread start (created, p) i = Inr (wrap32 (created + 1),
     p\<lparr>threads := threads p @ [\<lparr>th_started = True, joined = False, running = True, tname = loop_name (lp_name p) i\<rparr>],
       loops := loops p @ [ls i (loop_name (lp_name p) i)]\<rparr>)"
proof -
  have "snprintf (length (lp_name p) + 32) (lp_name p @ dec (int i)) = loop_name (lp_name p) i"
    unfolding loop_name_def using assms(1) dec_length [OF assms(2)] by (intro snprintf_fits) auto
  moreover have "loop_name (lp_name p) i \<noteq> []" by (simp add: loop_name_def)
  ultimately show ?thesis
    using assms(1,3) by (simp add: start_thread_def new_Thread_def setDefaultName_def thread_start_def Let_def)
qed

definition same_pool :: "'l loop_pool \<Rightarrow> 'l loop_pool \<Rightarrow> bool" where
  "same_pool p p' \<longleftrightarrow> lp_name p' = lp_name p \<and> lp_started p' = lp_started p \<and> numThreads p' = numThreads p \<and> turn p' = turn p"

lemma start_threads:
  assumes "\<forall>i<n. \<forall>name. start i name = Inr (ls i name)" and "int32 (int n)" and "NUL \<notin> set (lp_name p)" and "m \<le> n"
  shows "\<exists>created1 p1. put_all (start_thread start) (created, p) [0..<m] = Inr (created1, p1) \<and> same_pool p p1 \<and>
     loops p1 = loops p @ map (\<lambda>i. ls i (loop_name (lp_name p) i)) [0..<m] \<and>
     map tname (threads p1) = map tname (threads p) @ map (loop_name (lp_name p)) [0..<m]"
  using assms(4)
proof (induction m)
  case 0
  then show ?case by (simp add: same_pool_def)
next
  case (Suc m)
  then obtain created1 p1 where 1: "put_all (start_thread start) (created, p) [0..<m] = Inr (created1, p1)" "same_pool p p1"
    "loops p1 = loops p @ map (\<lambda>i. ls i (loop_name (lp_name p) i)) [0..<m]"
    "map tname (threads p1) = map tname (threads p) @ map (loop_name (lp_name p)) [0..<m]"
    by auto
  have "NUL \<notin> set (lp_name p1)" "int32 (int m)" "\<forall>name. start m name = Inr (ls m name)"
    using assms(1-3) Suc.prems 1(2) by (auto simp: same_pool_def int32_def)
  from start_thread_ok [of p1 m start ls created1, OF this] show ?case
    using 1 by (simp add: put_all_append same_pool_def)
qed

lemma numThreads_set: "numThreads (setThreadNum n p) = n"
  by (simp add: setThreadNum_def)

lemma start_pool_ok:
  assumes "\<forall>i<nat n. \<forall>name. start i name = Inr (ls i name)" and "int32 n" and "0 < n" and "NUL \<notin> set name"
  shows "\<exists>created1 p. start_pool start init created base (setThreadNum n (new_EventLoopThreadPoll name)) = Inr (created1, base, p) \<and>
     cpool_inv p \<and> length (loops p) = nat n \<and> turn p = 0 \<and> map tname (threads p) = map (loop_name name) [0..<nat n] \<and>
     loops p = map (\<lambda>i. ls i (loop_name name i)) [0..<nat n]"
proof -
  let ?p = "(setThreadNum n (new_EventLoopThreadPoll name))\<lparr>lp_started := True\<rparr> :: 'a loop_pool"
  have p: "lp_name ?p = name" "loops ?p = []" "threads ?p = []" "numThreads ?p = n" "turn ?p = 0"
    by (simp_all add: setThreadNum_def new_EventLoopThreadPoll_def)
  from start_threads [of "nat n" start ls ?p "nat n" created] obtain created1 p1 where
    1: "put_all (start_thread start) (created, ?p) [0..<nat n] = Inr (created1, p1)" "same_pool ?p p1"
      "loops p1 = map (\<lambda>i. ls i (loop_name name i)) [0..<nat n]" "map tname (threads p1) = map (loop_name name) [0..<nat n]"
    using assms unfolding p by auto
  have q: "numThreads p1 = n" "turn p1 = 0" using 1(2) p by (simp_all add: same_pool_def)
  have "start_pool start init created base (setThreadNum n (new_EventLoopThreadPoll name)) = Inr (created1, base, p1)"
    unfolding start_pool_def using 1(1) q assms(3) by (cases init) (simp_all add: numThreads_set del: rbind_Inr_iff)
  then show ?thesis using 1(3,4) q assms(2,3) by (simp add: cpool_inv_def)
qed

section \<open>Starting a loop in its thread\<close>

text \<open>
  \<open>startLoop\<close> in one thread and the lambda of \<open>Thread::start\<close> with \<open>threadFunc\<close> in the
  other. A thread is a program counter: \<open>TEnter\<close> is before \<open>loop()\<close> has cleared
  \<open>quit_\<close>, \<open>TLoop\<close> inside it, \<open>TLast\<close> before the last critical section (which, by
  \<open>==\<close> for \<open>=\<close>, does not clear \<open>loop_\<close>), and \<open>TExit\<close> after \<open>threadFunc\<close> has
  returned and its local loop is gone. \<open>x\<close> is the address of that loop.
\<close>

datatype start_pc = LCreate | LSem | LLock | LTest | LWait | LWoken | LUnlock | LDone

datatype thread_pc =
  TNone | TTid | TPost | TMake | TLock | TSet | TNotify | TUnlock | TEnter | TLoop | TLast | TFinal | TExit

record 'l loop_thread =
  lpc :: start_pc
  tpc :: thread_pc
  lowner :: owner
  semaphore :: nat
  tid_set :: bool
  eloop :: "'l option"

definition new_EventLoopThread :: "'l loop_thread" where
  "new_EventLoopThread = \<lparr>lpc = LCreate, tpc = TNone, lowner = Free, semaphore = 0, tid_set = False, eloop = None\<rparr>"

inductive startLoop_step :: "'l loop_thread \<Rightarrow> 'l loop_thread \<Rightarrow> bool" where
  create: "lpc s = LCreate \<Longrightarrow> startLoop_step s (s\<lparr>lpc := LSem, tpc := TTid\<rparr>)"
| sem_wait: "lpc s = LSem \<Longrightarrow> 0 < semaphore s \<Longrightarrow> startLoop_step s (s\<lparr>lpc := LLock, semaphore := semaphore s - 1\<rparr>)"
| lock: "lpc s = LLock \<Longrightarrow> lowner s = Free \<Longrightarrow> startLoop_step s (s\<lparr>lpc := LTest, lowner := Main\<rparr>)"
| found: "lpc s = LTest \<Longrightarrow> eloop s \<noteq> None \<Longrightarrow> startLoop_step s (s\<lparr>lpc := LUnlock\<rparr>)"
| wait: "lpc s = LTest \<Longrightarrow> eloop s = None \<Longrightarrow> startLoop_step s (s\<lparr>lpc := LWait, lowner := Free\<rparr>)"
| relock: "lpc s = LWoken \<Longrightarrow> lowner s = Free \<Longrightarrow> startLoop_step s (s\<lparr>lpc := LTest, lowner := Main\<rparr>)"
| unlock: "lpc s = LUnlock \<Longrightarrow> startLoop_step s (s\<lparr>lpc := LDone, lowner := Free\<rparr>)"

inductive threadFunc_step :: "'l \<Rightarrow> 'l loop_thread \<Rightarrow> 'l loop_thread \<Rightarrow> bool" for x :: 'l where
  set_tid: "tpc s = TTid \<Longrightarrow> threadFunc_step x s (s\<lparr>tpc := TPost, tid_set := True\<rparr>)"
| post: "tpc s = TPost \<Longrightarrow> threadFunc_step x s (s\<lparr>tpc := TMake, semaphore := Suc (semaphore s)\<rparr>)"
| make: "tpc s = TMake \<Longrightarrow> threadFunc_step x s (s\<lparr>tpc := TLock\<rparr>)"
| lock: "tpc s = TLock \<Longrightarrow> lowner s = Free \<Longrightarrow> threadFunc_step x s (s\<lparr>tpc := TSet, lowner := Sub\<rparr>)"
| set_loop: "tpc s = TSet \<Longrightarrow> threadFunc_step x s (s\<lparr>tpc := TNotify, eloop := Some x\<rparr>)"
| notify: "tpc s = TNotify \<Longrightarrow>
    threadFunc_step x s (s\<lparr>tpc := TUnlock, lpc := (if lpc s = LWait then LWoken else lpc s)\<rparr>)"
| unlock: "tpc s = TUnlock \<Longrightarrow> threadFunc_step x s (s\<lparr>tpc := TEnter, lowner := Free\<rparr>)"
| enter: "tpc s = TEnter \<Longrightarrow> threadFunc_step x s (s\<lparr>tpc := TLoop\<rparr>)"
| last_lock: "tpc s = TLast \<Longrightarrow> lowner s = Free \<Longrightarrow> threadFunc_step x s (s\<lparr>tpc := TFinal, lowner := Sub\<rparr>)"
| exit: "tpc s = TFinal \<Longrightarrow> threadFunc_step x s (s\<lparr>tpc := TExit, lowner := Free\<rparr>)"

definition start_move :: "'l \<Rightarrow> 'l loop_thread \<Rightarrow> 'l loop_thread \<Rightarrow> bool" where
  "start_move x s t \<longleftrightarrow> startLoop_step s t \<or> threadFunc_step x s t"

text \<open>Besides, a wait may end for no reason, and \<open>loop()\<close> returns once somebody calls \<open>quit\<close>.\<close>

definition start_step :: "'l \<Rightarrow> 'l loop_thread \<Rightarrow> 'l loop_thread \<Rightarrow> bool" where
  "start_step x s t \<longleftrightarrow> start_move x s t \<or> (lpc s = LWait \<and> t = s\<lparr>lpc := LWoken\<rparr>) \<or> (tpc s = TLoop \<and> t = s\<lparr>tpc := TLast\<rparr>)"

text \<open>
  The destructor, run by the thread that called \<open>startLoop\<close>. A \<open>quit\<close> that comes before
  \<open>loop()\<close> has cleared the flag is forgotten, and \<open>join\<close> then waits for ever.
\<close>

definition destroy_EventLoopThread :: "'l loop_thread \<Rightarrow> 'l loop_thread result" where
  "destroy_EventLoopThread s =
     (case eloop s of
        None \<Rightarrow> Inr s
      | Some _ \<Rightarrow>
          if tpc s = TExit then Inl UseAfterFree
          else if tpc s \<in> {TLoop, TLast, TFinal} then Inr (s\<lparr>tpc := TExit\<rparr>)
          else Inl Hang)"

inductive_cases startLoop_stepE: "startLoop_step s t"
inductive_cases threadFunc_stepE: "threadFunc_step x s t"
inductive_simps startLoop_blocked: "startLoop_step s t"
inductive_simps threadFunc_blocked: "threadFunc_step x s t"

definition lt_inv :: "'l \<Rightarrow> 'l loop_thread \<Rightarrow> bool" where
  "lt_inv x s \<longleftrightarrow>
     lowner s = (if lpc s \<in> {LTest, LUnlock} then Main else if tpc s \<in> {TSet, TNotify, TUnlock, TFinal} then Sub else Free) \<and>
     \<not> (lpc s \<in> {LTest, LUnlock} \<and> tpc s \<in> {TSet, TNotify, TUnlock, TFinal}) \<and>
     (tpc s = TNone \<longleftrightarrow> lpc s = LCreate) \<and>
     semaphore s = (if lpc s = LSem \<and> tpc s \<notin> {TTid, TPost} then 1 else 0) \<and>
     (tpc s \<in> {TTid, TPost} \<longrightarrow> lpc s = LSem) \<and>
     (tid_set s \<longleftrightarrow> tpc s \<notin> {TNone, TTid}) \<and>
     eloop s = (if tpc s \<in> {TNotify, TUnlock, TEnter, TLoop, TLast, TFinal, TExit} then Some x else None) \<and>
     (lpc s = LWait \<longrightarrow> tpc s \<in> {TMake, TLock, TSet, TNotify}) \<and>
     (lpc s \<in> {LUnlock, LDone} \<longrightarrow> tpc s \<in> {TNotify, TUnlock, TEnter, TLoop, TLast, TFinal, TExit})"

lemma startLoop_step_inv: "startLoop_step s t \<Longrightarrow> lt_inv x s \<Longrightarrow> lt_inv x t"
  by (erule startLoop_stepE; cases "tpc s"; simp add: lt_inv_def)

lemma threadFunc_step_inv: "threadFunc_step x s t \<Longrightarrow> lt_inv x s \<Longrightarrow> lt_inv x t"
  by (erule threadFunc_stepE; cases "lpc s"; simp add: lt_inv_def)

lemma other_step_inv:
  "lpc s = LWait \<and> t = s\<lparr>lpc := LWoken\<rparr> \<Longrightarrow> lt_inv x s \<Longrightarrow> lt_inv x t"
  "tpc s = TLoop \<and> t = s\<lparr>tpc := TLast\<rparr> \<Longrightarrow> lt_inv x s \<Longrightarrow> lt_inv x t"
  by (cases "tpc s"; simp add: lt_inv_def) (cases "lpc s"; simp add: lt_inv_def)

lemma start_step_inv: "start_step x s t \<Longrightarrow> lt_inv x s \<Longrightarrow> lt_inv x t"
  unfolding start_step_def start_move_def
  by (elim disjE startLoop_step_inv threadFunc_step_inv other_step_inv)

lemma new_thread_inv: "lt_inv x new_EventLoopThread"
  by (simp add: lt_inv_def new_EventLoopThread_def)

lemma start_steps_inv: "(start_step x)\<^sup>*\<^sup>* new_EventLoopThread s \<Longrightarrow> lt_inv x s"
  by (induction rule: rtranclp_induct) (auto intro: new_thread_inv start_step_inv)

text \<open>\<open>startLoop\<close> is through, and its thread has left the handshake.\<close>

definition startedLoop :: "'l loop_thread \<Rightarrow> bool" where
  "startedLoop s \<longleftrightarrow> lpc s = LDone \<and> tpc s \<in> {TLoop, TExit}"

fun lpc_left :: "start_pc \<Rightarrow> nat" where
  "lpc_left LCreate = 8" | "lpc_left LSem = 7" | "lpc_left LLock = 6" | "lpc_left LTest = 4" | "lpc_left LWait = 3"
| "lpc_left LWoken = 5" | "lpc_left LUnlock = 1" | "lpc_left LDone = 0"

fun tpc_left :: "thread_pc \<Rightarrow> nat" where
  "tpc_left TNone = 15" | "tpc_left TTid = 14" | "tpc_left TPost = 13" | "tpc_left TMake = 12" | "tpc_left TLock = 11"
| "tpc_left TSet = 10" | "tpc_left TNotify = 9" | "tpc_left TUnlock = 4" | "tpc_left TEnter = 3" | "tpc_left TLoop = 2"
| "tpc_left TLast = 2" | "tpc_left TFinal = 1" | "tpc_left TExit = 0"

lemma start_can_move:
  assumes "lt_inv x s" and "\<not> startedLoop s"
  shows "\<exists>t. start_move x s t"
proof (cases "\<exists>t. threadFunc_step x s t")
  case False
  then have "tpc s \<in> {TNone, TLoop, TExit} \<or> (tpc s \<in> {TLock, TLast} \<and> lowner s \<noteq> Free)"
    by (cases "tpc s") (auto simp: threadFunc_blocked)
  then have "\<exists>t. startLoop_step s t"
    using assms by (cases "lpc s"; cases "lowner s") (auto simp: lt_inv_def startedLoop_def startLoop_blocked)
  then show ?thesis by (auto simp: start_move_def)
qed (auto simp: start_move_def)

interpretation loopstart: lowering "start_move x" "lt_inv x" "\<lambda>s. lpc_left (lpc s) + tpc_left (tpc s)" startedLoop for x
proof
  fix s t :: "'a loop_thread"
  assume inv: "lt_inv x s"
  then have c: "lpc s = LCreate \<Longrightarrow> tpc s = TNone" by (simp add: lt_inv_def)
  show "start_move x s t \<Longrightarrow> lt_inv x t" using start_step_inv [OF _ inv] by (simp add: start_step_def)
  show "start_move x s t \<Longrightarrow> lpc_left (lpc t) + tpc_left (tpc t) < lpc_left (lpc s) + tpc_left (tpc s)"
    using c unfolding start_move_def by (elim disjE startLoop_stepE threadFunc_stepE; cases "lpc s"; simp)
  show "\<not> startedLoop s \<Longrightarrow> \<exists>t. start_move x s t" by (rule start_can_move [OF inv])
qed

section \<open>Properties\<close>

text \<open>
  C27: The pool of the library takes turns: after \<open>setThreadNum(n)\<close> and \<open>start\<close>, call number
  \<open>j\<close> of \<open>getNextLoop\<close> gets loop \<open>j mod n\<close>, the same as from the pool of the C server
  with \<open>n\<close> workers; and thread \<open>i\<close> carries the name of the pool followed by \<open>i\<close>, never cut off.
\<close>

theorem pools_take_the_same_turns:
  assumes "\<forall>i<nat n. \<forall>name. start i name = Inr (ls i name)" and "int32 n" and "0 < n" and "NUL \<notin> set name"
  shows "\<exists>created1 p p1 q q1. start_pool start init created base (setThreadNum n (new_EventLoopThreadPoll name)) = Inr (created1, base, p) \<and>
     map tname (threads p) = map (\<lambda>i. name @ dec (int i)) [0..<nat n] \<and>
     calls_in_turn getNextLoop k p = Inr (p1, map (\<lambda>j. WorkerLoop (j mod nat n)) [0..<k]) \<and>
     runThreadPool start True (Some (initThreadPool n)) = Inr q \<and>
     calls_in_turn (takeWorkEventLoop True) k q = Inr (q1, map (\<lambda>j. WorkerLoop (j mod nat n)) [0..<k])"
proof -
  obtain created1 p where p: "start_pool start init created base (setThreadNum n (new_EventLoopThreadPoll name)) = Inr (created1, base, p)"
    "cpool_inv p" "length (loops p) = nat n" "turn p = 0" "map tname (threads p) = map (loop_name name) [0..<nat n]"
    using start_pool_ok [OF assms, of init created base] by blast
  obtain p1 where p1: "calls_in_turn take_loop k p = Inr (p1, map (\<lambda>i. i mod nat n) [0..<k])"
    using cxxpool.turns [OF p(2), of k] p(3,4) by auto
  obtain q where q: "runThreadPool start True (Some (initThreadPool n)) = Inr q" "pool_inv q" "threadNum q = n" "index q = 0"
    using run_pool_ok [OF assms(1-3)] by blast
  obtain q1 where q1: "calls_in_turn take_worker k q = Inr (q1, map (\<lambda>i. i mod nat n) [0..<k])"
    using pool.turns [OF q(2), of k] q(3,4) by auto
  from turns_of_loops [OF p(2) p1] turns_of_workers [OF q(2) q1] p(1,5) q(1) show ?thesis
    by (simp add: comp_def loop_name_def [abs_def])
qed

theorem pools_take_the_same_turns_witness:
  "\<exists>created1 p p1. start_pool (\<lambda>i name. Inr i) None 0 () (setThreadNum 2 (new_EventLoopThreadPoll ''Echoserver'')) = Inr (created1, (), p) \<and>
     calls_in_turn getNextLoop 3 p = Inr (p1, [WorkerLoop 0, WorkerLoop 1, WorkerLoop 0])"
proof -
  have "\<forall>i<nat 2. \<forall>name. (\<lambda>i name. Inr i :: nat result) i name = Inr i" "int32 2" "(0 :: int) < 2" "NUL \<notin> set ''Echoserver''"
    by (simp_all add: int32_def)
  from pools_take_the_same_turns [OF this, of None 0 "()" 3] show ?thesis
    by (simp add: numeral_3_eq_3 mod_Suc) blast
qed

text \<open>
  C24: \<open>startLoop\<close> is safe and always returns. However the two threads interleave: it returns only
  after the new thread has recorded its id and published its loop; it never waits for a
  notification that has been sent; from every reachable state it can return, and every move
  brings the two threads nearer to that.
\<close>

theorem startLoop_returns:
  assumes "(start_step x)\<^sup>*\<^sup>* new_EventLoopThread s"
  shows "(lpc s = LDone \<longrightarrow> eloop s = Some x \<and> tid_set s) \<and> (lpc s = LWait \<longrightarrow> eloop s = None \<or> tpc s = TNotify) \<and>
     (\<exists>t. (start_move x)\<^sup>*\<^sup>* s t \<and> lpc t = LDone \<and> eloop t = Some x) \<and>
     (\<not> startedLoop s \<longrightarrow> (\<exists>t. start_move x s t))"
proof -
  have inv: "lt_inv x s" by (rule start_steps_inv [OF assms])
  obtain t where t: "(start_move x)\<^sup>*\<^sup>* s t" "startedLoop t" "lt_inv x t" using loopstart.arrives [OF inv] by blast
  then have "lpc t = LDone \<and> eloop t = Some x" by (simp add: startedLoop_def lt_inv_def)
  moreover have "lpc s = LDone \<longrightarrow> eloop s = Some x \<and> tid_set s"
    using inv by (cases "tpc s"; simp add: lt_inv_def)
  moreover have "lpc s = LWait \<longrightarrow> eloop s = None \<or> tpc s = TNotify"
    using inv by (cases "tpc s"; simp add: lt_inv_def)
  ultimately show ?thesis using t(1) start_can_move [OF inv] by blast
qed

theorem startLoop_returns_witness:
  "\<exists>t. (start_move (7 :: nat))\<^sup>*\<^sup>* (new_EventLoopThread\<lparr>lpc := LSem, tpc := TTid\<rparr>) t \<and> eloop t = Some 7"
proof -
  have "startLoop_step (new_EventLoopThread :: nat loop_thread) (new_EventLoopThread\<lparr>lpc := LSem, tpc := TTid\<rparr>)"
    by (rule startLoop_step.create) (simp add: new_EventLoopThread_def)
  then have "(start_step 7)\<^sup>*\<^sup>* new_EventLoopThread (new_EventLoopThread\<lparr>lpc := LSem, tpc := TTid\<rparr> :: nat loop_thread)"
    by (intro r_into_rtranclp) (simp add: start_step_def start_move_def)
  from startLoop_returns [OF this] show ?thesis by (elim conjE exE) (rule exI, rule conjI)
qed

text \<open>A run in which \<open>startLoop\<close> returns before the thread has called \<open>loop()\<close>, and how it may go on.\<close>

abbreviation lt_state :: "start_pc \<Rightarrow> thread_pc \<Rightarrow> owner \<Rightarrow> nat \<Rightarrow> bool \<Rightarrow> 'l option \<Rightarrow> 'l loop_thread" where
  "lt_state l t ow n b e \<equiv> \<lparr>lpc = l, tpc = t, lowner = ow, semaphore = n, tid_set = b, eloop = e\<rparr>"

lemmas one_more = rtranclp.rtrancl_into_rtrancl

lemma early_return: "(start_step x)\<^sup>*\<^sup>* new_EventLoopThread (lt_state LDone TEnter Free 0 True (Some x))"
proof -
  have a: "start_step x new_EventLoopThread (lt_state LSem TTid Free 0 False None)"
    by (simp add: start_step_def start_move_def startLoop_blocked new_EventLoopThread_def)
  have b: "start_step x (lt_state LSem TTid Free 0 False None) (lt_state LSem TPost Free 0 True None)"
    "start_step x (lt_state LSem TPost Free 0 True None) (lt_state LSem TMake Free 1 True None)"
    "start_step x (lt_state LSem TMake Free 1 True None) (lt_state LSem TLock Free 1 True None)"
    "start_step x (lt_state LSem TLock Free 1 True None) (lt_state LSem TSet Sub 1 True None)"
    "start_step x (lt_state LSem TSet Sub 1 True None) (lt_state LSem TNotify Sub 1 True (Some x))"
    "start_step x (lt_state LSem TNotify Sub 1 True (Some x)) (lt_state LSem TUnlock Sub 1 True (Some x))"
    "start_step x (lt_state LSem TUnlock Sub 1 True (Some x)) (lt_state LSem TEnter Free 1 True (Some x))"
    by (simp_all add: start_step_def start_move_def threadFunc_blocked)
  have c: "start_step x (lt_state LSem TEnter Free 1 True (Some x)) (lt_state LLock TEnter Free 0 True (Some x))"
    "start_step x (lt_state LLock TEnter Free 0 True (Some x)) (lt_state LTest TEnter Main 0 True (Some x))"
    "start_step x (lt_state LTest TEnter Main 0 True (Some x)) (lt_state LUnlock TEnter Main 0 True (Some x))"
    "start_step x (lt_state LUnlock TEnter Main 0 True (Some x)) (lt_state LDone TEnter Free 0 True (Some x))"
    by (simp_all add: start_step_def start_move_def startLoop_blocked)
  show ?thesis
    by (rule rtranclp.rtrancl_refl [of "start_step x" new_EventLoopThread, THEN one_more, OF a, THEN one_more, OF b(1), THEN one_more, OF b(2), THEN one_more, OF b(3), THEN one_more, OF b(4)
     , THEN one_more, OF b(5), THEN one_more, OF b(6), THEN one_more, OF b(7), THEN one_more, OF c(1), THEN one_more, OF c(2), THEN one_more, OF c(3), THEN one_more, OF c(4)])
qed

lemma late_exit: "(start_step x)\<^sup>*\<^sup>* new_EventLoopThread (lt_state LDone TExit Free 0 True (Some x))"
proof -
  have b: "start_step x (lt_state LDone TEnter Free 0 True (Some x)) (lt_state LDone TLoop Free 0 True (Some x))"
    "start_step x (lt_state LDone TLoop Free 0 True (Some x)) (lt_state LDone TLast Free 0 True (Some x))"
    "start_step x (lt_state LDone TLast Free 0 True (Some x)) (lt_state LDone TFinal Sub 0 True (Some x))"
    "start_step x (lt_state LDone TFinal Sub 0 True (Some x)) (lt_state LDone TExit Free 0 True (Some x))"
    by (simp_all add: start_step_def start_move_def threadFunc_blocked)
  show ?thesis
    by (rule early_return [of x, THEN one_more, OF b(1), THEN one_more, OF b(2), THEN one_more, OF b(3), THEN one_more, OF b(4)])
qed

text \<open>
  The destructor of a loop's thread has two ways to fail after \<open>startLoop\<close> has returned: when
  it comes before the thread has entered \<open>loop()\<close>, its \<open>quit\<close> is forgotten and \<open>join\<close> never
  returns; when the loop has ended by itself, \<open>loop_\<close> still points to the loop that is gone.
\<close>

lemma loop_thread_destructor_fails:
  "(\<exists>s. (start_step x)\<^sup>*\<^sup>* new_EventLoopThread s \<and> lpc s = LDone \<and> destroy_EventLoopThread s = Inl Hang) \<and>
   (\<exists>s. (start_step x)\<^sup>*\<^sup>* new_EventLoopThread s \<and> lpc s = LDone \<and> destroy_EventLoopThread s = Inl UseAfterFree)"
proof
  show "\<exists>s. (start_step x)\<^sup>*\<^sup>* new_EventLoopThread s \<and> lpc s = LDone \<and> destroy_EventLoopThread s = Inl Hang"
    by (rule exI, rule conjI, rule early_return) (simp add: destroy_EventLoopThread_def)
  show "\<exists>s. (start_step x)\<^sup>*\<^sup>* new_EventLoopThread s \<and> lpc s = LDone \<and> destroy_EventLoopThread s = Inl UseAfterFree"
    by (rule exI, rule conjI, rule late_exit) (simp add: destroy_EventLoopThread_def)
qed

end
