(* ===== verification/Cxx_Server.thy ===== *)
theory Cxx_Server
  imports Cxx_Connection Cxx_Pool
begin

text \<open>
  \<open>InetAddress\<close>, \<open>Socket.cc\<close>, \<open>Acceprot.cc\<close>, \<open>TcpServer.cc\<close> and \<open>EchoServer.cc\<close>
  of the C++ library. A loop of a worker thread is a \<open>sub_loop\<close>: its connections, and in
  \<open>outbox\<close> the functors it has queued in the base loop. The record \<open>base_loop\<close> is the base
  loop together with the server and its acceptor, which live in the same thread; it holds the
  pool with the loops of the workers. A connection is named by its loop and its number there
  (\<open>conn_ref\<close>). The last part is the echo server: its callbacks respect the relations of
  \<open>Cxx_Connection\<close>, and its answer is followed from the message to the wire.
\<close>

section \<open>Addresses\<close>

text \<open>\<open>sockaddr_in\<close>, with the port as a number and the address as its four bytes.\<close>

record inet_address =
  sin_family :: nat
  sin_port :: "16 word"
  sin_addr :: "nat list"

definition new_InetAddress :: "16 word \<Rightarrow> inet_address" where
  "new_InetAddress port = \<lparr>sin_family = 2, sin_port = port, sin_addr = [0, 0, 0, 0]\<rparr>"

text \<open>The bytes of the structure, on a little-endian machine: family, port (in network order), address, padding.\<close>

definition addr_bytes :: "inet_address \<Rightarrow> nat list" where
  "addr_bytes a = [sin_family a mod 256, sin_family a div 256, unat (sin_port a) div 256, unat (sin_port a) mod 256] @
     sin_addr a @ replicate 8 0"

text \<open>\<open>inet_ntop\<close> on the first four bytes it is given.\<close>

definition inet_ntop :: "nat list \<Rightarrow> string" where
  "inet_ntop bs = digits (bs ! 0) @ ''.'' @ digits (bs ! 1) @ ''.'' @ digits (bs ! 2) @ ''.'' @ digits (bs ! 3)"

text \<open>Both functions pass the address of the whole structure.\<close>

definition toIP :: "inet_address \<Rightarrow> string" where
  "toIP a = inet_ntop (addr_bytes a)"

definition toIpPort :: "inet_address \<Rightarrow> string result" where
  "toIpPort a = into_array 64 (inet_ntop (addr_bytes a) @ '':'' @ digits (unat (sin_port a)))"

definition toPort :: "inet_address \<Rightarrow> 16 word" where
  "toPort a = sin_port a"

text \<open>As written, \<open>setSockAddrInet\<close> assigns the member to itself.\<close>

definition setSockAddrInet :: "inet_address \<Rightarrow> inet_address \<Rightarrow> inet_address" where
  "setSockAddrInet addr self = self"

lemma digits_0_2: "digits 0 = ''0''" "digits 2 = ''2''"
  by code_simp+

section \<open>The loops\<close>

record sub_loop = conn_loop +
  outbox :: "cfunctor list"

record base_loop = conn_loop +
  srv_name :: string
  ipPort :: string
  acc_fd :: int
  acc_chan :: nat
  reuseport :: bool
  acc_callback :: bool
  listening :: bool
  srv_started :: int
  num_created :: int
  nextConnId :: int
  connections :: "string \<rightharpoonup> conn_ref"
  lpool :: "sub_loop loop_pool"

definition sub_at :: "base_loop \<Rightarrow> nat \<Rightarrow> sub_loop result" where
  "sub_at B i = (if i < length (loops (lpool B)) then Inr (loops (lpool B) ! i) else Inl UseAfterFree)"

definition put_sub :: "nat \<Rightarrow> sub_loop \<Rightarrow> base_loop \<Rightarrow> base_loop" where
  "put_sub i l B = B\<lparr>lpool := (lpool B)\<lparr>loops := (loops (lpool B))[i := l]\<rparr>\<rparr>"

section \<open>The acceptor\<close>

text \<open>
  \<open>sockfd\<close> is what \<open>socket\<close> returned, \<open>bound\<close> whether \<open>bind\<close> succeeded and \<open>listens\<close> whether
  \<open>listen\<close> did; each failure ends the program. The new channel belongs to the base loop.
\<close>

definition createNonblocking :: "int \<Rightarrow> int result" where
  "createNonblocking sockfd = (if sockfd < 0 then Inl (Exit ''listen socket create error'') else Inr sockfd)"

definition bindAddress :: "bool \<Rightarrow> unit result" where
  "bindAddress bound = (if \<not> bound then Inl (Exit ''bindAddress error'') else Inr ())"

definition socket_listen :: "bool \<Rightarrow> unit result" where
  "socket_listen listens = (if \<not> listens then Inl (Exit ''listen error'') else Inr ())"

lemmas socket_calls = createNonblocking_def bindAddress_def socket_listen_def

definition new_Acceprot :: "int \<Rightarrow> bool \<Rightarrow> bool \<Rightarrow> base_loop \<Rightarrow> base_loop result" where
  "new_Acceprot sockfd bound reuse B =
     rbind (createNonblocking sockfd) (\<lambda>f.
     rbind (bindAddress bound) (\<lambda>_.
       case add_channel ((new_Channel f)\<lparr>readCallback := Some AcceptRead\<rparr>) B of (B1, a) \<Rightarrow>
         Inr (B1\<lparr>acc_fd := f, acc_chan := a, reuseport := reuse, acc_callback := False, listening := False\<rparr>)))"

definition destroy_Acceprot :: "base_loop \<Rightarrow> base_loop result" where
  "destroy_Acceprot B =
     rbind (disableAll (acc_chan B) B) (\<lambda>B1.
     rbind (removeChannel (acc_chan B1) B1) (\<lambda>B2.
       Inr ((free_channel (acc_chan B2) B2)\<lparr>cos := (cos B2)\<lparr>os_closed := os_closed (cos B2) @ [acc_fd B2]\<rparr>\<rparr>)))"

definition acceptor_listen :: "bool \<Rightarrow> base_loop \<Rightarrow> base_loop result" where
  "acceptor_listen listens B =
     (let B1 = B\<lparr>listening := True\<rparr>
      in rbind (socket_listen listens) (\<lambda>_. enableReading (acc_chan B1) B1))"

text \<open>\<open>Socket::accept\<close>: the descriptor and the address the caller sees.\<close>

definition socket_accept :: "int \<Rightarrow> inet_address \<Rightarrow> inet_address \<Rightarrow> int \<times> inet_address" where
  "socket_accept connfd addr peeraddr = (connfd, if 0 \<le> connfd then setSockAddrInet addr peeraddr else peeraddr)"

definition acceptor_handleRead ::
  "(int \<Rightarrow> inet_address \<Rightarrow> base_loop \<Rightarrow> base_loop result) \<Rightarrow> int \<Rightarrow> inet_address \<Rightarrow> base_loop \<Rightarrow> base_loop result" where
  "acceptor_handleRead newConn connfd addr B =
     (case socket_accept connfd addr (new_InetAddress 0) of (connfd, peerAddr) \<Rightarrow>
        if 0 \<le> connfd then
          (if acc_callback B then newConn connfd peerAddr B
           else Inr (B\<lparr>cos := (cos B)\<lparr>os_closed := os_closed (cos B) @ [connfd]\<rparr>\<rparr>))
        else Inr B)"

section \<open>The server\<close>

text \<open>
  The constructor: the base loop becomes the loop of a server. \<open>opt\<close> is \<open>KreusePort\<close>; as
  written, the port is reused when it is not set.
\<close>

definition new_TcpServer ::
  "int \<Rightarrow> bool \<Rightarrow> inet_address \<Rightarrow> string \<Rightarrow> bool \<Rightarrow> conn_loop \<Rightarrow> base_loop result" where
  "new_TcpServer sockfd bound listenAddr name opt l =
     rbind (toIpPort listenAddr) (\<lambda>ip.
     rbind (new_Acceprot sockfd bound (\<not> opt) (conn_loop.extend l
       \<lparr>srv_name = name, ipPort = ip, acc_fd = sockfd, acc_chan = 0, reuseport = False, acc_callback = False, listening = False,
        srv_started = 0, num_created = 0, nextConnId = 1, connections = Map.empty, lpool = new_EventLoopThreadPoll name\<rparr>)) (\<lambda>B.
       Inr (B\<lparr>acc_callback := True\<rparr>)))"

definition server_setThreadNum :: "int \<Rightarrow> base_loop \<Rightarrow> base_loop" where
  "server_setThreadNum n B = B\<lparr>lpool := setThreadNum n (lpool B)\<rparr>"

definition server_start ::
  "(nat \<Rightarrow> string \<Rightarrow> sub_loop result) \<Rightarrow> (base_loop \<Rightarrow> base_loop result) option \<Rightarrow> bool \<Rightarrow> nat \<Rightarrow> base_loop \<Rightarrow> base_loop result" where
  "server_start start init listens self B =
     (let B0 = B\<lparr>srv_started := wrap32 (srv_started B + 1)\<rparr> in
      if srv_started B = 0 then
        rbind (start_pool start init (num_created B0) B0 (lpool B0)) (\<lambda>(n, B1, p).
          runInloop (\<lambda>_. acceptor_listen listens) self Listen (B1\<lparr>num_created := n, lpool := p\<rparr>))
      else Inr B0)"

definition conn_name :: "base_loop \<Rightarrow> string" where
  "conn_name B = srv_name B @ snprintf 64 (''-'' @ ipPort B @ ''#'' @ dec (nextConnId B))"

definition newConnection ::
  "base_loop user_calls \<Rightarrow> (nat \<Rightarrow> sub_loop user_calls) \<Rightarrow> nat \<Rightarrow> int \<Rightarrow> inet_address \<Rightarrow> base_loop \<Rightarrow> base_loop result" where
  "newConnection U V self sockfd peerAddr B =
     rbind (getNextLoop (lpool B)) (\<lambda>(p, ioloop).
     rbind (chk (nextConnId B + 1)) (\<lambda>n.
     rbind (toIpPort peerAddr) (\<lambda>_.
       let connName = conn_name B; B1 = B\<lparr>lpool := p, nextConnId := n\<rparr> in
       case ioloop of
         MainLoop \<Rightarrow>
           (case new_TcpConnection connName sockfd B1 of (B2, c) \<Rightarrow>
              runInloop (\<lambda>_. connectEstablished U c) self (ConnectEstablished c)
                (B2\<lparr>connections := (connections B2)(connName \<mapsto> OnBase c)\<rparr>))
       | WorkerLoop i \<Rightarrow>
           rbind (sub_at B1 i) (\<lambda>l.
             case new_TcpConnection connName sockfd l of (l1, c) \<Rightarrow>
               rbind (runInloop (\<lambda>_. connectEstablished (V i) c) self (ConnectEstablished c) l1) (\<lambda>l2.
                 Inr (put_sub i l2 (B1\<lparr>connections := (connections B1)(connName \<mapsto> OnSub i c)\<rparr>)))))))"

definition ref_name :: "base_loop \<Rightarrow> conn_ref \<Rightarrow> string result" where
  "ref_name B r = (case r of
       OnBase c \<Rightarrow> rbind (mconn_at B c) (\<lambda>conn. Inr (cname conn))
     | OnSub i c \<Rightarrow> rbind (sub_at B i) (\<lambda>l. rbind (mconn_at l c) (\<lambda>conn. Inr (cname conn))))"

text \<open>As written, \<open>connectDestroy\<close> is queued in the base loop, whatever the loop of the connection.\<close>

definition removeConnectionInLoop :: "nat \<Rightarrow> conn_ref \<Rightarrow> base_loop \<Rightarrow> base_loop result" where
  "removeConnectionInLoop self r B =
     rbind (ref_name B r) (\<lambda>name.
       Inr (queueInloop self (ConnectDestroy r) (B\<lparr>connections := (connections B)(name := None)\<rparr>)))"

text \<open>\<open>removeConnection\<close>, called in the base thread and in the thread of worker \<open>i\<close>.\<close>

definition removeConnection :: "nat \<Rightarrow> nat \<Rightarrow> base_loop \<Rightarrow> base_loop result" where
  "removeConnection self c = runInloop (\<lambda>_. removeConnectionInLoop self (OnBase c)) self (RemoveInLoop (OnBase c))"

definition sub_removeConnection :: "nat \<Rightarrow> nat \<Rightarrow> sub_loop \<Rightarrow> sub_loop result" where
  "sub_removeConnection i c l = Inr (l\<lparr>outbox := outbox l @ [RemoveInLoop (OnSub i c)]\<rparr>)"

text \<open>The functors of a worker reach the base loop.\<close>

definition deliver :: "nat \<Rightarrow> nat \<Rightarrow> base_loop \<Rightarrow> base_loop result" where
  "deliver i self B =
     rbind (sub_at B i) (\<lambda>l. Inr (foldl (\<lambda>B f. queueInloop self f B) (put_sub i (l\<lparr>outbox := []\<rparr>) B) (outbox l)))"

text \<open>
  A connection goes with the last pointer to it: after \<open>connectDestroy\<close> that is the end of the
  functor, unless a functor that waits holds the connection.
\<close>

fun holds :: "nat \<Rightarrow> cfunctor \<Rightarrow> bool" where
  "holds c (ConnectEstablished d) \<longleftrightarrow> c = d"
| "holds c (WriteComplete d) \<longleftrightarrow> c = d"
| "holds c (HighWater d n) \<longleftrightarrow> c = d"
| "holds c f \<longleftrightarrow> False"

definition destroy_conn :: "('z conn_loop_scheme) user_calls \<Rightarrow> nat \<Rightarrow> 'z conn_loop_scheme \<Rightarrow> 'z conn_loop_scheme result" where
  "destroy_conn U c l =
     rbind (connectDestroy U c l) (\<lambda>l1. if list_ex (holds c) (pending l1) then Inr l1 else destroy_TcpConnection c l1)"

fun server_functor ::
  "base_loop user_calls \<Rightarrow> (nat \<Rightarrow> sub_loop user_calls) \<Rightarrow> bool \<Rightarrow> nat \<Rightarrow> cfunctor \<Rightarrow> base_loop \<Rightarrow> base_loop result" where
  "server_functor U V listens self Listen B = acceptor_listen listens B"
| "server_functor U V listens self (RemoveInLoop r) B = removeConnectionInLoop self r B"
| "server_functor U V listens self (ConnectDestroy (OnBase c)) B = destroy_conn U c B"
| "server_functor U V listens self (ConnectDestroy (OnSub i c)) B =
     rbind (sub_at B i) (\<lambda>l. rbind (destroy_conn (V i) c l) (\<lambda>l1. Inr (put_sub i l1 B)))"
| "server_functor U V listens self f B = Inr B"

text \<open>
  The functors of a worker's loop: besides those of its connections, \<open>connectDestroy\<close> from the
  server's destructor.
\<close>

fun sub_functor :: "sub_loop user_calls \<Rightarrow> cfunctor \<Rightarrow> sub_loop \<Rightarrow> sub_loop result" where
  "sub_functor U (ConnectDestroy (OnSub i c)) l = destroy_conn U c l"
| "sub_functor U f l = Inr l"

text \<open>
  The destructor hands \<open>connectDestroy\<close> to the loop of each connection, in the order \<open>rs\<close> of
  the map's entries; then the acceptor goes.
\<close>

definition let_go :: "base_loop user_calls \<Rightarrow> (nat \<Rightarrow> sub_loop user_calls) \<Rightarrow> nat \<Rightarrow> base_loop \<Rightarrow> conn_ref \<Rightarrow> base_loop result" where
  "let_go U V self B r = (case r of
       OnBase c \<Rightarrow> runInloop (\<lambda>_. destroy_conn U c) self (ConnectDestroy r) B
     | OnSub i c \<Rightarrow> rbind (sub_at B i) (\<lambda>l.
         rbind (runInloop (\<lambda>_. destroy_conn (V i) c) self (ConnectDestroy r) l) (\<lambda>l1. Inr (put_sub i l1 B))))"

definition destroy_TcpServer ::
  "base_loop user_calls \<Rightarrow> (nat \<Rightarrow> sub_loop user_calls) \<Rightarrow> nat \<Rightarrow> conn_ref list \<Rightarrow> base_loop \<Rightarrow> base_loop result" where
  "destroy_TcpServer U V self rs B =
     rbind (put_all (let_go U V self) B rs) (\<lambda>B1. destroy_Acceprot (B1\<lparr>connections := Map.empty\<rparr>))"

section \<open>The echo server\<close>

definition quiet_calls :: "'s user_calls" where
  "quiet_calls = \<lparr>on_connection = None, on_message = None, on_writeComplete = None, on_highWater = None, on_close = None\<rparr>"

text \<open>
  \<open>onConnection\<close> only logs. \<open>onMessage\<close> leaves the message where it is, sends \<open>OK\<close> and shuts
  down; of the callbacks, \<open>send\<close> looks only at the two that are never set.
\<close>

definition onConnection :: "nat \<Rightarrow> 's \<Rightarrow> 's result" where
  "onConnection c s = Inr s"

definition onMessage :: "cworld \<Rightarrow> nat \<Rightarrow> nat \<Rightarrow> 'z conn_loop_scheme \<Rightarrow> 'z conn_loop_scheme result" where
  "onMessage W self c l = rbind (send W quiet_calls False self c ''OK'' l) (shutdown self c)"

definition echo_calls :: "cworld \<Rightarrow> nat \<Rightarrow> (nat \<Rightarrow> 'z conn_loop_scheme \<Rightarrow> 'z conn_loop_scheme result) \<Rightarrow> ('z conn_loop_scheme) user_calls" where
  "echo_calls W self close = \<lparr>on_connection = Some onConnection, on_message = Some (onMessage W self),
     on_writeComplete = None, on_highWater = None, on_close = Some close\<rparr>"

definition new_EchoServer :: "int \<Rightarrow> bool \<Rightarrow> inet_address \<Rightarrow> string \<Rightarrow> conn_loop \<Rightarrow> base_loop result" where
  "new_EchoServer sockfd bound addr name l =
     rbind (new_TcpServer sockfd bound addr name False l) (\<lambda>B. Inr (server_setThreadNum 4 B))"

section \<open>The echo callbacks respect what the library relies on\<close>

lemma sub_removeConnection_same: "sub_removeConnection i c l = Inr l' \<Longrightarrow> mconns l' = mconns l \<and> same_queue_fields l l'"
  by (auto simp: sub_removeConnection_def same_queue_fields_def)

interpretation echo_forward: conn_callbacks advances "(\<le>)" "echo_calls W self (sub_removeConnection i)" for W self i
proof
  fix f g c and l l' :: sub_loop
  let ?U = "echo_calls W self (sub_removeConnection i)"
  assume "f \<in> {on_connection ?U, on_message ?U, on_writeComplete ?U, on_close ?U}" "f = Some g" "g c l = Inr l'"
  then consider "l' = l" | "onMessage W self c l = Inr l'" | "sub_removeConnection i c l = Inr l'"
    by (auto simp: echo_calls_def onConnection_def)
  then show "advances l l'"
  proof cases
    case 2
    then show ?thesis unfolding onMessage_def rbind_Inr_iff
      by (elim exE conjE) (rule forward.trans [OF forward.send_rel forward.shutdown_rel])
  qed (auto simp: forward.refl intro: advances_same dest: sub_removeConnection_same)
qed (simp add: echo_calls_def)

interpretation echo_queueing: conn_callbacks keeps_queue "\<lambda>_ _. True" "echo_calls W self (sub_removeConnection i)" for W self i
proof
  fix f g c and l l' :: sub_loop
  let ?U = "echo_calls W self (sub_removeConnection i)"
  assume "f \<in> {on_connection ?U, on_message ?U, on_writeComplete ?U, on_close ?U}" "f = Some g" "g c l = Inr l'"
  then consider "l' = l" | "onMessage W self c l = Inr l'" | "sub_removeConnection i c l = Inr l'"
    by (auto simp: echo_calls_def onConnection_def)
  then show "keeps_queue l l'"
  proof cases
    case 2
    then show ?thesis unfolding onMessage_def rbind_Inr_iff
      by (elim exE conjE) (rule queueing.trans [OF queueing.send_rel queueing.shutdown_rel])
  qed (auto simp: queueing.refl intro: keeps_queue_same dest: sub_removeConnection_same)
qed (simp add: echo_calls_def)

definition echo_exec :: "cworld \<Rightarrow> nat \<Rightarrow> nat \<Rightarrow> cfunctor \<Rightarrow> sub_loop \<Rightarrow> sub_loop result" where
  "echo_exec W self i = (let U = echo_calls W self (sub_removeConnection i) in exec_functor W U (sub_functor U) self)"

lemma destroy_TcpConnection_queue: "destroy_TcpConnection c l = Inr l' \<Longrightarrow> keeps_queue l l'"
  by (rule keeps_queue_same) (auto simp: destroy_TcpConnection_def Let_def free_channel_def same_queue_fields_def)

lemma sub_functor_queue:
  "sub_functor (echo_calls W self (sub_removeConnection i)) f l = Inr l' \<Longrightarrow> keeps_queue l l'"
proof (induction "echo_calls W self (sub_removeConnection i)" f l rule: sub_functor.induct)
  case (1 j c l)
  then show ?case
    by (auto simp: destroy_conn_def intro: echo_queueing.connectDestroy_rel
        queueing.trans [OF echo_queueing.connectDestroy_rel destroy_TcpConnection_queue] split: if_splits)
qed (simp_all add: queueing.refl)

interpretation echo_loop: loop_functors "echo_exec W self i" for W self i
proof
  fix f and l l' :: sub_loop
  assume c: "calling l" and r: "echo_exec W self i f l = Inr l'"
  let ?U = "echo_calls W self (sub_removeConnection i)"
  have e: "exec_functor W ?U (sub_functor ?U) self f l = Inr l'" using r by (simp add: echo_exec_def Let_def)
  have "keeps_queue l l'"
    by (rule echo_queueing.exec_functor_rel [OF e]) (auto intro: sub_functor_queue)
  with c show "queues_more l l'" by (simp add: keeps_queue_def)
qed

section \<open>The answer of the echo server\<close>

lemma echo_message:
  assumes oc: "open_conn l c conn ch" and st: "cstate conn = kConnected" and me: "ctid l = self"
    and idle: "\<not> isWriting ch" and all: "cw_send W (sends (cos l)) 2 = 2"
  shows "\<exists>s. onMessage W self c l = Inr (l\<lparr>cos := s, mconns := (mconns l)(c \<mapsto> conn\<lparr>cstate := kDisconnectiong\<rparr>),
       shut := shut l @ [csock conn]\<rparr>) \<and> sent (cos l) (csock conn) ''OK'' [] s"
proof -
  note oc' = open_connD [OF oc]
  have mc: "mconns l c = Some conn" using oc by (simp add: open_conn_def)
  have out: "readableBytes (outputBuffer conn) = 0"
    using oc idle empty_output [OF oc'(4)] by (auto simp: open_conn_def)
  define s where "s = snd (sys_send (cw_send W) (csock conn) ''OK'' (cos l))"
  have sys: "sys_send (cw_send W) (csock conn) ''OK'' (cos l) = (2, s)"
    "sent (cos l) (csock conn) ''OK'' [] s"
    using all by (simp_all add: s_def sys_send_def sent_def Let_def numeral_2_eq_2)
  have "sendInLoop W quiet_calls self c ''OK'' l = Inr (l\<lparr>cos := s\<rparr>)"
    using idle st out oc' sys(1) by (simp add: sendInLoop_def first_write_def quiet_calls_def Let_def)
  then have "send W quiet_calls False self c ''OK'' l = Inr (l\<lparr>cos := s\<rparr>)"
    using oc' st me by (simp add: send_def isInLoopThread_def)
  moreover have "shutdown self c (l\<lparr>cos := s\<rparr>) = Inr (l\<lparr>cos := s, mconns := (mconns l)(c \<mapsto> conn\<lparr>cstate := kDisconnectiong\<rparr>),
      shut := shut l @ [csock conn]\<rparr>)"
    using oc mc st me idle
    by (simp add: shutdown_def setState_def upd_conn_def mconn_at_def runInloop_def isInLoopThread_def shutdownInLoop_def
        cchan_at_def open_conn_def)
  ultimately show ?thesis using sys(2) by (intro exI [of _ s]) (simp add: onMessage_def)
qed

section \<open>The end of a connection\<close>

text \<open>
  The peer of connection \<open>c\<close> of worker \<open>i\<close> closes: the worker reads the end of the stream, its
  functor reaches the base loop, and the base loop runs it and the one it queues.
\<close>

definition peer_closes ::
  "cworld \<Rightarrow> base_loop user_calls \<Rightarrow> (nat \<Rightarrow> sub_loop user_calls) \<Rightarrow> bool \<Rightarrow> nat \<Rightarrow> nat \<Rightarrow> nat \<Rightarrow> base_loop \<Rightarrow> base_loop result" where
  "peer_closes W U V listens self i c B =
     rbind (sub_at B i) (\<lambda>l.
     rbind (conn_call W (V i) Inr (ctid l) (ConnRead c) l) (\<lambda>l1.
     rbind (deliver i (ctid l) (put_sub i l1 B)) (\<lambda>B1.
     rbind (server_functor U V listens self (RemoveInLoop (OnSub i c)) B1)
       (server_functor U V listens self (ConnectDestroy (OnSub i c))))))"

lemma queueInloop_base [simp]:
  "lpool (queueInloop self f B) = lpool (B :: base_loop)" "connections (queueInloop self f B) = connections B"
  "sub_at (queueInloop self f B) i = sub_at B i"
  by (simp_all add: queueInloop_def wakeup_def Let_def sub_at_def)

lemma sub_at_put [simp]: "i < length (loops (lpool B)) \<Longrightarrow> sub_at (put_sub i l B) i = Inr l"
  "put_sub i l (put_sub i l' B) = put_sub i l B" "length (loops (lpool (put_sub i l B))) = length (loops (lpool B))"
  "connections (put_sub i l B) = connections B" "lpool (B\<lparr>connections := m\<rparr>) = lpool B" "sub_at (B\<lparr>connections := m\<rparr>) j = sub_at B j"
  by (simp_all add: sub_at_def put_sub_def)

lemma sub_at_length: "sub_at B i = Inr l \<Longrightarrow> i < length (loops (lpool B))"
  by (simp add: sub_at_def split: if_splits)

lemma removeChannel_conn:
  assumes "reactor_inv l" and "cheap l a = Some ch"
  shows "\<exists>m w. removeChannel a l = Inr (l\<lparr>channels := m, pepoll := w, cheap := (cheap l)(a \<mapsto> ch\<lparr>cindex := kNew\<rparr>)\<rparr>) \<and> w (cfd ch) = None"
  by (rule exI [of _ "(channels l)(cfd ch := None)"], rule exI [of _ "(pepoll l)(cfd ch := None)"])
    (simp add: removeChannel_eq [OF assms])

text \<open>The worker's part.\<close>

lemma worker_reads_end:
  assumes oc: "open_conn l c conn ch" and rv: "cw_recv W (creads l) (csock conn) = Some []" and ob: "outbox l = []"
  shows "\<exists>l1 conn1 ch1. conn_call W (echo_calls W self (sub_removeConnection i)) Inr self' (ConnRead c) l = Inr l1 \<and>
     reactor_inv l1 \<and> mconns l1 c = Some conn1 \<and> cheap l1 (cchan conn) = Some ch1 \<and> cfd ch1 = csock conn \<and>
     cstate conn1 = kDisconnected \<and> cname conn1 = cname conn \<and> csock conn1 = csock conn \<and> cchan conn1 = cchan conn \<and>
     outbox l1 = [RemoveInLoop (OnSub i c)] \<and> pending l1 = pending l \<and> cos l1 = cos l \<and> crevents ch1 = crevents ch \<and>
     (\<exists>m w. l1 = l\<lparr>creads := Suc (creads l), mconns := (mconns l)(c \<mapsto> conn1), channels := m, pepoll := w,
        cheap := (cheap l)(cchan conn \<mapsto> ch1), outbox := [RemoveInLoop (OnSub i c)]\<rparr>)"
proof -
  let ?U = "echo_calls W self (sub_removeConnection i)"
  have "growable (cw_al W) (inputBuffer conn) (length ([] :: string))"
    using cbuf_invD [OF open_connD(5) [OF oc]] by (auto simp: growable_def)
  from handleRead_some [OF oc rv this, of ?U] obtain b l1 where
    1: "l1 = l\<lparr>creads := Suc (creads l), mconns := (mconns l)(c \<mapsto> conn\<lparr>inputBuffer := b\<rparr>)\<rparr>"
      "open_conn l1 c (conn\<lparr>inputBuffer := b\<rparr>) ch" "conn_handleRead W ?U c l = handleClose ?U c l1"
    by auto
  define conn1 where "conn1 = conn\<lparr>inputBuffer := b, cstate := kDisconnected\<rparr>"
  define l2 where "l2 = l1\<lparr>mconns := (mconns l1)(c \<mapsto> conn1)\<rparr>"
  note oc1 = 1(2) [unfolded open_conn_def]
  have 2: "setState c kDisconnected l1 = Inr l2" "mconn_at l2 c = Inr conn1"
    using oc1 by (simp_all add: setState_def upd_conn_Some mconn_at_def l2_def conn1_def)
  have i2: "reactor_inv l2" "cheap l2 (cchan conn) = Some ch" using oc1 by (simp_all add: l2_def)
  from set_events_ok [OF i2, of "\<lambda>e. kNoneEvent"] obtain m w ch1 where
    3: "disableAll (cchan conn) l2 = Inr (l2\<lparr>channels := m, pepoll := w, cheap := (cheap l2)(cchan conn \<mapsto> ch1)\<rparr>)"
      "reactor_inv (l2\<lparr>channels := m, pepoll := w, cheap := (cheap l2)(cchan conn \<mapsto> ch1)\<rparr>)" "cfd ch1 = cfd ch" "same_calls ch ch1"
    unfolding disableAll_def by blast
  define l3 where "l3 = l2\<lparr>channels := m, pepoll := w, cheap := (cheap l2)(cchan conn \<mapsto> ch1)\<rparr>"
  have "handleClose ?U c l1 = Inr (l3\<lparr>outbox := outbox l3 @ [RemoveInLoop (OnSub i c)]\<rparr>)"
    using 2 3(1) by (simp add: handleClose_def l3_def conn1_def echo_calls_def user_call_def onConnection_def sub_removeConnection_def)
  moreover have "reactor_inv (l3\<lparr>outbox := os\<rparr>)" for os
    using 3(2) by (subst reactor_inv_cong [of _ l3]) (simp_all add: l3_def)
  moreover have "cfd ch = csock conn" using oc by (simp add: open_conn_def)
  ultimately show ?thesis
    using 1(3) 3(3,4) ob
    by (intro exI [of _ "l3\<lparr>outbox := outbox l3 @ [RemoveInLoop (OnSub i c)]\<rparr>"] exI [of _ conn1] exI [of _ ch1])
      (auto simp: l3_def l2_def 1(1) conn1_def same_calls_def)
qed

text \<open>The base loop's part.\<close>

lemma destroy_conn_ok:
  assumes inv: "reactor_inv l" and conn: "mconns l c = Some conn" "cstate conn = kDisconnected"
    and ch: "cheap l (cchan conn) = Some ch" "cfd ch = csock conn" and free: "\<not> list_ex (holds c) (pending l)"
  shows "\<exists>l'. destroy_conn U c l = Inr l' \<and> mconns l' = (mconns l)(c := None) \<and> cheap l' = (cheap l)(cchan conn := None) \<and>
     pepoll l' (csock conn) = None \<and> cos l' = (cos l)\<lparr>os_closed := os_closed (cos l) @ [csock conn]\<rparr> \<and> shut l' = shut l \<and>
     pending l' = pending l"
proof -
  obtain m w where r: "removeChannel (cchan conn) l =
      Inr (l\<lparr>channels := m, pepoll := w, cheap := (cheap l)(cchan conn \<mapsto> ch\<lparr>cindex := kNew\<rparr>)\<rparr>)" "w (cfd ch) = None"
    using removeChannel_conn [OF inv ch(1)] by blast
  have "connectDestroy U c l = Inr (l\<lparr>channels := m, pepoll := w, cheap := (cheap l)(cchan conn \<mapsto> ch\<lparr>cindex := kNew\<rparr>)\<rparr>)"
    using conn r(1) by (simp add: connectDestroy_def mconn_at_def)
  then show ?thesis
    using conn ch(2) free r(2) by (simp add: destroy_conn_def destroy_TcpConnection_def mconn_at_def free_channel_def Let_def)
qed

section \<open>Names of connections\<close>

definition name_of :: "base_loop \<Rightarrow> int \<Rightarrow> string" where
  "name_of B i = srv_name B @ ''-'' @ ipPort B @ ''#'' @ dec i"

text \<open>Every connection in the map has a number that has been given out.\<close>

definition names_inv :: "base_loop \<Rightarrow> bool" where
  "names_inv B \<longleftrightarrow> 1 \<le> nextConnId B \<and> int32 (nextConnId B) \<and> NUL \<notin> set (ipPort B) \<and> length (ipPort B) \<le> 40 \<and>
     (\<forall>n\<in>dom (connections B). \<exists>i. 1 \<le> i \<and> i < nextConnId B \<and> n = name_of B i)"

definition same_names :: "base_loop \<Rightarrow> base_loop \<Rightarrow> bool" where
  "same_names B B' \<longleftrightarrow> connections B' = connections B \<and> nextConnId B' = nextConnId B \<and> srv_name B' = srv_name B \<and> ipPort B' = ipPort B"

lemma channel_names:
  "upd_chan a g B = Inr B' \<Longrightarrow> same_names B B'"
  "poller_update op a B = Inr B' \<Longrightarrow> same_names B B'"
  by (auto simp: upd_chan_def poller_update_def kernel_ctl_def same_names_def split: if_splits ctl_op.splits)

lemma updateChannel_names: "updateChannel a B = Inr B' \<Longrightarrow> same_names B B'"
  by (auto simp: updateChannel_def Let_def dest!: channel_names split: if_splits) (auto simp: same_names_def)

lemma operation_names:
  "set_events a g B = Inr B' \<Longrightarrow> same_names B B'" "set_tie a obj B = Inr B' \<Longrightarrow> same_names B B'"
  "setState c st B = Inr B' \<Longrightarrow> same_names B B'"
  by (auto simp: set_events_def set_tie_def setState_def upd_conn_def dest!: channel_names updateChannel_names)
    (auto simp: same_names_def)

lemma same_names_trans: "same_names B B1 \<Longrightarrow> same_names B1 B2 \<Longrightarrow> same_names B B2"
  by (simp add: same_names_def)

lemma connectEstablished_names:
  assumes "connectEstablished (echo_calls W self close) c B = Inr B'"
  shows "same_names B B'"
proof -
  obtain B1 B2 and conn :: mconn where 1: "setState c kConnected B = Inr B1" "set_tie (cchan conn) c B1 = Inr B2"
    "set_events (cchan conn) (\<lambda>e. e OR kReadEvent) B2 = Inr B'"
    using assms by (auto simp: connectEstablished_def enableReading_def echo_calls_def user_call_def onConnection_def)
  from operation_names(3) [OF 1(1)] operation_names(2) [OF 1(2)] operation_names(1) [OF 1(3)]
  show ?thesis by (blast intro: same_names_trans)
qed

lemma dec_inject:
  assumes "0 \<le> i" and "0 \<le> j" and "dec i = dec j"
  shows "i = j"
proof -
  have "digits (nat i) = digits (nat j)" using assms by (simp add: dec_def)
  then have "nat i = nat j" by (metis digits_val_digits)
  with assms(1,2) show ?thesis by simp
qed

lemma conn_name_eq: "names_inv B \<Longrightarrow> conn_name B = name_of B (nextConnId B)"
  using dec_length [of "nextConnId B"] unfolding names_inv_def conn_name_def name_of_def by (subst snprintf_fits) auto

lemma name_fresh:
  assumes "names_inv B"
  shows "connections B (conn_name B) = None"
proof (rule ccontr)
  assume "connections B (conn_name B) \<noteq> None"
  then obtain i where i: "1 \<le> i" "i < nextConnId B" "conn_name B = name_of B i"
    using assms unfolding names_inv_def by blast
  then have "dec i = dec (nextConnId B)" using conn_name_eq [OF assms] by (simp add: name_of_def)
  with dec_inject [of i "nextConnId B"] i show False by simp
qed

lemma names_inv_next:
  assumes inv: "names_inv B" and n: "int32 (nextConnId B + 1)"
    and B': "connections B' = (connections B)(conn_name B \<mapsto> r)" "nextConnId B' = nextConnId B + 1" "srv_name B' = srv_name B" "ipPort B' = ipPort B"
  shows "names_inv B'"
  unfolding names_inv_def
proof (intro conjI ballI)
  have nm: "name_of B' = name_of B" by (simp add: name_of_def [abs_def] B')
  fix x assume "x \<in> dom (connections B')"
  then consider "x = conn_name B" | "x \<in> dom (connections B)" by (auto simp: B' split: if_splits)
  then show "\<exists>i. 1 \<le> i \<and> i < nextConnId B' \<and> x = name_of B' i"
  proof cases
    case 1
    with inv conn_name_eq [OF inv] show ?thesis by (intro exI [of _ "nextConnId B"]) (simp add: B'(2) nm names_inv_def)
  next
    case 2
    with inv show ?thesis unfolding names_inv_def B'(2) nm by force
  qed
qed (use inv n in \<open>auto simp: names_inv_def B'\<close>)

lemma newConnection_names:
  assumes r: "newConnection (echo_calls W self close) V self sockfd peer B = Inr B'"
  shows "\<exists>r. connections B' = (connections B)(conn_name B \<mapsto> r) \<and> nextConnId B' = nextConnId B + 1 \<and> int32 (nextConnId B + 1) \<and>
     srv_name B' = srv_name B \<and> ipPort B' = ipPort B"
proof -
  obtain p ioloop where g: "getNextLoop (lpool B) = Inr (p, ioloop)" "int32 (nextConnId B + 1)"
    using r by (auto simp: newConnection_def chk_Inr_iff)
  let ?B1 = "B\<lparr>lpool := p, nextConnId := nextConnId B + 1\<rparr>"
  show ?thesis
  proof (cases ioloop)
    case MainLoop
    obtain B2 c where new: "new_TcpConnection (conn_name B) sockfd ?B1 = (B2, c)"
      by (cases "new_TcpConnection (conn_name B) sockfd ?B1")
    then have 2: "connections B2 = connections B" "nextConnId B2 = nextConnId B + 1" "srv_name B2 = srv_name B" "ipPort B2 = ipPort B"
      by (auto simp: new_TcpConnection_def Let_def add_channel_def)
    let ?B3 = "B2\<lparr>connections := (connections B2)(conn_name B \<mapsto> OnBase c)\<rparr>"
    have "runInloop (\<lambda>_. connectEstablished (echo_calls W self close) c) self (ConnectEstablished c) ?B3 = Inr B'"
      using r g new MainLoop by (auto simp: newConnection_def Let_def)
    then have "same_names ?B3 B'"
      by (auto simp: runInloop_def queueInloop_def wakeup_def Let_def same_names_def split: if_splits
          dest!: connectEstablished_names)
    then show ?thesis using 2 g(2) by (auto simp: same_names_def)
  next
    case (WorkerLoop i)
    then obtain l where l: "sub_at ?B1 i = Inr l" using r g by (auto simp: newConnection_def Let_def)
    obtain l1 c where new: "new_TcpConnection (conn_name B) sockfd l = (l1, c)"
      by (cases "new_TcpConnection (conn_name B) sockfd l")
    show ?thesis using r g l new WorkerLoop by (auto simp: newConnection_def Let_def put_sub_def)
  qed
qed

section \<open>Properties\<close>

text \<open>
  C21: The echo server answers a request once and closes. When bytes arrive on an established
  connection with nothing waiting, and the kernel takes the two bytes of the answer: they are kept
  in the input buffer, \<open>OK\<close> is on the wire, the sending side is shut down, and the connection
  is on its way out (\<open>kDisconnectiong\<close>), in which later messages are not answered.
\<close>

theorem echo_reply:
  assumes "open_conn l c conn ch" and "cstate conn = kConnected" and "ctid l = self" and "\<not> isWriting ch"
    and "cw_recv W (creads l) (csock conn) = Some bs" and "bs \<noteq> []"
    and "growable (cw_al W) (inputBuffer conn) (length bs)" and "cw_send W (sends (cos l)) 2 = 2"
  shows "\<exists>l' conn'. conn_call W (echo_calls W self close) acc self (ConnRead c) l = Inr l' \<and> mconns l' c = Some conn' \<and>
     cstate conn' = kDisconnectiong \<and> unread (inputBuffer conn') = unread (inputBuffer conn) @ bs \<and>
     wire (cos l') (csock conn) = wire (cos l) (csock conn) @ ''OK'' \<and> shut l' = shut l @ [csock conn] \<and>
     onMessage W self c l' = Inr l'"
proof -
  let ?U = "echo_calls W self close"
  obtain b l1 where 1: "l1 = l\<lparr>creads := Suc (creads l), mconns := (mconns l)(c \<mapsto> conn\<lparr>inputBuffer := b\<rparr>)\<rparr>"
    "unread b = unread (inputBuffer conn) @ bs" "open_conn l1 c (conn\<lparr>inputBuffer := b\<rparr>) ch"
    "conn_handleRead W ?U c l = user_call (on_message ?U) c l1"
    using handleRead_some [OF assms(1,5,7), of ?U] assms(6) by auto
  have "cstate (conn\<lparr>inputBuffer := b\<rparr>) = kConnected" "ctid l1 = self" "cw_send W (sends (cos l1)) 2 = 2"
    using assms(2,3,8) by (simp_all add: 1(1))
  from echo_message [OF 1(3) this(1,2) assms(4) this(3)] obtain l' where
    2: "onMessage W self c l1 = Inr l'" "mconns l' = (mconns l1)(c \<mapsto> conn\<lparr>inputBuffer := b, cstate := kDisconnectiong\<rparr>)"
      "wire (cos l') (csock conn) = wire (cos l1) (csock conn) @ ''OK''" "shut l' = shut l1 @ [csock conn]"
    by (auto simp: sent_def)
  have "onMessage W self c l' = Inr l'"
    using 2(2) by (simp add: onMessage_def send_def shutdown_def mconn_at_def)
  moreover have "conn_call W ?U acc self (ConnRead c) l = Inr l'"
    using 1(4) 2(1) by (simp add: echo_calls_def user_call_def)
  ultimately show ?thesis using 1(1,2) 2(2-4) by auto
qed

theorem echo_reply_witness:
  "\<exists>l'. conn_call \<lparr>cw_al = (\<lambda>_. True), cw_recv = (\<lambda>_ _. Some ''hello''), cw_send = (\<lambda>_. int), cw_broken = (\<lambda>_. False)\<rparr>
      (echo_calls \<lparr>cw_al = (\<lambda>_. True), cw_recv = (\<lambda>_ _. Some ''hello''), cw_send = (\<lambda>_. int), cw_broken = (\<lambda>_. False)\<rparr> 1 (\<lambda>c. Inr))
      Inr 1 (ConnRead 0) (one_loop (one_chan kReadEvent) (one_conn kConnected empty_cbuffer)) = Inr l' \<and>
     wire (cos l') 7 = ''OK'' \<and> shut l' = [7]"
proof -
  let ?W = "\<lparr>cw_al = (\<lambda>_. True), cw_recv = (\<lambda>_ _. Some ''hello''), cw_send = (\<lambda>_. int), cw_broken = (\<lambda>_. False)\<rparr>"
  let ?conn = "one_conn kConnected empty_cbuffer" and ?ch = "one_chan kReadEvent"
  have "growable (\<lambda>_. True) empty_cbuffer (length ''hello'')" by (rule empty_cbuffer_ok(3)) simp
  then have g: "growable (cw_al ?W) (inputBuffer ?conn) (length ''hello'')"
    unfolding one_conn_def mconn.simps cworld.simps .
  have w: "\<not> isWriting ?ch" by (simp add: isWriting_bit one_chan_def event_bits_cxx)
  have o: "csock ?conn = 7" "wire (cos (one_loop ?ch ?conn)) 7 = []" "shut (one_loop ?ch ?conn) = []" "ctid (one_loop ?ch ?conn) = 1"
    "cstate ?conn = kConnected"
    by (simp_all add: one_conn_def one_loop_def)
  have "cw_recv ?W (creads (one_loop ?ch ?conn)) (csock ?conn) = Some ''hello''" "''hello'' \<noteq> []"
    "cw_send ?W (sends (cos (one_loop ?ch ?conn))) 2 = 2" by simp_all
  from echo_reply [OF one_open(2) [OF empty_cbuffer_ok(1,2)] o(5,4) w this(1,2) g this(3), of "\<lambda>c. Inr" Inr]
  show ?thesis unfolding o append_Nil by blast
qed

text \<open>\<open>connectEstablished\<close> does not look at the state of the connection.\<close>

lemma connectEstablished_state:
  assumes "connectEstablished (echo_calls W self close) c l = Inr l'" and "mconns l c = Some conn"
  shows "mconns l' = (mconns l)(c \<mapsto> conn\<lparr>cstate := kConnected\<rparr>)"
proof -
  obtain l1 l2 and conn1 :: mconn where 1: "setState c kConnected l = Inr l1" "set_tie (cchan conn1) c l1 = Inr l2"
    "set_events (cchan conn1) (\<lambda>e. e OR kReadEvent) l2 = Inr l'"
    using assms(1) by (auto simp: connectEstablished_def enableReading_def echo_calls_def user_call_def onConnection_def)
  have "l1 = l\<lparr>mconns := (mconns l)(c \<mapsto> conn\<lparr>cstate := kConnected\<rparr>)\<rparr>"
    using 1(1) assms(2) by (simp add: setState_def upd_conn_Some)
  then show ?thesis using channel_mconns(2) [OF 1(2)] channel_mconns(1) [OF 1(3)] by simp
qed


definition one_sub :: "StateE \<Rightarrow> sub_loop" where
  "one_sub st = conn_loop.extend (one_loop (one_chan kReadEvent) (one_conn st empty_cbuffer)) \<lparr>outbox = []\<rparr>"

lemma one_sub_open: "open_conn (one_sub st) 0 (one_conn st empty_cbuffer) (one_chan kReadEvent)"
proof -
  let ?l = "one_loop (one_chan kReadEvent) (one_conn st empty_cbuffer)"
  have "reactor_inv (one_sub st) = reactor_inv ?l" by (rule reactor_inv_cong) (simp_all add: one_sub_def conn_loop.defs)
  moreover have "mconns (one_sub st) = mconns ?l" "cheap (one_sub st) = cheap ?l"
    by (simp_all add: one_sub_def conn_loop.defs)
  ultimately show ?thesis
    using one_open(2) [OF empty_cbuffer_ok(1,2), of kReadEvent st] unfolding open_conn_def by metis
qed

lemma one_sub_established:
  "\<exists>l'. connectEstablished (echo_calls W 1 (sub_removeConnection 0)) 0 (one_sub st) = Inr l'"
  using connectEstablished_open [OF one_sub_open, of "echo_calls W 1 (sub_removeConnection 0)" onConnection]
  by (auto simp: echo_calls_def onConnection_def)


text \<open>
  A worker of the echo server loses no functor: a round of \<open>doPendingFunctors\<close> runs exactly
  the functors that were waiting, in their order; those queued meanwhile wait for the next round,
  and then the loop has been woken up, so that it does not sleep before them.
\<close>

lemma echo_functors_run_in_order:
  assumes "doPendingFunctors (echo_exec W self i) l = Inr l'"
  shows "\<exists>l1. put_all (\<lambda>l f. echo_exec W self i f l) (l\<lparr>calling := True, pending := []\<rparr>) (pending l) = Inr l1 \<and>
     l' = l1\<lparr>calling := False\<rparr> \<and> ctid l' = ctid l \<and> (pending l' \<noteq> [] \<longrightarrow> 0 < wakeups l')"
  by (rule echo_loop.doPending [OF assms])

lemma echo_functors_run_in_order_witness:
  "\<exists>l'. doPendingFunctors (echo_exec two_at_a_time 1 0) (one_sub kConnected\<lparr>pending := [ShutdownInLoop 0]\<rparr>) = Inr l' \<and> ctid l' = 1"
proof -
  let ?l = "one_sub kConnected\<lparr>pending := [ShutdownInLoop 0]\<rparr>"
  have w: "\<not> isWriting (one_chan kReadEvent)" by (simp add: isWriting_bit one_chan_def event_bits_cxx)
  then have "\<exists>l'. doPendingFunctors (echo_exec two_at_a_time 1 0) ?l = Inr l'"
    by (simp add: doPendingFunctors_def echo_exec_def shutdownInLoop_def mconn_at_def cchan_at_def one_sub_def one_loop_def
        conn_loop.defs one_conn_def Let_def)
  moreover have "ctid ?l = 1" by (simp add: one_sub_def one_loop_def conn_loop.defs)
  ultimately show ?thesis using echo_functors_run_in_order [of two_at_a_time 1 0 ?l] by metis
qed

text \<open>
  When the peer of a worker's connection closes, everything the server holds for it goes: after
  the worker has read the end of the stream and the base loop has run the two functors this leads
  to, the connection and its channel are gone, its descriptor is no longer watched and has been
  closed once, and the server's map has lost exactly that name.
\<close>

lemma closed_connection_is_freed:
  assumes "sub_at B i = Inr l" and "open_conn l c conn ch" and "outbox l = []" and "pending l = []"
    and "cw_recv W (creads l) (csock conn) = Some []"
  shows "\<exists>B' l'. peer_closes W U (\<lambda>i. echo_calls W (ctid l) (sub_removeConnection i)) listens self i c B = Inr B' \<and>
     sub_at B' i = Inr l' \<and> mconns l' c = None \<and> cheap l' (cchan conn) = None \<and> pepoll l' (csock conn) = None \<and>
     os_closed (cos l') = os_closed (cos l) @ [csock conn] \<and> connections B' = (connections B)(cname conn := None)"
proof -
  let ?V = "\<lambda>i. echo_calls W (ctid l) (sub_removeConnection i) :: sub_loop user_calls"
  obtain l1 conn1 ch1 where 1: "conn_call W (?V i) Inr (ctid l) (ConnRead c) l = Inr l1" "reactor_inv l1" "mconns l1 c = Some conn1"
    "cheap l1 (cchan conn) = Some ch1" "cfd ch1 = csock conn" "cstate conn1 = kDisconnected" "cname conn1 = cname conn"
    "csock conn1 = csock conn" "cchan conn1 = cchan conn" "outbox l1 = [RemoveInLoop (OnSub i c)]" "pending l1 = pending l" "cos l1 = cos l"
    using worker_reads_end [OF assms(2,5,3), of "ctid l" i "ctid l"] by blast
  have i: "i < length (loops (lpool B))" using assms(1) by (rule sub_at_length)
  let ?l1 = "l1\<lparr>outbox := []\<rparr>"
  define B1 where "B1 = queueInloop (ctid l) (RemoveInLoop (OnSub i c)) (put_sub i ?l1 B)"
  have d: "deliver i (ctid l) (put_sub i l1 B) = Inr B1" using i by (simp add: deliver_def 1(10) B1_def)
  define B2 where "B2 = queueInloop self (ConnectDestroy (OnSub i c)) (B1\<lparr>connections := (connections B1)(cname conn := None)\<rparr>)"
  have r: "server_functor U ?V listens self (RemoveInLoop (OnSub i c)) B1 = Inr B2"
    using i by (simp add: removeConnectionInLoop_def ref_name_def B1_def B2_def mconn_at_def 1(3,7))
  have "reactor_inv ?l1" using 1(2) by (subst reactor_inv_cong [of _ l1]) simp_all
  moreover have "mconns ?l1 c = Some conn1" "cstate conn1 = kDisconnected" "cheap ?l1 (cchan conn1) = Some ch1"
    "cfd ch1 = csock conn1" "\<not> list_ex (holds c) (pending ?l1)"
    using 1 assms(4) by simp_all
  ultimately obtain l' where l': "destroy_conn (?V i) c ?l1 = Inr l'" "mconns l' = (mconns l1)(c := None)"
    "cheap l' = (cheap l1)(cchan conn := None)" "pepoll l' (csock conn) = None" "os_closed (cos l') = os_closed (cos l) @ [csock conn]"
    using destroy_conn_ok [of ?l1 c conn1 ch1 "?V i"] 1(8,9,12) by auto
  have "server_functor U ?V listens self (ConnectDestroy (OnSub i c)) B2 = Inr (put_sub i l' B2)"
    using i l'(1) by (simp add: B2_def B1_def)
  then have "peer_closes W U ?V listens self i c B = Inr (put_sub i l' B2)"
    using assms(1) 1(1) d r by (simp add: peer_closes_def)
  moreover have "sub_at (put_sub i l' B2) i = Inr l'" "connections (put_sub i l' B2) = (connections B)(cname conn := None)"
    using i by (simp_all add: B2_def B1_def)
  ultimately show ?thesis using l'(2-5) by auto
qed

definition one_base :: base_loop where
  "one_base = conn_loop.extend (one_loop (one_chan kReadEvent) (one_conn kConnected empty_cbuffer))
     \<lparr>srv_name = ''s'', ipPort = ''x'', acc_fd = 4, acc_chan = 5, reuseport = False, acc_callback = True, listening = True,
      srv_started = 1, num_created = 1, nextConnId = 2, connections = [''c'' \<mapsto> OnSub 0 0],
      lpool = (new_EventLoopThreadPoll ''s'')\<lparr>loops := [one_sub kConnected]\<rparr>\<rparr>"

lemma closed_connection_is_freed_witness:
  "\<exists>B'. peer_closes \<lparr>cw_al = (\<lambda>_. True), cw_recv = (\<lambda>_ _. Some []), cw_send = (\<lambda>_. int), cw_broken = (\<lambda>_. False)\<rparr> quiet_calls
      (\<lambda>i. echo_calls \<lparr>cw_al = (\<lambda>_. True), cw_recv = (\<lambda>_ _. Some []), cw_send = (\<lambda>_. int), cw_broken = (\<lambda>_. False)\<rparr> 1
         (sub_removeConnection i)) True 9 0 0 one_base = Inr B' \<and> connections B' ''c'' = None"
proof -
  let ?W = "\<lparr>cw_al = (\<lambda>_. True), cw_recv = (\<lambda>_ _. Some []), cw_send = (\<lambda>_. int), cw_broken = (\<lambda>_. False)\<rparr>"
  let ?conn = "one_conn kConnected empty_cbuffer" and ?ch = "one_chan kReadEvent"
  have s: "sub_at one_base 0 = Inr (one_sub kConnected)" by (simp add: sub_at_def one_base_def conn_loop.defs)
  note o = one_sub_open [of kConnected]
  have e: "outbox (one_sub kConnected) = []" "pending (one_sub kConnected) = []"
    by (simp_all add: one_sub_def one_loop_def conn_loop.defs)
  have n: "ctid (one_sub kConnected) = 1" "cname ?conn = ''c''" by (simp_all add: one_sub_def one_loop_def conn_loop.defs one_conn_def)
  have "cw_recv ?W (creads (one_sub kConnected)) (csock ?conn) = Some []" by simp
  from closed_connection_is_freed [OF s o e this, of quiet_calls True 9]
  show ?thesis unfolding n by (elim exE conjE) (rule exI, rule conjI, assumption, simp)
qed

text \<open>
  C32: No connection displaces another in the server's map: the name given to a new connection is not
  in use, the map gains exactly that name, and this holds again for the next one, until
  the 32-bit counter would overflow. (The name is never cut off by \<open>snprintf\<close>.)
\<close>

theorem connection_names_fresh:
  assumes "names_inv B" and "newConnection (echo_calls W self close) V self sockfd peer B = Inr B'"
  shows "connections B (conn_name B) = None \<and> names_inv B' \<and>
     (\<exists>r. connections B' = (connections B)(conn_name B \<mapsto> r)) \<and> conn_name B' \<noteq> conn_name B"
proof -
  obtain r where r: "connections B' = (connections B)(conn_name B \<mapsto> r)" "nextConnId B' = nextConnId B + 1"
    "int32 (nextConnId B + 1)" "srv_name B' = srv_name B" "ipPort B' = ipPort B"
    using newConnection_names [OF assms(2)] by blast
  have inv: "names_inv B'" by (rule names_inv_next [OF assms(1) r(3,1,2,4,5)])
  have "conn_name B' \<noteq> conn_name B" using name_fresh [OF inv] r(1) by auto
  with name_fresh [OF assms(1)] inv r(1) show ?thesis by blast
qed

theorem connection_names_fresh_witness:
  "\<exists>B'. newConnection (echo_calls two_at_a_time 9 (\<lambda>c. Inr)) (\<lambda>_. quiet_calls) 9 12 (new_InetAddress 0) (one_base\<lparr>connections := Map.empty\<rparr>) = Inr B' \<and>
     names_inv B'"
proof -
  let ?B = "one_base\<lparr>connections := Map.empty\<rparr>"
  have inv: "names_inv ?B" by (simp add: names_inv_def one_base_def int32_def conn_loop.defs)
  have "getNextLoop (lpool ?B) = Inr (lpool ?B, WorkerLoop 0)"
    by (simp add: getNextLoop_def one_base_def new_EventLoopThreadPoll_def chk_def int32_def conn_loop.defs)
  moreover have "chk (nextConnId ?B + 1) = Inr 3" by (simp add: one_base_def chk_def int32_def conn_loop.defs)
  moreover have "toIpPort (new_InetAddress 0) = Inr ''2.0.0.0:0''"
    by (simp add: toIpPort_def inet_ntop_def addr_bytes_def new_InetAddress_def into_array_def cstr_def digits_0_2)
  moreover have "sub_at (?B\<lparr>lpool := lpool ?B, nextConnId := 3\<rparr>) 0 = Inr (one_sub kConnected)"
    by (simp add: sub_at_def one_base_def conn_loop.defs)
  moreover obtain l1 c where new: "new_TcpConnection (conn_name ?B) 12 (one_sub kConnected) = (l1, c)"
    by (cases "new_TcpConnection (conn_name ?B) 12 (one_sub kConnected)")
  moreover have "ctid l1 = 1"
    using new by (auto simp: new_TcpConnection_def Let_def add_channel_def one_sub_def one_loop_def conn_loop.defs)
  then have "runInloop (\<lambda>_. connectEstablished quiet_calls c) 9 (ConnectEstablished c) l1 = Inr (queueInloop 9 (ConnectEstablished c) l1)"
    by (simp add: runInloop_def isInLoopThread_def)
  ultimately obtain B' where "newConnection (echo_calls two_at_a_time 9 (\<lambda>c. Inr)) (\<lambda>_. quiet_calls) 9 12 (new_InetAddress 0) ?B = Inr B'"
    by (simp add: newConnection_def Let_def)
  with connection_names_fresh [OF inv this] show ?thesis by blast
qed

text \<open>
  The library shows no address as it is. A listening address prints as the first bytes of its
  structure, family and port, whatever its four address bytes are; and the address of a peer is
  lost on the way from \<open>accept4\<close> to the connection.
\<close>

lemma addresses_are_lost:
  "toIpPort \<lparr>sin_family = 2, sin_port = port, sin_addr = ip\<rparr> =
     Inr (''2.0.'' @ digits (unat port div 256) @ ''.'' @ digits (unat port mod 256) @ '':'' @ digits (unat port)) \<and>
   socket_accept connfd addr (new_InetAddress 0) = (connfd, new_InetAddress 0)"
proof
  have u: "unat port < 65536" using unsigned_less [where 'a = nat, of port] by simp
  then have "unat port div 256 < 10 ^ 3" "unat port mod 256 < 10 ^ 3" "unat port < 10 ^ 5" by auto
  then have "length (digits (unat port div 256)) \<le> 3" "length (digits (unat port mod 256)) \<le> 3" "length (digits (unat port)) \<le> 5"
    by (intro digits_length; simp)+
  then show "toIpPort \<lparr>sin_family = 2, sin_port = port, sin_addr = ip\<rparr> =
     Inr (''2.0.'' @ digits (unat port div 256) @ ''.'' @ digits (unat port mod 256) @ '':'' @ digits (unat port))"
    unfolding toIpPort_def inet_ntop_def addr_bytes_def by (subst into_array_ok) (auto simp: NUL_digits digits_0_2)
  show "socket_accept connfd addr (new_InetAddress 0) = (connfd, new_InetAddress 0)"
    by (simp add: socket_accept_def setSockAddrInet_def)
qed

end
