(* ===== verification/Cxx_Session.thy ===== *)
theory Cxx_Session
  imports Cxx_Server
begin

text \<open>
  A client of the echo server from its connection to its end, through the loops of both threads: the
  acceptor hands the connection to a worker, the worker's loop is woken up and registers it, answers
  the message that arrives, reads the end of the stream, and the base loop's functors remove what is
  left. Each step is a round of \<open>EventLoop::loop\<close> on what \<open>epoll_wait\<close> reports. A wait reports only
  what the kernel can report then (\<open>can_report\<close>): events that were asked for on registered
  descriptors, and one on the loop's eventfd only if its counter is not 0, that is, if the loop has been
  woken up; otherwise the run hangs.
\<close>

section \<open>Rounds of a loop\<close>

text \<open>Events that only lead to reading: the peer's end may be reported with them.\<close>

definition only_reads :: "32 word \<Rightarrow> bool" where
  "only_reads e \<longleftrightarrow> e AND EPOLLIN \<noteq> 0 \<and> e AND NOT (kReadEvent OR EPOLLHUP) = 0"

lemma mask_disjoint: "(e :: 32 word) AND NOT m = 0 \<Longrightarrow> m AND k = 0 \<Longrightarrow> e AND k = 0"
  by (rule bit_eqI) (auto simp: bit_eq_iff bit_and_iff bit_not_iff)

lemma only_readsD:
  assumes "only_reads e"
  shows "e AND EPOLLIN \<noteq> 0" "e AND EPOLLERR = 0" "e AND EPOLLOUT = 0"
proof -
  have e: "e AND NOT (kReadEvent OR EPOLLHUP) = 0" "e AND EPOLLIN \<noteq> 0" using assms by (simp_all add: only_reads_def)
  have "(kReadEvent OR EPOLLHUP) AND EPOLLERR = 0" "(kReadEvent OR EPOLLHUP) AND EPOLLOUT = 0"
    by (simp_all add: kReadEvent_def EPOLLIN_def EPOLLPRI_def EPOLLHUP_def EPOLLERR_def EPOLLOUT_def)
  with e mask_disjoint show "e AND EPOLLIN \<noteq> 0" "e AND EPOLLERR = 0" "e AND EPOLLOUT = 0" by blast+
qed

text \<open>What \<open>epoll_wait\<close> can report, and rounds in which it reports nothing else.\<close>

definition can_report_event :: "('f, 'z) cloop_scheme \<Rightarrow> nat \<times> 32 word \<Rightarrow> bool" where
  "can_report_event l = (\<lambda>(a, e).
     case cheap l a of None \<Rightarrow> False
     | Some ch \<Rightarrow> (case pepoll l (cfd ch) of None \<Rightarrow> False
         | Some (m, b) \<Rightarrow> b = a \<and> e AND NOT (m OR EPOLLERR OR EPOLLHUP) = 0 \<and> (cfd ch = wakefd l \<longrightarrow> 0 < wakeups l)))"

definition can_report :: "('f, 'z) cloop_scheme \<Rightarrow> cready \<Rightarrow> bool" where
  "can_report l ready = (case ready of None \<Rightarrow> True | Some evs \<Rightarrow> list_all (can_report_event l) evs)"

fun run_waits ::
  "(cready list \<Rightarrow> ('f, 'z) cloop_scheme \<Rightarrow> ('f, 'z) cloop_scheme result) \<Rightarrow> cready list \<Rightarrow>
   ('f, 'z) cloop_scheme \<Rightarrow> ('f, 'z) cloop_scheme result" where
  "run_waits rounds [] l = Inr l"
| "run_waits rounds (ready # rest) l =
     (if can_report l ready then rbind (rounds [ready] l) (run_waits rounds rest) else Inl Hang)"

lemma run_waits_step: "can_report l ready \<Longrightarrow> rounds [ready] l = Inr l' \<Longrightarrow> run_waits rounds (ready # rest) l = run_waits rounds rest l'"
  by simp

declare run_waits.simps(2) [simp del]

text \<open>What \<open>poll\<close> leaves when it reports one channel.\<close>

definition at_event :: "nat \<Rightarrow> 32 word \<Rightarrow> cchannel \<Rightarrow> 'z reactor_scheme \<Rightarrow> 'z reactor_scheme" where
  "at_event a e ch l = l\<lparr>cheap := (cheap l)(a \<mapsto> ch\<lparr>crevents := e\<rparr>), pevents := (if pevents l = 1 then 2 else pevents l)\<rparr>"

lemma poll_one: "cheap l a = Some ch \<Longrightarrow> poll (Some [(a, e)]) l = Inr (at_event a e ch l, [a])"
  by (simp add: poll_def upd_chan_Some at_event_def)

lemma only_reads_test: "only_reads e \<Longrightarrow> e AND (EPOLLIN OR EPOLLPRI) \<noteq> 0"
proof
  assume a: "only_reads e" and 0: "e AND (EPOLLIN OR EPOLLPRI) = 0"
  have "e AND EPOLLIN = (e AND (EPOLLIN OR EPOLLPRI)) AND EPOLLIN"
    by (rule bit_eqI) (auto simp: bit_and_iff bit_or_iff)
  with 0 show False using only_readsD(1) [OF a] by simp
qed

lemma read_round:
  assumes "\<not> quit l" and ch: "cheap l a = Some ch" "readCallback ch = Some h"
    and tied: "tied ch \<Longrightarrow> \<exists>obj. tie ch = Some obj \<and> alive (at_event a e ch l) obj" and e: "only_reads e"
    and call: "call h (at_event a e ch l) = Inr l2" "cheap l2 a = Some ch'" "crevents ch' = e"
  shows "loop_rounds exec call alive (Some [(a, e)] # rest) l = rbind (doPendingFunctors exec l2) (loop_rounds exec call alive rest)"
proof -
  let ?l = "at_event a e ch l"
  have at: "cchan_at ?l a = Inr (ch\<lparr>crevents := e\<rparr>)" "cchan_at l2 a = Inr ch'"
    using call(2) by (simp_all add: at_event_def)
  have "handleEventWithGuard call a ?l = Inr l2"
    using only_readsD [OF e] only_reads_test [OF e] ch(2) call(1,3) by (simp add: handleEventWithGuard_def call_if_def at)
  then have "handleEvent call alive a ?l = Inr l2"
    using tied by (auto simp: handleEvent_def at split: option.splits)
  then show ?thesis using assms(1) by (simp add: poll_one [OF ch(1)])
qed

declare loop_rounds.simps(2) [simp del]

text \<open>A loop that is waiting: its poller is sound, its eventfd is watched and read when another thread writes to it.\<close>

definition waiting :: "'z conn_loop_scheme \<Rightarrow> bool" where
  "waiting l \<longleftrightarrow> reactor_inv l \<and> \<not> quit l \<and> \<not> calling l \<and>
     (\<exists>ch. cheap l (wakechan l) = Some ch \<and> readCallback ch = Some LoopRead \<and> \<not> tied ch) \<and>
     pepoll l (wakefd l) = Some (kReadEvent, wakechan l)"

lemma waiting_wakefd: "waiting l \<Longrightarrow> cheap l (wakechan l) = Some ch \<Longrightarrow> cfd ch = wakefd l"
proof -
  assume w: "waiting l" and c: "cheap l (wakechan l) = Some ch"
  then have inv: "reactor_inv l" and p: "pepoll l (wakefd l) = Some (kReadEvent, wakechan l)" by (simp_all add: waiting_def)
  from inv p obtain b ch' where b: "cheap l b = Some ch'" "cfd ch' = wakefd l" unfolding reactor_inv_defs by blast
  have "chan_ok l b ch'" using inv b(1) by (simp add: reactor_inv_defs)
  with p b have "b = wakechan l" by (auto simp: chan_ok_def)
  with b c show ?thesis by simp
qed

lemma can_report_wake:
  assumes "waiting l" and "0 < wakeups l"
  shows "can_report l (Some [(wakechan l, EPOLLIN)])"
proof -
  obtain ch where ch: "cheap l (wakechan l) = Some ch" using assms(1) by (auto simp: waiting_def)
  have "EPOLLIN AND NOT (kReadEvent OR EPOLLERR OR EPOLLHUP) = 0"
    by (simp add: kReadEvent_def EPOLLIN_def EPOLLPRI_def EPOLLHUP_def EPOLLERR_def)
  with assms ch waiting_wakefd [OF assms(1) ch] show ?thesis
    by (simp add: can_report_def can_report_event_def waiting_def)
qed

text \<open>Another thread that queues a functor, or the loop's own while functors run, wakes it up.\<close>

lemma queueInloop_wakes: "ctid l \<noteq> self \<or> calling l \<Longrightarrow> 0 < wakeups (queueInloop self f l)"
  by (auto simp: queueInloop_def wakeup_def isInLoopThread_def Let_def)

text \<open>A readable channel that is watched for reading.\<close>

lemma can_report_read:
  assumes "cheap l a = Some ch" and "pepoll l (cfd ch) = Some (m, a)" and "m AND kReadEvent = kReadEvent"
    and "cfd ch \<noteq> wakefd l" and "only_reads e"
  shows "can_report l (Some [(a, e)])"
proof -
  have "e AND NOT (m OR EPOLLERR OR EPOLLHUP) = 0"
    using assms(3,5) unfolding only_reads_def by (auto simp: bit_eq_iff bit_and_iff bit_or_iff bit_not_iff)
  with assms(1,2,4) show ?thesis by (simp add: can_report_def can_report_event_def)
qed

text \<open>The loop when the functors that waited are about to run.\<close>

definition woken :: "'z conn_loop_scheme \<Rightarrow> 'z conn_loop_scheme" where
  "woken l = (at_event (wakechan l) EPOLLIN (the (cheap l (wakechan l))) l)\<lparr>wakeups := 0, calling := True, pending := []\<rparr>"

lemma EPOLLIN_only_reads: "only_reads EPOLLIN"
  by (simp add: only_reads_def EPOLLIN_def kReadEvent_def EPOLLPRI_def EPOLLHUP_def)

lemma at_event_inv: "reactor_inv l \<Longrightarrow> cheap l a = Some ch \<Longrightarrow> reactor_inv (at_event a e ch l)"
  using upd_chan_inv [of l a ch "\<lambda>ch. ch\<lparr>crevents := e\<rparr>"] pevents_inv unfolding at_event_def by fastforce

lemma woken_inv: "waiting l \<Longrightarrow> reactor_inv (woken l)"
  using at_event_inv [of l "wakechan l" _ EPOLLIN] unfolding waiting_def woken_def
  by (auto intro: iffD2 [OF reactor_inv_cong])

lemma woken_simps [simp]:
  "mconns (woken l) = mconns l" "mfresh (woken l) = mfresh l" "cos (woken l) = cos l" "shut (woken l) = shut l"
  "creads (woken l) = creads l" "ctid (woken l) = ctid l" "quit (woken l) = quit l" "calling (woken l)" "pending (woken l) = []"
  "wakechan (woken l) = wakechan l" "channels (woken l) = channels l" "pepoll (woken l) = pepoll l" "cfresh (woken l) = cfresh l"
  "wakefd (woken l) = wakefd l" "wakeups (woken l) = 0"
  "a \<noteq> wakechan l \<Longrightarrow> cheap (woken l) a = cheap l a"
  by (simp_all add: woken_def at_event_def)

lemma wake_round:
  assumes "waiting l" and call: "\<And>l. call LoopRead l = Inr (loop_handleRead l)"
  shows "loop_rounds exec call alive (Some [(wakechan l, EPOLLIN)] # rest) l =
     rbind (put_all (\<lambda>l f. exec f l) (woken l) (pending l)) (\<lambda>l1. loop_rounds exec call alive rest (l1\<lparr>calling := False\<rparr>))"
proof -
  obtain ch where ch: "cheap l (wakechan l) = Some ch" "readCallback ch = Some LoopRead" "\<not> tied ch" and q: "\<not> quit l"
    using assms(1) by (auto simp: waiting_def)
  let ?l = "at_event (wakechan l) EPOLLIN ch l"
  have "loop_rounds exec call alive (Some [(wakechan l, EPOLLIN)] # rest) l =
     rbind (doPendingFunctors exec (loop_handleRead ?l)) (loop_rounds exec call alive rest)"
    by (rule read_round [where l = l and a = "wakechan l" and alive = alive and call = call and ch' = "ch\<lparr>crevents := EPOLLIN\<rparr>", OF q ch(1,2) _ EPOLLIN_only_reads call])
      (use ch(3) in \<open>simp_all add: loop_handleRead_def at_event_def\<close>)
  moreover have "woken l = (loop_handleRead ?l)\<lparr>calling := True, pending := []\<rparr>"
    by (simp add: woken_def loop_handleRead_def ch(1) at_event_def)
  moreover have "pending (loop_handleRead ?l) = pending l" by (simp add: loop_handleRead_def at_event_def)
  ultimately show ?thesis by (simp add: doPendingFunctors_def rbind_assoc)
qed

lemma idle_functors: "pending l = [] \<Longrightarrow> \<not> calling l \<Longrightarrow> doPendingFunctors exec l = Inr l"
  by (simp add: doPendingFunctors_def)

section \<open>The rounds of a worker\<close>

lemma queueInloop_more_fields [simp]:
  "quit (queueInloop self f l) = quit l" "wakechan (queueInloop self f l) = wakechan l" "wakefd (queueInloop self f l) = wakefd l"
  "outbox (queueInloop self f s) = outbox s"
  by (simp_all add: queueInloop_def wakeup_def Let_def)

lemma open_at_event: "open_conn l c conn ch \<Longrightarrow> open_conn (at_event (cchan conn) e ch l) c conn (ch\<lparr>crevents := e\<rparr>)"
  using at_event_inv [of l "cchan conn" ch e] by (simp add: open_conn_def at_event_def isWriting_def)

lemma open_conn_calling: "open_conn (l\<lparr>calling := b\<rparr>) c conn ch = open_conn l c conn ch"
proof -
  have "reactor_inv (l\<lparr>calling := b\<rparr>) = reactor_inv l" by (rule reactor_inv_cong) simp_all
  then show ?thesis by (simp add: open_conn_def)
qed

lemma at_event_simps [simp]:
  "mconns (at_event a e ch l) = mconns l" "cos (at_event a e ch l) = cos l" "shut (at_event a e ch l) = shut l"
  "creads (at_event a e ch l) = creads l" "ctid (at_event a e ch l) = ctid l" "quit (at_event a e ch l) = quit l"
  "calling (at_event a e ch l) = calling l" "pending (at_event a e ch l) = pending l" "outbox (at_event a e ch s) = outbox s"
  "cheap (at_event a e ch l) = (cheap l)(a \<mapsto> ch\<lparr>crevents := e\<rparr>)" "pepoll (at_event a e ch l) = pepoll l"
  "wakefd (at_event a e ch l) = wakefd l" "wakeups (at_event a e ch l) = wakeups l" "wakechan (at_event a e ch l) = wakechan l"
  by (simp_all add: at_event_def)

text \<open>
  A worker in whose loop connection \<open>c\<close> is registered and watched for reading, with nothing else to do;
  \<open>m\<close> are its other connections.
\<close>

definition in_service :: "(nat \<rightharpoonup> mconn) \<Rightarrow> nat \<Rightarrow> sub_loop \<Rightarrow> nat \<Rightarrow> mconn \<Rightarrow> cchannel \<Rightarrow> bool" where
  "in_service m self l c conn ch \<longleftrightarrow> open_conn l c conn ch \<and> \<not> quit l \<and> \<not> calling l \<and> pending l = [] \<and> outbox l = [] \<and>
     ctid l = self \<and> tied ch \<and> tie ch = Some c \<and> readCallback ch = Some (ConnRead c) \<and> \<not> isWriting ch \<and> mconns l = m(c \<mapsto> conn) \<and>
     pepoll l (csock conn) = Some (kReadEvent, cchan conn) \<and> csock conn \<noteq> wakefd l"

lemma can_report_conn: "in_service m self l c conn ch \<Longrightarrow> only_reads e \<Longrightarrow> can_report l (Some [(cchan conn, e)])"
  by (rule can_report_read [of _ _ ch kReadEvent]) (simp_all add: in_service_def open_conn_def)

definition worker_rounds ::
  "cworld \<Rightarrow> nat \<Rightarrow> nat \<Rightarrow> cready list \<Rightarrow> sub_loop \<Rightarrow> sub_loop result" where
  "worker_rounds W self i =
     loop_rounds (echo_exec W self i) (conn_call W (echo_calls W self (sub_removeConnection i)) Inr self) conn_alive"

lemma worker_rounds_Nil [simp]: "worker_rounds W self i [] l = Inr l"
  by (simp add: worker_rounds_def)

lemma established_round:
  assumes w: "waiting l" "pending l = []" "outbox l = []" and free: "\<forall>a ch. cheap l a = Some ch \<longrightarrow> cfd ch \<noteq> f" "\<not> prefuses l f"
    and new: "new_TcpConnection name f l = (l1, c)" and other: "ctid l \<noteq> self"
  shows "can_report (queueInloop self (ConnectEstablished c) l1) (Some [(wakechan l, EPOLLIN)]) \<and>
     (\<exists>l' conn ch. worker_rounds W (ctid l) i (Some [(wakechan l, EPOLLIN)] # rest) (queueInloop self (ConnectEstablished c) l1) =
       worker_rounds W (ctid l) i rest l' \<and> in_service (mconns l) (ctid l) l' c conn ch \<and> cstate conn = kConnected \<and>
     csock conn = f \<and> cchan conn = cfresh l \<and> cname conn = name \<and> inputBuffer conn = new_Buffer kInitialSize \<and>
     creads l' = creads l \<and> cos l' = cos l \<and> shut l' = shut l)"
proof -
  let ?U = "echo_calls W (ctid l) (sub_removeConnection i)" and ?q = "queueInloop self (ConnectEstablished c) l1"
  from w(1) obtain wch where inv: "reactor_inv l" and wch: "cheap l (wakechan l) = Some wch" "readCallback wch = Some LoopRead" "\<not> tied wch"
    by (auto simp: waiting_def)
  obtain conn ch where n: "open_conn l1 c conn ch" "cstate conn = kConnecting" "csock conn = f" "unread (outputBuffer conn) = []"
      "cevents ch = 0" "inputBuffer conn = new_Buffer kInitialSize" "cname conn = name" "cchan conn = cfresh l" "readCallback ch = Some (ConnRead c)"
      "l1 = l\<lparr>cheap := (cheap l)(cfresh l \<mapsto> ch), cfresh := Suc (cfresh l), mconns := (mconns l)(c \<mapsto> conn), mfresh := Suc (mfresh l)\<rparr>"
    using new_conn_open [OF inv free new] by blast
  have "cheap l (cfresh l) = None" using inv by (auto simp: reactor_inv_defs) (metis less_irrefl option.exhaust)
  then have ne: "wakechan l \<noteq> cfresh l" using wch(1) by auto
  have l1: "wakechan l1 = wakechan l" "pending l1 = []" "wakefd l1 = wakefd l" "ctid l1 = ctid l" using w by (simp_all add: n(10))
  have wfd: "f \<noteq> wakefd l" using waiting_wakefd [OF w(1) wch(1)] free(1) wch(1) by blast
  have wp: "pepoll l (wakefd l) = Some (kReadEvent, wakechan l)" using w(1) by (simp add: waiting_def)
  have q: "wakechan ?q = wakechan l" "pending ?q = [ConnectEstablished c]" "\<not> calling ?q" "\<not> quit ?q"
    using w by (simp_all add: n(10) waiting_def)
  have wq: "waiting ?q"
    using n(1) q wch ne wp by (simp add: waiting_def open_conn_def n(10))
  have can: "can_report ?q (Some [(wakechan l, EPOLLIN)])"
    using can_report_wake [OF wq] queueInloop_wakes [of l1 self] other by (simp add: l1(1,4))
  have "open_conn (woken ?q) c conn ch"
    using n(1) woken_inv [OF wq] ne by (simp add: open_conn_def n(8) q(1) n(10))
  from connectEstablished_open [OF this, of ?U onConnection] obtain m e ch' where
    k: "connectEstablished ?U c (woken ?q) = Inr ((woken ?q)\<lparr>mconns := (mconns (woken ?q))(c \<mapsto> conn\<lparr>cstate := kConnected\<rparr>),
         channels := m, pepoll := e, cheap := (cheap (woken ?q))(cchan conn \<mapsto> ch')\<rparr>)"
      "open_conn ((woken ?q)\<lparr>mconns := (mconns (woken ?q))(c \<mapsto> conn\<lparr>cstate := kConnected\<rparr>),
         channels := m, pepoll := e, cheap := (cheap (woken ?q))(cchan conn \<mapsto> ch')\<rparr>) c (conn\<lparr>cstate := kConnected\<rparr>) ch'"
      "tie ch' = Some c" "tied ch'" "cevents ch' = cevents ch OR kReadEvent" "same_calls ch ch'" "e (csock conn) = Some (cevents ch', cchan conn)"
    by (auto simp: echo_calls_def onConnection_def)
  let ?k = "(woken ?q)\<lparr>mconns := (mconns (woken ?q))(c \<mapsto> conn\<lparr>cstate := kConnected\<rparr>),
         channels := m, pepoll := e, cheap := (cheap (woken ?q))(cchan conn \<mapsto> ch'), calling := False\<rparr>"
  have "echo_exec W (ctid l) i (ConnectEstablished c) (woken ?q) = connectEstablished ?U c (woken ?q)"
    by (simp add: echo_exec_def Let_def)
  then have r: "worker_rounds W (ctid l) i (Some [(wakechan l, EPOLLIN)] # rest) ?q = worker_rounds W (ctid l) i rest ?k"
    using wake_round [OF wq, of "conn_call W ?U Inr (ctid l)" "echo_exec W (ctid l) i" conn_alive rest] k(1)
    by (simp add: worker_rounds_def l1)
  have "isWriting ch' = isWriting ch" by (simp add: isWriting_bit k(5) bit_or_iff event_bits_cxx)
  moreover have "\<not> isWriting ch" using n(5) by (simp add: isWriting_def)
  moreover have "open_conn ?k c (conn\<lparr>cstate := kConnected\<rparr>) ch'"
    using k(2) by (simp only: open_conn_calling)
  ultimately have "in_service (mconns l) (ctid l) ?k c (conn\<lparr>cstate := kConnected\<rparr>) ch'"
    using k(3-7) w n(3,5,8,9) q(4) wfd by (simp add: in_service_def same_calls_def n(10) woken_def)
  with r can show ?thesis
    using n(3,6,7,8) by (intro conjI exI [of _ ?k] exI [of _ "conn\<lparr>cstate := kConnected\<rparr>"] exI [of _ ch']) (simp_all add: n(10))
qed

text \<open>A round in which the connection's descriptor is readable: its callback runs, then nothing is left to do.\<close>

lemma connection_round:
  assumes s: "in_service m self l c conn ch" and e: "only_reads e"
    and r: "conn_handleRead W (echo_calls W self (sub_removeConnection i)) c (at_event (cchan conn) e ch l) = Inr l'"
    and l': "cheap l' (cchan conn) = Some ch'" "crevents ch' = e" "pending l' = []" "\<not> calling l'"
  shows "worker_rounds W self i (Some [(cchan conn, e)] # rest) l = worker_rounds W self i rest l'"
proof -
  have "\<not> quit l" "cheap l (cchan conn) = Some ch" "readCallback ch = Some (ConnRead c)" "tied ch \<Longrightarrow> tie ch = Some c" "mconns l c = Some conn"
    using s by (simp_all add: in_service_def open_conn_def)
  then have "loop_rounds (echo_exec W self i) (conn_call W (echo_calls W self (sub_removeConnection i)) Inr self) conn_alive (Some [(cchan conn, e)] # rest) l =
    rbind (doPendingFunctors (echo_exec W self i) l') (loop_rounds (echo_exec W self i) (conn_call W (echo_calls W self (sub_removeConnection i)) Inr self) conn_alive rest)"
    using r by (intro read_round [OF _ _ _ _ e _ l'(1,2)]) (auto simp: conn_alive_def)
  then show ?thesis by (simp add: worker_rounds_def idle_functors [OF l'(3,4)])
qed

lemma message_round:
  assumes s: "in_service m self l c conn ch" and st: "cstate conn = kConnected" and e: "only_reads e"
    and rv: "cw_recv W (creads l) (csock conn) = Some bs" "bs \<noteq> []" "growable (cw_al W) (inputBuffer conn) (length bs)"
    and all: "cw_send W (sends (cos l)) 2 = 2"
  shows "\<exists>l' conn' ch'. worker_rounds W self i (Some [(cchan conn, e)] # rest) l = worker_rounds W self i rest l' \<and>
     in_service m self l' c conn' ch' \<and> cstate conn' = kDisconnectiong \<and> csock conn' = csock conn \<and> cchan conn' = cchan conn \<and>
     cname conn' = cname conn \<and> cbuf_inv (inputBuffer conn') \<and> creads l' = Suc (creads l) \<and>
     sent (cos l) (csock conn) ''OK'' [] (cos l') \<and> shut l' = shut l @ [csock conn]"
proof -
  let ?l = "at_event (cchan conn) e ch l" and ?ch = "ch\<lparr>crevents := e\<rparr>" and ?U = "echo_calls W self (sub_removeConnection i)"
  note s' = s [unfolded in_service_def]
  have oc: "open_conn ?l c conn ?ch" using s' by (simp add: open_at_event)
  obtain b l1 where 1: "l1 = ?l\<lparr>creads := Suc (creads l), mconns := (mconns l)(c \<mapsto> conn\<lparr>inputBuffer := b\<rparr>)\<rparr>"
      "open_conn l1 c (conn\<lparr>inputBuffer := b\<rparr>) ?ch" "conn_handleRead W ?U c ?l = onMessage W self c l1"
    using handleRead_some [OF oc, of W bs ?U] rv by (auto simp: echo_calls_def user_call_def)
  have "\<not> isWriting ?ch" "cstate (conn\<lparr>inputBuffer := b\<rparr>) = kConnected" "ctid l1 = self" "cw_send W (sends (cos l1)) 2 = 2"
    using s' st all by (simp_all add: 1(1) isWriting_def)
  from echo_message [OF 1(2) this(2,3,1,4)] obtain net where net: "onMessage W self c l1 = Inr (l1\<lparr>cos := net,
       mconns := (mconns l1)(c \<mapsto> conn\<lparr>inputBuffer := b, cstate := kDisconnectiong\<rparr>), shut := shut l1 @ [csock conn]\<rparr>)"
      "sent (cos l) (csock conn) ''OK'' [] net"
    by (auto simp: 1(1))
  let ?l' = "l1\<lparr>cos := net, mconns := (mconns l1)(c \<mapsto> conn\<lparr>inputBuffer := b, cstate := kDisconnectiong\<rparr>), shut := shut l1 @ [csock conn]\<rparr>"
  have "worker_rounds W self i (Some [(cchan conn, e)] # rest) l = worker_rounds W self i rest ?l'"
    by (rule connection_round [OF s e, of W i ?l' ?ch]) (use 1 net(1) s' in \<open>simp_all add: open_conn_def\<close>)
  moreover have "in_service m self ?l' c (conn\<lparr>inputBuffer := b, cstate := kDisconnectiong\<rparr>) ?ch"
    using 1(2) s' by (simp add: in_service_def open_conn_def isWriting_def 1(1))
  ultimately show ?thesis
    using net(2) 1(2) by (intro exI [of _ ?l'] exI [of _ "conn\<lparr>inputBuffer := b, cstate := kDisconnectiong\<rparr>"] exI [of _ ?ch])
      (simp add: 1(1) open_conn_def)
qed

lemma end_round:
  assumes s: "in_service m self l c conn ch" and e: "only_reads e" and rv: "cw_recv W (creads l) (csock conn) = Some []"
  shows "\<exists>l' conn' ch'. worker_rounds W self i (Some [(cchan conn, e)] # rest) l = worker_rounds W self i rest l' \<and>
     reactor_inv l' \<and> mconns l' = m(c \<mapsto> conn') \<and> cheap l' (cchan conn) = Some ch' \<and> cfd ch' = csock conn \<and>
     cstate conn' = kDisconnected \<and> cname conn' = cname conn \<and> csock conn' = csock conn \<and> cchan conn' = cchan conn \<and>
     outbox l' = [RemoveInLoop (OnSub i c)] \<and> pending l' = [] \<and> cos l' = cos l \<and> shut l' = shut l \<and> ctid l' = self"
proof -
  let ?l = "at_event (cchan conn) e ch l" and ?ch = "ch\<lparr>crevents := e\<rparr>" and ?U = "echo_calls W self (sub_removeConnection i)"
  note s' = s [unfolded in_service_def]
  have oc: "open_conn ?l c conn ?ch" using s' by (simp add: open_at_event)
  have "cw_recv W (creads ?l) (csock conn) = Some []" "outbox ?l = []" using rv s' by simp_all
  from worker_reads_end [OF oc this, of self i self] obtain l' conn' ch' m' w where
    1: "conn_handleRead W ?U c ?l = Inr l'" "reactor_inv l'" "mconns l' c = Some conn'" "cheap l' (cchan conn) = Some ch'" "cfd ch' = csock conn"
      "cstate conn' = kDisconnected" "cname conn' = cname conn" "csock conn' = csock conn" "cchan conn' = cchan conn"
      "outbox l' = [RemoveInLoop (OnSub i c)]" "pending l' = pending ?l" "cos l' = cos ?l" "crevents ch' = e"
    and l': "l' = ?l\<lparr>creads := Suc (creads ?l), mconns := (mconns ?l)(c \<mapsto> conn'), channels := m', pepoll := w,
        cheap := (cheap ?l)(cchan conn \<mapsto> ch'), outbox := [RemoveInLoop (OnSub i c)]\<rparr>"
    by auto
  have "worker_rounds W self i (Some [(cchan conn, e)] # rest) l = worker_rounds W self i rest l'"
    by (rule connection_round [OF s e 1(1,4,13)]) (use s' in \<open>simp_all add: l'\<close>)
  with 1 s' show ?thesis by (intro exI [of _ l'] exI [of _ conn'] exI [of _ ch']) (simp add: l')
qed

section \<open>The rounds of the base loop\<close>

lemma waiting_cong:
  assumes "channels l' = channels l" "pepoll l' = pepoll l" "prefuses l' = prefuses l" "cheap l' = cheap l" "cfresh l' = cfresh l"
    and "quit l' = quit l" "calling l' = calling l" "wakechan l' = wakechan l" "wakefd l' = wakefd l"
  shows "waiting l' \<longleftrightarrow> waiting l"
  using reactor_inv_cong [OF assms(1-5)] assms(2,4,6-9) by (simp add: waiting_def)

lemma waiting_base [simp]:
  "waiting (put_sub i l B) = waiting B" "waiting (queueInloop self f B) = waiting B" "waiting (B\<lparr>connections := m\<rparr>) = waiting B"
  "waiting (B\<lparr>lpool := p, nextConnId := n\<rparr>) = waiting B"
  for B :: base_loop
  by (rule waiting_cong; simp add: put_sub_def)+

lemma base_fields [simp]:
  "lpool (woken B) = lpool B" "connections (woken B) = connections B" "sub_at (woken B) i = sub_at B i" "ctid (put_sub i l B) = ctid B"
  "lpool (at_event a e ch B) = lpool B" "connections (at_event a e ch B) = connections B" "sub_at (at_event a e ch B) i = sub_at B i"
  "nextConnId (at_event a e ch B) = nextConnId B" "acc_callback (at_event a e ch B) = acc_callback B" "conn_name (at_event a e ch B) = conn_name B"
  "pending (put_sub i l B) = pending B" "wakechan (put_sub i l B) = wakechan B" "wakefd (put_sub i l B) = wakefd B" "wakeups (put_sub i l B) = wakeups B"
  "cheap (put_sub i l B) = cheap B" "calling (put_sub i l B) = calling B"
  for B :: base_loop
  by (simp_all add: woken_def at_event_def sub_at_def put_sub_def conn_name_def)

lemma waiting_at_event:
  assumes "waiting l" and "cheap l a = Some ch"
  shows "waiting (at_event a e ch l)"
proof -
  show ?thesis using assms at_event_inv [of l a ch e] by (auto simp: waiting_def)
qed

lemma waiting_woken:
  assumes "waiting l"
  shows "waiting ((woken l)\<lparr>calling := False\<rparr>)"
proof -
  obtain ch where ch: "cheap l (wakechan l) = Some ch" using assms by (auto simp: waiting_def)
  have "waiting ((woken l)\<lparr>calling := False\<rparr>) = waiting (at_event (wakechan l) EPOLLIN ch l)"
    using assms by (intro waiting_cong) (simp_all add: woken_def ch at_event_def waiting_def)
  with waiting_at_event [OF assms ch] show ?thesis by simp
qed

definition base_rounds ::
  "cworld \<Rightarrow> base_loop user_calls \<Rightarrow> (nat \<Rightarrow> sub_loop user_calls) \<Rightarrow> bool \<Rightarrow> nat \<Rightarrow> int \<Rightarrow> inet_address \<Rightarrow> cready list \<Rightarrow>
   base_loop \<Rightarrow> base_loop result" where
  "base_rounds W U V listens self connfd addr =
     loop_rounds (exec_functor W U (server_functor U V listens self) self)
       (conn_call W U (acceptor_handleRead (newConnection U V self) connfd addr) self) conn_alive"

lemma base_rounds_Nil [simp]: "base_rounds W U V listens self connfd addr [] B = Inr B"
  by (simp add: base_rounds_def)

text \<open>A base loop that listens: its acceptor's descriptor is registered for reading.\<close>

definition accepting :: "base_loop \<Rightarrow> cchannel \<Rightarrow> bool" where
  "accepting B ach \<longleftrightarrow> waiting B \<and> pending B = [] \<and> listening B \<and> acc_callback B \<and> cheap B (acc_chan B) = Some ach \<and>
     readCallback ach = Some AcceptRead \<and> \<not> tied ach \<and> cfd ach = acc_fd B \<and> pepoll B (acc_fd B) = Some (kReadEvent, acc_chan B)"

lemma can_report_accept:
  assumes "accepting B ach" and "only_reads e"
  shows "can_report B (Some [(acc_chan B, e)])"
proof -
  note B = assms(1) [unfolded accepting_def]
  obtain wch where "cheap B (wakechan B) = Some wch" "readCallback wch = Some LoopRead" using B by (auto simp: waiting_def)
  then have "acc_chan B \<noteq> wakechan B" using B by auto
  moreover have "pepoll B (wakefd B) = Some (kReadEvent, wakechan B)" using B by (simp add: waiting_def)
  ultimately have "cfd ach \<noteq> wakefd B" using B by auto
  then show ?thesis using B by (intro can_report_read [OF _ _ _ _ assms(2), of _ _ ach kReadEvent]) simp_all
qed

lemma base_wake:
  assumes "waiting B" and "pending B = [f]" and "exec_functor W U (server_functor U V listens self) self f (woken B) = Inr B'"
  shows "base_rounds W U V listens self connfd addr (Some [(wakechan B, EPOLLIN)] # rest) B =
     base_rounds W U V listens self connfd addr rest (B'\<lparr>calling := False\<rparr>)"
  using wake_round [OF assms(1), of "conn_call W U (acceptor_handleRead (newConnection U V self) connfd addr) self"
      "exec_functor W U (server_functor U V listens self) self" conn_alive rest] assms(2,3)
  by (simp add: base_rounds_def)

text \<open>The acceptor's event: the connection goes to the worker whose turn it is.\<close>

lemma toIpPort_any: "\<exists>s. toIpPort (new_InetAddress p) = Inr s"
  using addresses_are_lost [of p "[0, 0, 0, 0]"] by (auto simp: new_InetAddress_def)

lemma getNextLoop_loops: "getNextLoop p = Inr (p', r) \<Longrightarrow> loops p' = loops p"
  by (auto simp: getNextLoop_def split: if_splits)

lemma accept_round:
  assumes acc: "accepting B ach" "int32 (nextConnId B + 1)"
    and p: "getNextLoop (lpool B) = Inr (p, WorkerLoop i)" and l: "sub_at B i = Inr l" "ctid l \<noteq> self" and f: "0 \<le> connfd"
    and new: "new_TcpConnection (conn_name B) connfd l = (l1, c)" and e: "only_reads e"
  shows "\<exists>B1. run_waits (base_rounds W U V listens self connfd addr) [Some [(acc_chan B, e)]] B =
       Inr (put_sub i (queueInloop self (ConnectEstablished c) l1) B1) \<and>
     waiting B1 \<and> pending B1 = [] \<and> connections B1 = (connections B)(conn_name B \<mapsto> OnSub i c) \<and>
     loops (lpool B1) = loops (lpool B) \<and> wakechan B1 = wakechan B \<and> ctid B1 = ctid B"
proof -
  have B: "waiting B" "pending B = []" "cheap B (acc_chan B) = Some ach" "readCallback ach = Some AcceptRead" "\<not> tied ach"
      "acc_callback B" "int32 (nextConnId B + 1)"
    using acc by (simp_all add: accepting_def)
  let ?B = "at_event (acc_chan B) e ach B"
  define B1 where "B1 = ?B\<lparr>lpool := p, nextConnId := nextConnId B + 1, connections := (connections B)(conn_name B \<mapsto> OnSub i c)\<rparr>"
  let ?B2 = "put_sub i (queueInloop self (ConnectEstablished c) l1) B1"
  obtain ip where ip: "toIpPort (new_InetAddress 0) = Inr ip" using toIpPort_any by blast
  have "ctid l1 = ctid l" using new by (auto simp: new_TcpConnection_def Let_def add_channel_def)
  then have run: "runInloop g self (ConnectEstablished c) l1 = Inr (queueInloop self (ConnectEstablished c) l1)" for g
    using l(2) by (simp add: runInloop_def isInLoopThread_def)
  have sub: "sub_at (?B\<lparr>lpool := p, nextConnId := nextConnId B + 1\<rparr>) i = Inr l"
    using l(1) getNextLoop_loops [OF p] by (simp add: sub_at_def split: if_splits)
  have "acceptor_handleRead (newConnection U V self) connfd addr ?B = Inr ?B2"
    using B(6,7) f p ip sub new run
    by (simp add: acceptor_handleRead_def socket_accept_def setSockAddrInet_def newConnection_def B1_def)
  moreover have "\<not> quit B" "\<not> calling B" using B(1) by (simp_all add: waiting_def)
  ultimately have "base_rounds W U V listens self connfd addr [Some [(acc_chan B, e)]] B = rbind (doPendingFunctors (exec_functor W U (server_functor U V listens self) self) ?B2)
      (base_rounds W U V listens self connfd addr [])"
    unfolding base_rounds_def
    by (intro read_round [OF _ B(3,4) _ e, where ch' = "ach\<lparr>crevents := e\<rparr>"]) (use B(5) in \<open>simp_all add: B1_def at_event_def\<close>)
  also have "\<dots> = Inr ?B2"
    using \<open>\<not> calling B\<close> B(2) by (simp add: idle_functors B1_def base_rounds_def)
  finally have "base_rounds W U V listens self connfd addr [Some [(acc_chan B, e)]] B = Inr ?B2" .
  then have r: "run_waits (base_rounds W U V listens self connfd addr) [Some [(acc_chan B, e)]] B = Inr ?B2"
    by (subst run_waits_step [OF can_report_accept [OF acc(1) e]]) simp_all
  have "waiting B1" unfolding B1_def using waiting_at_event [OF B(1,3)] by simp
  with r B(2) getNextLoop_loops [OF p] show ?thesis by (intro exI [of _ B1]) (simp add: B1_def)
qed

text \<open>The two rounds in which the base loop removes a connection of worker \<open>i\<close>.\<close>

lemma waiting_calling: "waiting (B\<lparr>calling := False\<rparr>) \<Longrightarrow> waiting ((queueInloop self f (B\<lparr>connections := m\<rparr>))\<lparr>calling := False\<rparr>)"
  for B :: base_loop
  by (erule iffD1 [OF waiting_cong, rotated -1]) simp_all

lemma removal_rounds:
  assumes B: "waiting B" "pending B = [RemoveInLoop (OnSub i c)]" "sub_at B i = Inr l" "0 < wakeups B"
    and l: "reactor_inv l" "mconns l c = Some conn" "cstate conn = kDisconnected" "cheap l (cchan conn) = Some ch" "cfd ch = csock conn"
      "pending l = []"
  shows "\<exists>B' l'. run_waits (base_rounds W U V listens self connfd addr) [Some [(wakechan B, EPOLLIN)], Some [(wakechan B, EPOLLIN)]] B = Inr B' \<and>
     waiting B' \<and> pending B' = [] \<and> connections B' = (connections B)(cname conn := None) \<and> sub_at B' i = Inr l' \<and>
     mconns l' = (mconns l)(c := None) \<and> cheap l' = (cheap l)(cchan conn := None) \<and> pepoll l' (csock conn) = None \<and>
     cos l' = (cos l)\<lparr>os_closed := os_closed (cos l) @ [csock conn]\<rparr> \<and> shut l' = shut l \<and> pending l' = []"
proof -
  let ?m = "(connections B)(cname conn := None)"
  define B3 where "B3 = (queueInloop self (ConnectDestroy (OnSub i c)) ((woken B)\<lparr>connections := ?m\<rparr>))\<lparr>calling := False\<rparr>"
  have "base_rounds W U V listens self connfd addr [Some [(wakechan B, EPOLLIN)]] B = base_rounds W U V listens self connfd addr [] B3"
    unfolding B3_def
    by (rule base_wake [OF B(1,2)]) (simp add: removeConnectionInLoop_def ref_name_def B(3) mconn_at_def l(2))
  then have 1: "base_rounds W U V listens self connfd addr [Some [(wakechan B, EPOLLIN)]] B = Inr B3" by simp
  have B3: "waiting B3" "pending B3 = [ConnectDestroy (OnSub i c)]" "sub_at B3 i = Inr l" "wakechan B3 = wakechan B" "connections B3 = ?m"
    using waiting_calling [OF waiting_woken [OF B(1)]] B(3) by (simp_all add: B3_def sub_at_def split: if_splits)
  have up: "0 < wakeups B3"
    using queueInloop_wakes [of "(woken B)\<lparr>connections := ?m\<rparr>" self] by (simp add: B3_def)
  obtain l' where l': "destroy_conn (V i) c l = Inr l'" "mconns l' = (mconns l)(c := None)" "cheap l' = (cheap l)(cchan conn := None)"
      "pepoll l' (csock conn) = None" "cos l' = (cos l)\<lparr>os_closed := os_closed (cos l) @ [csock conn]\<rparr>" "shut l' = shut l" "pending l' = []"
    using destroy_conn_ok [OF l(1-5), of "V i"] l(6) by auto
  let ?B' = "(put_sub i l' (woken B3))\<lparr>calling := False\<rparr>"
  have i: "i < length (loops (lpool B3))" using B3(3) by (rule sub_at_length)
  have "base_rounds W U V listens self connfd addr [Some [(wakechan B3, EPOLLIN)]] B3 = base_rounds W U V listens self connfd addr [] ?B'"
    by (rule base_wake [OF B3(1,2)]) (simp add: B3(3) l'(1))
  then have 2: "base_rounds W U V listens self connfd addr [Some [(wakechan B, EPOLLIN)]] B3 = Inr ?B'" by (simp add: B3(4))
  have "run_waits (base_rounds W U V listens self connfd addr) [Some [(wakechan B, EPOLLIN)], Some [(wakechan B, EPOLLIN)]] B = Inr ?B'"
    using run_waits_step [where rounds = "base_rounds W U V listens self connfd addr", OF can_report_wake [OF B(1,4)] 1]
      run_waits_step [where rounds = "base_rounds W U V listens self connfd addr" and rest = "[]", OF can_report_wake [OF B3(1) up, unfolded B3(4)] 2] by simp
  moreover have "waiting ?B'"
    by (rule iffD1 [OF waiting_cong waiting_woken [OF B3(1)]]) (simp_all add: put_sub_def)
  moreover have "sub_at ?B' i = Inr l'" "connections ?B' = ?m" "pending ?B' = []"
    using i B3(5) by (simp_all add: sub_at_def put_sub_def)
  ultimately show ?thesis using l' by blast
qed

section \<open>Starting the server\<close>

text \<open>A loop without connections: its fields beyond those of \<open>EventLoop\<close>.\<close>

definition no_connections :: "'z \<Rightarrow> 'z conn_loop_ext" where
  "no_connections x = \<lparr>mconns = Map.empty, mfresh = 0, cos = silent, shut = [], creads = 0, \<dots> = x\<rparr>"

text \<open>A loop that only has the channel of its eventfd.\<close>

definition bare :: "int \<Rightarrow> nat \<Rightarrow> 'z conn_loop_scheme \<Rightarrow> bool" where
  "bare evtfd self l \<longleftrightarrow> waiting l \<and> pending l = [] \<and> ctid l = self \<and> wakechan l = 0 \<and> cfresh l = 1 \<and>
     dom (cheap l) = {0} \<and> cfd (the (cheap l 0)) = evtfd \<and> mconns l = Map.empty \<and> cos l = silent \<and> shut l = [] \<and> creads l = 0 \<and> mfresh l = 0"

lemma new_EventLoop_bare:
  fixes x :: 'z
  assumes "0 \<le> evtfd" and "\<not> refuses evtfd"
  shows "\<exists>l. new_EventLoop False (Some refuses) evtfd False self (no_connections x) = Inr l \<and> bare evtfd self l \<and>
     prefuses l = refuses \<and> conn_loop.more l = x"
proof -
  let ?ch = "(new_Channel evtfd)\<lparr>readCallback := Some LoopRead\<rparr>"
  define L :: "'z conn_loop_scheme" where "L = \<lparr>channels = Map.empty, pepoll = Map.empty, prefuses = refuses, pevents = 16, cheap = [0 \<mapsto> ?ch], cfresh = 1,
     looping = False, quit = False, ctid = self, wakefd = evtfd, wakechan = 0, wakeups = 0, calling = False, pending = [], \<dots> = no_connections x\<rparr>"
  let ?r = "registered 0 (?ch\<lparr>cevents := cevents ?ch OR kReadEvent\<rparr>) L"
  have inv: "reactor_inv L" using assms(2) by (simp add: L_def reactor_inv_defs chan_ok_def new_Channel_def kNew_def)
  have ch: "cheap L 0 = Some ?ch" by (simp add: L_def)
  have "(new_EventLoop False (Some refuses) evtfd False self (no_connections x) :: 'z conn_loop_scheme result) = enableReading 0 L"
    using assms by (simp add: new_EventLoop_def newDefaultPoller_def new_EpollPoller_def add_channel_def reactor.defs L_def Let_def)
  also have "\<dots> = Inr ?r" unfolding enableReading_def by (rule set_events_eq [OF inv ch])
  finally have "(new_EventLoop False (Some refuses) evtfd False self (no_connections x) :: 'z conn_loop_scheme result) = Inr ?r" .
  moreover have "reactor_inv ?r" by (rule registered_inv [OF inv ch]) simp_all
  ultimately show ?thesis
    by (intro exI [of _ ?r]) (simp add: bare_def waiting_def registered_def L_def no_connections_def conn_loop.defs new_Channel_def index_states)
qed

lemma toIpPort_text: "\<exists>ip. toIpPort (new_InetAddress port) = Inr ip \<and> length ip \<le> 40 \<and> NUL \<notin> set ip"
proof -
  let ?ip = "''2.0.'' @ digits (unat port div 256) @ ''.'' @ digits (unat port mod 256) @ '':'' @ digits (unat port)"
  have u: "unat port < 65536" using unsigned_less [where 'a = nat, of port] by simp
  then have "unat port div 256 < 10 ^ 3" "unat port mod 256 < 10 ^ 3" "unat port < 10 ^ 5" by auto
  then have "length (digits (unat port div 256)) \<le> 3" "length (digits (unat port mod 256)) \<le> 3" "length (digits (unat port)) \<le> 5"
    by (intro digits_length; simp)+
  then have "length ?ip \<le> 40" "NUL \<notin> set ?ip" by (auto simp: NUL_digits)
  moreover have "toIpPort (new_InetAddress port) = Inr ?ip"
    using addresses_are_lost [of port "[0, 0, 0, 0]"] by (simp add: new_InetAddress_def)
  ultimately show ?thesis by blast
qed

lemma waiting_extend: "waiting (conn_loop.extend l x) = waiting l"
  by (rule waiting_cong) (simp_all add: conn_loop.defs)

text \<open>The server once it is made: a waiting base loop with the channel of its listening socket.\<close>

lemma new_EchoServer_ok:
  assumes l: "bare evtfd self l" and f: "0 \<le> sockfd" "sockfd \<noteq> evtfd" "\<not> prefuses l sockfd"
  shows "\<exists>B ach. new_EchoServer sockfd True (new_InetAddress port) name l = Inr B \<and> waiting B \<and> pending B = [] \<and> ctid B = self \<and>
     cheap B (acc_chan B) = Some ach \<and> readCallback ach = Some AcceptRead \<and> \<not> tied ach \<and> acc_callback B \<and> names_inv B \<and>
     nextConnId B = 1 \<and> connections B = Map.empty \<and> srv_started B = 0 \<and> lpool B = setThreadNum 4 (new_EventLoopThreadPoll name) \<and>
     acc_fd B = sockfd \<and> cfd ach = sockfd \<and> cevents ach = 0"
proof -
  obtain ip where ip: "toIpPort (new_InetAddress port) = Inr ip" "length ip \<le> 40" "NUL \<notin> set ip" using toIpPort_text by blast
  note l' = l [unfolded bare_def]
  let ?B0 = "conn_loop.extend l \<lparr>srv_name = name, ipPort = ip, acc_fd = sockfd, acc_chan = 0, reuseport = False, acc_callback = False,
     listening = False, srv_started = 0, num_created = 0, nextConnId = 1, connections = Map.empty, lpool = new_EventLoopThreadPoll name\<rparr>"
  let ?ch = "(new_Channel sockfd)\<lparr>readCallback := Some AcceptRead\<rparr>"
  let ?B1 = "fst (add_channel ?ch ?B0)"
  have "waiting ?B0" using l' by (simp only: waiting_extend)
  then have inv: "reactor_inv ?B0" by (simp only: waiting_def)
  have e: "cheap ?B0 = cheap l" "cfresh ?B0 = 1" "wakechan ?B0 = 0" "pending ?B0 = []" "ctid ?B0 = self" "quit ?B0 = quit l" "calling ?B0 = calling l"
      "wakefd ?B0 = wakefd l" "pepoll ?B0 = pepoll l" "prefuses ?B0 = prefuses l"
    using l' by (simp_all add: conn_loop.defs)
  have "\<forall>a ch. cheap ?B0 a = Some ch \<longrightarrow> cfd ch \<noteq> sockfd"
  proof (intro allI impI)
    fix a ch assume "cheap ?B0 a = Some ch"
    then have ch: "cheap l a = Some ch" using e(1) by simp
    then have "a \<in> {0}" using l' by blast
    with ch have "ch = the (cheap l 0)" by simp
    then show "cfd ch \<noteq> sockfd" using l' f(2) by simp
  qed
  then have inv1: "reactor_inv ?B1"
    by (rule add_channel_inv [OF inv]) (use f(3) e(10) in \<open>simp_all add: new_Channel_def kNew_def\<close>)
  let ?B = "?B1\<lparr>acc_fd := sockfd, acc_chan := 1, reuseport := True, acc_callback := True, listening := False,
     lpool := setThreadNum 4 (new_EventLoopThreadPoll name)\<rparr>"
  have "new_EchoServer sockfd True (new_InetAddress port) name l = Inr ?B"
    using f(1) ip(1) e(2)
    by (simp add: new_EchoServer_def new_TcpServer_def new_Acceprot_def socket_calls server_setThreadNum_def add_channel_def conn_loop.defs)
  moreover have "waiting ?B"
  proof -
    obtain wch where "cheap l 0 = Some wch" "readCallback wch = Some LoopRead" "\<not> tied wch" "\<not> quit l" "\<not> calling l"
        "pepoll l (wakefd l) = Some (kReadEvent, 0)"
      using l' by (auto simp: waiting_def)
    moreover have "reactor_inv ?B" by (rule iffD2 [OF reactor_inv_cong inv1]) simp_all
    ultimately show ?thesis unfolding waiting_def using e by (simp add: add_channel_def)
  qed
  moreover have "names_inv ?B" using ip(2,3) by (simp add: names_inv_def add_channel_def conn_loop.defs int32_def)
  moreover have "cheap ?B (acc_chan ?B) = Some ?ch" "readCallback ?ch = Some AcceptRead" "\<not> tied ?ch"
    using e(2) by (simp_all add: add_channel_def new_Channel_def)
  ultimately show ?thesis
    using e(4,5) by (intro exI [of _ ?B] exI [of _ ?ch]) (simp add: add_channel_def conn_loop.defs new_Channel_def)
qed

text \<open>A worker's thread makes its loop.\<close>

definition start_worker :: "(int \<Rightarrow> bool) \<Rightarrow> (nat \<Rightarrow> int) \<Rightarrow> (nat \<Rightarrow> nat) \<Rightarrow> nat \<Rightarrow> string \<Rightarrow> sub_loop result" where
  "start_worker refuses evtfd tid i threadname = new_EventLoop False (Some refuses) (evtfd i) False (tid i) (no_connections \<lparr>outbox = []\<rparr>)"

lemma waiting_listen:
  assumes w: "waiting B" and ch: "cheap B a = Some ch" "readCallback ch = Some AcceptRead" "\<not> tied ch" "cevents ch = 0"
  shows "\<exists>m w ach. enableReading a B = Inr (B\<lparr>channels := m, pepoll := w, cheap := (cheap B)(a \<mapsto> ach)\<rparr>) \<and>
     waiting (B\<lparr>channels := m, pepoll := w, cheap := (cheap B)(a \<mapsto> ach)\<rparr>) \<and> readCallback ach = Some AcceptRead \<and> \<not> tied ach \<and>
     cfd ach = cfd ch \<and> w (cfd ch) = Some (kReadEvent, a)"
proof -
  obtain wch where wch: "cheap B (wakechan B) = Some wch" "readCallback wch = Some LoopRead" "\<not> tied wch" "reactor_inv B" "\<not> quit B" "\<not> calling B"
    using w by (auto simp: waiting_def)
  from set_events_ok [OF wch(4) ch(1), of "\<lambda>e. e OR kReadEvent"] obtain m w' ach where
    1: "enableReading a B = Inr (B\<lparr>channels := m, pepoll := w', cheap := (cheap B)(a \<mapsto> ach)\<rparr>)"
      "reactor_inv (B\<lparr>channels := m, pepoll := w', cheap := (cheap B)(a \<mapsto> ach)\<rparr>)" "same_calls ch ach" "tied ach = tied ch" "cfd ach = cfd ch"
      "cevents ach = cevents ch OR kReadEvent" "cevents ach \<noteq> 0 \<longrightarrow> w' (cfd ch) = Some (cevents ach, a)" "\<forall>g. g \<noteq> cfd ch \<longrightarrow> w' g = pepoll B g"
    unfolding enableReading_def by blast
  have reads: "cevents ach = kReadEvent" "kReadEvent \<noteq> 0"
    using 1(6) ch(4) by (simp_all add: kReadEvent_def EPOLLIN_def EPOLLPRI_def)
  have a: "wakechan B \<noteq> a" using wch(1,2) ch(1,2) by auto
  have "cfd ch \<noteq> wakefd B"
  proof
    assume "cfd ch = wakefd B"
    then have "cfd ch = cfd wch" using waiting_wakefd [OF w wch(1)] by simp
    then show False using wch(1,4) ch(1) a unfolding reactor_inv_defs by metis
  qed
  then have "waiting (B\<lparr>channels := m, pepoll := w', cheap := (cheap B)(a \<mapsto> ach)\<rparr>)"
    using wch 1(2,8) a w by (simp add: waiting_def)
  with 1 ch(2,3) reads show ?thesis by (auto simp: same_calls_def)
qed

text \<open>The base loop and the workers of a started server.\<close>

lemma started_echo_server:
  assumes "0 \<le> evtfd" and "0 \<le> sockfd" and "sockfd \<noteq> evtfd" and "NUL \<notin> set name" and "\<forall>i<4. 0 \<le> fds i"
    and "\<not> refuses evtfd" and "\<not> refuses sockfd" and "\<forall>i<4. \<not> refuses (fds i)"
  shows "\<exists>l B0 B ach. new_EventLoop False (Some refuses) evtfd False self (no_connections ()) = Inr l \<and>
     new_EchoServer sockfd True (new_InetAddress port) name l = Inr B0 \<and>
     server_start (start_worker refuses fds tids) None True self B0 = Inr B \<and>
     accepting B ach \<and> acc_fd B = sockfd \<and> ctid B = self \<and> names_inv B \<and> nextConnId B = 1 \<and> connections B = Map.empty \<and>
     (\<exists>p. getNextLoop (lpool B) = Inr (p, WorkerLoop 0)) \<and> length (loops (lpool B)) = 4 \<and>
     (\<forall>i<4. \<exists>l. sub_at B i = Inr l \<and> bare (fds i) (tids i) l \<and> outbox l = [] \<and> prefuses l = refuses)"
proof -
  obtain l where l: "new_EventLoop False (Some refuses) evtfd False self (no_connections ()) = Inr l" "bare evtfd self l" "prefuses l = refuses"
    using new_EventLoop_bare [of evtfd refuses self "()", OF assms(1,6)] by auto
  obtain B0 ach where 0: "new_EchoServer sockfd True (new_InetAddress port) name l = Inr B0" "waiting B0" "pending B0 = []" "ctid B0 = self"
      "cheap B0 (acc_chan B0) = Some ach" "readCallback ach = Some AcceptRead" "\<not> tied ach" "acc_callback B0" "names_inv B0"
      "nextConnId B0 = 1" "connections B0 = Map.empty" "srv_started B0 = 0" "lpool B0 = setThreadNum 4 (new_EventLoopThreadPoll name)"
      "acc_fd B0 = sockfd" "cfd ach = sockfd" "cevents ach = 0"
    using new_EchoServer_ok [OF l(2) assms(2,3), of port name] l(3) assms(7) by auto
  have "\<exists>l. (\<forall>nm. start_worker refuses fds tids i nm = Inr l) \<and> bare (fds i) (tids i) l \<and> outbox l = [] \<and> prefuses l = refuses"
    if "i < 4" for i
  proof -
    obtain l :: sub_loop where w: "new_EventLoop False (Some refuses) (fds i) False (tids i) (no_connections \<lparr>outbox = []\<rparr>) = Inr l"
        "bare (fds i) (tids i) l" "prefuses l = refuses" "conn_loop.more l = \<lparr>outbox = []\<rparr>"
      using new_EventLoop_bare [of "fds i" refuses "tids i" "\<lparr>outbox = []\<rparr>"] assms(5,8) \<open>i < 4\<close> by auto
    from w(4) have "outbox l = []" by (cases l) simp
    with w show ?thesis by (auto simp: start_worker_def)
  qed
  then obtain ls where ls: "\<And>i. i < 4 \<Longrightarrow> \<forall>nm. start_worker refuses fds tids i nm = Inr (ls i)"
      "\<And>i. i < 4 \<Longrightarrow> bare (fds i) (tids i) (ls i)" "\<And>i. i < 4 \<Longrightarrow> outbox (ls i) = []" "\<And>i. i < 4 \<Longrightarrow> prefuses (ls i) = refuses"
    by metis
  let ?B1 = "B0\<lparr>srv_started := 1\<rparr>"
  obtain n p where p: "start_pool (start_worker refuses fds tids) None (num_created ?B1) ?B1 (lpool B0) = Inr (n, ?B1, p)" "cpool_inv p"
      "length (loops p) = 4" "turn p = 0" "loops p = map ls [0..<4]"
    using start_pool_ok [of 4 "start_worker refuses fds tids" "\<lambda>i _. ls i" name None "num_created ?B1" ?B1] ls(1) assms(4)
    unfolding 0(13) by (auto simp: int32_def)
  let ?B2 = "?B1\<lparr>num_created := n, lpool := p, listening := True\<rparr>"
  have "waiting ?B2" by (rule iffD2 [OF waiting_cong 0(2)]) simp_all
  from waiting_listen [OF this, of "acc_chan B0" ach] 0(5-7,16) obtain m w ach' where
    2: "enableReading (acc_chan B0) ?B2 = Inr (?B2\<lparr>channels := m, pepoll := w, cheap := (cheap B0)(acc_chan B0 \<mapsto> ach')\<rparr>)"
      "waiting (?B2\<lparr>channels := m, pepoll := w, cheap := (cheap B0)(acc_chan B0 \<mapsto> ach')\<rparr>)"
      "readCallback ach' = Some AcceptRead" "\<not> tied ach'" "cfd ach' = cfd ach" "w (cfd ach) = Some (kReadEvent, acc_chan B0)"
    by auto
  let ?B = "?B2\<lparr>channels := m, pepoll := w, cheap := (cheap B0)(acc_chan B0 \<mapsto> ach')\<rparr>"
  have "server_start (start_worker refuses fds tids) None True self B0 = Inr ?B"
    using 0(4,12) p(1) 2(1) by (simp add: server_start_def wrap32_def runInloop_def isInLoopThread_def acceptor_listen_def socket_listen_def)
  moreover have "accepting ?B ach'" using 0(3,8,14,15) 2(2-6) by (simp add: accepting_def)
  moreover have "names_inv ?B" using 0(9) by (simp add: names_inv_def name_of_def)
  moreover have "getNextLoop (lpool ?B) = Inr (p\<lparr>turn := (turn p + 1) mod int (length (loops p))\<rparr>, WorkerLoop 0)"
    using getNextLoop_ok(1) [OF p(2)] p(4) by simp
  moreover have "sub_at ?B i = Inr (ls i)" if "i < 4" for i using that p(5) by (simp add: sub_at_def)
  ultimately show ?thesis
    using l(1) 0(1,4,10,11,14) p(3) ls(2-4)
    by (intro exI [of _ l] exI [of _ B0] exI [of _ ?B] exI [of _ ach']) auto
qed

section \<open>Properties\<close>

text \<open>
  The whole visit: \<open>ea\<close>, \<open>e1\<close> and \<open>e2\<close> are the events of the listening descriptor, of the
  message and of the end of the stream, \<open>connfd\<close> is what \<open>accept\<close> returned.
\<close>

definition echo_session ::
  "cworld \<Rightarrow> nat \<Rightarrow> bool \<Rightarrow> nat \<Rightarrow> nat \<Rightarrow> int \<Rightarrow> inet_address \<Rightarrow> 32 word \<Rightarrow> 32 word \<Rightarrow> 32 word \<Rightarrow> base_loop \<Rightarrow> base_loop result" where
  "echo_session W sub listens self i connfd addr ea e1 e2 B =
     (let U = echo_calls W self (removeConnection self); V = (\<lambda>i. echo_calls W sub (sub_removeConnection i));
          rounds = run_waits (base_rounds W U V listens self connfd addr)
      in rbind (sub_at B i) (\<lambda>l0.
         rbind (rounds [Some [(acc_chan B, ea)]] B) (\<lambda>B1.
         rbind (sub_at B1 i) (\<lambda>l.
         rbind (run_waits (worker_rounds W sub i) [Some [(wakechan l0, EPOLLIN)], Some [(cfresh l0, e1)], Some [(cfresh l0, e2)]] l) (\<lambda>l1.
         rbind (deliver i sub (put_sub i l1 B1)) (\<lambda>B2.
           rounds [Some [(wakechan B, EPOLLIN)], Some [(wakechan B, EPOLLIN)]] B2))))))"


text \<open>The client's message, and the end of its stream.\<close>

definition says_hello :: cworld where
  "says_hello = \<lparr>cw_al = (\<lambda>_. True), cw_recv = (\<lambda>n _. Some (if n = 0 then ''hello'' else [])), cw_send = (\<lambda>_. int), cw_broken = (\<lambda>_. False)\<rparr>"


text \<open>
  C20: The echo server starts: made in the thread of the base loop and started with sockets that bind
  and listen and a kernel that takes their descriptors, it has four workers whose loops wait on their
  eventfds, its own loop waits and listens, the listening descriptor registered with epoll for reading
  and its event leading to the acceptor (\<open>accepting\<close>), no connection is known, and the first one will
  go to worker 0. In particular all
  hypotheses of \<open>echo_session_served\<close> about the server hold.
\<close>

theorem echo_server_starts:
  assumes "0 \<le> evtfd" and "0 \<le> sockfd" and "sockfd \<noteq> evtfd" and "NUL \<notin> set name" and "\<forall>i<4. 0 \<le> fds i"
    and "\<not> refuses evtfd" and "\<not> refuses sockfd" and "\<forall>i<4. \<not> refuses (fds i)"
  shows "\<exists>l B0 B ach. new_EventLoop False (Some refuses) evtfd False self (no_connections ()) = Inr l \<and>
     new_EchoServer sockfd True (new_InetAddress port) name l = Inr B0 \<and>
     server_start (start_worker refuses fds tids) None True self B0 = Inr B \<and>
     accepting B ach \<and> acc_fd B = sockfd \<and> ctid B = self \<and> names_inv B \<and> nextConnId B = 1 \<and> connections B = Map.empty \<and>
     (\<exists>p. getNextLoop (lpool B) = Inr (p, WorkerLoop 0)) \<and> length (loops (lpool B)) = 4 \<and>
     (\<forall>i<4. \<exists>l. sub_at B i = Inr l \<and> bare (fds i) (tids i) l \<and> outbox l = [] \<and> prefuses l = refuses)"
  by (rule started_echo_server [OF assms])

theorem echo_server_starts_witness:
  "\<exists>B ach. (\<exists>B0. server_start (start_worker (\<lambda>f. f < 0) (\<lambda>i. 5 + int i) (\<lambda>i. i + 2)) None True 1 B0 = Inr B) \<and>
     accepting B ach \<and> acc_fd B = 4 \<and> length (loops (lpool B)) = 4"
  using echo_server_starts [of 3 4 "''echo''" "\<lambda>i. 5 + int i" "\<lambda>f. f < 0" 1 8080 "\<lambda>i. i + 2"] by force

end
