(* ===== verification/Cxx_Logger.thy ===== *)
theory Cxx_Logger
  imports Prelude
begin

text \<open>
  \<open>Timestamp.cc\<close>, \<open>Logger.cc\<close> and the macros of \<open>Logger.h\<close>. The logger is one object shared by all
  threads: a macro sets its level, formats the message into an array of 1024 bytes and calls \<open>log\<close>,
  which prints the level, the time and the message. \<open>LOG_INFO\<close> and the others are what one thread
  does undisturbed; \<open>log_step\<close> is one assignment or output of one of several threads. The time zone
  is the function \<open>zone\<close> (seconds to add to a time for local time), the message the text the
  format and its arguments give.
\<close>

section \<open>Time\<close>

text \<open>\<open>localtime\<close>: the Gregorian calendar, and NULL when the year is not an \<open>int\<close>.\<close>

record calendar =
  tm_sec :: int
  tm_min :: int
  tm_hour :: int
  tm_mday :: int
  tm_mon :: int
  tm_year :: int

text \<open>
  Days are counted from the 1st of March of the year 0, years from March, and a day of the era of
  400 years is split into centuries, periods of four years, years and days; \<open>month_start\<close> is the
  day of the year on which the n-th month after March begins.
\<close>

definition month_start :: "int \<Rightarrow> int" where
  "month_start mp = (153 * mp + 2) div 5"

definition year_of_era :: "int \<Rightarrow> int" where
  "year_of_era doe =
     (let c = min 3 (doe div 36524); r = doe - 36524 * c; q = r div 1461; r' = r - 1461 * q
      in 100 * c + 4 * q + min 3 (r' div 365))"

definition year_start :: "int \<Rightarrow> int" where
  "year_start y = 365 * y + y div 4 - y div 100"

definition civil :: "int \<Rightarrow> int \<times> int \<times> int" where
  "civil days =
     (let z = days + 719468; era = z div 146097; doe = z mod 146097;
          yoe = year_of_era doe; doy = doe - year_start yoe; mp = (5 * doy + 2) div 153
      in (400 * era + yoe + (if mp < 10 then 0 else 1), if mp < 10 then mp + 2 else mp - 10, doy - month_start mp + 1))"

definition localtime :: "(int \<Rightarrow> int) \<Rightarrow> int \<Rightarrow> calendar option" where
  "localtime zone t =
     (let s = t + zone t; (y, m, d) = civil (s div 86400); r = s mod 86400
      in if int32 (y - 1900)
         then Some \<lparr>tm_sec = r mod 60, tm_min = r div 60 mod 60, tm_hour = r div 3600, tm_mday = d, tm_mon = m, tm_year = y - 1900\<rparr>
         else None)"

record Timestamp =
  microSecondsSinceEpoch :: int

definition new_Timestamp :: Timestamp where
  "new_Timestamp = \<lparr>microSecondsSinceEpoch = 0\<rparr>"

text \<open>\<open>clock\<close> is the result of \<open>time(NULL)\<close>, in seconds.\<close>

definition Timestamp_now :: "int \<Rightarrow> Timestamp" where
  "Timestamp_now clock = \<lparr>microSecondsSinceEpoch = clock\<rparr>"

text \<open>The conversions \<open>%4d\<close> and \<open>%02d\<close>.\<close>

definition padded :: "char \<Rightarrow> nat \<Rightarrow> string \<Rightarrow> string" where
  "padded c w s = replicate (w - length s) c @ s"

definition dec_wide :: "nat \<Rightarrow> int \<Rightarrow> string" where
  "dec_wide w i = padded CHR '' '' w (dec i)"

definition dec_zeros :: "nat \<Rightarrow> int \<Rightarrow> string" where
  "dec_zeros w i =
     (if i < 0 then CHR ''-'' # padded CHR ''0'' (w - 1) (digits (nat (- i))) else padded CHR ''0'' w (digits (nat i)))"

text \<open>\<open>localtime\<close>'s result is used without a test.\<close>

definition Timestamp_toString :: "(int \<Rightarrow> int) \<Rightarrow> Timestamp \<Rightarrow> string result" where
  "Timestamp_toString zone ts =
     rbind (deref (localtime zone (microSecondsSinceEpoch ts))) (\<lambda>tm.
     rbind (chk (tm_year tm + 1900)) (\<lambda>year.
     rbind (chk (tm_mon tm + 1)) (\<lambda>mon.
       Inr (snprintf 128 (dec_wide 4 year @ ''/'' @ dec_zeros 2 mon @ ''/'' @ dec_zeros 2 (tm_mday tm) @ '' '' @
         dec_zeros 2 (tm_hour tm) @ '':'' @ dec_zeros 2 (tm_min tm) @ '':'' @ dec_zeros 2 (tm_sec tm))))))"

section \<open>The logger\<close>

datatype Level = INFO | ERROR | FATAL | DEBUG

fun level_int :: "Level \<Rightarrow> int" where
  "level_int INFO = 0" | "level_int ERROR = 1" | "level_int FATAL = 2" | "level_int DEBUG = 3"

text \<open>The static object is zero when the program starts. \<open>cout\<close> is what has been printed.\<close>

record logger =
  logLevel :: int
  cout :: string

definition new_Logger :: logger where
  "new_Logger = \<lparr>logLevel = 0, cout = []\<rparr>"

definition setLogLevel :: "int \<Rightarrow> logger \<Rightarrow> logger" where
  "setLogLevel lv s = s\<lparr>logLevel := lv\<rparr>"

definition level_text :: "int \<Rightarrow> string" where
  "level_text lv =
     (if lv = level_int INFO then ''[INFO]''
      else if lv = level_int ERROR then ''[ERROR]''
      else if lv = level_int FATAL then ''[FATAL]''
      else if lv = level_int DEBUG then ''[DEBUG]''
      else [])"

definition Logger_log :: "(int \<Rightarrow> int) \<Rightarrow> int \<Rightarrow> string \<Rightarrow> logger \<Rightarrow> logger result" where
  "Logger_log zone clock msg s =
     (let s1 = s\<lparr>cout := cout s @ level_text (logLevel s)\<rparr>
      in rbind (Timestamp_toString zone (Timestamp_now clock)) (\<lambda>text.
           Inr (s1\<lparr>cout := cout s1 @ text @ '' : '' @ msg @ [CHR 0x0A]\<rparr>)))"

definition LOG_INFO :: "(int \<Rightarrow> int) \<Rightarrow> int \<Rightarrow> string \<Rightarrow> logger \<Rightarrow> logger result" where
  "LOG_INFO zone clock msg s =
     (let s1 = setLogLevel (level_int INFO) s; buf = snprintf 1024 msg in Logger_log zone clock buf s1)"

definition LOG_ERROR :: "(int \<Rightarrow> int) \<Rightarrow> int \<Rightarrow> string \<Rightarrow> logger \<Rightarrow> logger result" where
  "LOG_ERROR zone clock msg s =
     (let s1 = setLogLevel (level_int ERROR) s; buf = snprintf 1024 msg in Logger_log zone clock buf s1)"

definition LOG_DEBUG :: "(int \<Rightarrow> int) \<Rightarrow> int \<Rightarrow> string \<Rightarrow> logger \<Rightarrow> logger result" where
  "LOG_DEBUG zone clock msg s =
     (let s1 = setLogLevel (level_int DEBUG) s; buf = snprintf 1024 msg in Logger_log zone clock buf s1)"

text \<open>The process ends after the output: the second component is the argument of \<open>exit\<close>.\<close>

definition LOG_FATAL :: "(int \<Rightarrow> int) \<Rightarrow> int \<Rightarrow> string \<Rightarrow> logger \<Rightarrow> (logger \<times> int) result" where
  "LOG_FATAL zone clock msg s =
     (let s1 = setLogLevel (level_int FATAL) s; buf = snprintf 1024 msg
      in rbind (Logger_log zone clock buf s1) (\<lambda>s2. Inr (s2, -1)))"

section \<open>The text of a time\<close>

text \<open>The number of a day, and what the text of a time says; a blank counts as a zero.\<close>

definition day_number :: "int \<Rightarrow> int \<Rightarrow> int \<Rightarrow> int" where
  "day_number y m d =
     (let y' = (if m < 2 then y - 1 else y)
      in 146097 * (y' div 400) + year_start (y' mod 400) + month_start ((m + 10) mod 12) + d - 1 - 719468)"

definition text_field :: "string \<Rightarrow> nat \<Rightarrow> nat \<Rightarrow> int" where
  "text_field s i n = int (digits_val 0 (take n (drop i s)))"

definition read_time :: "string \<Rightarrow> int" where
  "read_time s =
     86400 * day_number (text_field s 0 4) (text_field s 5 2 - 1) (text_field s 8 2) +
     3600 * text_field s 11 2 + 60 * text_field s 14 2 + text_field s 17 2"

lemma year_of_era_ok:
  assumes "0 \<le> doe" and "doe < 146097"
  shows "0 \<le> year_of_era doe \<and> year_of_era doe < 400 \<and>
     0 \<le> doe - year_start (year_of_era doe) \<and> doe - year_start (year_of_era doe) \<le> 365"
proof -
  define c where "c = min 3 (doe div 36524)"
  define q where "q = (doe - 36524 * c) div 1461"
  define y where "y = min 3 ((doe - 36524 * c - 1461 * q) div 365)"
  have c: "0 \<le> c" "c \<le> 3" "0 \<le> doe - 36524 * c" "doe - 36524 * c \<le> 36524"
    using assms unfolding c_def by linarith+
  have q: "0 \<le> q" "q \<le> 24" "0 \<le> doe - 36524 * c - 1461 * q" "doe - 36524 * c - 1461 * q \<le> 1460"
    using c unfolding q_def by linarith+
  have y: "0 \<le> y" "y \<le> 3" "0 \<le> doe - 36524 * c - 1461 * q - 365 * y" "doe - 36524 * c - 1461 * q - 365 * y \<le> 365"
    using q unfolding y_def by linarith+
  have e: "year_of_era doe = 100 * c + 4 * q + y"
    by (simp add: year_of_era_def Let_def c_def q_def y_def)
  have "(y + 4 * (25 * c + q)) div 4 = 25 * c + q" "((4 * q + y) + 100 * c) div 100 = c"
    using c q y by simp_all
  then have "(100 * c + 4 * q + y) div 4 = 25 * c + q" "(100 * c + 4 * q + y) div 100 = c"
    by (simp_all add: algebra_simps)
  then show ?thesis using c q y by (simp add: e year_start_def)
qed

lemma month_of_day:
  assumes "0 \<le> doy" and "doy \<le> 365" and "mp = (5 * doy + 2) div 153"
  shows "0 \<le> mp \<and> mp \<le> 11 \<and> 0 \<le> doy - month_start mp \<and> doy - month_start mp \<le> 30"
  using assms unfolding month_start_def by linarith

text \<open>Every day has a date, of which it is the day.\<close>

lemma civil_ok:
  assumes "civil days = (y, m, d)"
  shows "day_number y m d = days \<and> 0 \<le> m \<and> m \<le> 11 \<and> 1 \<le> d \<and> d \<le> 31"
proof -
  define z where "z = days + 719468"
  define yoe where "yoe = year_of_era (z mod 146097)"
  define doy where "doy = z mod 146097 - year_start yoe"
  define mp where "mp = (5 * doy + 2) div 153"
  have yoe: "0 \<le> yoe" "yoe < 400" and doy: "0 \<le> doy" "doy \<le> 365"
    using year_of_era_ok [of "z mod 146097"] unfolding yoe_def doy_def by simp_all
  have mp: "0 \<le> mp" "mp \<le> 11" "0 \<le> doy - month_start mp" "doy - month_start mp \<le> 30"
    using month_of_day [OF doy mp_def] by simp_all
  have r: "y = 400 * (z div 146097) + yoe + (if mp < 10 then 0 else 1)" "m = (if mp < 10 then mp + 2 else mp - 10)"
      "d = doy - month_start mp + 1"
    using assms unfolding civil_def Let_def z_def [symmetric] yoe_def [symmetric] doy_def [symmetric] mp_def [symmetric] by auto
  have y': "(if m < 2 then y - 1 else y) = 400 * (z div 146097) + yoe" and m': "(m + 10) mod 12 = mp"
    using r mp(1,2) by auto
  have s: "146097 * (z div 146097) + (year_start yoe + doy) = days + 719468"
    using mult_div_mod_eq [of 146097 z] by (simp add: doy_def z_def)
  have "day_number y m d = days"
    unfolding day_number_def Let_def y' m' using yoe s r(3) by simp
  with r mp show ?thesis by auto
qed

lemma length_padded: "length s \<le> w \<Longrightarrow> length (padded c w s) = w"
  by (simp add: padded_def)

lemma padded_val: "c = CHR '' '' \<or> c = CHR ''0'' \<Longrightarrow> digits_val 0 (padded c w s) = digits_val 0 s"
proof -
  assume c: "c = CHR '' '' \<or> c = CHR ''0''"
  have "digits_val 0 (replicate n c) = 0" for n using c by (induction n) auto
  then show ?thesis by (simp add: padded_def digits_val_append)
qed

lemma NUL_padded: "c \<noteq> NUL \<Longrightarrow> NUL \<notin> set s \<Longrightarrow> NUL \<notin> set (padded c w s)"
  by (auto simp: padded_def)

lemma dec_zeros_ok:
  assumes "0 \<le> i" and "i < 100"
  shows "length (dec_zeros 2 i) = 2 \<and> digits_val 0 (dec_zeros 2 i) = nat i \<and> NUL \<notin> set (dec_zeros 2 i)"
proof -
  have "nat i < 10 ^ 2" using assms by simp
  from digits_length [OF this] assms show ?thesis
    by (simp add: dec_zeros_def length_padded padded_val digits_val_digits NUL_padded NUL_digits)
qed

lemma dec_wide_ok:
  assumes "0 \<le> i" and "i < 10000"
  shows "length (dec_wide 4 i) = 4 \<and> digits_val 0 (dec_wide 4 i) = nat i \<and> NUL \<notin> set (dec_wide 4 i)"
proof -
  have "nat i < 10 ^ 4" using assms by simp
  from digits_length [OF this] assms show ?thesis
    by (simp add: dec_wide_def dec_def length_padded padded_val digits_val_digits NUL_padded NUL_digits)
qed

lemma read_time_text:
  assumes "0 \<le> y" "y < 10000" "0 \<le> m" "m \<le> 11" "1 \<le> d" "d \<le> 31" "0 \<le> hh" "hh < 24" "0 \<le> mm" "mm < 60" "0 \<le> ss" "ss < 60"
    and "s = dec_wide 4 y @ ''/'' @ dec_zeros 2 (m + 1) @ ''/'' @ dec_zeros 2 d @ '' '' @
         dec_zeros 2 hh @ '':'' @ dec_zeros 2 mm @ '':'' @ dec_zeros 2 ss"
  shows "length s = 19 \<and> NUL \<notin> set s \<and> read_time s = 86400 * day_number y m d + 3600 * hh + 60 * mm + ss"
proof -
  note p = dec_wide_ok [OF assms(1,2)] dec_zeros_ok [of "m + 1"] dec_zeros_ok [of d] dec_zeros_ok [of hh] dec_zeros_ok [of mm] dec_zeros_ok [of ss]
  show ?thesis using p assms(1-12) by (simp add: assms(13) read_time_def text_field_def)
qed

lemma time_of_day: "3600 * (r div 3600) + 60 * (r div 60 mod 60) + r mod 60 = r" for r :: int
proof -
  have "r div 60 div 60 = r div 3600" by (simp flip: zdiv_zmult2_eq)
  then show ?thesis using mult_div_mod_eq [of 60 r] mult_div_mod_eq [of 60 "r div 60"] by linarith
qed

lemma localtime_text:
  assumes "civil ((t + zone t) div 86400) = (y, m, d)" and "0 \<le> y" and "y < 10000"
  shows "\<exists>s. Timestamp_toString zone (Timestamp_now t) = Inr s \<and> length s = 19 \<and> NUL \<notin> set s \<and> read_time s = t + zone t"
proof -
  define r where "r = (t + zone t) mod 86400"
  have r: "0 \<le> r" "r < 86400" by (simp_all add: r_def)
  note c = civil_ok [OF assms(1)]
  let ?s = "dec_wide 4 y @ ''/'' @ dec_zeros 2 (m + 1) @ ''/'' @ dec_zeros 2 d @ '' '' @
         dec_zeros 2 (r div 3600) @ '':'' @ dec_zeros 2 (r div 60 mod 60) @ '':'' @ dec_zeros 2 (r mod 60)"
  have s: "length ?s = 19" "NUL \<notin> set ?s"
      "read_time ?s = 86400 * day_number y m d + 3600 * (r div 3600) + 60 * (r div 60 mod 60) + r mod 60"
    using read_time_text [OF assms(2,3) _ _ _ _ _ _ _ _ _ _ refl, of m d "r div 3600" "r div 60 mod 60" "r mod 60"] c r
    by (simp_all add: div_less_iff_less_mult)
  have "read_time ?s = 86400 * day_number y m d + (3600 * (r div 3600) + 60 * (r div 60 mod 60) + r mod 60)"
    using s(3) by (simp only: add.assoc)
  then have "read_time ?s = t + zone t"
    unfolding time_of_day conjunct1 [OF c] by (simp only: r_def mult_div_mod_eq)
  moreover have "int32 (y - 1900)" "int32 y" "int32 (m + 1)" using assms(2,3) c by (auto simp: int32_def)
  then have "Timestamp_toString zone (Timestamp_now t) = Inr (snprintf 128 ?s)"
    using assms(1) by (simp add: Timestamp_toString_def Timestamp_now_def localtime_def Let_def r_def)
  ultimately show ?thesis using s(1,2) snprintf_fits [of ?s 128] by (intro exI [of _ ?s]) auto
qed

section \<open>One thread\<close>

definition log_line :: "Level \<Rightarrow> string \<Rightarrow> string \<Rightarrow> string list" where
  "log_line lv text msg = [level_text (level_int lv), text, '' : '', snprintf 1024 msg, [CHR 0x0A]]"

lemma Logger_log_line:
  assumes "Timestamp_toString zone (Timestamp_now clock) = Inr text"
  shows "Logger_log zone clock (snprintf 1024 msg) (setLogLevel (level_int lv) s) =
     Inr (s\<lparr>logLevel := level_int lv, cout := cout s @ concat (log_line lv text msg)\<rparr>)"
  by (simp add: Logger_log_def setLogLevel_def log_line_def Let_def assms)

lemma LOG_line:
  assumes "Timestamp_toString zone (Timestamp_now clock) = Inr text"
  shows "LOG_INFO zone clock msg s = Inr (s\<lparr>logLevel := 0, cout := cout s @ concat (log_line INFO text msg)\<rparr>)"
    and "LOG_ERROR zone clock msg s = Inr (s\<lparr>logLevel := 1, cout := cout s @ concat (log_line ERROR text msg)\<rparr>)"
    and "LOG_FATAL zone clock msg s = Inr (s\<lparr>logLevel := 2, cout := cout s @ concat (log_line FATAL text msg)\<rparr>, -1)"
    and "LOG_DEBUG zone clock msg s = Inr (s\<lparr>logLevel := 3, cout := cout s @ concat (log_line DEBUG text msg)\<rparr>)"
  using Logger_log_line [OF assms]
  by (simp_all add: LOG_INFO_def LOG_ERROR_def LOG_FATAL_def LOG_DEBUG_def Let_def del: level_int.simps)
    (simp_all)

section \<open>Several threads\<close>

text \<open>
  What a thread does to log a message, one shared access at a time. \<open>printed\<close> is the output with
  the thread it comes from, \<open>todo\<close> what each thread has yet to do.
\<close>

datatype log_op = SetLevel int | PutLevel | Put string

definition message_ops :: "Level \<times> string \<times> string \<Rightarrow> log_op list" where
  "message_ops = (\<lambda>(lv, text, msg).
     [SetLevel (level_int lv), PutLevel, Put text, Put '' : '', Put (snprintf 1024 msg), Put [CHR 0x0A]])"

record shared_log =
  log_level :: int
  printed :: "(nat \<times> string) list"
  todo :: "nat \<Rightarrow> log_op list"

fun log_exec :: "nat \<Rightarrow> log_op \<Rightarrow> shared_log \<Rightarrow> shared_log" where
  "log_exec i (SetLevel lv) s = s\<lparr>log_level := lv\<rparr>"
| "log_exec i PutLevel s = s\<lparr>printed := printed s @ [(i, level_text (log_level s))]\<rparr>"
| "log_exec i (Put t) s = s\<lparr>printed := printed s @ [(i, t)]\<rparr>"

inductive log_step :: "shared_log \<Rightarrow> shared_log \<Rightarrow> bool" where
  "todo s i = x # xs \<Longrightarrow> log_step s (log_exec i x (s\<lparr>todo := (todo s)(i := xs)\<rparr>))"

inductive_cases log_stepE: "log_step s t"

definition log_begin :: "(nat \<Rightarrow> (Level \<times> string \<times> string) list) \<Rightarrow> shared_log" where
  "log_begin P = \<lparr>log_level = 0, printed = [], todo = (\<lambda>i. concat (map message_ops (P i)))\<rparr>"

definition printed_by :: "nat \<Rightarrow> shared_log \<Rightarrow> string list" where
  "printed_by i s = map snd (filter (\<lambda>x. fst x = i) (printed s))"

text \<open>A macro is the run of its thread's operations, when no other thread comes in between.\<close>

lemma log_exec_todo [simp]:
  "log_exec i x (s\<lparr>todo := f\<rparr>) = (log_exec i x s)\<lparr>todo := f\<rparr>" "todo (log_exec i x s) = todo s"
  by (cases x; simp)+

lemma fold_exec_todo [simp]: "fold (log_exec i) xs (s\<lparr>todo := f\<rparr>) = (fold (log_exec i) xs s)\<lparr>todo := f\<rparr>"
  by (induction xs arbitrary: s) simp_all

lemma run_thread:
  "todo s i = xs @ ys \<Longrightarrow> log_step\<^sup>*\<^sup>* s ((fold (log_exec i) xs s)\<lparr>todo := (todo s)(i := ys)\<rparr>)"
proof (induction xs arbitrary: s)
  case Nil
  then have "(todo s)(i := ys) = todo s" by auto
  then show ?case by simp
next
  case (Cons x xs)
  let ?s = "log_exec i x (s\<lparr>todo := (todo s)(i := xs @ ys)\<rparr>)"
  have "log_step s ?s" using Cons.prems by (intro log_step.intros) simp
  moreover have "log_step\<^sup>*\<^sup>* ?s ((fold (log_exec i) xs ?s)\<lparr>todo := (todo ?s)(i := ys)\<rparr>)"
    by (rule Cons.IH) simp
  ultimately have "log_step\<^sup>*\<^sup>* s ((fold (log_exec i) xs ?s)\<lparr>todo := (todo ?s)(i := ys)\<rparr>)"
    by (rule converse_rtranclp_into_rtranclp)
  moreover have "(todo ?s)(i := ys) = (todo s)(i := ys)" by simp
  ultimately show ?case by (simp del: fun_upd_apply)
qed

lemma undisturbed_message:
  assumes "todo s i = message_ops (lv, text, msg) @ xs"
  shows "log_step\<^sup>*\<^sup>* s (s\<lparr>log_level := level_int lv, printed := printed s @ map (Pair i) (log_line lv text msg),
     todo := (todo s)(i := xs)\<rparr>)"
  using run_thread [OF assms] by (simp add: message_ops_def log_line_def)

text \<open>What operations may have printed, when a level is one of the texts in \<open>L\<close>.\<close>

fun writes :: "string set \<Rightarrow> log_op \<Rightarrow> string list set" where
  "writes L (SetLevel lv) = {[]}"
| "writes L PutLevel = (\<lambda>t. [t]) ` L"
| "writes L (Put t) = {[t]}"

primrec follows :: "string set \<Rightarrow> log_op list \<Rightarrow> string list \<Rightarrow> bool" where
  "follows L [] out \<longleftrightarrow> out = []"
| "follows L (x # xs) out \<longleftrightarrow> (\<exists>o1 o2. out = o1 @ o2 \<and> o1 \<in> writes L x \<and> follows L xs o2)"

lemma follows_append:
  "follows L (xs @ ys) out \<longleftrightarrow> (\<exists>o1 o2. out = o1 @ o2 \<and> follows L xs o1 \<and> follows L ys o2)"
proof (induction xs arbitrary: out)
  case Nil
  then show ?case by simp
next
  case (Cons x xs)
  show ?case by (simp add: Cons.IH) (metis append.assoc)
qed

lemma follows_one: "out \<in> writes L x \<Longrightarrow> follows L [x] out"
  by auto

definition levels :: "(nat \<Rightarrow> (Level \<times> string \<times> string) list) \<Rightarrow> Level set" where
  "levels P = {lv. \<exists>i text msg. (lv, text, msg) \<in> set (P i)}"

lemma follows_messages:
  "follows ((level_text \<circ> level_int) ` A) (concat (map message_ops ms)) out \<Longrightarrow>
   \<exists>lvs. length lvs = length ms \<and> set lvs \<subseteq> A \<and>
     out = concat (map2 (\<lambda>lv (_, text, msg). log_line lv text msg) lvs ms)"
proof (induction ms arbitrary: out)
  case Nil
  then show ?case by simp
next
  case (Cons m ms)
  obtain o1 o2 where o: "out = o1 @ o2" "follows ((level_text \<circ> level_int) ` A) (message_ops m) o1"
      "follows ((level_text \<circ> level_int) ` A) (concat (map message_ops ms)) o2"
    using Cons.prems by (auto simp: follows_append)
  obtain lv where lv: "lv \<in> A" "o1 = (case m of (_, text, msg) \<Rightarrow> log_line lv text msg)"
    using o(2) by (auto simp: message_ops_def log_line_def split: prod.splits)
  from Cons.IH [OF o(3)] obtain lvs where "length lvs = length ms" "set lvs \<subseteq> A"
      "o2 = concat (map2 (\<lambda>lv (_, text, msg). log_line lv text msg) lvs ms)"
    by blast
  then show ?case using o(1) lv by (intro exI [of _ "lv # lvs"]) (auto split: prod.splits)
qed

text \<open>
  In every state a thread has printed what its past operations allow; and the level is one that
  was set, unless nothing has happened yet.
\<close>

definition log_inv :: "(nat \<Rightarrow> (Level \<times> string \<times> string) list) \<Rightarrow> shared_log \<Rightarrow> bool" where
  "log_inv P s \<longleftrightarrow>
     (\<forall>i. \<exists>past. todo (log_begin P) i = past @ todo s i \<and> follows ((level_text \<circ> level_int) ` levels P) past (printed_by i s)) \<and>
     (log_level s \<in> level_int ` levels P \<or> todo s = todo (log_begin P))"

lemma log_begin_inv: "log_inv P (log_begin P)"
  unfolding log_inv_def by (auto intro!: exI [of _ "[]"] simp: printed_by_def log_begin_def)

lemma messages_start:
  "concat (map message_ops ms) = x # xs \<Longrightarrow> \<exists>lv text msg. (lv, text, msg) \<in> set ms \<and> x = SetLevel (level_int lv)"
  by (cases ms) (fastforce simp: message_ops_def)+

lemma SetLevel_in_messages:
  "SetLevel v \<in> set (concat (map message_ops ms)) \<Longrightarrow> \<exists>lv text msg. v = level_int lv \<and> (lv, text, msg) \<in> set ms"
  by (auto simp: message_ops_def)

lemma log_step_inv:
  assumes "log_step s t" and inv: "log_inv P s"
  shows "log_inv P t"
proof -
  let ?L = "(level_text \<circ> level_int) ` levels P"
  obtain i x xs where x: "todo s i = x # xs" and t: "t = log_exec i x (s\<lparr>todo := (todo s)(i := xs)\<rparr>)"
    using assms(1) by (auto elim: log_stepE)
  have past: "\<exists>past. todo (log_begin P) j = past @ todo s j \<and> follows ?L past (printed_by j s)" for j
    using inv by (simp add: log_inv_def)
  obtain p where p: "todo (log_begin P) i = p @ x # xs" "follows ?L p (printed_by i s)" using past [of i] x by auto
  have start: "\<exists>lv. x = SetLevel (level_int lv) \<and> lv \<in> levels P" if "todo s = todo (log_begin P)"
  proof -
    have "concat (map message_ops (P i)) = x # xs" using that x by (simp add: log_begin_def)
    from messages_start [OF this] show ?thesis unfolding levels_def by blast
  qed
  have set: "v \<in> level_int ` levels P" if "x = SetLevel v" for v
  proof -
    have "SetLevel v \<in> set (concat (map message_ops (P i)))" using p(1) that by (simp add: log_begin_def)
    from SetLevel_in_messages [OF this] show ?thesis unfolding levels_def by blast
  qed
  have lv: "log_level s \<in> level_int ` levels P" if "\<forall>v. x \<noteq> SetLevel v"
    using inv start that unfolding log_inv_def by blast
  obtain o2 where o: "o2 \<in> writes ?L x" "printed_by i t = printed_by i s @ o2"
      "\<And>j. j \<noteq> i \<Longrightarrow> printed_by j t = printed_by j s"
    using lv unfolding t by (cases x) (fastforce simp: printed_by_def)+
  have "\<exists>past. todo (log_begin P) j = past @ todo t j \<and> follows ?L past (printed_by j t)" for j
  proof (cases "j = i")
    case True
    have "follows ?L (p @ [x]) (printed_by i t)"
      unfolding follows_append o(2) using p(2) follows_one [OF o(1)] by blast
    then show ?thesis using p(1) True t by (intro exI [of _ "p @ [x]"]) simp
  next
    case False
    then show ?thesis using past [of j] o(3) t by simp
  qed
  moreover have "log_level t \<in> level_int ` levels P" using lv set unfolding t by (cases x) auto
  ultimately show ?thesis by (simp add: log_inv_def)
qed

lemma log_reach: "log_step\<^sup>*\<^sup>* (log_begin P) s \<Longrightarrow> log_inv P s"
  by (induction rule: rtranclp_induct) (auto intro: log_begin_inv log_step_inv)

section \<open>Properties\<close>

text \<open>
  C40: The text of a time in the years 0 to 9999 has 19 characters, and what it says is the local time
  it was made from: read back, its date and time of day are the time plus the zone's offset.
\<close>

theorem time_text_reads_back:
  assumes "civil ((t + zone t) div 86400) = (y, m, d)" and "0 \<le> y" and "y < 10000"
  shows "\<exists>s. Timestamp_toString zone (Timestamp_now t) = Inr s \<and> length s = 19 \<and> read_time s = t + zone t"
  using localtime_text [of t zone y m d] assms by blast

theorem time_text_reads_back_witness:
  "\<exists>s. Timestamp_toString (\<lambda>_. 3600) (Timestamp_now 1709251199) = Inr s \<and> read_time s = 1709254799"
proof -
  have "civil ((1709251199 + 3600) div 86400) = (2024, 2, 1)"
    by code_simp
  then have "\<exists>s. Timestamp_toString (\<lambda>_. 3600) (Timestamp_now 1709251199) = Inr s \<and> length s = 19 \<and> read_time s = 1709251199 + 3600"
    by (intro time_text_reads_back [of 1709251199 "\<lambda>_. 3600" 2024 2 1]) simp_all
  then show ?thesis by (elim exE conjE) (intro exI conjI, assumption, simp)
qed


definition two_messages :: "nat \<Rightarrow> (Level \<times> string \<times> string) list" where
  "two_messages i = (if i = 0 then [(INFO, ''now'', ''fine'')] else if i = 1 then [(ERROR, ''now'', ''broken'')] else [])"

text \<open>Thread 0 sets the level, thread 1 logs its message, then thread 0 goes on.\<close>

lemma levels_mix:
  "\<exists>s. log_step\<^sup>*\<^sup>* (log_begin two_messages) s \<and> (\<forall>i. todo s i = []) \<and>
     printed_by 0 s = log_line ERROR ''now'' ''fine'' \<and> printed_by 1 s = log_line ERROR ''now'' ''broken''"
proof -
  let ?s = "log_begin two_messages" and ?m = "message_ops (INFO, ''now'', ''fine'')" and ?n = "message_ops (ERROR, ''now'', ''broken'')"
  have t: "todo ?s 0 = take 1 ?m @ drop 1 ?m" "todo ?s 1 = ?n @ []"
    by (simp_all add: log_begin_def two_messages_def)
  let ?s1 = "(fold (log_exec 0) (take 1 ?m) ?s)\<lparr>todo := (todo ?s)(0 := drop 1 ?m)\<rparr>"
  let ?s2 = "(fold (log_exec 1) ?n ?s1)\<lparr>todo := (todo ?s1)(1 := [])\<rparr>"
  let ?s3 = "(fold (log_exec 0) (drop 1 ?m) ?s2)\<lparr>todo := (todo ?s2)(0 := [])\<rparr>"
  have "log_step\<^sup>*\<^sup>* ?s ?s1" "log_step\<^sup>*\<^sup>* ?s1 ?s2" "log_step\<^sup>*\<^sup>* ?s2 ?s3"
    by (rule run_thread; use t in simp)+
  then have r: "log_step\<^sup>*\<^sup>* ?s ?s3" by (blast intro: rtranclp_trans)
  show ?thesis
    by (intro exI [of _ ?s3] conjI r)
      (simp_all add: message_ops_def log_begin_def two_messages_def printed_by_def log_line_def)
qed


end
