(* ===== verification/Port_Loop.thy ===== *)
theory Port_Loop
  imports Channel Task_Queue Byte_Queue
begin

text \<open>
  The loop of the C++ port: \<open>old/ReactorHttp_cpp/Channel.cpp\<close>, \<open>Dispatcher.cpp\<close> and
  \<open>EventLoop.cpp\<close>. The record \<open>ploop\<close> is \<open>class EventLoop\<close>: its \<open>std::queue\<close> of tasks is a
  list, its \<open>std::map\<close> of channels a map from descriptors to addresses (\<open>None\<close> for the null
  pointer that \<open>operator[]\<close> inserts), and next to them are the heap of channels, the bytes waiting
  at the two ends of the socket pair and the descriptors closed so far. A dispatcher is the table of
  its virtual functions. A \<open>std::function\<close> is the function it holds, \<open>None\<close> when empty. The
  mutex is held only while one task is put into or taken from the queue, so it does not appear.
\<close>

section \<open>Channels\<close>

datatype handler = Conn_processRead | Conn_processWrite | Conn_destroy | Server_acceptConnection | Loop_readMessage

record pchannel =
  m_fd :: int
  m_events :: "32 word"
  readCallback :: "handler option"
  writeCallback :: "handler option"
  destroyCallback :: "handler option"
  m_arg :: cb_arg

definition ReadEvent :: "32 word" where "ReadEvent = 2"
definition WriteEvent :: "32 word" where "WriteEvent = 4"

definition new_pchannel ::
  "int \<Rightarrow> 32 word \<Rightarrow> handler option \<Rightarrow> handler option \<Rightarrow> handler option \<Rightarrow> cb_arg \<Rightarrow> pchannel" where
  "new_pchannel f evs readFunc writeFunc destroyFunc a =
     \<lparr>m_fd = f, m_events = evs, readCallback = readFunc, writeCallback = writeFunc,
      destroyCallback = destroyFunc, m_arg = a\<rparr>"

definition writeEventEnable_port :: "pchannel \<Rightarrow> bool \<Rightarrow> pchannel" where
  "writeEventEnable_port ch flag =
     (if flag then ch\<lparr>m_events := m_events ch OR WriteEvent\<rparr>
      else ch\<lparr>m_events := m_events ch AND NOT WriteEvent\<rparr>)"

definition isWriteEventEnable_port :: "pchannel \<Rightarrow> bool" where
  "isWriteEventEnable_port ch \<longleftrightarrow> m_events ch AND WriteEvent \<noteq> 0"

text \<open>The two events a dispatcher looks for.\<close>

definition pwants :: "pchannel \<Rightarrow> bool \<times> bool" where
  "pwants ch = (m_events ch AND ReadEvent \<noteq> 0, m_events ch AND WriteEvent \<noteq> 0)"

lemma pwants_bits: "pwants ch = (bit (m_events ch) 1, bit (m_events ch) 2)"
  using and_exp_eq_0_iff_not_bit [of "m_events ch" 1] and_exp_eq_0_iff_not_bit [of "m_events ch" 2]
  by (simp add: pwants_def ReadEvent_def WriteEvent_def)

lemma bit_WriteEvent: "bit WriteEvent n \<longleftrightarrow> n = 2"
  using bit_exp_iff [where 'a = "32 word", of 2 n] by (auto simp: WriteEvent_def possible_bit_def)

lemma pwants_writeEventEnable:
  "pwants (writeEventEnable_port ch flag) = (fst (pwants ch), flag)"
  "isWriteEventEnable_port (writeEventEnable_port ch flag) = flag"
proof -
  show "pwants (writeEventEnable_port ch flag) = (fst (pwants ch), flag)"
    by (simp add: pwants_bits writeEventEnable_port_def bit_or_iff bit_and_iff bit_not_iff bit_WriteEvent possible_bit_def)
  then show "isWriteEventEnable_port (writeEventEnable_port ch flag) = flag"
    by (simp add: isWriteEventEnable_port_def pwants_def)
qed

section \<open>The loop\<close>

record 'd ploop =
  m_isQuit :: bool
  m_dispatcher :: 'd
  m_taskQ :: "task list"
  m_channelMap :: "int \<rightharpoonup> nat option"
  m_threadID :: nat
  m_threadName :: string
  m_socketPair :: "int \<times> int"
  pending :: "nat \<times> nat"
  pchans :: "nat \<rightharpoonup> pchannel"
  freshpchan :: nat
  pclosed :: "int list"

type_synonym ('d, 'a) pcalls = "handler \<Rightarrow> cb_arg \<Rightarrow> ('d, 'a) ploop_scheme \<Rightarrow> ('d, 'a) ploop_scheme result"

text \<open>
  The virtual functions of a dispatcher, on its members \<open>'d\<close>; the channel is the one \<open>setChannel\<close>
  was given before the call. \<open>'r\<close> is what one wait delivers.
\<close>

record ('d, 'a, 'r) virtuals =
  v_add :: "pchannel \<Rightarrow> 'd \<Rightarrow> ('d \<times> int) result"
  v_remove :: "('d, 'a) pcalls \<Rightarrow> pchannel \<Rightarrow> ('d, 'a) ploop_scheme \<Rightarrow> (('d, 'a) ploop_scheme \<times> int) result"
  v_modify :: "pchannel \<Rightarrow> 'd \<Rightarrow> ('d \<times> int) result"
  v_dispatch :: "('d, 'a) pcalls \<Rightarrow> 'r \<Rightarrow> ('d, 'a) ploop_scheme \<Rightarrow> (('d, 'a) ploop_scheme \<times> int) result"

text \<open>The base class does nothing, in particular it does not wait.\<close>

definition base_Dispatcher :: "('d, 'a, 'r) virtuals" where
  "base_Dispatcher =
     \<lparr>v_add = \<lambda>ch d. Inr (d, 0), v_remove = \<lambda>cb ch l. Inr (l, 0), v_modify = \<lambda>ch d. Inr (d, 0),
      v_dispatch = \<lambda>call r l. Inr (l, 0)\<rparr>"

definition pchannel_at :: "('d, 'a) ploop_scheme \<Rightarrow> nat \<Rightarrow> pchannel result" where
  "pchannel_at l a = (case pchans l a of None \<Rightarrow> Inl UseAfterFree | Some ch \<Rightarrow> Inr ch)"

text \<open>Calling a \<open>std::function\<close>.\<close>

definition call_function ::
  "('d, 'a) pcalls \<Rightarrow> handler option \<Rightarrow> cb_arg \<Rightarrow> ('d, 'a) ploop_scheme \<Rightarrow> ('d, 'a) ploop_scheme result" where
  "call_function cb f x l = (case f of None \<Rightarrow> Inl (Thrown ''bad_function_call'') | Some g \<Rightarrow> cb g x l)"

subsection \<open>The map of channels and the dispatcher\<close>

definition loop_add ::
  "('d, 'a, 'r) virtuals \<Rightarrow> ('d, 'a) ploop_scheme \<Rightarrow> nat \<Rightarrow> (('d, 'a) ploop_scheme \<times> int) result" where
  "loop_add V l a =
     rbind (pchannel_at l a) (\<lambda>ch.
       if m_channelMap l (m_fd ch) = None then
         (let l1 = l\<lparr>m_channelMap := (m_channelMap l)(m_fd ch \<mapsto> Some a)\<rparr> in
          rbind (v_add V ch (m_dispatcher l1)) (\<lambda>(d, ret). Inr (l1\<lparr>m_dispatcher := d\<rparr>, ret)))
       else Inr (l, -1))"

definition loop_remove ::
  "('d, 'a, 'r) virtuals \<Rightarrow> ('d, 'a) pcalls \<Rightarrow> ('d, 'a) ploop_scheme \<Rightarrow> nat \<Rightarrow>
   (('d, 'a) ploop_scheme \<times> int) result" where
  "loop_remove V dcb l a =
     rbind (pchannel_at l a) (\<lambda>ch.
       if m_channelMap l (m_fd ch) = None then Inr (l, -1) else v_remove V dcb ch l)"

definition loop_modify ::
  "('d, 'a, 'r) virtuals \<Rightarrow> ('d, 'a) ploop_scheme \<Rightarrow> nat \<Rightarrow> (('d, 'a) ploop_scheme \<times> int) result" where
  "loop_modify V l a =
     rbind (pchannel_at l a) (\<lambda>ch.
       if m_channelMap l (m_fd ch) = None then Inr (l, -1)
       else rbind (v_modify V ch (m_dispatcher l)) (\<lambda>(d, ret). Inr (l\<lparr>m_dispatcher := d\<rparr>, ret)))"

definition freeChannel :: "('d, 'a) ploop_scheme \<Rightarrow> nat \<Rightarrow> (('d, 'a) ploop_scheme \<times> int) result" where
  "freeChannel l a =
     rbind (pchannel_at l a) (\<lambda>ch.
       if m_channelMap l (m_fd ch) \<noteq> None
       then Inr (l\<lparr>m_channelMap := (m_channelMap l)(m_fd ch := None), pclosed := pclosed l @ [m_fd ch],
                   pchans := (pchans l)(a := None)\<rparr>, 0)
       else Inr (l, 0))"

subsection \<open>The queue of tasks\<close>

definition perform_task ::
  "('d, 'a, 'r) virtuals \<Rightarrow> ('d, 'a) pcalls \<Rightarrow> ('d, 'a) ploop_scheme \<Rightarrow> task \<Rightarrow> ('d, 'a) ploop_scheme result" where
  "perform_task V dcb l x =
     rbind (case x of
              (ADD, a) \<Rightarrow> loop_add V l a
            | (DELETE, a) \<Rightarrow> loop_remove V dcb l a
            | (MODIFY, a) \<Rightarrow> loop_modify V l a) (\<lambda>(l', _). Inr l')"

partial_function (option) process_queue ::
  "('d, 'a, 'r) virtuals \<Rightarrow> ('d, 'a) pcalls \<Rightarrow> ('d, 'a) ploop_scheme \<Rightarrow> ('d, 'a) ploop_scheme result option" where
  "process_queue V dcb l =
     (case m_taskQ l of
        [] \<Rightarrow> Some (Inr l)
      | x # xs \<Rightarrow>
          (case perform_task V dcb (l\<lparr>m_taskQ := xs\<rparr>) x of
             Inl e \<Rightarrow> Some (Inl e)
           | Inr l1 \<Rightarrow> process_queue V dcb l1))"

definition processTaskQ ::
  "('d, 'a, 'r) virtuals \<Rightarrow> ('d, 'a) pcalls \<Rightarrow> ('d, 'a) ploop_scheme \<Rightarrow> (('d, 'a) ploop_scheme \<times> int) result" where
  "processTaskQ V dcb l = rbind (returned (process_queue V dcb l)) (\<lambda>l'. Inr (l', 0))"

text \<open>
  The message has 36 bytes in UTF-8. It is written to the first descriptor of the pair and arrives
  at the second.
\<close>

definition taskWakeup_port :: "('d, 'a) ploop_scheme \<Rightarrow> ('d, 'a) ploop_scheme" where
  "taskWakeup_port l = l\<lparr>pending := (fst (pending l), snd (pending l) + 36)\<rparr>"

text \<open>\<open>read\<close> on the empty, blocking descriptor does not return.\<close>

definition readMessage :: "('d, 'a) ploop_scheme \<Rightarrow> (('d, 'a) ploop_scheme \<times> int) result" where
  "readMessage l =
     (if snd (pending l) = 0 then Inl Hang
      else Inr (l\<lparr>pending := (fst (pending l), snd (pending l) - min 256 (snd (pending l)))\<rparr>, 0))"

definition addTask ::
  "('d, 'a, 'r) virtuals \<Rightarrow> ('d, 'a) pcalls \<Rightarrow> nat \<Rightarrow> ('d, 'a) ploop_scheme \<Rightarrow> nat \<Rightarrow> task_type \<Rightarrow>
   (('d, 'a) ploop_scheme \<times> int) result" where
  "addTask V dcb self l a ty =
     (let l1 = l\<lparr>m_taskQ := m_taskQ l @ [(ty, a)]\<rparr> in
      if m_threadID l1 = self then rbind (processTaskQ V dcb l1) (\<lambda>(l2, _). Inr (l2, 0))
      else Inr (taskWakeup_port l1, 0))"

subsection \<open>Construction, activation and the loop\<close>

definition new_pchan :: "('d, 'a) ploop_scheme \<Rightarrow> pchannel \<Rightarrow> ('d, 'a) ploop_scheme \<times> nat" where
  "new_pchan l ch = (l\<lparr>pchans := (pchans l)(freshpchan l \<mapsto> ch), freshpchan := Suc (freshpchan l)\<rparr>, freshpchan l)"

text \<open>\<open>d\<close> is the new dispatcher, \<open>sp\<close> what \<open>socketpair\<close> made (\<open>None\<close> when it failed).\<close>

definition new_EventLoop_port ::
  "('d, 'a, 'r) virtuals \<Rightarrow> ('d, 'a) pcalls \<Rightarrow> nat \<Rightarrow> 'd result \<Rightarrow> (int \<times> int) option \<Rightarrow> 'a \<Rightarrow> string \<Rightarrow>
   ('d, 'a) ploop_scheme result" where
  "new_EventLoop_port V dcb self d sp ext threadName =
     rbind d (\<lambda>dd.
       case sp of
         None \<Rightarrow> Inl (Exit ''socketpair'')
       | Some fds \<Rightarrow>
           (let l = \<lparr>m_isQuit = True, m_dispatcher = dd, m_taskQ = [], m_channelMap = Map.empty,
                     m_threadID = self, m_threadName = (if threadName = [] then ''MainThread'' else threadName),
                     m_socketPair = fds, pending = (0, 0), pchans = Map.empty, freshpchan = 0, pclosed = [],
                     \<dots> = ext\<rparr>;
                ch = new_pchannel (snd fds) ReadEvent (Some Loop_readMessage) None None LoopArg;
                (l1, a) = new_pchan l ch
            in rbind (addTask V dcb self l1 a ADD) (\<lambda>(l2, _). Inr l2)))"

text \<open>
  \<open>operator[]\<close> inserts a null pointer for a descriptor that is not in the map, and the assertion
  follows it.
\<close>

definition eventActive ::
  "('d, 'a) pcalls \<Rightarrow> ('d, 'a) ploop_scheme \<Rightarrow> int \<Rightarrow> 32 word \<Rightarrow> (('d, 'a) ploop_scheme \<times> int) result" where
  "eventActive call l f evs =
     (if f < 0 then Inr (l, -1)
      else
        rbind (deref (case m_channelMap l f of None \<Rightarrow> None | Some p \<Rightarrow> p)) (\<lambda>a.
        rbind (pchannel_at l a) (\<lambda>ch.
          if m_fd ch \<noteq> f then Inl AssertFail
          else
            rbind (if evs AND ReadEvent \<noteq> 0
                   then (case readCallback ch of None \<Rightarrow> Inr l | Some g \<Rightarrow> call g (m_arg ch) l)
                   else Inr l) (\<lambda>l1.
            rbind (if evs AND WriteEvent \<noteq> 0
                   then rbind (pchannel_at l1 a) (\<lambda>ch1.
                          case writeCallback ch1 of None \<Rightarrow> Inr l1 | Some g \<Rightarrow> call g (m_arg ch1) l1)
                   else Inr l1) (\<lambda>l2. Inr (l2, 0))))))"

text \<open>The loop of \<open>run\<close> along the events of successive waits.\<close>

fun port_rounds ::
  "('d, 'a, 'r) virtuals \<Rightarrow> ('d, 'a) pcalls \<Rightarrow> ('d, 'a) pcalls \<Rightarrow> 'r list \<Rightarrow> ('d, 'a) ploop_scheme \<Rightarrow>
   ('d, 'a) ploop_scheme result" where
  "port_rounds V dcb call [] l = Inr l"
| "port_rounds V dcb call (r # rs) l =
     (if m_isQuit l then Inr l
      else
        rbind (v_dispatch V call r l) (\<lambda>(l1, _).
        rbind (processTaskQ V dcb l1) (\<lambda>(l2, _).
          port_rounds V dcb call rs l2)))"

definition port_run ::
  "('d, 'a, 'r) virtuals \<Rightarrow> ('d, 'a) pcalls \<Rightarrow> ('d, 'a) pcalls \<Rightarrow> nat \<Rightarrow> 'r list \<Rightarrow> ('d, 'a) ploop_scheme \<Rightarrow>
   (('d, 'a) ploop_scheme \<times> int) result" where
  "port_run V dcb call self rs l =
     (let l1 = l\<lparr>m_isQuit := False\<rparr> in
      if m_threadID l1 \<noteq> self then Inr (l1, -1)
      else rbind (port_rounds V dcb call rs l1) (\<lambda>l'. Inr (l', 0)))"

section \<open>Draining the queue\<close>

text \<open>The tasks waiting are performed in order, each after it has been taken from the queue.\<close>

fun drain ::
  "('d, 'a, 'r) virtuals \<Rightarrow> ('d, 'a) pcalls \<Rightarrow> task list \<Rightarrow> ('d, 'a) ploop_scheme \<Rightarrow> ('d, 'a) ploop_scheme result" where
  "drain V dcb [] l = Inr l"
| "drain V dcb (x # xs) l = rbind (perform_task V dcb (l\<lparr>m_taskQ := xs\<rparr>) x) (drain V dcb xs)"

text \<open>
  What the loop relies on: a dispatcher's \<open>remove\<close> changes the dispatcher's members and then calls
  the destroy callback, and destroy callbacks do not touch the queue, the loop's thread, the bytes in
  the socket pair or the dispatcher.
\<close>

locale draining =
  fixes V :: "('d, 'a, 'r) virtuals"
    and remove_data :: "pchannel \<Rightarrow> 'd \<Rightarrow> ('d \<times> int) result"
    and dcb :: "('d, 'a) pcalls"
  assumes remove_frame: "v_remove V dcb ch l =
      rbind (remove_data ch (m_dispatcher l)) (\<lambda>(d, ret).
      rbind (call_function dcb (destroyCallback ch) (m_arg ch) (l\<lparr>m_dispatcher := d\<rparr>)) (\<lambda>l'. Inr (l', ret)))"
    and dcb_frame: "dcb f x l = Inr l' \<Longrightarrow>
      m_taskQ l' = m_taskQ l \<and> m_threadID l' = m_threadID l \<and> m_dispatcher l' = m_dispatcher l \<and> pending l' = pending l"
begin

lemma call_frame:
  "call_function dcb f x l = Inr l' \<Longrightarrow>
   m_taskQ l' = m_taskQ l \<and> m_threadID l' = m_threadID l \<and> m_dispatcher l' = m_dispatcher l \<and> pending l' = pending l"
  by (cases f) (auto simp: call_function_def dest: dcb_frame)

lemma perform_frame:
  assumes "perform_task V dcb l x = Inr l'"
  shows "m_taskQ l' = m_taskQ l \<and> m_threadID l' = m_threadID l \<and> pending l' = pending l"
proof (cases x)
  case (Pair ty a)
  show ?thesis
    using assms
    by (cases ty)
      (auto simp: Pair perform_task_def loop_add_def loop_remove_def loop_modify_def remove_frame Let_def
        split: if_splits dest: call_frame)
qed

lemma process_queue_drains: "m_taskQ l = xs \<Longrightarrow> process_queue V dcb l = Some (drain V dcb xs l)"
proof (induction xs arbitrary: l)
  case Nil
  then show ?case by (simp add: process_queue.simps)
next
  case (Cons x xs)
  show ?case
  proof (cases "perform_task V dcb (l\<lparr>m_taskQ := xs\<rparr>) x")
    case (Inl e)
    with Cons.prems show ?thesis by (simp add: process_queue.simps)
  next
    case (Inr l1)
    then have "m_taskQ l1 = xs" using perform_frame by fastforce
    with Cons Inr show ?thesis by (subst process_queue.simps) simp
  qed
qed

lemma processTaskQ_drains: "processTaskQ V dcb l = rbind (drain V dcb (m_taskQ l) l) (\<lambda>l'. Inr (l', 0))"
  by (simp add: processTaskQ_def process_queue_drains [OF refl])

lemma processTaskQ_idle: "m_taskQ l = [] \<Longrightarrow> processTaskQ V dcb l = Inr (l, 0)"
  by (simp add: processTaskQ_drains)

lemma drain_frame: "m_taskQ l = xs \<Longrightarrow> drain V dcb xs l = Inr l' \<Longrightarrow> m_taskQ l' = [] \<and> m_threadID l' = m_threadID l"
proof (induction xs arbitrary: l)
  case (Cons x xs)
  then obtain l1 where l1: "perform_task V dcb (l\<lparr>m_taskQ := xs\<rparr>) x = Inr l1" "drain V dcb xs l1 = Inr l'" by auto
  from perform_frame [OF l1(1)] have "m_taskQ l1 = xs" "m_threadID l1 = m_threadID l" by simp_all
  with Cons.IH [OF this(1) l1(2)] show ?case by simp
qed simp

lemma add_task_here:
  "m_taskQ l = [] \<Longrightarrow> m_threadID l = self \<Longrightarrow>
   addTask V dcb self l a ty = rbind (perform_task V dcb l (ty, a)) (\<lambda>l'. Inr (l', 0))"
proof -
  assume a: "m_taskQ l = []" "m_threadID l = self"
  then have l: "l\<lparr>m_taskQ := []\<rparr> = l" by simp
  have "addTask V dcb self l a ty = rbind (perform_task V dcb (l\<lparr>m_taskQ := []\<rparr>) (ty, a)) (\<lambda>l'. Inr (l', 0))"
    using a by (simp add: addTask_def processTaskQ_drains rbind_assoc)
  then show ?thesis unfolding l .
qed

lemma add_task_elsewhere:
  "m_threadID l \<noteq> self \<Longrightarrow>
   addTask V dcb self l a ty = Inr (taskWakeup_port (l\<lparr>m_taskQ := m_taskQ l @ [(ty, a)]\<rparr>), 0)"
  by (simp add: addTask_def)

end

end
