(* ===== verification/Port_Wake.thy ===== *)
theory Port_Wake
  imports Port_Loop
begin

text \<open>
  The queue of tasks of \<open>old/ReactorHttp_cpp/EventLoop.cpp\<close> between several threads. Other threads
  put a task into the queue under the mutex and then write to the socket pair (\<open>addTask\<close>,
  \<open>taskWakeup\<close>); the loop's thread waits in its dispatcher, reads the pair when it is readable
  (\<open>readMessage\<close>), performs the tasks one by one (\<open>processTaskQ\<close>) and waits again. \<open>queue_step\<close>
  is one such action of one thread. The loop's own operations are simulated by these steps.
\<close>

section \<open>The protocol\<close>

datatype queue_pc = Waits | Reads | Drains

record 'k task_queue =
  q_tasks :: "'k list"
  q_bytes :: nat
  q_waking :: nat
  q_pc :: queue_pc
  q_done :: "'k list"
  q_posted :: "'k list"

text \<open>
  \<open>q_waking\<close> counts the threads between putting a task and writing; \<open>q_done\<close> are the tasks taken
  from the queue and \<open>q_posted\<close> all tasks ever put into it, in order.
\<close>

definition queue_begin :: "'k task_queue" where
  "queue_begin = \<lparr>q_tasks = [], q_bytes = 0, q_waking = 0, q_pc = Waits, q_done = [], q_posted = []\<rparr>"

definition put_task :: "'k \<Rightarrow> 'k task_queue \<Rightarrow> 'k task_queue" where
  "put_task k s = s\<lparr>q_tasks := q_tasks s @ [k], q_posted := q_posted s @ [k]\<rparr>"

text \<open>What happens without new tasks; a wait that reports the pair is followed by a read.\<close>

inductive queue_move :: "'k task_queue \<Rightarrow> 'k task_queue \<Rightarrow> bool" where
  wake: "0 < q_waking s \<Longrightarrow> queue_move s (s\<lparr>q_waking := q_waking s - 1, q_bytes := q_bytes s + 36\<rparr>)"
| readable: "q_pc s = Waits \<Longrightarrow> 0 < q_bytes s \<Longrightarrow> queue_move s (s\<lparr>q_pc := Reads\<rparr>)"
| read: "q_pc s = Reads \<Longrightarrow> queue_move s (s\<lparr>q_pc := Drains, q_bytes := q_bytes s - min 256 (q_bytes s)\<rparr>)"
| take: "q_pc s \<noteq> Waits \<Longrightarrow> q_tasks s = k # ks \<Longrightarrow> queue_move s (s\<lparr>q_tasks := ks, q_done := q_done s @ [k]\<rparr>)"
| wait: "q_pc s = Drains \<Longrightarrow> q_tasks s = [] \<Longrightarrow> queue_move s (s\<lparr>q_pc := Waits\<rparr>)"

text \<open>
  New tasks, from another thread or from a callback in the loop's own, and a wait that returns
  without the pair: a timeout, or another descriptor.
\<close>

inductive queue_step :: "'k task_queue \<Rightarrow> 'k task_queue \<Rightarrow> bool" where
  move: "queue_move s t \<Longrightarrow> queue_step s t"
| other_thread: "queue_step s ((put_task k s)\<lparr>q_waking := Suc (q_waking s)\<rparr>)"
| own_thread: "q_pc s \<noteq> Waits \<Longrightarrow> queue_step s (put_task k s)"
| timeout: "q_pc s = Waits \<Longrightarrow> q_bytes s = 0 \<Longrightarrow> queue_step s (s\<lparr>q_pc := Drains\<rparr>)"

inductive_cases queue_moveE: "queue_move s t"
inductive_cases queue_stepE: "queue_step s t"
inductive_simps queue_move_iff: "queue_move s t"

definition queue_inv :: "'k task_queue \<Rightarrow> bool" where
  "queue_inv s \<longleftrightarrow> q_posted s = q_done s @ q_tasks s \<and>
     (q_pc s = Waits \<and> q_tasks s \<noteq> [] \<longrightarrow> 0 < q_bytes s \<or> 0 < q_waking s) \<and>
     (q_pc s = Reads \<longrightarrow> 0 < q_bytes s)"

lemma queue_move_inv: "queue_move s t \<Longrightarrow> queue_inv s \<Longrightarrow> queue_inv t"
  by (erule queue_moveE) (auto simp: queue_inv_def)

lemma queue_step_inv: "queue_step s t \<Longrightarrow> queue_inv s \<Longrightarrow> queue_inv t"
  by (erule queue_stepE) (auto simp: queue_inv_def put_task_def dest: queue_move_inv)

lemma queue_reach: "queue_step\<^sup>*\<^sup>* s t \<Longrightarrow> queue_inv s \<Longrightarrow> queue_inv t"
  by (induction rule: rtranclp_induct) (auto intro: queue_step_inv)

lemma queue_begin_inv: "queue_inv queue_begin"
  by (simp add: queue_inv_def queue_begin_def)

section \<open>Without new tasks the queue empties\<close>

fun pc_left :: "queue_pc \<Rightarrow> nat" where
  "pc_left Waits = 2" | "pc_left Reads = 1" | "pc_left Drains = 3"

text \<open>A write brings 36 bytes, a read takes at least one.\<close>

instantiation task_queue_ext :: (type, type) size
begin

definition size_task_queue_ext :: "('a, 'b) task_queue_ext \<Rightarrow> nat" where
  "size_task_queue_ext s = 109 * q_waking s + 3 * q_bytes s + length (q_tasks s) + pc_left (q_pc s)"

instance ..

end

definition settled :: "'k task_queue \<Rightarrow> bool" where
  "settled s \<longleftrightarrow> q_pc s = Waits \<and> q_bytes s = 0 \<and> q_waking s = 0"

lemma queue_move_lowers: "queue_inv s \<Longrightarrow> queue_move s t \<Longrightarrow> size t < size s"
  by (erule queue_moveE) (auto simp: size_task_queue_ext_def queue_inv_def)

lemma queue_moves: "\<not> settled s \<Longrightarrow> \<exists>t. queue_move s t"
proof (cases "q_pc s")
  case Waits
  assume "\<not> settled s"
  then show ?thesis using Waits queue_move.wake [of s] queue_move.readable [of s] by (auto simp: settled_def)
next
  case Reads
  then show ?thesis using queue_move.read by blast
next
  case Drains
  then show ?thesis using queue_move.wait [of s] queue_move.take [of s] by (cases "q_tasks s") auto
qed

interpretation task_wake: lowering queue_move "\<lambda>s. queue_inv s \<and> q_posted s = ks" size settled for ks
proof
  show "queue_inv s \<and> q_posted s = ks \<Longrightarrow> queue_move s t \<Longrightarrow> queue_inv t \<and> q_posted t = ks" for s t :: "'a task_queue"
    using queue_move_inv [of s t] by (auto elim: queue_moveE)
qed (auto intro: queue_move_lowers queue_moves)

section \<open>The loop's operations are runs of the protocol\<close>

definition shows_queue :: "('d, 'a) ploop_scheme \<Rightarrow> task task_queue \<Rightarrow> bool" where
  "shows_queue l s \<longleftrightarrow> q_tasks s = m_taskQ l \<and> q_bytes s = snd (pending l)"

lemma readMessage_step:
  assumes "shows_queue l s" and "q_pc s = Reads" and "readMessage l = Inr (l', r)"
  shows "\<exists>s'. queue_move s s' \<and> shows_queue l' s'"
  using assms queue_move.read [OF assms(2)]
  by (intro exI [of _ "s\<lparr>q_pc := Drains, q_bytes := q_bytes s - min 256 (q_bytes s)\<rparr>"])
    (auto simp: shows_queue_def readMessage_def split: if_splits)

lemma readMessage_returns: "queue_inv s \<Longrightarrow> shows_queue l s \<Longrightarrow> q_pc s = Reads \<Longrightarrow> readMessage l \<noteq> Inl e"
  by (auto simp: queue_inv_def shows_queue_def readMessage_def)

context draining
begin

lemma add_task_steps:
  assumes "m_threadID l \<noteq> self" and "shows_queue l s" and "addTask V dcb self l a ty = Inr (l', r)"
  shows "\<exists>s'. queue_step\<^sup>*\<^sup>* s s' \<and> shows_queue l' s' \<and> q_posted s' = q_posted s @ [(ty, a)]"
proof -
  let ?s = "(put_task (ty, a) s)\<lparr>q_waking := Suc (q_waking s)\<rparr>"
  let ?s' = "?s\<lparr>q_waking := q_waking ?s - 1, q_bytes := q_bytes ?s + 36\<rparr>"
  have "queue_step s ?s" by (rule queue_step.other_thread)
  moreover have "queue_step ?s ?s'" by (intro queue_step.move queue_move.wake) simp
  ultimately have "queue_step\<^sup>*\<^sup>* s ?s'" by (rule rtranclp.rtrancl_into_rtrancl [OF r_into_rtranclp])
  moreover have "shows_queue l' ?s'"
    using assms by (auto simp: add_task_elsewhere shows_queue_def put_task_def taskWakeup_port_def)
  ultimately show ?thesis by (intro exI [of _ ?s']) (simp add: put_task_def)
qed

lemma drain_steps:
  "drain V dcb xs l = Inr l' \<Longrightarrow> m_taskQ l = xs \<Longrightarrow> shows_queue l s \<Longrightarrow> q_pc s \<noteq> Waits \<Longrightarrow>
   \<exists>s'. queue_move\<^sup>*\<^sup>* s s' \<and> shows_queue l' s' \<and> q_done s' = q_done s @ xs \<and> q_pc s' = q_pc s"
proof (induction xs arbitrary: l s)
  case Nil
  then show ?case by auto
next
  case (Cons x xs)
  obtain l1 where l1: "perform_task V dcb (l\<lparr>m_taskQ := xs\<rparr>) x = Inr l1" "drain V dcb xs l1 = Inr l'"
    using Cons.prems(1) by auto
  let ?s = "s\<lparr>q_tasks := xs, q_done := q_done s @ [x]\<rparr>"
  have "q_tasks s = x # xs" using Cons.prems(2,3) by (simp add: shows_queue_def)
  then have move: "queue_move s ?s" by (rule queue_move.take [OF Cons.prems(4)])
  have "m_taskQ l1 = xs" "shows_queue l1 ?s"
    using perform_frame [OF l1(1)] Cons.prems(3) by (simp_all add: shows_queue_def)
  then obtain s' where "queue_move\<^sup>*\<^sup>* ?s s'" "shows_queue l' s'" "q_done s' = q_done s @ x # xs" "q_pc s' = q_pc s"
    using Cons.IH [OF l1(2), of ?s] Cons.prems(4) by auto
  with move show ?case by (meson converse_rtranclp_into_rtranclp)
qed

lemma processTaskQ_steps:
  assumes "processTaskQ V dcb l = Inr (l', r)" and "shows_queue l s" and "q_pc s \<noteq> Waits"
  shows "\<exists>s'. queue_move\<^sup>*\<^sup>* s s' \<and> shows_queue l' s' \<and> q_done s' = q_done s @ m_taskQ l \<and> m_taskQ l' = []"
proof -
  have d: "drain V dcb (m_taskQ l) l = Inr l'" using assms(1) by (auto simp: processTaskQ_drains)
  then show ?thesis using drain_steps [OF d refl assms(2,3)] drain_frame [OF refl d] by blast
qed

end

section \<open>Properties\<close>

text \<open>
  C15: However other threads and the loop's own interleave: the tasks performed and those waiting are
  together all tasks added, in order; when the loop waits while tasks are queued, its pair is
  readable or a thread is about to write to it; \<open>readMessage\<close> never blocks; and once no tasks are
  added, every step lowers a number, and the loop has performed every task when nothing is left to
  do.
\<close>

theorem port_tasks_all_performed:
  assumes "queue_step\<^sup>*\<^sup>* queue_begin s"
  shows "q_posted s = q_done s @ q_tasks s \<and>
     (q_pc s = Waits \<and> q_tasks s \<noteq> [] \<longrightarrow> 0 < q_bytes s \<or> 0 < q_waking s) \<and>
     (\<forall>l e. shows_queue l s \<and> q_pc s = Reads \<longrightarrow> readMessage l \<noteq> Inl e) \<and>
     (\<exists>t. queue_move\<^sup>*\<^sup>* s t \<and> settled t) \<and>
     (\<forall>t. queue_move\<^sup>*\<^sup>* s t \<and> settled t \<longrightarrow> q_done t = q_posted s \<and> q_tasks t = []) \<and>
     (\<forall>t. queue_move s t \<longrightarrow> size t < size s)"
proof -
  have inv: "queue_inv s" using queue_reach [OF assms queue_begin_inv] .
  have settles: "q_done t = q_posted s \<and> q_tasks t = []" if "queue_move\<^sup>*\<^sup>* s t" "settled t" for t
  proof -
    from that(1) have "queue_inv t \<and> q_posted t = q_posted s"
      by (induction rule: rtranclp_induct) (use inv task_wake.keeps in auto)
    with that(2) show ?thesis by (auto simp: queue_inv_def settled_def)
  qed
  have "\<exists>t. queue_move\<^sup>*\<^sup>* s t \<and> settled t" using task_wake.arrives [of s "q_posted s"] inv by blast
  with inv settles queue_move_lowers [OF inv] readMessage_returns [OF inv] show ?thesis
    by (auto simp: queue_inv_def)
qed

lemma one_task: "queue_step\<^sup>*\<^sup>* queue_begin ((put_task (ADD, 7 :: nat) queue_begin)\<lparr>q_waking := 1\<rparr>)"
  using queue_step.other_thread [of queue_begin "(ADD, 7)"] by (auto simp: queue_begin_def intro: r_into_rtranclp)

theorem port_tasks_all_performed_witness:
  "\<exists>t. queue_move\<^sup>*\<^sup>* ((put_task (ADD, 7 :: nat) queue_begin)\<lparr>q_waking := 1\<rparr>) t \<and> settled t \<and> q_done t = [(ADD, 7)]"
  using port_tasks_all_performed [OF one_task] by (auto simp: put_task_def queue_begin_def)

end
