(* ===== verification/Port_Buffer.thy ===== *)
theory Port_Buffer
  imports C_Buffer
begin

text \<open>
  \<open>old/ReactorHttp_cpp/Buffer.h\<close> and \<open>Buffer.cpp\<close>: the buffer of the C++ port, on the record
  \<open>buffer\<close> of the C server, whose four members it has under other names (\<open>m_data\<close>,
  \<open>m_capacity\<close>, \<open>m_readPos\<close>, \<open>m_writePos\<close>). Two operations changed in the port. A failed
  \<open>realloc\<close> is no longer asserted against but ignored, so that the copy after it leaves the
  block; and the second vector of \<open>socketRead\<close> is not the temporary block \<open>tmp\<close> but the free
  part of the buffer once more. The lemmas compare the operations with the C server's.
\<close>

section \<open>The operations\<close>

text \<open>The constructor clears the block \<open>malloc\<close> returned without testing it.\<close>

definition new_port_Buffer :: "alloc \<Rightarrow> int \<Rightarrow> buffer result" where
  "new_port_Buffer al sz =
     (if al (size_t sz)
      then Inr \<lparr>data = replicate (nat (size_t sz)) NUL, capacity = sz, readPos = 0, writePos = 0\<rparr>
      else Inl NullDeref)"

definition writeableSize :: "buffer \<Rightarrow> int" where
  "writeableSize b = capacity b - writePos b"

definition readableSize :: "buffer \<Rightarrow> int" where
  "readableSize b = writePos b - readPos b"

definition extendRoom :: "alloc \<Rightarrow> buffer \<Rightarrow> int \<Rightarrow> buffer result" where
  "extendRoom al b sz =
     (if sz \<le> writeableSize b then Inr b
      else if sz \<le> readPos b + writeableSize b then
        (let readable = readableSize b in
         rbind (memcpy_within (data b) 0 (readPos b) readable) (\<lambda>d.
           Inr (b\<lparr>data := d, readPos := 0, writePos := readable\<rparr>)))
      else
        rbind (chk (capacity b + sz)) (\<lambda>newcap.
          if al (size_t newcap)
          then Inr (b\<lparr>data := data b @ replicate (nat sz) NUL, capacity := newcap\<rparr>)
          else Inr b))"

text \<open>The three overloads of \<open>appendString\<close>.\<close>

definition appendString :: "alloc \<Rightarrow> buffer \<Rightarrow> char list option \<Rightarrow> int \<Rightarrow> (buffer \<times> int) result" where
  "appendString al b src sz =
     (case src of
        None \<Rightarrow> Inr (b, -1)
      | Some s \<Rightarrow>
          if sz \<le> 0 then Inr (b, -1)
          else
            rbind (extendRoom al b sz) (\<lambda>b1.
            rbind (load s 0 sz) (\<lambda>bytes.
            rbind (store (data b1) (writePos b1) bytes) (\<lambda>d.
              Inr (b1\<lparr>data := d, writePos := writePos b1 + sz\<rparr>, 0)))))"

definition appendCstring :: "alloc \<Rightarrow> buffer \<Rightarrow> string option \<Rightarrow> (buffer \<times> int) result" where
  "appendCstring al b src =
     rbind (deref src) (\<lambda>s. appendString al b (Some s) (wrap32 (int (length (cstr s)))))"

definition appendStdString :: "alloc \<Rightarrow> buffer \<Rightarrow> string \<Rightarrow> (buffer \<times> int) result" where
  "appendStdString al b s = appendCstring al b (Some (s @ [NUL]))"

text \<open>
  \<open>readv\<close> fills the first vector, then the second: both begin at the write position.
  \<open>tmp\<close> is the block of \<open>malloc\<close> nobody has written to, \<open>None\<close> for NULL.
\<close>

definition socketRead ::
  "alloc \<Rightarrow> char list option \<Rightarrow> buffer \<Rightarrow> char list option \<Rightarrow> (buffer \<times> int) result" where
  "socketRead al tmp b rv =
     (let writeable = writeableSize b in
      case rv of
        None \<Rightarrow> Inr (b, -1)
      | Some bs \<Rightarrow>
          (let result = int (length bs) in
           rbind (store (data b) (writePos b) (take (nat writeable) bs)) (\<lambda>d.
           rbind (store d (writePos b) (drop (nat writeable) bs)) (\<lambda>d'.
             if result \<le> writeable
             then Inr (b\<lparr>data := d', writePos := writePos b + result\<rparr>, result)
             else
               rbind (appendString al (b\<lparr>data := d', writePos := capacity b\<rparr>) tmp (result - writeable)) (\<lambda>(b', _).
                 Inr (b', result))))))"

definition findCRLF :: "buffer \<Rightarrow> int option result" where
  "findCRLF b =
     rbind (load (data b) (readPos b) (readableSize b)) (\<lambda>bs.
       Inr (map_option (\<lambda>k. readPos b + int k) (memmem bs CRLF)))"

definition sendData :: "send_oracle \<Rightarrow> buffer \<Rightarrow> int \<Rightarrow> os \<Rightarrow> (buffer \<times> os \<times> int) result" where
  "sendData K b socket s =
     (let readable = readableSize b in
      if 0 < readable then
        rbind (load (data b) (readPos b) readable) (\<lambda>bs.
          case sys_send K socket bs s of (count, s') \<Rightarrow>
            if 0 < count then Inr (b\<lparr>readPos := readPos b + count\<rparr>, s', count)
            else Inr (b, s', count))
      else Inr (b, s, 0))"

definition readPosIncrease :: "buffer \<Rightarrow> int \<Rightarrow> buffer \<times> int" where
  "readPosIncrease b count = (let b' = b\<lparr>readPos := readPos b + count\<rparr> in (b', readPos b'))"

section \<open>Compared with the C server's buffer\<close>

lemma port_sizes: "writeableSize b = bufferWriteAbleSize b" "readableSize b = bufferReadAbleSize b"
  by (simp_all add: writeableSize_def readableSize_def buf_sizes)

lemma findCRLF_eq: "findCRLF b = findCRLFBuffer b"
  by (simp add: findCRLF_def findCRLFBuffer_def port_sizes)

lemma new_port_Buffer_eq: "new_port_Buffer al sz = initBuffer al sz"
  by (simp add: new_port_Buffer_def initBuffer_def)

lemma memcpy_no_assert: "memcpy_within d i j n \<noteq> Inl AssertFail"
  by (auto simp: memcpy_within_def load_def store_def rbind_def)

lemma extendRoom_eq:
  "extendRoom al b n = (case extendRoomBuffer al b n of Inl AssertFail \<Rightarrow> Inr b | r \<Rightarrow> r)"
  using memcpy_no_assert [of "data b" 0 "readPos b" "bufferReadAbleSize b"]
  by (auto simp: extendRoom_def extendRoomBuffer_def port_sizes rbind_def chk_def Let_def
      split: sum.splits fault.splits)

text \<open>
  An append ends as the C server's does, except that a failed \<open>realloc\<close> ends outside the block
  instead of at an assertion.
\<close>

definition port_fault :: "fault \<Rightarrow> fault" where
  "port_fault e = (if e = AssertFail then OutOfBounds else e)"

lemma appendString_eq:
  assumes inv: "buf_inv b" and n: "0 < n" "n \<le> int (length s)"
  shows "map_sum id (\<lambda>(b', r). (Some b', r)) (appendString al b (Some s) n) =
     map_sum port_fault id (appendDataBuffer al (Some b) (Some s) n)"
proof (cases "extendRoomBuffer al b n")
  case (Inr b1)
  have "load s 0 n = Inr (take (nat n) s)" using n by (simp add: load_def)
  then show ?thesis
    using n Inr by (simp add: appendString_def appendDataBuffer_def extendRoom_eq rbind_def store_def port_fault_def)
next
  case (Inl e)
  show ?thesis
  proof (cases "e = AssertFail")
    case True
    then have full: "readPos b + bufferWriteAbleSize b < n"
      using Inl extendRoomBuffer_fault [OF inv, of al n e] by auto
    have "load s 0 n = Inr (take (nat n) s)" using n by (simp add: load_def)
    then show ?thesis
      using n Inl True full buf_invD [OF inv]
      by (simp add: appendString_def appendDataBuffer_def extendRoom_eq store_def port_fault_def buf_sizes)
  next
    case False
    then have "extendRoom al b n = Inl e" using Inl by (cases e) (simp_all add: extendRoom_eq)
    then show ?thesis using n Inl False by (simp add: appendString_def appendDataBuffer_def port_fault_def)
  qed
qed

text \<open>A call whose result the caller drops.\<close>

definition port_append :: "alloc \<Rightarrow> buffer \<Rightarrow> char list \<Rightarrow> buffer result" where
  "port_append al b xs = rbind (appendString al b (Some xs) (int (length xs))) (\<lambda>(b', _). Inr b')"

definition port_text :: "alloc \<Rightarrow> buffer \<Rightarrow> string \<Rightarrow> buffer result" where
  "port_text al b s = rbind (appendCstring al b (Some s)) (\<lambda>(b', _). Inr b')"

lemma carried_append:
  "buf_inv b \<Longrightarrow> carried (append_bytes al b xs) (port_append al b xs)"
proof (cases "xs = []")
  case True
  then show ?thesis by (simp add: append_bytes_def appendDataBuffer_def port_append_def appendString_def)
next
  case False
  assume "buf_inv b"
  from appendString_eq [OF this, of "int (length xs)" xs al] False
  show ?thesis
    by (cases "appendString al b (Some xs) (int (length xs))";
        cases "appendDataBuffer al (Some b) (Some xs) (int (length xs))")
      (auto simp: carried_def append_bytes_def port_append_def)
qed

lemma port_text_eq: "NUL \<notin> set s \<Longrightarrow> int32 (int (length s)) \<Longrightarrow> port_text al b s = port_append al b s"
  by (simp add: port_text_def port_append_def appendCstring_def wrap32_id)

lemma appendStdString_eq:
  "NUL \<notin> set s \<Longrightarrow> int32 (int (length s)) \<Longrightarrow>
   rbind (appendStdString al b s) (\<lambda>(b', _). Inr b') = port_append al b s"
  using cstr_append_NUL [of s "[]"]
  by (simp add: appendStdString_def appendCstring_def port_append_def wrap32_id appendString_def load_def)

lemma carried_text:
  "buf_inv b \<Longrightarrow> NUL \<notin> set s \<Longrightarrow> int32 (int (length s)) \<Longrightarrow> carried (append_string al b s) (port_text al b s)"
  using carried_append [of b al s] by (simp add: append_string_eq port_text_eq)

interpretation port_buf: byte_queue buf_inv contents "port_append al" "roomy al" "\<lambda>_. True" advance
proof
  fix b n and xs :: "char list"
  assume "buf_inv b" "roomy al b (length xs + n)"
  then show "\<exists>b'. port_append al b xs = Inr b' \<and> buf_inv b' \<and> contents b' = contents b @ xs \<and> roomy al b' n"
    using append_bytes_roomy [of b al xs n] carriedD [OF carried_append] by metis
qed (auto simp: advance_ok)

text \<open>Sending, over a kernel that reports no error.\<close>

lemma carried_send:
  assumes "\<forall>n len. 0 \<le> K n len"
  shows "sendData K b fd s = sendDataBuffer K b fd s"
proof -
  have "0 < K n len \<longleftrightarrow> K n len \<noteq> 0" for n len using assms [rule_format, of n len] by auto
  then show ?thesis
    by (simp add: sendData_def sendDataBuffer_def port_sizes sys_send_def Let_def cong: if_cong)
qed

text \<open>After a failed send nothing has moved (the C server's read position moves back by one).\<close>

lemma failed_send_keeps:
  assumes "buf_inv b" and "contents b \<noteq> []" and "K (sends s) (length (contents b)) = -1"
  shows "\<exists>s'. sendData K b fd s = Inr (b, s', -1) \<and> wire s' = wire s"
proof -
  have "0 < int (length (contents b))" using assms(2) by simp
  then have "0 < bufferReadAbleSize b" unfolding length_contents [OF assms(1)] .
  then show ?thesis
    using assms(1,3) by (simp add: sendData_def port_sizes load_contents sys_send_def Let_def)
qed

text \<open>A receive that fits into the free part.\<close>

lemma socketRead_fits:
  assumes inv: "buf_inv b" and fits: "int (length bs) \<le> writeableSize b"
  shows "\<exists>b'. socketRead al tmp b (Some bs) = Inr (b', int (length bs)) \<and> buf_inv b' \<and>
     contents b' = contents b @ bs \<and> socketReadBuffer al b (Some bs) = Inr (b', int (length bs))"
proof -
  note w = write_after [OF inv, of bs]
  let ?b = "b\<lparr>data := blit (data b) (nat (writePos b)) bs, writePos := writePos b + int (length bs)\<rparr>"
  have sp: "take (nat (writeableSize b)) bs = bs" "drop (nat (writeableSize b)) bs = []"
    using fits by simp_all
  have "store (data ?b) (writePos b) [] = Inr (data ?b)"
    using w(1,2) fits buf_invD [OF inv] by (simp add: port_sizes store_def buf_sizes split: if_splits)
  then have "socketRead al tmp b (Some bs) = Inr (?b, int (length bs))"
    using w(1) fits sp by (simp add: socketRead_def port_sizes Let_def)
  moreover have "socketReadBuffer al b (Some bs) = Inr (?b, int (length bs))"
    using w(1) fits sp by (simp add: socketReadBuffer_def port_sizes Let_def)
  ultimately show ?thesis using w(2,3) fits by (simp add: port_sizes)
qed

text \<open>
  A receive that does not fit. \<open>k\<close> bytes are left for the second vector: they are written over
  the first ones, and the append then adds \<open>k\<close> bytes of the temporary block.
\<close>

definition overwritten :: "char list \<Rightarrow> nat \<Rightarrow> char list" where
  "overwritten bs w = drop w bs @ drop (length bs - w) (take w bs)"

lemma socketRead_spills:
  assumes inv: "buf_inv b" and long: "writeableSize b < int (length bs)"
    and tmp: "length tmp = 40960" "length bs \<le> nat (writeableSize b) + 40960"
  defines "w \<equiv> nat (writeableSize b)"
  defines "k \<equiv> length bs - w"
  assumes k: "k \<le> w" and room: "room al (b\<lparr>writePos := capacity b\<rparr>) (int k)"
  shows "\<exists>b'. socketRead al (Some tmp) b (Some bs) = Inr (b', int (length bs)) \<and> buf_inv b' \<and>
     contents b' = contents b @ overwritten bs w @ take k tmp"
proof -
  note inv' = buf_invD [OF inv]
  have wi: "writeableSize b = int w" "int w = capacity b - writePos b" "w < length bs"
    using inv' long by (simp_all add: w_def writeableSize_def)
  have st1: "store (data b) (writePos b) (take w bs) = Inr (blit (data b) (nat (writePos b)) (take w bs))"
    using inv' wi by (simp add: mem_simps)
  have st2: "store (blit (data b) (nat (writePos b)) (take w bs)) (writePos b) (drop w bs) =
      Inr (blit (blit (data b) (nat (writePos b)) (take w bs)) (nat (writePos b)) (drop w bs))"
    using inv' wi k by (simp add: store_def k_def)
  have ov: "blit (blit (data b) (nat (writePos b)) (take w bs)) (nat (writePos b)) (drop w bs) =
      blit (data b) (nat (writePos b)) (overwritten bs w)"
    using inv' wi k by (simp add: blit_def overwritten_def k_def min_def)
  have len: "length (overwritten bs w) = w" using wi k by (simp add: overwritten_def k_def)
  let ?b = "b\<lparr>data := blit (data b) (nat (writePos b)) (overwritten bs w), writePos := capacity b\<rparr>"
  have b1: "buf_inv ?b" "contents ?b = contents b @ overwritten bs w"
    using write_after(2,3) [OF inv, of "overwritten bs w"] len wi by (simp_all add: buf_sizes)
  have rm: "room al ?b (int k)"
    using room by (simp add: room_def no_overlap_def can_grow_def buf_sizes)
  have kk: "0 < int k" "int k \<le> int (length tmp)" "int (length bs) - int w = int k" "nat (int k) = k"
    using wi tmp by (simp_all add: k_def)
  obtain b2 where "appendDataBuffer al (Some ?b) (Some tmp) (int k) = Inr (Some b2, 0)" "buf_inv b2"
      "contents b2 = contents ?b @ take k tmp"
    using appendDataBuffer_ok [OF b1(1) rm kk(1,2)] unfolding kk(4) by blast
  moreover from this(1) have "appendString al ?b (Some tmp) (int k) = Inr (b2, 0)"
    using appendString_eq [OF b1(1) kk(1,2), of al]
    by (cases "appendString al ?b (Some tmp) (int k)") auto
  ultimately show ?thesis
    using st1 st2 kk(3) b1(2) wi(1,3) unfolding ov by (intro exI [of _ b2]) (simp add: socketRead_def)
qed

lemma socketRead_out_of_bounds:
  assumes inv: "buf_inv b" and long: "2 * writeableSize b < int (length bs)"
  shows "socketRead al tmp b (Some bs) = Inl OutOfBounds"
proof -
  note inv' = buf_invD [OF inv]
  have "int (nat (writeableSize b)) = capacity b - writePos b" "nat (writeableSize b) < length bs"
    using inv' long by (simp_all add: writeableSize_def)
  moreover have "length (blit (data b) (nat (writePos b)) (take (nat (writeableSize b)) bs)) = length (data b)"
    using inv' by (intro length_blit) (simp add: writeableSize_def)
  ultimately show ?thesis
    using inv' long by (simp add: socketRead_def store_def writeableSize_def)
qed

section \<open>Properties\<close>

text \<open>
  On a well-formed buffer the port's append ends exactly as the C server's: with the same
  buffer, or in the same fault, except that where the C server stops at its assertion because
  \<open>realloc\<close> failed, the port writes behind the end of the block.
\<close>

lemma port_append_agrees:
  assumes "buf_inv b" and "0 < n" and "n \<le> int (length s)"
  shows "map_sum id (\<lambda>(b', r). (Some b', r)) (appendString al b (Some s) n) =
     map_sum (\<lambda>e. if e = AssertFail then OutOfBounds else e) id (appendDataBuffer al (Some b) (Some s) n)"
  using appendString_eq [OF assms, of al] by (simp add: port_fault_def [abs_def])

lemma port_append_agrees_witness:
  "appendString (\<lambda>_. False) four_bytes (Some ''abcdefgh'') 8 = Inl OutOfBounds"
proof -
  have inv: "buf_inv four_bytes" by (simp add: four_bytes_def buf_inv_def int32_def)
  have "appendDataBuffer (\<lambda>_. False) (Some four_bytes) (Some ''abcdefgh'') 8 = Inl AssertFail"
    by (simp add: appendDataBuffer_def extendRoomBuffer_def four_bytes_def buf_sizes int32_def)
  with port_append_agrees [OF inv, of 8 "''abcdefgh''" "\<lambda>_. False"] show ?thesis
    by (cases "appendString (\<lambda>_. False) four_bytes (Some ''abcdefgh'') 8") auto
qed

text \<open>
  C31: A receive longer than the free part of the buffer is damaged. If it is more than twice as
  long, the kernel writes behind the block; otherwise its last \<open>k\<close> bytes replace its first
  \<open>k\<close>, \<open>k\<close> bytes of memory nobody has written follow, and the call reports the full length.
\<close>

theorem long_receive_damaged:
  assumes "buf_inv b" and "writeableSize b = int w" and "length bs = w + k" and "0 < k"
    and "length tmp = 40960" and "k \<le> 40960" and "room al (b\<lparr>writePos := capacity b\<rparr>) (int k)"
  shows "if w < k then socketRead al (Some tmp) b (Some bs) = Inl OutOfBounds
     else \<exists>b'. socketRead al (Some tmp) b (Some bs) = Inr (b', int (length bs)) \<and>
       contents b' = contents b @ drop w bs @ drop k (take w bs) @ take k tmp"
proof (cases "w < k")
  case True
  then show ?thesis using socketRead_out_of_bounds [OF assms(1), of bs] assms(2,3) by simp
next
  case False
  then show ?thesis
    using socketRead_spills [OF assms(1) _ assms(5), of bs al] assms(2-4,6,7) by (auto simp: overwritten_def)
qed

theorem long_receive_damaged_witness:
  "\<exists>b'. socketRead (\<lambda>_. True) (Some (replicate 40960 CHR ''?'')) four_bytes (Some ''abcdef'') = Inr (b', 6) \<and>
     contents b' = ''efcd??''"
proof -
  have "buf_inv four_bytes" "writeableSize four_bytes = int 4" "contents four_bytes = []"
    "room (\<lambda>_. True) (four_bytes\<lparr>writePos := capacity four_bytes\<rparr>) (int 2)"
    by (simp_all add: four_bytes_def buf_inv_def int32_def writeableSize_def contents_def room_def
        no_overlap_def can_grow_def buf_sizes)
  with long_receive_damaged [of four_bytes 4 "''abcdef''" 2 "replicate 40960 CHR ''?''" "\<lambda>_. True"]
  show ?thesis by (auto simp: numeral_2_eq_2)
qed

end
