(* ===== verification/Port_Request.thy ===== *)
theory Port_Request
  imports Port_Buffer Http_Request "HOL-Library.Char_ord" "HOL-Library.List_Lexorder"
begin

text \<open>
  The request parser of the C++ port: \<open>old/ReactorHttp_cpp/HttpRequest.h\<close> and the parsing
  functions of \<open>HttpRequest.cpp\<close>. The record \<open>port_request\<close> is \<open>class HttpRequest\<close>. A
  \<open>std::map\<close> is the list of its entries in ascending order of the keys, compared as
  \<open>std::string\<close> compares them, byte by byte; the locale \<open>first_entry\<close> is what its
  \<open>insert\<close> promises. The parser is first described on the unread bytes, without positions;
  from that follow that its loop always ends, what it reads back, and that it agrees with the C
  server's parser wherever that one returns.
\<close>

section \<open>Maps that keep the first entry\<close>

locale first_entry =
  fixes put :: "'k \<Rightarrow> 'v \<Rightarrow> 'm \<Rightarrow> 'm"
    and look :: "'m \<Rightarrow> 'k \<Rightarrow> 'v option"
    and inv :: "'m \<Rightarrow> bool"
  assumes put_inv: "inv m \<Longrightarrow> inv (put k v m)"
    and look_put: "inv m \<Longrightarrow> look (put k v m) k' =
      (if k' = k then Some (case look m k of None \<Rightarrow> v | Some w \<Rightarrow> w) else look m k')"
begin

lemma put_all_entries:
  "inv m \<Longrightarrow> inv (fold (\<lambda>(k, v). put k v) hs m) \<and>
   look (fold (\<lambda>(k, v). put k v) hs m) k = (case look m k of None \<Rightarrow> map_of hs k | Some w \<Rightarrow> Some w)"
  by (induction hs arbitrary: m) (auto simp: put_inv look_put split: option.split)

end

fun map_insert :: "string \<Rightarrow> string \<Rightarrow> (string \<times> string) list \<Rightarrow> (string \<times> string) list" where
  "map_insert k v [] = [(k, v)]"
| "map_insert k v ((k', v') # m) =
     (if k < k' then (k, v) # (k', v') # m
      else if k = k' then (k', v') # m
      else (k', v') # map_insert k v m)"

definition ascending :: "(string \<times> string) list \<Rightarrow> bool" where
  "ascending m \<longleftrightarrow> sorted_wrt (<) (map fst m)"

lemma map_insert_keys: "fst ` set (map_insert k v m) = insert k (fst ` set m)"
  by (induction k v m rule: map_insert.induct) auto

lemma ascending_insert: "ascending m \<Longrightarrow> ascending (map_insert k v m)"
proof (induction k v m rule: map_insert.induct)
  case (2 k v k' v' m)
  have "x \<in> set (map_insert k v m) \<Longrightarrow> fst x = k \<or> fst x \<in> fst ` set m" for x
    using map_insert_keys [of k v m] by (metis imageI insertE)
  with 2 show ?case by (fastforce simp: ascending_def)
qed (simp add: ascending_def)

lemma map_of_less: "ascending ((k', v') # m) \<Longrightarrow> k < k' \<Longrightarrow> map_of m k = None"
  by (fastforce simp: ascending_def map_of_eq_None_iff)

lemma map_of_insert:
  "ascending m \<Longrightarrow> map_of (map_insert k v m) j =
     (if j = k then Some (case map_of m k of None \<Rightarrow> v | Some w \<Rightarrow> w) else map_of m j)"
proof (induction k v m rule: map_insert.induct)
  case (2 k v k' v' m)
  then have "ascending m" by (simp add: ascending_def)
  with 2 map_of_less [OF "2.prems"] show ?case by auto
qed simp

interpretation headers: first_entry map_insert map_of ascending
  by unfold_locales (simp_all add: ascending_insert map_of_insert)

section \<open>The request\<close>

datatype PrecessState = ParseReqLine' | ParseReqHeaders' | ParseReqBody' | ParseReqDone'

record port_request =
  m_method :: string
  m_url :: string
  m_version :: string
  m_reqHeaders :: "(string \<times> string) list"
  m_curState :: PrecessState

definition request_reset :: "port_request \<Rightarrow> port_request" where
  "request_reset r =
     r\<lparr>m_curState := ParseReqLine', m_method := [], m_url := [], m_version := [], m_reqHeaders := []\<rparr>"

text \<open>The constructor calls \<open>reset\<close> on members that are empty already.\<close>

definition new_HttpRequest :: port_request where
  "new_HttpRequest =
     request_reset \<lparr>m_method = [], m_url = [], m_version = [], m_reqHeaders = [], m_curState = ParseReqLine'\<rparr>"

definition request_addHeader :: "port_request \<Rightarrow> string \<Rightarrow> string \<Rightarrow> port_request" where
  "request_addHeader r key value =
     (if key = [] \<or> value = [] then r else r\<lparr>m_reqHeaders := map_insert key value (m_reqHeaders r)\<rparr>)"

definition getHeader :: "port_request \<Rightarrow> string \<Rightarrow> string" where
  "getHeader r key = (case map_of (m_reqHeaders r) key of None \<Rightarrow> [] | Some v \<Rightarrow> v)"

text \<open>The callback receives the token as a \<open>std::string\<close>: NULs are kept.\<close>

definition split_request_line :: "char list \<Rightarrow> int \<Rightarrow> int \<Rightarrow> string option \<Rightarrow> (int \<times> string) result" where
  "split_request_line blk start eol sub =
     rbind (case sub of
              None \<Rightarrow> Inr eol
            | Some s \<Rightarrow>
                rbind (load blk start (eol - start)) (\<lambda>line.
                  case memmem line s of None \<Rightarrow> Inl AssertFail | Some k \<Rightarrow> Inr (start + int k))) (\<lambda>space.
     rbind (load blk start (space - start)) (\<lambda>tok. Inr (space + 1, tok)))"

definition parseRequestLine_port :: "port_request \<Rightarrow> buffer \<Rightarrow> (port_request \<times> buffer \<times> bool) result" where
  "parseRequestLine_port r b =
     rbind (findCRLF b) (\<lambda>e.
     rbind (deref e) (\<lambda>eol.
       let start = readPos b; lineSize = eol - start in
       if 0 < lineSize then
         rbind (split_request_line (data b) start eol (Some '' '')) (\<lambda>(start1, m).
         rbind (split_request_line (data b) start1 eol (Some '' '')) (\<lambda>(start2, u).
         rbind (split_request_line (data b) start2 eol None) (\<lambda>(_, v).
           Inr (r\<lparr>m_method := m, m_url := u, m_version := v, m_curState := ParseReqHeaders'\<rparr>,
                fst (readPosIncrease b (lineSize + 2)), True))))
       else Inr (r, b, False)))"

definition parseRequestHeader :: "port_request \<Rightarrow> buffer \<Rightarrow> (port_request \<times> buffer \<times> bool) result" where
  "parseRequestHeader r b =
     rbind (findCRLF b) (\<lambda>e.
       case e of
         None \<Rightarrow> Inr (r, b, False)
       | Some eol \<Rightarrow>
           (let start = readPos b; lineSize = eol - start in
            rbind (load (data b) start lineSize) (\<lambda>line.
              case memmem line '': '' of
                Some k \<Rightarrow>
                  (let keyLen = int k; valueLen = eol - (start + int k) - 2 in
                   rbind (if 0 < keyLen \<and> 0 < valueLen
                          then rbind (load (data b) start keyLen) (\<lambda>key.
                               rbind (load (data b) (start + int k + 2) valueLen) (\<lambda>value.
                                 Inr (request_addHeader r key value)))
                          else Inr r) (\<lambda>r'.
                     Inr (r', fst (readPosIncrease b (lineSize + 2)), True)))
              | None \<Rightarrow> Inr (r\<lparr>m_curState := ParseReqDone'\<rparr>, fst (readPosIncrease b 2), True))))"

text \<open>
  The loop of \<open>parseHttpRequest\<close>. \<open>answer\<close> is what it does with a finished request:
  \<open>processHttpRequest\<close> and \<open>prepareMsg\<close>, on a state \<open>s\<close> of their own. The last
  statement makes the parser ready for the next request.
\<close>

definition parse_round :: "port_request \<Rightarrow> buffer \<Rightarrow> bool \<Rightarrow> (port_request \<times> buffer \<times> bool) result" where
  "parse_round r b flag =
     (case m_curState r of
        ParseReqLine' \<Rightarrow> parseRequestLine_port r b
      | ParseReqHeaders' \<Rightarrow> parseRequestHeader r b
      | _ \<Rightarrow> Inr (r, b, flag))"

partial_function (option) parse_requests ::
  "(port_request \<Rightarrow> 's \<Rightarrow> (port_request \<times> 's) result) \<Rightarrow> port_request \<Rightarrow> buffer \<Rightarrow> 's \<Rightarrow> bool \<Rightarrow>
   (port_request \<times> buffer \<times> 's \<times> bool) result option" where
  "parse_requests answer r b s flag =
     (if m_curState r = ParseReqDone' then Some (Inr (r\<lparr>m_curState := ParseReqLine'\<rparr>, b, s, flag))
      else
        case parse_round r b flag of
          Inl e \<Rightarrow> Some (Inl e)
        | Inr (r1, b1, flag1) \<Rightarrow>
            if \<not> flag1 then Some (Inr (r1, b1, s, flag1))
            else if m_curState r1 = ParseReqDone' then
              (case answer r1 s of
                 Inl e \<Rightarrow> Some (Inl e)
               | Inr (r2, s2) \<Rightarrow> parse_requests answer r2 b1 s2 flag1)
            else parse_requests answer r1 b1 s flag1)"

section \<open>The parser on the unread bytes\<close>

lemma load_window:
  assumes inv: "buf_inv b" and n: "i + n \<le> length (contents b)"
  shows "load (data b) (readPos b + int i) (int n) = Inr (take n (drop i (contents b)))"
proof -
  note inv' = buf_invD [OF inv]
  have c: "contents b = take (nat (writePos b - readPos b)) (drop (nat (readPos b)) (data b))"
    using inv' by (simp add: contents_def window_def drop_take nat_diff_distrib)
  have len: "int (i + n) \<le> writePos b - readPos b"
    using n length_contents [OF inv] unfolding bufferReadAbleSize_def by linarith
  then have "n \<le> nat (writePos b - readPos b) - i" by linarith
  then have "take n (drop i (contents b)) = take n (drop (i + nat (readPos b)) (data b))"
    unfolding c by (simp add: drop_take)
  moreover have "nat (readPos b + int i) = i + nat (readPos b)" using inv' by (simp add: nat_add_distrib)
  ultimately show ?thesis using inv' len by (simp add: load_def)
qed

lemma memmem_Some_le: "memmem xs needle = Some k \<Longrightarrow> k + length needle \<le> length xs"
  using memmem_Some by blast

lemma split_at:
  assumes inv: "buf_inv b" and k: "i \<le> k" "k \<le> length (contents b)"
  shows "split_request_line (data b) (readPos b + int i) (readPos b + int k) (Some s) =
     (case memmem (take (k - i) (drop i (contents b))) s of
        None \<Rightarrow> Inl AssertFail
      | Some j \<Rightarrow> Inr (readPos b + int (i + j + 1), take j (drop i (contents b))))"
proof -
  have "load (data b) (readPos b + int i) (int (k - i)) = Inr (take (k - i) (drop i (contents b)))"
    using load_window [OF inv, of i "k - i"] k by simp
  moreover have "load (data b) (readPos b + int i) (int j) = Inr (take j (drop i (contents b)))"
    if "memmem (take (k - i) (drop i (contents b))) s = Some j" for j
    using load_window [OF inv, of i j] memmem_Some_le [OF that] k by simp
  moreover have "readPos b + int k - (readPos b + int i) = int (k - i)" using k(1) by simp
  moreover have "readPos b + int i + int j - (readPos b + int i) = int j"
    "readPos b + int i + int j + 1 = readPos b + int (i + j + 1)" for j
    by simp_all
  ultimately show ?thesis
    unfolding split_request_line_def
    by (cases "memmem (take (k - i) (drop i (contents b))) s") (simp_all only: rbind_simps option.case)
qed

lemma split_rest:
  assumes inv: "buf_inv b" and k: "i \<le> k" "k \<le> length (contents b)"
  shows "split_request_line (data b) (readPos b + int i) (readPos b + int k) None =
     Inr (readPos b + int k + 1, take (k - i) (drop i (contents b)))"
proof -
  have "readPos b + int k - (readPos b + int i) = int (k - i)" using k(1) by simp
  then show ?thesis using load_window [OF inv, of i "k - i"] k unfolding split_request_line_def by simp
qed

text \<open>The three words of a request line, at its first two blanks.\<close>

definition words :: "char list \<Rightarrow> (string \<times> string \<times> string) option" where
  "words line =
     (case memmem line '' '' of
        None \<Rightarrow> None
      | Some i \<Rightarrow>
          (let rest = drop (i + 1) line in
           case memmem rest '' '' of
             None \<Rightarrow> None
           | Some j \<Rightarrow> Some (take i line, take j rest, drop (j + 1) rest)))"

lemma advance_eq: "fst (readPosIncrease b (int n)) = advance b n"
  by (simp add: readPosIncrease_def advance_def)

lemma parseRequestLine_contents:
  assumes inv: "buf_inv b"
  shows "parseRequestLine_port r b =
     (case memmem (contents b) CRLF of
        None \<Rightarrow> Inl NullDeref
      | Some k \<Rightarrow>
          if k = 0 then Inr (r, b, False)
          else
            (case words (take k (contents b)) of
               None \<Rightarrow> Inl AssertFail
             | Some (m, u, v) \<Rightarrow>
                 Inr (r\<lparr>m_method := m, m_url := u, m_version := v, m_curState := ParseReqHeaders'\<rparr>,
                      advance b (k + 2), True)))"
proof (cases "memmem (contents b) CRLF")
  case None
  then show ?thesis by (simp add: parseRequestLine_port_def findCRLF_eq findCRLFBuffer_eq [OF inv])
next
  case (Some k)
  have k: "k \<le> length (contents b)" using memmem_Some_le [OF Some] by simp
  have adv: "fst (readPosIncrease b (int k + 2)) = advance b (k + 2)"
    using advance_eq [of b "k + 2"] by (simp add: ac_simps)
  have s0: "split_request_line (data b) (readPos b) (readPos b + int k) (Some '' '') =
      (case memmem (take k (contents b)) '' '' of None \<Rightarrow> Inl AssertFail
       | Some j \<Rightarrow> Inr (readPos b + int (j + 1), take j (contents b)))"
    using split_at [OF inv _ k, of 0 "'' ''"] by (simp cong: option.case_cong)
  show ?thesis
  proof (cases "memmem (take k (contents b)) '' ''")
    case None
    then show ?thesis
      using Some s0 by (simp add: parseRequestLine_port_def findCRLF_eq findCRLFBuffer_eq [OF inv] words_def)
  next
    case i: (Some i)
    have ik: "i + 1 \<le> k" using memmem_Some_le [OF i] k by simp
    have tk: "take (k - (i + 1)) (drop (i + 1) (contents b)) = drop (i + 1) (take k (contents b))"
      by (simp add: drop_take)
    note s1 = split_at [OF inv ik k, of "'' ''", unfolded tk]
    show ?thesis
    proof (cases "memmem (drop (i + 1) (take k (contents b))) '' ''")
      case None
      then show ?thesis
        using Some s0 s1 i ik
        by (simp add: parseRequestLine_port_def findCRLF_eq findCRLFBuffer_eq [OF inv] words_def)
    next
      case j: (Some j)
      have jk: "i + 1 + j + 1 \<le> k" using memmem_Some_le [OF j] k by simp
      have "take (k - (i + 1 + j + 1)) (drop (i + 1 + j + 1) (contents b)) =
          drop (j + 1) (drop (i + 1) (take k (contents b)))"
        by (simp add: drop_take ac_simps)
      note s2 = split_rest [OF inv jk k, unfolded this]
      have tok: "take i (take k (contents b)) = take i (contents b)"
        "take j (drop (i + 1) (take k (contents b))) = take j (drop (i + 1) (contents b))"
        using ik jk by (simp_all add: drop_take)
      show ?thesis
        using Some s0 s1 s2 i j ik adv tok
        by (simp add: parseRequestLine_port_def findCRLF_eq findCRLFBuffer_eq [OF inv] words_def ac_simps)
    qed
  qed
qed

lemma parseRequestHeader_contents:
  assumes inv: "buf_inv b"
  shows "parseRequestHeader r b =
     (case memmem (contents b) CRLF of
        None \<Rightarrow> Inr (r, b, False)
      | Some k \<Rightarrow>
          (let line = take k (contents b) in
           case memmem line '': '' of
             None \<Rightarrow> Inr (r\<lparr>m_curState := ParseReqDone'\<rparr>, advance b 2, True)
           | Some i \<Rightarrow> Inr (request_addHeader r (take i line) (drop (i + 2) line), advance b (k + 2), True)))"
proof (cases "memmem (contents b) CRLF")
  case None
  then show ?thesis by (simp add: parseRequestHeader_def findCRLF_eq findCRLFBuffer_eq [OF inv])
next
  case (Some k)
  let ?line = "take k (contents b)"
  have k: "k \<le> length (contents b)" using memmem_Some_le [OF Some] by simp
  have l: "load (data b) (readPos b) (int k) = Inr ?line"
    using load_window [OF inv, of 0 k] k by simp
  have adv: "fst (readPosIncrease b (int k + 2)) = advance b (k + 2)" "fst (readPosIncrease b 2) = advance b 2"
    using advance_eq [of b "k + 2"] advance_eq [of b 2] by (simp_all add: ac_simps)
  show ?thesis
  proof (cases "memmem ?line '': ''")
    case None
    then show ?thesis
      using Some l adv by (simp add: parseRequestHeader_def findCRLF_eq findCRLFBuffer_eq [OF inv])
  next
    case i: (Some i)
    have ik: "i + 2 \<le> k" using memmem_Some_le [OF i] k by simp
    have key: "load (data b) (readPos b) (int i) = Inr (take i ?line)"
      using load_window [OF inv, of 0 i] ik k by (simp add: min_def)
    have val: "load (data b) (readPos b + int i + 2) (int k - int i - 2) = Inr (drop (i + 2) ?line)"
    proof -
      have n: "readPos b + int i + 2 = readPos b + int (i + 2)" "int k - int i - 2 = int (k - (i + 2))"
        using ik by simp_all
      have "i + 2 + (k - (i + 2)) \<le> length (contents b)" using ik k by simp
      from load_window [OF inv this] show ?thesis unfolding n by (simp only: drop_take)
    qed
    have "(0 < int i \<and> 0 < int k - int i - 2) \<longleftrightarrow> (take i ?line \<noteq> [] \<and> drop (i + 2) ?line \<noteq> [])"
      using ik k by auto
    then show ?thesis
      using Some l adv i key val
      by (simp add: parseRequestHeader_def findCRLF_eq findCRLFBuffer_eq [OF inv] request_addHeader_def Let_def)
  qed
qed

text \<open>A successful round consumes at least two bytes.\<close>

lemma parse_round_consumes:
  assumes inv: "buf_inv b" and st: "m_curState r \<in> {ParseReqLine', ParseReqHeaders'}"
    and ok: "parse_round r b flag = Inr (r1, b1, True)"
  shows "buf_inv b1 \<and> length (contents b1) < length (contents b) \<and>
     m_curState r1 \<in> {ParseReqHeaders', ParseReqDone'}"
proof -
  have step: "buf_inv (advance b n) \<and> length (contents (advance b n)) < length (contents b)"
    if "memmem (contents b) CRLF = Some k" "0 < n" "n \<le> k + 2" for k n
    using advance_ok [OF inv, of n] memmem_Some_le [OF that(1)] that(2,3) by (auto simp: min_def)
  show ?thesis
  proof (cases "m_curState r = ParseReqLine'")
    case True
    with ok obtain k where "memmem (contents b) CRLF = Some k" "b1 = advance b (k + 2)"
        "m_curState r1 = ParseReqHeaders'"
      by (auto simp: parse_round_def parseRequestLine_contents [OF inv] split: option.splits if_splits)
    with step show ?thesis by simp
  next
    case False
    with st have h: "m_curState r = ParseReqHeaders'" by simp
    with ok obtain k where k: "memmem (contents b) CRLF = Some k"
        "b1 = advance b 2 \<or> b1 = advance b (k + 2)" "m_curState r1 \<in> {ParseReqHeaders', ParseReqDone'}"
      by (auto simp: parse_round_def parseRequestHeader_contents [OF inv] Let_def request_addHeader_def
          split: option.splits)
    with step [OF k(1), of 2] step [OF k(1), of "k + 2"] show ?thesis by auto
  qed
qed

text \<open>
  So the loop ends from every state but \<open>ParseReqBody'\<close>, in which it does nothing and which no
  function enters, provided the answer leaves the parser where it is.
\<close>

lemma parse_requests_ends:
  assumes ans: "\<And>r s r' s'. answer r s = Inr (r', s') \<Longrightarrow> m_curState r' = m_curState r"
  shows "buf_inv b \<Longrightarrow> m_curState r \<noteq> ParseReqBody' \<Longrightarrow> \<exists>y. parse_requests answer r b s flag = Some y"
proof (induction "length (contents b)" arbitrary: b r s flag rule: less_induct)
  case less
  show ?case
  proof (cases "m_curState r = ParseReqDone'")
    case True
    then show ?thesis by (simp add: parse_requests.simps)
  next
    case False
    then have st: "m_curState r \<in> {ParseReqLine', ParseReqHeaders'}"
      using less.prems(2) by (cases "m_curState r") auto
    show ?thesis
    proof (cases "parse_round r b flag")
      case (Inl e)
      with False show ?thesis by (simp add: parse_requests.simps)
    next
      case (Inr x)
      obtain r1 b1 f1 where x: "x = (r1, b1, f1)" by (cases x)
      show ?thesis
      proof (cases f1)
        case False
        then show ?thesis
          using \<open>m_curState r \<noteq> ParseReqDone'\<close> Inr x by (subst parse_requests.simps) simp
      next
        case True
        with Inr x have ok: "parse_round r b flag = Inr (r1, b1, True)" by simp
        note c = parse_round_consumes [OF less.prems(1) st ok]
        have IH: "\<exists>y. parse_requests answer r' b1 s' True = Some y" if "m_curState r' = m_curState r1" for r' s'
          using less.hyps [of b1 r' s' True] c that by auto
        show ?thesis
        proof (cases "m_curState r1 = ParseReqDone'")
          case True
          then show ?thesis
            using \<open>m_curState r \<noteq> ParseReqDone'\<close> ok IH ans [of r1 s]
            by (subst parse_requests.simps) (auto split: sum.split)
        next
          case False
          then show ?thesis
            using \<open>m_curState r \<noteq> ParseReqDone'\<close> ok IH by (subst parse_requests.simps) simp
        qed
      qed
    qed
  qed
qed

section \<open>Requests the parser reads\<close>

text \<open>What follows when a request is complete: the answer, and the parser made ready again.\<close>

definition answered ::
  "(port_request \<Rightarrow> 's \<Rightarrow> (port_request \<times> 's) result) \<Rightarrow> port_request \<Rightarrow> buffer \<Rightarrow> 's \<Rightarrow>
   (port_request \<times> buffer \<times> 's \<times> bool) result option" where
  "answered answer r b s =
     (case answer r s of
        Inl e \<Rightarrow> Some (Inl e)
      | Inr (r2, s2) \<Rightarrow> parse_requests answer r2 b s2 True)"

lemma answered_done:
  "answer r s = Inr (r2, s2) \<Longrightarrow> m_curState r2 = ParseReqDone' \<Longrightarrow>
   answered answer r b s = Some (Inr (r2\<lparr>m_curState := ParseReqLine'\<rparr>, b, s2, True))"
  by (simp add: answered_def parse_requests.simps)

lemma answered_fault: "answer r s = Inl e \<Longrightarrow> answered answer r b s = Some (Inl e)"
  by (simp add: answered_def)

lemma parse_requests_round:
  assumes "m_curState r \<noteq> ParseReqDone'" and "parse_round r b flag = Inr (r1, b1, f1)"
  shows "parse_requests answer r b s flag =
     (if \<not> f1 then Some (Inr (r1, b1, s, False))
      else if m_curState r1 = ParseReqDone' then answered answer r1 b1 s
      else parse_requests answer r1 b1 s True)"
  using assms by (subst parse_requests.simps) (auto simp: answered_def split: sum.split)

definition add_headers :: "port_request \<Rightarrow> (string \<times> string) list \<Rightarrow> port_request" where
  "add_headers r hs = fold (\<lambda>(k, v) r. request_addHeader r k v) hs r"

definition nonempty :: "string \<times> string \<Rightarrow> bool" where
  "nonempty h \<longleftrightarrow> fst h \<noteq> [] \<and> snd h \<noteq> []"

lemma add_headers_eq:
  "add_headers r hs =
     r\<lparr>m_reqHeaders := fold (\<lambda>(k, v). map_insert k v) (filter nonempty hs) (m_reqHeaders r)\<rparr>"
  by (induction hs arbitrary: r) (auto simp: add_headers_def request_addHeader_def nonempty_def)

lemma getHeader_add_headers:
  "m_reqHeaders r = [] \<Longrightarrow>
   getHeader (add_headers r hs) k = (case map_of (filter nonempty hs) k of None \<Rightarrow> [] | Some v \<Rightarrow> v)"
  using headers.put_all_entries [of "[]" "filter nonempty hs" k]
  by (simp add: getHeader_def add_headers_eq ascending_def)

text \<open>Words without blanks, lines without carriage returns, keys without colons.\<close>

definition readable_header :: "string \<times> string \<Rightarrow> bool" where
  "readable_header h \<longleftrightarrow> CHR '':'' \<notin> set (fst h) \<and> CR \<notin> set (fst h) \<and> CR \<notin> set (snd h)"

definition readable_request :: "string \<Rightarrow> string \<Rightarrow> string \<Rightarrow> (string \<times> string) list \<Rightarrow> bool" where
  "readable_request m u v hs \<longleftrightarrow> CHR '' '' \<notin> set m \<and> CR \<notin> set m \<and> CHR '' '' \<notin> set u \<and> CR \<notin> set u \<and>
     CR \<notin> set v \<and> (\<forall>h\<in>set hs. readable_header h)"

lemma line_end: "CR \<notin> set line \<Longrightarrow> memmem (line @ CRLF @ rest) CRLF = Some (length line)"
  using memmem_first [of CR line "[CHR 0x0A]" rest] by simp

lemma advance_past:
  "buf_inv b \<Longrightarrow> contents b = line @ rest \<Longrightarrow> n = length line \<Longrightarrow>
   buf_inv (advance b n) \<and> contents (advance b n) = rest"
  using advance_ok [of b n] by simp

lemma read_line:
  assumes inv: "buf_inv b" and c: "contents b = m @ '' '' @ u @ '' '' @ v @ CRLF @ rest"
    and ok: "readable_request m u v hs" and st: "m_curState r = ParseReqLine'"
  shows "\<exists>b1. parse_round r b flag =
      Inr (r\<lparr>m_method := m, m_url := u, m_version := v, m_curState := ParseReqHeaders'\<rparr>, b1, True) \<and>
      buf_inv b1 \<and> contents b1 = rest"
proof -
  let ?line = "m @ '' '' @ u @ '' '' @ v"
  have cr: "CR \<notin> set ?line" "CHR '' '' \<notin> set m" "CHR '' '' \<notin> set u" using ok by (auto simp: readable_request_def)
  have c1: "contents b = ?line @ CRLF @ rest" "contents b = (?line @ CRLF) @ rest" using c by simp_all
  have e: "memmem (contents b) CRLF = Some (length ?line)" unfolding c1(1) by (rule line_end [OF cr(1)])
  have "take (length ?line) (contents b) = ?line" unfolding c1(1) by simp
  moreover have "words ?line = Some (m, u, v)"
    using memmem_single [OF cr(2), of "u @ '' '' @ v"] memmem_single [OF cr(3), of v]
    by (simp add: words_def)
  moreover have "buf_inv (advance b (length ?line + 2)) \<and> contents (advance b (length ?line + 2)) = rest"
    by (rule advance_past [OF inv c1(2)]) simp
  ultimately show ?thesis
    using st e by (simp add: parse_round_def parseRequestLine_contents [OF inv])
qed

lemma read_header:
  assumes inv: "buf_inv b" and c: "contents b = print_header h @ rest" and ok: "readable_header h"
    and st: "m_curState r = ParseReqHeaders'"
  shows "\<exists>b1. parse_round r b flag = Inr (request_addHeader r (fst h) (snd h), b1, True) \<and>
      buf_inv b1 \<and> contents b1 = rest"
proof -
  let ?line = "fst h @ '': '' @ snd h"
  have cr: "CR \<notin> set ?line" "CHR '':'' \<notin> set (fst h)" using ok by (auto simp: readable_header_def)
  have c1: "contents b = ?line @ CRLF @ rest" "contents b = (?line @ CRLF) @ rest"
    using c by (simp_all add: print_header_def)
  have e: "memmem (contents b) CRLF = Some (length ?line)" unfolding c1(1) by (rule line_end [OF cr(1)])
  have "take (length ?line) (contents b) = ?line" unfolding c1(1) by simp
  moreover have "memmem ?line '': '' = Some (length (fst h))"
    using memmem_first [OF cr(2), of "'' ''" "snd h"] by simp
  moreover have "buf_inv (advance b (length ?line + 2)) \<and> contents (advance b (length ?line + 2)) = rest"
    by (rule advance_past [OF inv c1(2)]) simp
  ultimately show ?thesis
    using st e by (simp add: parse_round_def parseRequestHeader_contents [OF inv] Let_def)
qed

lemma read_blank:
  assumes inv: "buf_inv b" and c: "contents b = CRLF @ rest" and st: "m_curState r = ParseReqHeaders'"
  shows "\<exists>b1. parse_round r b flag = Inr (r\<lparr>m_curState := ParseReqDone'\<rparr>, b1, True) \<and>
      buf_inv b1 \<and> contents b1 = rest"
  using line_end [of "[]" rest] c st advance_past [OF inv c, of 2]
  by (simp add: parse_round_def parseRequestHeader_contents [OF inv])

lemma addHeader_state [simp]: "m_curState (request_addHeader r k v) = m_curState r"
  by (simp add: request_addHeader_def)

lemma addHeader_add_headers:
  "request_addHeader (r\<lparr>m_curState := st\<rparr>) k v = (request_addHeader r k v)\<lparr>m_curState := st\<rparr>"
  "add_headers (request_addHeader r (fst h) (snd h)) hs = add_headers r (h # hs)"
  by (simp_all add: request_addHeader_def add_headers_def split_def)

lemma read_headers:
  assumes "buf_inv b" and "contents b = concat (map print_header hs) @ tail"
    and "\<forall>h\<in>set hs. readable_header h" and "m_curState r = ParseReqHeaders'"
  shows "\<exists>b' flag'. buf_inv b' \<and> contents b' = tail \<and>
     parse_requests answer r b s flag = parse_requests answer (add_headers r hs) b' s flag'"
  using assms
proof (induction hs arbitrary: r b flag)
  case Nil
  then show ?case by (auto simp: add_headers_def)
next
  case (Cons h hs)
  obtain b1 where b1: "parse_round r b flag = Inr (request_addHeader r (fst h) (snd h), b1, True)"
      "buf_inv b1" "contents b1 = concat (map print_header hs) @ tail"
    using read_header [OF Cons.prems(1) _ _ Cons.prems(4), of h "concat (map print_header hs) @ tail" flag]
      Cons.prems(2,3) by auto
  from Cons.IH [OF b1(2,3), of "request_addHeader r (fst h) (snd h)" True] Cons.prems(3,4)
  show ?case
    using parse_requests_round [OF _ b1(1), of answer s] by (simp add: addHeader_add_headers Cons.prems(4))
qed

lemma add_headers_state [simp]: "m_curState (add_headers r hs) = m_curState r"
  by (simp add: add_headers_eq)

definition read_request :: "string \<Rightarrow> string \<Rightarrow> string \<Rightarrow> (string \<times> string) list \<Rightarrow> port_request" where
  "read_request m u v hs =
     (add_headers (new_HttpRequest\<lparr>m_method := m, m_url := u, m_version := v\<rparr>) hs)\<lparr>m_curState := ParseReqDone'\<rparr>"

lemma new_HttpRequest_fields:
  "m_curState new_HttpRequest = ParseReqLine'" "m_reqHeaders new_HttpRequest = []"
  by (simp_all add: new_HttpRequest_def request_reset_def)

lemma parse_requests_start:
  assumes inv: "buf_inv b" and ok: "readable_request m u v hs"
    and c: "contents b = m @ '' '' @ u @ '' '' @ v @ CRLF @ concat (map print_header hs) @ tail"
  shows "\<exists>b' flag'. buf_inv b' \<and> contents b' = tail \<and>
     parse_requests answer new_HttpRequest b s flag =
       parse_requests answer ((read_request m u v hs)\<lparr>m_curState := ParseReqHeaders'\<rparr>) b' s flag'"
proof -
  let ?r = "new_HttpRequest\<lparr>m_method := m, m_url := u, m_version := v, m_curState := ParseReqHeaders'\<rparr>"
  obtain b1 where b1: "parse_round new_HttpRequest b flag = Inr (?r, b1, True)" "buf_inv b1"
      "contents b1 = concat (map print_header hs) @ tail"
    using read_line [OF inv c ok] new_HttpRequest_fields(1) by blast
  have "(read_request m u v hs)\<lparr>m_curState := ParseReqHeaders'\<rparr> = add_headers ?r hs"
    by (simp add: read_request_def add_headers_eq)
  with read_headers [OF b1(2,3), of ?r answer s True] ok show ?thesis
    using parse_requests_round [OF _ b1(1), of answer s]
    by (simp add: new_HttpRequest_fields(1) readable_request_def)
qed

lemma parse_requests_complete:
  assumes "buf_inv b" and "contents b = print_request m u v hs @ rest" and "readable_request m u v hs"
  shows "\<exists>b'. buf_inv b' \<and> contents b' = rest \<and>
     parse_requests answer new_HttpRequest b s flag = answered answer (read_request m u v hs) b' s"
proof -
  let ?r = "(read_request m u v hs)\<lparr>m_curState := ParseReqHeaders'\<rparr>"
  obtain b1 flag' where b1: "buf_inv b1" "contents b1 = CRLF @ rest"
      "parse_requests answer new_HttpRequest b s flag = parse_requests answer ?r b1 s flag'"
    using parse_requests_start [OF assms(1,3), of "CRLF @ rest" answer s flag] assms(2)
    by (auto simp: print_request_def)
  obtain b2 where b2: "parse_round ?r b1 flag' = Inr (?r\<lparr>m_curState := ParseReqDone'\<rparr>, b2, True)" "buf_inv b2"
      "contents b2 = rest"
    using read_blank [OF b1(1,2), of ?r flag'] by auto
  have fin: "?r\<lparr>m_curState := ParseReqDone'\<rparr> = read_request m u v hs" "m_curState ?r \<noteq> ParseReqDone'"
    "m_curState (read_request m u v hs) = ParseReqDone'"
    by (simp_all add: read_request_def)
  have "parse_requests answer ?r b1 s flag' = answered answer (read_request m u v hs) b2 s"
    using parse_requests_round [OF fin(2) b2(1), of answer s] unfolding fin(1) by (simp add: fin(3))
  with b1(3) b2(2,3) show ?thesis by auto
qed

text \<open>A request cut off in its header section is given up, with the parser left where it is.\<close>

lemma parse_requests_cut:
  assumes "buf_inv b" and "readable_request m u v hs" and "memmem tail CRLF = None"
    and "contents b = m @ '' '' @ u @ '' '' @ v @ CRLF @ concat (map print_header hs) @ tail"
  shows "\<exists>b'. buf_inv b' \<and> contents b' = tail \<and> parse_requests answer new_HttpRequest b s flag =
     Some (Inr ((read_request m u v hs)\<lparr>m_curState := ParseReqHeaders'\<rparr>, b', s, False))"
proof -
  let ?r = "(read_request m u v hs)\<lparr>m_curState := ParseReqHeaders'\<rparr>"
  obtain b1 flag' where b1: "buf_inv b1" "contents b1 = tail"
      "parse_requests answer new_HttpRequest b s flag = parse_requests answer ?r b1 s flag'"
    using parse_requests_start [OF assms(1,2,4), of answer s flag] by blast
  have "parse_round ?r b1 flag' = Inr (?r, b1, False)"
    using assms(3) b1(2) by (simp add: parse_round_def parseRequestHeader_contents [OF b1(1)])
  then show ?thesis using parse_requests_round [of ?r b1 flag' ?r b1 False answer s] b1 by simp
qed

section \<open>Compared with the C server's parser\<close>

definition same_words :: "request \<Rightarrow> port_request \<Rightarrow> bool" where
  "same_words r rp \<longleftrightarrow> req_method r = Some (cstr (m_method rp)) \<and> req_url r = Some (cstr (m_url rp)) \<and>
     req_version r = Some (cstr (m_version rp))"

definition same_parse :: "request \<Rightarrow> port_request \<Rightarrow> bool" where
  "same_parse r rp \<longleftrightarrow>
     (curState r = ParseReqLine \<and> m_curState rp = ParseReqLine') \<or>
     (curState r = ParseReqHeader \<and> m_curState rp = ParseReqHeaders' \<and> same_words r rp) \<or>
     (curState r = ParseReqDone \<and> m_curState rp = ParseReqDone' \<and> same_words r rp)"

lemma splitRequestLine_port:
  "splitRequestLine blk start eol sub = rbind (split_request_line blk start eol sub) (\<lambda>(n, t). Inr (n, cstr t))"
  by (simp add: splitRequestLine_def split_request_line_def rbind_assoc split: option.split)

text \<open>One round of the C server's loop, and the port's on the same bytes.\<close>

definition c_round :: "request \<Rightarrow> buffer \<Rightarrow> (request \<times> buffer \<times> bool) result" where
  "c_round r b = (if curState r = ParseReqLine then parseHttpRequestLine r b else parseHttpRequestHeader r b)"

lemma parse_loop_round:
  assumes "curState r = ParseReqLine \<or> curState r = ParseReqHeader"
    and "parse_loop r b flag = Some (Inr (r', b', f'))"
  shows "\<exists>r1 b1. c_round r b = Inr (r1, b1, True) \<and> parse_loop r1 b1 True = Some (Inr (r', b', f'))"
proof -
  obtain r1 b1 f1 where 1: "c_round r b = Inr (r1, b1, f1)" "parse_loop r1 b1 f1 = Some (Inr (r', b', f'))"
    using assms by (auto simp: c_round_def parse_loop_line parse_loop_header split: sum.splits)
  have "f1"
  proof (rule ccontr)
    assume "\<not> f1"
    with 1(1) have "r1 = r" "b1 = b" "c_round r b = Inr (r, b, False)"
      by (auto simp: c_round_def parseHttpRequestLine_def parseHttpRequestHeader_def Let_def
          split: if_splits option.splits)
    then have "stuck r1 b1" using assms(1) by (auto simp: stuck_def c_round_def split: if_splits)
    with 1(2) show False by (simp add: parse_loop_stuck)
  qed
  with 1 show ?thesis by simp
qed

lemma line_as_C:
  assumes inv: "buf_inv b" and st: "m_curState rp = ParseReqLine'"
    and c: "parseHttpRequestLine r b = Inr (r1, b1, True)"
  shows "\<exists>rp1. parse_round rp b flag = Inr (rp1, b1, True) \<and> same_parse r1 rp1"
proof -
  obtain eol where eol: "findCRLFBuffer b = Inr (Some eol)" "eol - readPos b \<noteq> 0"
    using c by (auto simp: parseHttpRequestLine_def Let_def deref_def split: if_splits option.splits)
  then have pos: "0 < eol - readPos b" by (auto simp: findCRLFBuffer_eq [OF inv])
  obtain s1 m s2 u s3 v where w: "split_request_line (data b) (readPos b) eol (Some '' '') = Inr (s1, m)"
      "split_request_line (data b) s1 eol (Some '' '') = Inr (s2, u)"
      "split_request_line (data b) s2 eol None = Inr (s3, v)"
      "r1 = r\<lparr>req_method := Some (cstr m), req_url := Some (cstr u), req_version := Some (cstr v), curState := ParseReqHeader\<rparr>"
      "b1 = b\<lparr>readPos := readPos b + (eol - readPos b + 2)\<rparr>"
    using c eol by (auto simp: parseHttpRequestLine_def splitRequestLine_port Let_def)
  then show ?thesis
    using st pos eol(1)
    by (simp add: parse_round_def parseRequestLine_port_def findCRLF_eq readPosIncrease_def same_parse_def same_words_def)
qed

lemma header_as_C:
  assumes inv: "buf_inv b" and st: "m_curState rp = ParseReqHeaders'" "curState r = ParseReqHeader" "same_words r rp"
    and c: "parseHttpRequestHeader r b = Inr (r1, b1, True)"
  shows "\<exists>rp1. parse_round rp b flag = Inr (rp1, b1, True) \<and> same_parse r1 rp1"
proof -
  obtain eol where eol: "findCRLFBuffer b = Inr (Some eol)"
    using c by (auto simp: parseHttpRequestHeader_def split: option.splits)
  then obtain k where k: "memmem (contents b) CRLF = Some k" "eol = readPos b + int k"
    by (auto simp: findCRLFBuffer_eq [OF inv])
  have kl: "k \<le> length (contents b)" using memmem_Some_le [OF k(1)] by simp
  have l: "load (data b) (readPos b) (int k) = Inr (take k (contents b))"
    using load_window [OF inv, of 0 k] kl by simp
  have p: "parse_round rp b flag = (case memmem (take k (contents b)) '': '' of
      None \<Rightarrow> Inr (rp\<lparr>m_curState := ParseReqDone'\<rparr>, advance b 2, True)
    | Some i \<Rightarrow> Inr (request_addHeader rp (take i (take k (contents b))) (drop (i + 2) (take k (contents b))),
                     advance b (k + 2), True))"
    using st(1) k(1) by (simp add: parse_round_def parseRequestHeader_contents [OF inv] Let_def)
  show ?thesis
  proof (cases "memmem (take k (contents b)) '': ''")
    case None
    then show ?thesis
      using c p st k(2) l eol
      by (auto simp: parseHttpRequestHeader_def Let_def advance_def same_parse_def same_words_def)
  next
    case (Some i)
    then have "b1 = b\<lparr>readPos := readPos b + int k + 2\<rparr>" "curState r1 = ParseReqHeader" "same_words r1 rp"
      using c st k(2) l eol
      by (auto simp: parseHttpRequestHeader_def Let_def addHttpRequestHeader_def same_words_def split: if_splits)
    then show ?thesis
      using p Some st(1)
      by (auto simp: advance_def same_parse_def same_words_def request_addHeader_def add.assoc)
  qed
qed

lemma round_as_C:
  assumes "buf_inv b" and "same_parse r rp" and "m_curState rp \<noteq> ParseReqDone'"
    and "c_round r b = Inr (r1, b1, True)"
  shows "\<exists>rp1. parse_round rp b flag = Inr (rp1, b1, True) \<and> same_parse r1 rp1"
proof (cases "m_curState rp = ParseReqLine'")
  case True
  with assms show ?thesis by (intro line_as_C [of b rp r]) (auto simp: same_parse_def c_round_def)
next
  case False
  with assms show ?thesis by (intro header_as_C [of b rp r]) (auto simp: same_parse_def c_round_def split: if_splits)
qed

lemma parse_as_C:
  assumes "buf_inv b" and "same_parse r rp" and "m_curState rp \<noteq> ParseReqDone'"
    and "parse_loop r b cflag = Some (Inr (r', b', f'))"
  shows "\<exists>rp'. same_words r' rp' \<and> m_curState rp' = ParseReqDone' \<and> buf_inv b' \<and>
     parse_requests answer rp b s flag = answered answer rp' b' s"
  using assms
proof (induction "length (contents b)" arbitrary: b r rp flag cflag rule: less_induct)
  case less
  have st: "curState r = ParseReqLine \<or> curState r = ParseReqHeader"
    "m_curState rp \<in> {ParseReqLine', ParseReqHeaders'}"
    using less.prems(2,3) by (auto simp: same_parse_def)
  obtain r1 b1 where c: "c_round r b = Inr (r1, b1, True)" "parse_loop r1 b1 True = Some (Inr (r', b', f'))"
    using parse_loop_round [OF st(1) less.prems(4)] by blast
  obtain rp1 where p: "parse_round rp b flag = Inr (rp1, b1, True)" "same_parse r1 rp1"
    using round_as_C [OF less.prems(1-3) c(1)] by blast
  note cons = parse_round_consumes [OF less.prems(1) st(2) p(1)]
  note eq = parse_requests_round [OF less.prems(3) p(1), of answer s]
  show ?case
  proof (cases "m_curState rp1 = ParseReqDone'")
    case True
    then have d: "curState r1 = ParseReqDone" "same_words r1 rp1" using p(2) by (auto simp: same_parse_def)
    then have "r' = r1" "b' = b1" using c(2) by (simp_all add: parse_loop_done)
    with True d(2) eq cons show ?thesis by auto
  next
    case False
    obtain rp' where "same_words r' rp'" "m_curState rp' = ParseReqDone'" "buf_inv b'"
        "parse_requests answer rp1 b1 s True = answered answer rp' b' s"
      using less.hyps [OF _ _ p(2) False c(2), of True] cons by blast
    with False eq show ?thesis by auto
  qed
qed

section \<open>Properties\<close>

text \<open>
  C30: The port's parser always comes back: on every buffer and from every state but
  \<open>ParseReqBody\<close>, whatever it does with finished requests as long as that leaves the parser's
  state alone, the loop ends (the C server's runs on for ever on a request cut off).
\<close>

theorem port_parser_ends:
  assumes "buf_inv b" and "m_curState r \<noteq> ParseReqBody'"
    and "\<And>r s r' s'. answer r s = Inr (r', s') \<Longrightarrow> m_curState r' = m_curState r"
  shows "\<exists>y. parse_requests answer r b s flag = Some y"
  using assms parse_requests_ends [of answer b r s flag] by blast

theorem port_parser_ends_witness:
  "\<exists>y. parse_requests (\<lambda>r s. Inr (r, s)) new_HttpRequest (holding ''GET / HTTP'') () True = Some y"
  by (rule port_parser_ends) (simp_all add: holding_inv new_HttpRequest_fields)

text \<open>
  C25: The port's parser reads back what a client prints, with any number of headers: method, URL
  and version as they were sent, each header under its key (the first one where a key is
  repeated; headers with an empty key or value are left out), and exactly the request's bytes are
  consumed. Then the request is answered.
\<close>

theorem port_parse_print:
  assumes "buf_inv b" and "contents b = print_request m u v hs @ rest" and "readable_request m u v hs"
    and "answer (read_request m u v hs) s = Inr (r2, s2)" and "m_curState r2 = ParseReqDone'"
  shows "\<exists>b'. parse_requests answer new_HttpRequest b s True =
      Some (Inr (r2\<lparr>m_curState := ParseReqLine'\<rparr>, b', s2, True)) \<and> contents b' = rest \<and>
     m_method (read_request m u v hs) = m \<and> m_url (read_request m u v hs) = u \<and>
     m_version (read_request m u v hs) = v \<and>
     (\<forall>k. getHeader (read_request m u v hs) k =
        (case map_of (filter nonempty hs) k of None \<Rightarrow> [] | Some w \<Rightarrow> w))"
proof -
  obtain b' where b': "contents b' = rest"
      "parse_requests answer new_HttpRequest b s True = answered answer (read_request m u v hs) b' s"
    using parse_requests_complete [OF assms(1-3), of answer s True] by blast
  have "getHeader (read_request m u v hs) k = (case map_of (filter nonempty hs) k of None \<Rightarrow> [] | Some w \<Rightarrow> w)" for k
    using getHeader_add_headers [of "new_HttpRequest\<lparr>m_method := m, m_url := u, m_version := v\<rparr>" hs k]
    by (simp add: read_request_def new_HttpRequest_fields getHeader_def)
  moreover have "m_method (read_request m u v hs) = m" "m_url (read_request m u v hs) = u"
    "m_version (read_request m u v hs) = v"
    by (simp_all add: read_request_def add_headers_eq)
  moreover have "answered answer (read_request m u v hs) b' s =
      Some (Inr (r2\<lparr>m_curState := ParseReqLine'\<rparr>, b', s2, True))"
    by (rule answered_done) (fact assms(4,5))+
  ultimately show ?thesis using b' by auto
qed

theorem port_parse_print_witness:
  "\<exists>b'. parse_requests (\<lambda>r s. Inr (r, s)) new_HttpRequest
      (holding (print_request ''GET'' ''/'' ''HTTP/1.1'' [(''Host'', ''a''), (''Host'', ''b'')])) () True =
     Some (Inr ((read_request ''GET'' ''/'' ''HTTP/1.1'' [(''Host'', ''a''), (''Host'', ''b'')])\<lparr>m_curState := ParseReqLine'\<rparr>, b', (), True)) \<and>
     getHeader (read_request ''GET'' ''/'' ''HTTP/1.1'' [(''Host'', ''a''), (''Host'', ''b'')]) ''Host'' = ''a''"
proof -
  let ?hs = "[(''Host'', ''a''), (''Host'', ''b'')]"
  have "readable_request ''GET'' ''/'' ''HTTP/1.1'' ?hs" "length (print_request ''GET'' ''/'' ''HTTP/1.1'' ?hs) \<le> 1000"
    by (simp_all add: readable_request_def readable_header_def print_request_def print_header_def)
  moreover have "m_curState (read_request ''GET'' ''/'' ''HTTP/1.1'' ?hs) = ParseReqDone'" by (simp add: read_request_def)
  ultimately show ?thesis
    using port_parse_print [OF holding_inv(1), of "print_request ''GET'' ''/'' ''HTTP/1.1'' ?hs" "''GET''" "''/''"
        "''HTTP/1.1''" ?hs "[]" "\<lambda>r s. Inr (r, s)" "()"]
    by (auto simp: holding_inv(2) nonempty_def)
qed

text \<open>
  C12: Wherever the C server's parser returns, the port's parser reads the same method, URL and
  version (as C strings) from the same bytes and leaves the same bytes in the buffer.
\<close>

theorem port_parses_as_C:
  assumes "buf_inv b" and "parse_loop initHttpRequest b True = Some (Inr (r, b', flag))"
  shows "\<exists>rp. parse_requests (\<lambda>r s. Inr (r, s)) new_HttpRequest b s True =
      Some (Inr (rp\<lparr>m_curState := ParseReqLine'\<rparr>, b', s, True)) \<and>
     req_method r = Some (cstr (m_method rp)) \<and> req_url r = Some (cstr (m_url rp)) \<and>
     req_version r = Some (cstr (m_version rp))"
proof -
  have "same_parse initHttpRequest new_HttpRequest"
    by (simp add: same_parse_def initHttpRequest_def resetHttpRequest_def new_HttpRequest_fields)
  then obtain rp where "same_words r rp" "m_curState rp = ParseReqDone'"
      "parse_requests (\<lambda>r s. Inr (r, s)) new_HttpRequest b s True = answered (\<lambda>r s. Inr (r, s)) rp b' s"
    using parse_as_C [OF assms(1) _ _ assms(2)] new_HttpRequest_fields(1) by (metis PrecessState.distinct(5))
  then show ?thesis by (auto simp: answered_done same_words_def)
qed

theorem port_parses_as_C_witness:
  "\<exists>rp b'. parse_requests (\<lambda>r s. Inr (r, s)) new_HttpRequest (holding (print_request ''GET'' ''/a'' ''HTTP/1.1'' [])) () True =
     Some (Inr (rp, b', (), True)) \<and> cstr (m_url rp) = ''/a''"
proof -
  have "request_ok ''GET'' ''/a'' ''HTTP/1.1'' []" by (simp add: request_ok_def token_def)
  moreover have len: "length (print_request ''GET'' ''/a'' ''HTTP/1.1'' []) \<le> 1000" by (simp add: print_request_def)
  ultimately obtain r b' where
    "parse_loop initHttpRequest (holding (print_request ''GET'' ''/a'' ''HTTP/1.1'' [])) True = Some (Inr (r, b', True))"
    "req_url r = Some ''/a''"
    using parse_loop_request [OF holding_inv, where m = "''GET''" and u = "''/a''" and v = "''HTTP/1.1''"
        and hs = "[]" and rest = "[]" and r = initHttpRequest and flag = True]
    by (auto simp: initHttpRequest_def resetHttpRequest_def)
  with port_parses_as_C [OF holding_inv(1) [OF len] this(1), of "()"] show ?thesis by auto
qed

end
