(* ===== verification/Port_Response.thy ===== *)
theory Port_Response
  imports Port_Request Http_Serve
begin

text \<open>
  The response of the C++ port: \<open>old/ReactorHttp_cpp/HttpResponse.h\<close>, \<open>Httpresponse.cpp\<close> and
  the functions of \<open>HttpRequest.cpp\<close> that decide on a response and send its body. The record
  \<open>port_response\<close> is \<open>class HttpResponse\<close>; \<open>sendDataFunc\<close> is \<open>None\<close> for an empty
  \<open>std::function\<close>. The file system is the record \<open>files\<close> of the C server's theory. The
  body functions are compared with the C server's; the head differs from its head, because a
  \<open>std::map\<close> orders the headers and the port has its own table of status texts.
\<close>

section \<open>Decoding the URL\<close>

definition hexToDec_port :: "char \<Rightarrow> nat" where
  "hexToDec_port c = (let n = of_char c :: nat in
     if 48 \<le> n \<and> n \<le> 57 then n - 48
     else if 97 \<le> n \<and> n \<le> 102 then n - 97 + 10
     else if 65 \<le> n \<and> n \<le> 70 then n - 65 + 10
     else 0)"

text \<open>The loop, at offset \<open>from\<close> of the characters of \<open>msg.data()\<close>; \<open>str\<close> is what it has built.\<close>

function decode_from :: "char list \<Rightarrow> nat \<Rightarrow> string \<Rightarrow> string result" where
  "decode_from m from str =
     (if from < length m then
        (if m ! from = NUL then Inr str
         else
           rbind (is_escape m from) (\<lambda>esc.
             if esc then
               rbind (byte_at m (from + 1)) (\<lambda>a.
               rbind (byte_at m (from + 2)) (\<lambda>b.
                 decode_from m (from + 3) (str @ [char_of (hexToDec_port a * 16 + hexToDec_port b)])))
             else decode_from m (from + 1) (str @ [m ! from])))
      else Inl OutOfBounds)"
  by pat_completeness auto
termination
  by (relation "measure (\<lambda>(m, from, str). length m - from)") auto

declare decode_from.simps [simp del]

definition decodeMsg_port :: "string \<Rightarrow> string result" where
  "decodeMsg_port msg = rbind (decode_from (msg @ [NUL]) 0 []) (\<lambda>str. Inr (str @ [NUL]))"

lemma hexToDec_port_eq: "hexToDec_port c = hexToDec c"
  by (simp add: hexToDec_port_def hexToDec_def)

lemma decode_from_string:
  "drop from m = s @ NUL # rest \<Longrightarrow> NUL \<notin> set s \<Longrightarrow> decode_from m from str = Inr (str @ decode s)"
proof (induction "length s" arbitrary: "from" s str rule: less_induct)
  case less
  note m = less.prems(1)
  have inside: "from < length m" "m ! from = (s @ NUL # rest) ! 0"
    using at_string [OF m, of 0] by auto
  show ?case
  proof (cases s)
    case Nil
    then show ?thesis using inside by (simp add: decode_from.simps [of m "from"])
  next
    case (Cons c s1)
    let ?esc = "c = CHR ''%'' \<and> (\<exists>a b s'. s1 = a # b # s' \<and> isxdigit a \<and> isxdigit b)"
    have c: "m ! from = c" "c \<noteq> NUL" using inside(2) Cons less.prems(2) by auto
    have esc: "is_escape m from = Inr ?esc" using is_escape_string [of "from" m c s1 rest] m Cons by simp
    show ?thesis
    proof (cases ?esc)
      case True
      then obtain a b s' where s1: "s1 = a # b # s'" "isxdigit a" "isxdigit b" by auto
      have bytes: "byte_at m (from + 1) = Inr a" "byte_at m (from + 2) = Inr b"
        using at_string [OF m, of 1] at_string [OF m, of 2] s1 Cons by (auto simp: byte_at_def)
      have "drop (from + 3) m = s' @ NUL # rest"
        using m Cons s1 by (simp add: add.commute [of "from"] flip: drop_drop)
      with less.hyps [of s' "from + 3"] less.prems(2) Cons s1
      have "decode_from m (from + 3) (str @ [escape_byte a b]) = Inr (str @ [escape_byte a b] @ decode s')"
        by simp
      then show ?thesis
        using inside(1) c esc True bytes s1 Cons
        by (simp add: decode_from.simps [of m "from" str] hexToDec_port_eq flip: escape_byte_def)
    next
      case False
      have "drop (from + 1) m = s1 @ NUL # rest"
        using m Cons by (metis Suc_eq_plus1 append_Cons drop_Suc list.sel(3) tl_drop)
      with less.hyps [of s1 "from + 1"] less.prems(2) Cons
      have "decode_from m (from + 1) (str @ [c]) = Inr (str @ [c] @ decode s1)" by simp
      moreover have "is_escape m from = Inr False" using esc False by simp
      ultimately show ?thesis
        using inside(1) c Cons decode_copy [OF False] by (simp add: decode_from.simps [of m "from" str])
    qed
  qed
qed

text \<open>The decoded C string, with a NUL of its own at the end.\<close>

lemma cstr_split: "\<exists>rest. s @ [NUL] = cstr s @ NUL # rest"
proof (cases "NUL \<in> set s")
  case True
  then obtain xs ys where "s = xs @ NUL # ys" "NUL \<notin> set xs" by (metis split_list_first)
  then show ?thesis by (simp add: cstr_append_NUL)
qed simp

lemma decodeMsg_port_eq: "decodeMsg_port s = Inr (decode (cstr s) @ [NUL])"
proof -
  obtain rest where "drop 0 (s @ [NUL]) = cstr s @ NUL # rest" using cstr_split [of s] by auto
  from decode_from_string [OF this, of "[]"] show ?thesis by (simp add: decodeMsg_port_def)
qed

text \<open>The same chain of comparisons as in the C server, on the C string of the name.\<close>

definition getFileType_port :: "string \<Rightarrow> string" where
  "getFileType_port name = getFileType (cstr name)"

section \<open>The response\<close>

datatype status_code = Unknown | Code_OK | MovedPermanently | MovedTemporarily | BadRequest | Code_NotFound

fun status_int :: "status_code \<Rightarrow> int" where
  "status_int Unknown = 0"
| "status_int Code_OK = 200"
| "status_int MovedPermanently = 301"
| "status_int MovedTemporarily = 302"
| "status_int BadRequest = 400"
| "status_int Code_NotFound = 404"

record port_response =
  m_statusCode :: status_code
  m_fileName :: string
  m_headers :: "(string \<times> string) list"
  m_sendDataFunc :: "send_func option"

definition m_info :: "(int \<times> string) list" where
  "m_info = [(200, ''OK''), (301, ''MovedPermanently''), (302, ''MovedTemporarily''), (400, ''BadRequest''),
     (404, ''NotFound'')]"

definition new_HttpResponse :: port_response where
  "new_HttpResponse = \<lparr>m_statusCode = Unknown, m_fileName = [], m_headers = [], m_sendDataFunc = None\<rparr>"

definition response_addHeader :: "port_response \<Rightarrow> string \<Rightarrow> string \<Rightarrow> port_response" where
  "response_addHeader r key value =
     (if key = [] \<or> value = [] then r else r\<lparr>m_headers := map_insert key value (m_headers r)\<rparr>)"

text \<open>
  \<open>processHttpRequest\<close>. The file is \<open>m_url.data() + 1\<close>, within the decoded URL, which ends in
  a NUL of its own besides the one of \<open>data()\<close>. The result is a \<open>bool\<close>: \<open>-1\<close> is true.
\<close>

definition processHttpRequest_port ::
  "files \<Rightarrow> port_request \<Rightarrow> port_response \<Rightarrow> (port_request \<times> port_response \<times> bool) result" where
  "processHttpRequest_port F r resp =
     (if \<not> strcasecmp_eq (m_method r) ''get'' then Inr (r, resp, True)
      else
        rbind (decodeMsg_port (m_url r)) (\<lambda>u.
          let r' = r\<lparr>m_url := u\<rparr>;
              file = (if cstr u = ''/'' then ''./'' else cstr (tl (u @ [NUL]))) in
          case fstat F file of
            None \<Rightarrow>
              Inr (r', (response_addHeader (resp\<lparr>m_fileName := ''404.html'', m_statusCode := Code_NotFound\<rparr>)
                         ''Content-type'' (getFileType_port ''.html''))\<lparr>m_sendDataFunc := Some SendFile\<rparr>, False)
          | Some st \<Rightarrow>
              (let resp1 = resp\<lparr>m_fileName := file, m_statusCode := Code_OK\<rparr> in
               if st_isdir st then
                 Inr (r', (response_addHeader resp1 ''Content-type'' (getFileType_port ''.html''))
                         \<lparr>m_sendDataFunc := Some SendDir\<rparr>, False)
               else
                 Inr (r', (response_addHeader (response_addHeader resp1 ''Content-type'' (getFileType_port file))
                         ''Content-length'' (dec (st_size st)))\<lparr>m_sendDataFunc := Some SendFile\<rparr>, False))))"

section \<open>Sending it\<close>

definition port_send_bytes :: "alloc \<Rightarrow> send_oracle \<Rightarrow> int \<Rightarrow> buffer \<times> os \<Rightarrow> char list \<Rightarrow> (buffer \<times> os) result" where
  "port_send_bytes al K cfd = (\<lambda>(b, s) xs.
     rbind (port_append al b xs) (\<lambda>b1.
     rbind (sendData K b1 cfd s) (\<lambda>(b2, s2, _). Inr (b2, s2))))"

definition port_send_text :: "alloc \<Rightarrow> send_oracle \<Rightarrow> int \<Rightarrow> buffer \<times> os \<Rightarrow> string \<Rightarrow> (buffer \<times> os) result" where
  "port_send_text al K cfd = (\<lambda>(b, s) xs.
     rbind (port_text al b xs) (\<lambda>b1.
     rbind (sendData K b1 cfd s) (\<lambda>(b2, s2, _). Inr (b2, s2))))"

text \<open>
  The reading loop of \<open>sendFile\<close>: after a failed \<open>read\<close> it closes the file and reads on, from a
  descriptor that is not open (\<open>opened\<close> is false) and on which every \<open>read\<close> fails.
\<close>

partial_function (option) read_file ::
  "files \<Rightarrow> alloc \<Rightarrow> send_oracle \<Rightarrow> string \<Rightarrow> int \<Rightarrow> nat \<Rightarrow> bool \<Rightarrow> buffer \<times> os \<Rightarrow> (buffer \<times> os) result option" where
  "read_file F al K name cfd n opened st =
     (case (if opened then fread F name n else None) of
        None \<Rightarrow> read_file F al K name cfd (n + 1) False
                  (fst st, (snd st)\<lparr>os_closed := os_closed (snd st) @ [fopen F name]\<rparr>)
      | Some chunk \<Rightarrow>
          if chunk = [] then Some (Inr st)
          else case port_send_bytes al K cfd st chunk of
                 Inl e \<Rightarrow> Some (Inl e)
               | Inr st' \<Rightarrow> read_file F al K name cfd (n + 1) opened st')"

definition sendFile_port :: "files \<Rightarrow> alloc \<Rightarrow> send_oracle \<Rightarrow> string \<Rightarrow> int \<Rightarrow> buffer \<times> os \<Rightarrow> (buffer \<times> os) result" where
  "sendFile_port F al K path cfd st =
     (let name = cstr path; f = fopen F name in
      if \<not> 0 < f then Inl AssertFail
      else
        rbind (returned (read_file F al K name cfd 0 True st)) (\<lambda>(b, s).
          Inr (b, s\<lparr>os_closed := os_closed s @ [f]\<rparr>)))"

text \<open>\<open>%ld\<close> prints the whole \<open>st_size\<close>.\<close>

definition dir_row_port :: "string \<Rightarrow> bool \<Rightarrow> int \<Rightarrow> string" where
  "dir_row_port name isdir sz =
     (if isdir
      then ''<tr><td><a href='' @ [CHR 0x22] @ name @ ''/'' @ [CHR 0x22] @ ''>'' @ name @ ''</a></td><td>'' @ dec sz @ ''</td></tr>''
      else ''<tr><td><a href='' @ [CHR 0x22] @ name @ [CHR 0x22] @ ''>'' @ name @ ''</a></td><td>'' @ dec sz @ ''</td></tr>'')"

fun dir_list ::
  "files \<Rightarrow> alloc \<Rightarrow> send_oracle \<Rightarrow> string \<Rightarrow> int \<Rightarrow> string list \<Rightarrow> string \<Rightarrow> buffer \<times> os \<Rightarrow>
   (buffer \<times> os) result" where
  "dir_list F al K dirName cfd [] buf st = Inr st"
| "dir_list F al K dirName cfd (name # names) buf st =
     rbind (into_array 1024 (dirName @ ''/'' @ name)) (\<lambda>subPath.
     case fstat F subPath of
       None \<Rightarrow> Inl Uninit
     | Some info \<Rightarrow>
         rbind (into_array 4096 (buf @ dir_row_port name (st_isdir info) (st_size info))) (\<lambda>buf1.
         rbind (port_send_text al K cfd st buf1) (\<lambda>st1.
           dir_list F al K dirName cfd names [] st1)))"

definition sendDir_port :: "files \<Rightarrow> alloc \<Rightarrow> send_oracle \<Rightarrow> string \<Rightarrow> int \<Rightarrow> buffer \<times> os \<Rightarrow> (buffer \<times> os) result" where
  "sendDir_port F al K dirName cfd st =
     (let d = cstr dirName in
      rbind (into_array 4096 (dir_head d)) (\<lambda>buf.
      rbind (dir_list F al K d cfd (case fscandir F d of None \<Rightarrow> [] | Some ns \<Rightarrow> ns) buf st) (\<lambda>st1.
      rbind (into_array 4096 dir_tail) (\<lambda>buf1.
      rbind (port_send_text al K cfd st1 buf1) (\<lambda>st2.
        case fscandir F d of None \<Rightarrow> Inl WildPointer | Some _ \<Rightarrow> Inr st2)))))"

text \<open>\<open>m_info.at\<close> throws on a code that is not in the table; calling an empty function throws.\<close>

definition info_at :: "int \<Rightarrow> string result" where
  "info_at code = (case map_of m_info code of None \<Rightarrow> Inl (Thrown ''out_of_range'') | Some t \<Rightarrow> Inr t)"

definition call_send_port ::
  "files \<Rightarrow> alloc \<Rightarrow> send_oracle \<Rightarrow> send_func option \<Rightarrow> string \<Rightarrow> int \<Rightarrow> buffer \<times> os \<Rightarrow> (buffer \<times> os) result" where
  "call_send_port F al K f name cfd st =
     (case f of
        None \<Rightarrow> Inl (Thrown ''bad_function_call'')
      | Some SendFile \<Rightarrow> sendFile_port F al K name cfd st
      | Some SendDir \<Rightarrow> sendDir_port F al K name cfd st)"

definition port_line :: "alloc \<Rightarrow> buffer \<Rightarrow> string \<Rightarrow> buffer result" where
  "port_line al b line = rbind (into_array 1024 line) (\<lambda>tmp. port_text al b tmp)"

definition port_header_line :: "string \<times> string \<Rightarrow> string" where
  "port_header_line h = cstr (fst h) @ '': '' @ cstr (snd h) @ CRLF"

definition prepareMsg ::
  "files \<Rightarrow> alloc \<Rightarrow> send_oracle \<Rightarrow> port_response \<Rightarrow> int \<Rightarrow> buffer \<times> os \<Rightarrow> (buffer \<times> os) result" where
  "prepareMsg F al K resp socket = (\<lambda>(b, s).
     let code = status_int (m_statusCode resp) in
     rbind (info_at code) (\<lambda>info.
     rbind (port_line al b (''HTTP/1.1 '' @ dec code @ '' '' @ info @ CRLF)) (\<lambda>b1.
     rbind (put_all (port_line al) b1 (map port_header_line (m_headers resp))) (\<lambda>b2.
     rbind (port_text al b2 CRLF) (\<lambda>b3.
     rbind (sendData K b3 socket s) (\<lambda>(b4, s4, _).
       call_send_port F al K (m_sendDataFunc resp) (m_fileName resp) socket (b4, s4)))))))"

text \<open>\<open>parseHttpRequest\<close>: the loop of the parser with its answer.\<close>

definition answer_request ::
  "files \<Rightarrow> alloc \<Rightarrow> send_oracle \<Rightarrow> int \<Rightarrow> port_request \<Rightarrow> port_response \<times> buffer \<times> os \<Rightarrow>
   (port_request \<times> port_response \<times> buffer \<times> os) result" where
  "answer_request F al K socket r = (\<lambda>(resp, b, s).
     rbind (processHttpRequest_port F r resp) (\<lambda>(r', resp', _).
     rbind (prepareMsg F al K resp' socket (b, s)) (\<lambda>(b', s'). Inr (r', resp', b', s'))))"

definition parseHttpRequest_port ::
  "files \<Rightarrow> alloc \<Rightarrow> send_oracle \<Rightarrow> port_request \<Rightarrow> buffer \<Rightarrow> port_response \<Rightarrow> buffer \<Rightarrow> int \<Rightarrow> os \<Rightarrow>
   (port_request \<times> buffer \<times> (port_response \<times> buffer \<times> os) \<times> bool) result" where
  "parseHttpRequest_port F al K r readBuf resp sendBuf socket s =
     returned (parse_requests (answer_request F al K socket) r readBuf (resp, sendBuf, s) True)"

end
