(* ===== verification/Port_Serve.thy ===== *)
theory Port_Serve
  imports Port_Response
begin

text \<open>
  What the C++ port answers: \<open>processHttpRequest\<close> on each of its branches, the bodies compared
  with those of the C server, and \<open>parseHttpRequest\<close> from the bytes of a request to the bytes of
  the response.
\<close>

section \<open>The responses the port builds\<close>

text \<open>The file a URL names: its decoding without the first character, up to a NUL.\<close>

definition named_file :: "string \<Rightarrow> string" where
  "named_file u =
     (let d = decode (cstr u) @ [NUL] in if cstr d = ''/'' then ''./'' else cstr (tl (d @ [NUL])))"

lemma named_file_no_NUL [simp]: "NUL \<notin> set (named_file u)"
  by (simp add: named_file_def Let_def)

lemma named_file_url: "names_file u file \<Longrightarrow> named_file u = file"
proof -
  assume n: "names_file u file"
  then have u: "cstr u = u" by (simp add: names_file_def)
  obtain rest where r: "decode u @ [NUL] = cstr (decode u) @ NUL # rest" using cstr_split by blast
  then have c: "cstr (decode u @ [NUL]) = cstr (decode u)" by (simp add: cstr_append_NUL)
  show ?thesis
  proof (cases "cstr (decode u)")
    case Nil
    with n show ?thesis by (simp add: names_file_def)
  next
    case (Cons x xs)
    then have "NUL \<notin> set xs" using cstr_no_NUL [of "decode u"] by simp
    then have "cstr (tl (decode u @ [NUL, NUL])) = xs"
      using r Cons cstr_append_NUL [of xs "rest @ [NUL]"] by (metis append.assoc append_Cons append_Nil list.sel(3))
    with n Cons show ?thesis by (auto simp: named_file_def u c names_file_def Let_def)
  qed
qed

definition port_file_response :: "string \<Rightarrow> int \<Rightarrow> port_response" where
  "port_file_response file sz =
     \<lparr>m_statusCode = Code_OK, m_fileName = file,
      m_headers = [(''Content-length'', dec sz), (''Content-type'', getFileType file)],
      m_sendDataFunc = Some SendFile\<rparr>"

definition port_dir_response :: "string \<Rightarrow> port_response" where
  "port_dir_response file =
     \<lparr>m_statusCode = Code_OK, m_fileName = file, m_headers = [(''Content-type'', getFileType ''.html'')],
      m_sendDataFunc = Some SendDir\<rparr>"

definition port_missing_response :: port_response where
  "port_missing_response =
     \<lparr>m_statusCode = Code_NotFound, m_fileName = ''404.html'', m_headers = [(''Content-type'', getFileType ''.html'')],
      m_sendDataFunc = Some SendFile\<rparr>"

lemma getFileType_nonempty: "getFileType name \<noteq> []"
  by (rule getFileType_cases [of name])
    (auto simp: media_type_def media_types_def split: option.splits if_splits)

lemma digits_nonempty: "digits n \<noteq> []"
  by (subst digits.simps) simp

lemma dec_nonempty: "dec i \<noteq> []"
  by (simp add: dec_def digits_nonempty)

lemma length_before_type: "''Content-length'' < ''Content-type''"
  by (simp add: less_char_def)

lemma process_port:
  assumes "strcasecmp_eq (m_method r) ''get''"
  shows "\<exists>r'. m_curState r' = m_curState r \<and> processHttpRequest_port F r new_HttpResponse =
     Inr (r', (case fstat F (named_file (m_url r)) of
        None \<Rightarrow> port_missing_response
      | Some st \<Rightarrow>
          if st_isdir st then port_dir_response (named_file (m_url r))
          else port_file_response (named_file (m_url r)) (st_size st)), False)"
proof -
  let ?file = "named_file (m_url r)" and ?r = "r\<lparr>m_url := decode (cstr (m_url r)) @ [NUL]\<rparr>"
  have eq: "processHttpRequest_port F r new_HttpResponse = (case fstat F ?file of
        None \<Rightarrow> Inr (?r, (response_addHeader (new_HttpResponse\<lparr>m_fileName := ''404.html'', m_statusCode := Code_NotFound\<rparr>)
                   ''Content-type'' (getFileType_port ''.html''))\<lparr>m_sendDataFunc := Some SendFile\<rparr>, False)
      | Some st \<Rightarrow>
          (let resp1 = new_HttpResponse\<lparr>m_fileName := ?file, m_statusCode := Code_OK\<rparr> in
           if st_isdir st then Inr (?r, (response_addHeader resp1 ''Content-type'' (getFileType_port ''.html''))
                         \<lparr>m_sendDataFunc := Some SendDir\<rparr>, False)
           else Inr (?r, (response_addHeader (response_addHeader resp1 ''Content-type'' (getFileType_port ?file))
                         ''Content-length'' (dec (st_size st)))\<lparr>m_sendDataFunc := Some SendFile\<rparr>, False)))"
  proof -
    have f: "(if cstr (decode (cstr (m_url r)) @ [NUL]) = ''/'' then ''./''
        else cstr (tl ((decode (cstr (m_url r)) @ [NUL]) @ [NUL]))) = ?file"
      by (simp only: named_file_def Let_def)
    show ?thesis
      by (simp only: processHttpRequest_port_def decodeMsg_port_eq rbind_simps Let_def f assms not_True_eq_False if_False)
  qed
  show ?thesis
    unfolding eq
    by (intro exI [of _ ?r])
      (simp add: response_addHeader_def new_HttpResponse_def getFileType_port_def getFileType_nonempty dec_nonempty
        length_before_type port_missing_response_def port_dir_response_def port_file_response_def Let_def
        split: option.split)
qed

lemma process_port_other:
  "\<not> strcasecmp_eq (m_method r) ''get'' \<Longrightarrow> processHttpRequest_port F r resp = Inr (r, resp, True)"
  by (simp add: processHttpRequest_port_def)

section \<open>The bodies, compared with the C server's\<close>

text \<open>A kernel whose sends do not fail.\<close>

definition no_send_errors :: "send_oracle \<Rightarrow> bool" where
  "no_send_errors K \<longleftrightarrow> (\<forall>n len. 0 \<le> K n len \<and> K n len \<le> int len)"

lemma accepts_all_no_errors: "accepts_all K \<Longrightarrow> no_send_errors K"
  by (simp add: accepts_all_def no_send_errors_def)

lemma append_bytes_inv: "buf_inv b \<Longrightarrow> append_bytes al b xs = Inr b' \<Longrightarrow> buf_inv b'"
proof (cases "xs = []")
  case True
  then show "buf_inv b \<Longrightarrow> append_bytes al b xs = Inr b' \<Longrightarrow> buf_inv b'"
    by (simp add: append_bytes_def appendDataBuffer_def)
next
  case False
  assume "buf_inv b" "append_bytes al b xs = Inr b'"
  with False appendDataBuffer_Inr [of b "int (length xs)" xs al] show ?thesis
    by (auto simp: append_bytes_def)
qed

lemma append_string_inv:
  "buf_inv b \<Longrightarrow> NUL \<notin> set s \<Longrightarrow> int32 (int (length s)) \<Longrightarrow> append_string al b s = Inr b' \<Longrightarrow> buf_inv b'"
  by (simp add: append_string_eq append_bytes_inv)

lemma sendDataBuffer_inv:
  assumes inv: "buf_inv b" and K: "no_send_errors K" and s: "sendDataBuffer K b fd s = Inr (b', s', n)"
  shows "buf_inv b'"
proof (cases "contents b = []")
  case True
  with s inv show ?thesis by (auto simp: sendDataBuffer_empty)
next
  case False
  let ?n = "K (sends s) (length (contents b))"
  have n: "0 \<le> ?n" "?n \<le> int (length (contents b))" using K by (simp_all add: no_send_errors_def)
  then have "b' = b \<or> b' = advance b (nat ?n)"
    using s sendDataBuffer_eq [OF inv False, of K fd s] by (auto simp: advance_def split: if_splits)
  with advance_ok(1) [OF inv, of "nat ?n"] n(2) inv show ?thesis by fastforce
qed

lemma carried_piece:
  assumes inv: "buf_inv b" and K: "no_send_errors K"
  shows "carried (append_send_bytes al K cfd (b, s) xs) (port_send_bytes al K cfd (b, s) xs)"
proof -
  have "sendData K b1 cfd s = sendDataBuffer K b1 cfd s" for b1
    using K by (intro carried_send) (simp add: no_send_errors_def)
  then show ?thesis
    unfolding append_send_bytes_def port_send_bytes_def prod.case
    by (intro carried_rbind carried_append [OF inv]) simp_all
qed

lemma append_send_inv:
  assumes "buf_inv b" and "no_send_errors K" and "append_send_bytes al K cfd (b, s) xs = Inr (b', s')"
  shows "buf_inv b'"
proof -
  obtain b1 n where "append_bytes al b xs = Inr b1" "sendDataBuffer K b1 cfd s = Inr (b', s', n)"
    using assms(3) by (auto simp: append_send_bytes_def)
  with append_bytes_inv [OF assms(1)] sendDataBuffer_inv [OF _ assms(2)] show ?thesis by blast
qed

lemma small_text: "into_array n xs = Inr t \<Longrightarrow> n \<le> 4096 \<Longrightarrow> NUL \<notin> set t \<and> int32 (int (length t))"
  by (auto simp: into_array_def int32_def split: if_splits)

lemma carried_text_piece:
  assumes inv: "buf_inv b" and K: "no_send_errors K" and t: "NUL \<notin> set t \<and> int32 (int (length t))"
  shows "carried (append_send_string al K cfd (b, s) t) (port_send_text al K cfd (b, s) t)"
    and "append_send_string al K cfd (b, s) t = Inr (b', s') \<Longrightarrow> buf_inv b'"
proof -
  have "port_send_text al K cfd (b, s) t = port_send_bytes al K cfd (b, s) t"
    using t by (simp add: port_send_text_def port_send_bytes_def port_text_eq)
  then show "carried (append_send_string al K cfd (b, s) t) (port_send_text al K cfd (b, s) t)"
    and "append_send_string al K cfd (b, s) t = Inr (b', s') \<Longrightarrow> buf_inv b'"
    using t carried_piece [OF inv K] append_send_inv [OF inv K] by (simp_all add: append_send_string_eq)
qed

text \<open>
  The C server prints the low 32 bits of a size, the port all of them: the port's listing is the C
  server's where the sizes have been cut.
\<close>

definition low32 :: "files \<Rightarrow> files" where
  "low32 F = F\<lparr>fstat := (\<lambda>f. map_option (\<lambda>st. st\<lparr>st_size := wrap32 (st_size st)\<rparr>) (fstat F f))\<rparr>"

lemma low32_simps [simp]: "fopen (low32 F) = fopen F" "fread (low32 F) = fread F" "fscandir (low32 F) = fscandir F"
  by (simp_all add: low32_def)

lemma dir_row_low32: "dir_row_port name isdir (wrap32 sz) = dir_row name isdir sz"
  by (simp add: dir_row_port_def dir_row_def)

lemma carried_dir_list:
  assumes K: "no_send_errors K"
  shows "buf_inv b \<Longrightarrow>
    carried (dir_entries F al K d cfd names buf (b, s)) (dir_list (low32 F) al K d cfd names buf (b, s)) \<and>
    (\<forall>b' s'. dir_entries F al K d cfd names buf (b, s) = Inr (b', s') \<longrightarrow> buf_inv b')"
proof (induction names arbitrary: b s buf)
  case (Cons name names)
  show ?case
  proof (cases "into_array 1024 (d @ ''/'' @ name)")
    case (Inr subPath)
    show ?thesis
    proof (cases "fstat F subPath")
      case (Some info)
      show ?thesis
      proof (cases "into_array 4096 (buf @ dir_row name (st_isdir info) (st_size info))")
        case t: (Inr t)
        note piece = carried_text_piece [OF Cons.prems K small_text [OF t order_refl], of al cfd s]
        have eqs: "dir_entries F al K d cfd (name # names) buf (b, s) =
            rbind (append_send_string al K cfd (b, s) t) (dir_entries F al K d cfd names [])"
          "dir_list (low32 F) al K d cfd (name # names) buf (b, s) =
            rbind (port_send_text al K cfd (b, s) t) (dir_list (low32 F) al K d cfd names [])"
          using Inr Some t by (simp_all add: low32_def dir_row_low32)
        have IH: "carried (dir_entries F al K d cfd names [] x) (dir_list (low32 F) al K d cfd names [] x) \<and>
            (\<forall>b' s'. dir_entries F al K d cfd names [] x = Inr (b', s') \<longrightarrow> buf_inv b')"
          if "append_send_string al K cfd (b, s) t = Inr x" for x
          using Cons.IH [OF piece(2), of "fst x" "snd x" "[]" "snd x"] that by simp
        show ?thesis
        proof (intro conjI)
          show "carried (dir_entries F al K d cfd (name # names) buf (b, s)) (dir_list (low32 F) al K d cfd (name # names) buf (b, s))"
            unfolding eqs by (intro carried_rbind [OF piece(1)] conjunct1 [OF IH])
          show "\<forall>b' s'. dir_entries F al K d cfd (name # names) buf (b, s) = Inr (b', s') \<longrightarrow> buf_inv b'"
            unfolding eqs using IH by auto
        qed
      qed (use Inr Some in simp)
    qed (use Inr in simp)
  qed simp
qed simp

lemma carried_sendDir:
  assumes K: "no_send_errors K" and inv: "buf_inv b" and d: "NUL \<notin> set d"
  shows "carried (sendDir F al K d cfd (b, s)) (sendDir_port (low32 F) al K d cfd (b, s))"
proof -
  have tail: "into_array 4096 dir_tail = Inr dir_tail" by (simp add: mem_simps dir_tail_def)
  note list = carried_dir_list [OF K inv, of F al d cfd]
  show ?thesis
    unfolding sendDir_def sendDir_port_def Let_def cstr_id [OF d] tail rbind_simps low32_simps
    by (intro carried_rbind carried_refl conjunct1 [OF list])
      (use list carried_text_piece(1) [OF _ K small_text [OF tail order_refl]] in fastforce)
qed

text \<open>Only the entries of a directory are looked at.\<close>

lemma dir_list_cong:
  assumes "\<forall>name\<in>set names. fstat F (cstr (d @ ''/'' @ name)) = fstat F' (cstr (d @ ''/'' @ name))"
  shows "dir_list F al K d cfd names buf st = dir_list F' al K d cfd names buf st"
  using assms
proof (induction names arbitrary: buf st)
  case (Cons name names)
  have "into_array 1024 (d @ ''/'' @ name) = Inr p \<Longrightarrow> fstat F p = fstat F' p" for p
    using Cons.prems by (auto simp: into_array_def split: if_splits)
  with Cons show ?case by (cases "into_array 1024 (d @ ''/'' @ name)") (auto split: option.split intro!: rbind_cong)
qed simp

text \<open>A directory of files whose sizes an \<open>int\<close> can hold.\<close>

definition small_entries :: "files \<Rightarrow> string \<Rightarrow> bool" where
  "small_entries F d \<longleftrightarrow> (\<forall>names st. fscandir F d = Some names \<longrightarrow>
     (\<forall>name\<in>set names. fstat F (cstr (d @ ''/'' @ name)) = Some st \<longrightarrow> int32 (st_size st)))"

lemma sendDir_small:
  assumes "small_entries F d" and "NUL \<notin> set d"
  shows "sendDir_port (low32 F) al K d cfd st = sendDir_port F al K d cfd st"
proof (cases "fscandir F d")
  case None
  then show ?thesis by (simp add: sendDir_port_def assms(2) Let_def)
next
  case (Some names)
  have "fstat F (cstr (d @ ''/'' @ name)) = fstat (low32 F) (cstr (d @ ''/'' @ name))" if "name \<in> set names" for name
    using assms(1) Some that
    by (cases "fstat F (cstr (d @ ''/'' @ name))") (auto simp: small_entries_def low32_def wrap32_id)
  then have "dir_list (low32 F) al K d cfd names buf st = dir_list F al K d cfd names buf st" for buf st
    by (intro dir_list_cong) simp
  then show ?thesis using Some by (simp add: sendDir_port_def assms(2) Let_def)
qed

text \<open>A file all of whose reads succeed.\<close>

lemma read_file_as_C:
  assumes K: "no_send_errors K"
  shows "buf_inv b \<Longrightarrow> reads_from F name n cs \<Longrightarrow> read_loop F al K name cfd n (b, s) = Some (Inr x) \<Longrightarrow>
    read_file F al K name cfd n True (b, s) = Some (Inr x)"
proof (induction cs arbitrary: n b s)
  case Nil
  then show ?case by (simp add: read_loop.simps read_file.simps)
next
  case (Cons c cs)
  have c: "fread F name n = Some c" "c \<noteq> []" "reads_from F name (n + 1) cs" using Cons.prems(2) by simp_all
  then obtain b1 s1 where 1: "append_send_bytes al K cfd (b, s) c = Inr (b1, s1)"
      "read_loop F al K name cfd (n + 1) (b1, s1) = Some (Inr x)"
    using Cons.prems(3) by (auto simp: read_loop.simps [of F al K name cfd n] split: sum.splits)
  have "port_send_bytes al K cfd (b, s) c = Inr (b1, s1)"
    using carriedD [OF carried_piece [OF Cons.prems(1) K] 1(1)] .
  with Cons.IH [OF append_send_inv [OF Cons.prems(1) K 1(1)] c(3) 1(2)] c(1,2) show ?case
    by (simp add: read_file.simps [of F al K name cfd n])
qed

lemma carried_sendFile:
  assumes K: "no_send_errors K" and inv: "buf_inv b" and name: "NUL \<notin> set name" "reads_from F name 0 cs"
  shows "carried (sendFile F al K name cfd (b, s)) (sendFile_port F al K name cfd (b, s))"
proof -
  have "carried (returned (read_loop F al K name cfd 0 (b, s))) (returned (read_file F al K name cfd 0 True (b, s)))"
    using read_file_as_C [OF K inv name(2)] by (auto simp: carried_def returned_def split: option.splits)
  then show ?thesis
    unfolding sendFile_def sendFile_port_def Let_def cstr_id [OF name(1)] by (auto intro: carried_rbind)
qed

text \<open>A file that cannot be read is never given up: the loop reads on from a closed descriptor.\<close>

lemma read_file_closed: "read_file F al K name cfd n False st = None"
proof (rule ccontr)
  assume "read_file F al K name cfd n False st \<noteq> None"
  then obtain y where y: "read_file F al K name cfd n False st = Some y" by blast
  have "(\<lambda>opened. opened) False"
  proof (rule read_file.raw_induct [where P = "\<lambda>F al K name cfd n opened st y. opened", OF _ y])
    fix g :: "files \<Rightarrow> alloc \<Rightarrow> send_oracle \<Rightarrow> string \<Rightarrow> int \<Rightarrow> nat \<Rightarrow> bool \<Rightarrow> buffer \<times> os \<Rightarrow> (buffer \<times> os) result option"
      and F al K name cfd n opened st y
    assume IH: "\<And>F al K name cfd n opened st y. g F al K name cfd n opened st = Some y \<Longrightarrow> opened"
      and eq: "(case (if opened then fread F name n else None) of
        None \<Rightarrow> g F al K name cfd (n + 1) False (fst st, (snd st)\<lparr>os_closed := os_closed (snd st) @ [fopen F name]\<rparr>)
      | Some chunk \<Rightarrow>
          if chunk = [] then Some (Inr st)
          else case port_send_bytes al K cfd st chunk of
                 Inl e \<Rightarrow> Some (Inl e)
               | Inr st' \<Rightarrow> g F al K name cfd (n + 1) opened st') = Some y"
    show "opened"
    proof (rule ccontr)
      assume "\<not> opened"
      then have "g F al K name cfd (n + 1) False (fst st, (snd st)\<lparr>os_closed := os_closed (snd st) @ [fopen F name]\<rparr>) = Some y"
        using eq by simp
      from IH [OF this] show False .
    qed
  qed
  then show False by simp
qed

section \<open>The head of a response\<close>

definition port_lines :: "port_response \<Rightarrow> string \<Rightarrow> string list" where
  "port_lines resp info =
     (''HTTP/1.1 '' @ dec (status_int (m_statusCode resp)) @ '' '' @ info @ CRLF) # map port_header_line (m_headers resp)"

definition port_head :: "port_response \<Rightarrow> string \<Rightarrow> string" where
  "port_head resp info = concat (port_lines resp info) @ CRLF"

lemma port_line_eq: "NUL \<notin> set l \<Longrightarrow> length l < 1024 \<Longrightarrow> port_line al b l = port_text al b l"
  by (simp add: port_line_def mem_simps)

lemma port_head_sent:
  assumes info: "info_at (status_int (m_statusCode resp)) = Inr info"
    and lines: "\<forall>l\<in>set (port_lines resp info). NUL \<notin> set l \<and> length l < 1024"
    and b: "buf_inv b" "contents b = []" "roomy al b (length (port_head resp info))"
    and K: "accepts_all K" and cap: "int cap \<le> capacity b"
  shows "\<exists>b' s'. prepareMsg F al K resp cfd (b, s) =
      call_send_port F al K (m_sendDataFunc resp) (m_fileName resp) cfd (b', s') \<and> drained b' cap \<and>
      sent s cfd (port_head resp info) [] s'"
proof -
  let ?lines = "port_lines resp info"
  have ok: "\<forall>l\<in>set (?lines @ [CRLF]). NUL \<notin> set l \<and> length l < 1024" using lines by simp
  then have small: "NUL \<notin> set l \<and> int32 (int (length l))" if "l \<in> set (?lines @ [CRLF])" for l
    using that by (auto simp: int32_def)
  have cc: "concat (?lines @ [CRLF]) = port_head resp info" by (simp add: port_head_def)
  obtain b3 where b3: "put_all (append_string al) b (?lines @ [CRLF]) = Inr b3" "buf_inv b3"
      "contents b3 = port_head resp info"
    using cstring.put_all_bytes [OF b(1), of al "?lines @ [CRLF]"] b(2,3) small unfolding cc by auto
  have "carried (put_all (append_string al) b (?lines @ [CRLF])) (put_all (port_text al) b (?lines @ [CRLF]))"
    by (rule carried_put_all [where inv = buf_inv])
      (use small b(1) in \<open>auto intro: carried_text append_string_inv\<close>)
  from carriedD [OF this b3(1)]
  have p: "rbind (put_all (port_text al) b ?lines) (\<lambda>b2. port_text al b2 CRLF) = Inr b3"
    by (simp add: put_all_append)
  have h: "put_all (port_line al) b1 (map port_header_line (m_headers resp)) =
      put_all (port_text al) b1 (map port_header_line (m_headers resp))" for b1
    using lines by (intro put_all_cong port_line_eq) (auto simp: port_lines_def)
  have st: "port_line al b (hd ?lines) = port_text al b (hd ?lines)"
    using lines by (intro port_line_eq) (auto simp: port_lines_def)
  have "prepareMsg F al K resp cfd (b, s) =
      rbind (rbind (put_all (port_text al) b ?lines) (\<lambda>b2. port_text al b2 CRLF)) (\<lambda>b3.
      rbind (sendData K b3 cfd s) (\<lambda>(b4, s4, _).
        call_send_port F al K (m_sendDataFunc resp) (m_fileName resp) cfd (b4, s4)))"
    using info h st by (simp add: prepareMsg_def port_lines_def rbind_assoc Let_def)
  also have "\<dots> = rbind (sendDataBuffer K b3 cfd s) (\<lambda>(b4, s4, _).
        call_send_port F al K (m_sendDataFunc resp) (m_fileName resp) cfd (b4, s4))"
    using carried_send [of K] K by (simp add: p accepts_all_def)
  finally have eq: "prepareMsg F al K resp cfd (b, s) = \<dots>" .
  have "capacity b \<le> capacity b3" using put_all_capacity [OF b3(1)] .
  moreover obtain b4 s4 where "sendDataBuffer K b3 cfd s = Inr (b4, s4, int (length (port_head resp info)))"
      "buf_inv b4" "contents b4 = []" "capacity b4 = capacity b3" "sent s cfd (port_head resp info) [] s4"
    using send_all [OF b3(2) K, of cfd s] b3(3) by auto
  ultimately show ?thesis
    using eq cap by (intro exI [of _ b4] exI [of _ s4]) (simp add: drained_def)
qed

section \<open>From request to response\<close>

definition decided :: "files \<Rightarrow> string \<Rightarrow> port_response" where
  "decided F u =
     (case fstat F (named_file u) of
        None \<Rightarrow> port_missing_response
      | Some st \<Rightarrow>
          if st_isdir st then port_dir_response (named_file u) else port_file_response (named_file u) (st_size st))"

text \<open>Its head: the headers in the order of their names.\<close>

definition decided_head :: "files \<Rightarrow> string \<Rightarrow> string" where
  "decided_head F u =
     (case fstat F (named_file u) of
        None \<Rightarrow> ''HTTP/1.1 404 NotFound'' @ CRLF @ ''Content-type: text/html; charset=utf-8'' @ CRLF @ CRLF
      | Some st \<Rightarrow>
          if st_isdir st then ''HTTP/1.1 200 OK'' @ CRLF @ ''Content-type: text/html; charset=utf-8'' @ CRLF @ CRLF
          else ''HTTP/1.1 200 OK'' @ CRLF @ ''Content-length: '' @ dec (st_size st) @ CRLF @
            ''Content-type: '' @ getFileType (named_file u) @ CRLF @ CRLF)"

text \<open>
  What can be served: a file the server can open and read to its end, a directory with listable
  entries, and for everything else the file \<open>404.html\<close>. \<open>body\<close> are the bytes, \<open>shut\<close> the
  files that are closed again.
\<close>

definition file_body :: "files \<Rightarrow> string \<Rightarrow> char list \<Rightarrow> int list \<Rightarrow> bool" where
  "file_body F name body shut \<longleftrightarrow> NUL \<notin> set name \<and> 0 < fopen F name \<and> shut = [fopen F name] \<and>
     (\<exists>cs. reads_from F name 0 cs \<and> body = concat cs)"

text \<open>A size is an \<open>off_t\<close>.\<close>

definition size64 :: "files \<Rightarrow> string \<Rightarrow> string \<Rightarrow> bool" where
  "size64 F d name \<longleftrightarrow> (\<forall>st. fstat F (d @ ''/'' @ name) = Some st \<longrightarrow> 0 \<le> st_size st \<and> st_size st < 2 ^ 63)"

definition dir_body :: "files \<Rightarrow> string \<Rightarrow> char list \<Rightarrow> int list \<Rightarrow> bool" where
  "dir_body F d body shut \<longleftrightarrow> NUL \<notin> set d \<and> length d < 128 \<and> shut = [] \<and>
     (\<exists>names. fscandir F d = Some names \<and> names \<noteq> [] \<and> (\<forall>name\<in>set names. listable F d name \<and> size64 F d name) \<and>
        body = html_page d (entries F d dec names))"

definition servable :: "files \<Rightarrow> string \<Rightarrow> char list \<Rightarrow> int list \<Rightarrow> bool" where
  "servable F u body shut \<longleftrightarrow>
     (case fstat F (named_file u) of
        None \<Rightarrow> file_body F ''404.html'' body shut
      | Some st \<Rightarrow>
          if st_isdir st then dir_body F (named_file u) body shut
          else 0 \<le> st_size st \<and> st_size st < 2 ^ 63 \<and> file_body F (named_file u) body shut)"

lemma dec_length64: "0 \<le> i \<Longrightarrow> i < 2 ^ 63 \<Longrightarrow> length (dec i) \<le> 19"
proof -
  assume i: "0 \<le> i" "i < 2 ^ 63"
  then have "nat i < 10 ^ 19" by simp
  from digits_length [OF this] i(1) show ?thesis by (simp add: dec_def)
qed

lemma html_type: "getFileType ''.html'' = ''text/html; charset=utf-8''"
  using getFileType_extension [of "''html''" "[]"] by (simp add: media_type_def media_types_def)

lemma decided_head_eq:
  "\<exists>info. info_at (status_int (m_statusCode (decided F u))) = Inr info \<and> port_head (decided F u) info = decided_head F u \<and>
     (servable F u body shut \<longrightarrow> (\<forall>l\<in>set (port_lines (decided F u) info). NUL \<notin> set l \<and> length l < 1024))"
proof -
  have ft: "cstr (getFileType f) = getFileType f" "NUL \<notin> set (getFileType f)" "length (getFileType f) \<le> 33" for f
    using getFileType_length [of f] by auto
  note defs = decided_def decided_head_def port_head_def port_lines_def port_header_line_def info_at_def m_info_def
    port_missing_response_def port_dir_response_def port_file_response_def dec_status html_type
  show ?thesis
  proof (cases "fstat F (named_file u)")
    case None
    then show ?thesis by (simp add: defs)
  next
    case (Some st)
    show ?thesis
    proof (cases "st_isdir st")
      case True
      with Some show ?thesis by (simp add: defs)
    next
      case False
      have "servable F u body shut \<Longrightarrow> length (dec (st_size st)) \<le> 19"
        using Some False dec_length64 [of "st_size st"] by (simp add: servable_def)
      with Some False ft [of "named_file u"] show ?thesis by (auto simp: defs)
    qed
  qed
qed

lemma call_file_body:
  assumes "file_body F name body shut" and "drained b cap" and "4096 \<le> cap" and "accepts_all K"
  shows "\<exists>b' s'. call_send_port F al K (Some SendFile) name cfd (b, s) = Inr (b', s') \<and> drained b' cap \<and>
     sent s cfd body shut s'"
proof -
  obtain cs where cs: "reads_from F name 0 cs" "body = concat cs" "shut = [fopen F name]" "0 < fopen F name"
      "NUL \<notin> set name"
    using assms(1) by (auto simp: file_body_def)
  obtain b' s' where c: "sendFile F al K name cfd (b, s) = Inr (b', s')" "drained b' cap"
      "sent s cfd (concat cs) [fopen F name] s'"
    using sendFile_ok [OF cs(1,4) assms(2) _ assms(4), of al cfd s] assms(3) by auto
  have "buf_inv b" using assms(2) by (simp add: drained_def)
  from carriedD [OF carried_sendFile [OF accepts_all_no_errors [OF assms(4)] this cs(5,1)] c(1)] c(2,3) cs(2,3)
  show ?thesis by (simp add: call_send_port_def)
qed

lemma port_piece_ok:
  assumes "drained b cap" and "NUL \<notin> set xs" and "length xs < 4096" and "4096 \<le> cap" and "accepts_all K"
  shows "\<exists>b' s'. port_send_text al K cfd (b, s) xs = Inr (b', s') \<and> drained b' cap \<and> sent s cfd xs [] s'"
proof -
  have small: "int32 (int (length xs))" using assms(3) by (simp add: int32_def)
  obtain b' s' where c: "append_send_bytes al K cfd (b, s) xs = Inr (b', s')" "drained b' cap" "sent s cfd xs [] s'"
    using append_send_ok [OF assms(1) _ assms(5), of xs al cfd s] assms(3,4) by force
  have "append_send_string al K cfd (b, s) xs = Inr (b', s')"
    using c(1) append_send_string_eq [OF assms(2) small] by simp
  moreover have "buf_inv b" using assms(1) by (simp add: drained_def)
  ultimately show ?thesis
    using carriedD [OF carried_text_piece(1) [OF _ accepts_all_no_errors [OF assms(5)]]] assms(2) small c(2,3) by blast
qed

lemma port_row_ok:
  assumes "listable F d name" and "size64 F d name" and "fstat F (d @ ''/'' @ name) = Some st"
  shows "NUL \<notin> set (dir_row_port name (st_isdir st) (st_size st)) \<and> length (dir_row_port name (st_isdir st) (st_size st)) \<le> 600"
  using assms dec_length64 [of "st_size st"] by (auto simp: listable_def size64_def dir_row_port_def)

lemma dir_list_ok:
  assumes "\<forall>name\<in>set names. listable F d name \<and> size64 F d name" and "drained b cap" and "4096 \<le> cap" and "accepts_all K"
    and "NUL \<notin> set d" and "length d \<le> 127" and "NUL \<notin> set buf" and "length buf \<le> 1000"
  shows "\<exists>b' s'. dir_list F al K d cfd names buf (b, s) = Inr (b', s') \<and> drained b' cap \<and>
     sent s cfd (if names = [] then [] else buf @ concat (map html_row (entries F d dec names))) [] s'"
  using assms(1,2,7,8)
proof (induction names arbitrary: b s buf)
  case Nil
  then show ?case by (simp add: sent_refl)
next
  case (Cons name names)
  then obtain st where st: "fstat F (d @ ''/'' @ name) = Some st" "NUL \<notin> set name" "length name \<le> 255"
    by (auto simp: listable_def)
  let ?piece = "buf @ dir_row_port name (st_isdir st) (st_size st)"
  have row: "NUL \<notin> set ?piece" "length ?piece < 4096"
    using port_row_ok [OF _ _ st(1)] Cons.prems by auto
  have sub: "into_array 1024 (d @ ''/'' @ name) = Inr (d @ ''/'' @ name)"
    using assms(5,6) st by (intro into_array_ok) auto
  have arr: "into_array 4096 ?piece = Inr ?piece" using row by (intro into_array_ok)
  obtain b1 s1 where 1: "port_send_text al K cfd (b, s) ?piece = Inr (b1, s1)" "drained b1 cap" "sent s cfd ?piece [] s1"
    using port_piece_ok [OF Cons.prems(2) row assms(3,4), of al cfd s] by blast
  obtain b' s' where 2: "dir_list F al K d cfd names [] (b1, s1) = Inr (b', s')" "drained b' cap"
      "sent s1 cfd (if names = [] then [] else [] @ concat (map html_row (entries F d dec names))) [] s'"
    using Cons.IH [of b1 "[]" s1] Cons.prems(1) 1(2) by auto
  have "buf @ concat (map html_row (entries F d dec (name # names))) = ?piece @
      (if names = [] then [] else [] @ concat (map html_row (entries F d dec names)))"
    using st(1) by (simp add: entries_def html_row_def dir_row_port_def Let_def)
  with sent_trans [OF 1(3) 2(3)] 2(1,2) show ?case using sub arr st(1) 1(1) by simp
qed

lemma call_dir_body:
  assumes "dir_body F d body shut" and "drained b cap" and "4096 \<le> cap" and "accepts_all K"
  shows "\<exists>b' s'. call_send_port F al K (Some SendDir) d cfd (b, s) = Inr (b', s') \<and> drained b' cap \<and>
     sent s cfd body shut s'"
proof -
  obtain names where n: "fscandir F d = Some names" "names \<noteq> []" "\<forall>name\<in>set names. listable F d name \<and> size64 F d name"
      "body = html_page d (entries F d dec names)" "shut = []" "NUL \<notin> set d" "length d \<le> 127"
    using assms(1) by (auto simp: dir_body_def)
  note bounds = dir_text_ok [OF n(6,7)]
  obtain b1 s1 where 1: "dir_list F al K d cfd names (dir_head d) (b, s) = Inr (b1, s1)" "drained b1 cap"
      "sent s cfd (dir_head d @ concat (map html_row (entries F d dec names))) [] s1"
    using dir_list_ok [OF n(3) assms(2-4) n(6,7), of "dir_head d" al cfd s] bounds n(2) by auto
  obtain b2 s2 where 2: "port_send_text al K cfd (b1, s1) dir_tail = Inr (b2, s2)" "drained b2 cap" "sent s1 cfd dir_tail [] s2"
    using port_piece_ok [OF 1(2) _ _ assms(3,4), of dir_tail al cfd s1] bounds by force
  have "into_array 4096 (dir_head d) = Inr (dir_head d)" "into_array 4096 dir_tail = Inr dir_tail"
    using bounds by (auto intro!: into_array_ok)
  moreover have "body = (dir_head d @ concat (map html_row (entries F d dec names))) @ dir_tail"
    unfolding n(4) by (simp add: html_page_def dir_head_def dir_tail_def)
  ultimately show ?thesis
    using 1(1) 2(1,2) n(1,5,6) sent_trans [OF 1(3) 2(3)] by (simp add: call_send_port_def sendDir_port_def)
qed

lemma call_body:
  assumes "servable F u body shut" and "drained b cap" and "4096 \<le> cap" and "accepts_all K"
  shows "\<exists>b' s'. call_send_port F al K (m_sendDataFunc (decided F u)) (m_fileName (decided F u)) cfd (b, s) =
      Inr (b', s') \<and> drained b' cap \<and> sent s cfd body shut s'"
  using assms(1) call_file_body [OF _ assms(2-4)] call_dir_body [OF _ assms(2-4)]
  by (auto simp: servable_def decided_def port_missing_response_def port_dir_response_def port_file_response_def
      split: option.splits if_splits)

lemma read_request_fields:
  "m_method (read_request m u v hs) = m" "m_url (read_request m u v hs) = u"
  "m_curState (read_request m u v hs) = ParseReqDone'"
  by (simp_all add: read_request_def add_headers_eq)

lemma answer_get:
  assumes get: "strcasecmp_eq m ''get''" and srv: "servable F u body shut" and K: "accepts_all K"
    and wb: "ready al wb cap (length (decided_head F u))" "4096 \<le> cap"
  shows "\<exists>r' wb' s'. answer_request F al K cfd (read_request m u v hs) (new_HttpResponse, wb, s) =
      Inr (r', decided F u, wb', s') \<and> m_curState r' = ParseReqDone' \<and> drained wb' cap \<and>
      sent s cfd (decided_head F u @ body) shut s'"
proof -
  obtain info where info: "info_at (status_int (m_statusCode (decided F u))) = Inr info"
      "port_head (decided F u) info = decided_head F u"
      "\<forall>l\<in>set (port_lines (decided F u) info). NUL \<notin> set l \<and> length l < 1024"
    using decided_head_eq [of F u body shut] srv by blast
  obtain r' where r': "m_curState r' = ParseReqDone'"
      "processHttpRequest_port F (read_request m u v hs) new_HttpResponse = Inr (r', decided F u, False)"
    using process_port [of "read_request m u v hs" F] get unfolding read_request_fields decided_def by blast
  obtain b1 s1 where 1: "prepareMsg F al K (decided F u) cfd (wb, s) =
        call_send_port F al K (m_sendDataFunc (decided F u)) (m_fileName (decided F u)) cfd (b1, s1)"
      "drained b1 cap" "sent s cfd (decided_head F u) [] s1"
    using port_head_sent [OF info(1,3), of wb al K cap F cfd s] wb(1) K info(2)
    by (auto simp: ready_def drained_def)
  obtain b2 s2 where "call_send_port F al K (m_sendDataFunc (decided F u)) (m_fileName (decided F u)) cfd (b1, s1) =
      Inr (b2, s2)" "drained b2 cap" "sent s1 cfd body shut s2"
    using call_body [OF srv 1(2) wb(2) K] by blast
  with r' 1 sent_trans [OF 1(3), of body shut s2] show ?thesis by (simp add: answer_request_def)
qed

lemma serve_port:
  assumes rb: "buf_inv rb" "contents rb = print_request m u v hs @ rest" "readable_request m u v hs"
    and get: "strcasecmp_eq m ''get''" and srv: "servable F u body shut" and K: "accepts_all K"
    and wb: "ready al wb cap (length (decided_head F u))" "4096 \<le> cap"
  shows "\<exists>r' rb' wb' s'. parseHttpRequest_port F al K new_HttpRequest rb new_HttpResponse wb cfd s =
      Inr (r', rb', (decided F u, wb', s'), True) \<and> buf_inv rb' \<and> contents rb' = rest \<and> drained wb' cap \<and>
      sent s cfd (decided_head F u @ body) shut s'"
proof -
  obtain r' wb' s' where a: "answer_request F al K cfd (read_request m u v hs) (new_HttpResponse, wb, s) =
      Inr (r', decided F u, wb', s')" "m_curState r' = ParseReqDone'" "drained wb' cap"
      "sent s cfd (decided_head F u @ body) shut s'"
    using answer_get [OF get srv K wb] by blast
  obtain rb' where "buf_inv rb'" "contents rb' = rest"
      "parse_requests (answer_request F al K cfd) new_HttpRequest rb (new_HttpResponse, wb, s) True =
       answered (answer_request F al K cfd) (read_request m u v hs) rb' (new_HttpResponse, wb, s)"
    using parse_requests_complete [OF rb, of "answer_request F al K cfd" "(new_HttpResponse, wb, s)" True] by blast
  moreover have "answered (answer_request F al K cfd) (read_request m u v hs) rb' (new_HttpResponse, wb, s) =
      Some (Inr (r'\<lparr>m_curState := ParseReqLine'\<rparr>, rb', (decided F u, wb', s'), True))"
    by (rule answered_done) (fact a(1,2))+
  ultimately show ?thesis
    using a(3,4) by (intro exI [of _ "r'\<lparr>m_curState := ParseReqLine'\<rparr>"] exI [of _ rb'] exI [of _ wb'] exI [of _ s'])
      (simp add: parseHttpRequest_port_def)
qed

text \<open>Any other method: the status of the response was never set.\<close>

lemma answer_other:
  assumes "\<not> strcasecmp_eq m ''get''"
  shows "answer_request F al K cfd (read_request m u v hs) (new_HttpResponse, wb, s) = Inl (Thrown ''out_of_range'')"
  using process_port_other [of "read_request m u v hs" F new_HttpResponse] assms
  by (simp add: answer_request_def read_request_fields prepareMsg_def new_HttpResponse_def info_at_def m_info_def)

section \<open>Properties\<close>

text \<open>
  The port answers every GET request for something it can serve: a file with 200, its size
  and its media type, a directory with 200 and its listing, anything that does not exist with 404
  and \<open>404.html\<close>. Exactly the request's bytes are consumed, exactly the head and the body are sent,
  and the write buffer is empty again; a request may have any number of headers.
\<close>

lemma port_answers_get:
  assumes "buf_inv rb" and "contents rb = print_request m u v hs @ rest" and "readable_request m u v hs"
    and "strcasecmp_eq m ''get''" and "servable F u body shut" and "accepts_all K"
    and "ready al wb cap (length (decided_head F u))" and "4096 \<le> cap"
  shows "\<exists>r' rb' wb' s'. parseHttpRequest_port F al K new_HttpRequest rb new_HttpResponse wb cfd s =
      Inr (r', rb', (decided F u, wb', s'), True) \<and> contents rb' = rest \<and> contents wb' = [] \<and>
      sent s cfd (decided_head F u @ body) shut s'"
  using serve_port [OF assms, of cfd s] unfolding drained_def by blast

lemma small_file_served:
  "named_file ''/d/a.txt'' = ''d/a.txt''" "servable small_files ''/d/a.txt'' ''hello'' [9]"
proof -
  show f: "named_file ''/d/a.txt'' = ''d/a.txt''"
    by (rule named_file_url) (simp add: names_file_def decode_plain)
  have "reads_from small_files ''d/a.txt'' 0 [''hello'']" by (simp add: small_files_def)
  then have "\<exists>cs. reads_from small_files ''d/a.txt'' 0 cs \<and> ''hello'' = concat cs" by (intro exI [of _ "[''hello'']"]) simp
  then show "servable small_files ''/d/a.txt'' ''hello'' [9]"
    unfolding servable_def f file_body_def by (simp add: small_files_def)
qed

lemma small_head: "decided_head small_files ''/d/a.txt'' =
    ''HTTP/1.1 200 OK'' @ CRLF @ ''Content-length: 5'' @ CRLF @ ''Content-type: text/plain; charset=utf-8'' @ CRLF @ CRLF"
  using getFileType_extension [of "''txt''" "''d/a''"]
  by (simp add: decided_head_def small_file_served(1) small_files_def dec_5 media_type_def media_types_def)

lemma port_answers_get_witness:
  "\<exists>r' rb' resp' wb' s'. parseHttpRequest_port small_files (\<lambda>_. True) all_sent new_HttpRequest
      (holding (plain_get ''/d/a.txt'')) new_HttpResponse (empty_block 4096) 7 silent =
      Inr (r', rb', (resp', wb', s'), True) \<and>
     wire s' 7 = ''HTTP/1.1 200 OK'' @ CRLF @ ''Content-length: 5'' @ CRLF @
       ''Content-type: text/plain; charset=utf-8'' @ CRLF @ CRLF @ ''hello''"
proof -
  have len: "length (plain_get ''/d/a.txt'') \<le> 1000" by (simp add: plain_get_def print_request_def)
  have req: "readable_request ''GET'' ''/d/a.txt'' ''HTTP/1.1'' []" by (simp add: readable_request_def)
  have get: "strcasecmp_eq ''GET'' ''get''"
    by (simp add: strcasecmp_eq_def tolower_def char_of_def bit_0 cstr_def)
  have rb: "contents (holding (plain_get ''/d/a.txt'')) = print_request ''GET'' ''/d/a.txt'' ''HTTP/1.1'' [] @ []"
    by (simp add: holding_inv(2) plain_get_def)
  have "length (decided_head small_files ''/d/a.txt'') \<le> 5000" by (simp add: small_head)
  from port_answers_get [OF holding_inv(1) [OF len] rb req get small_file_served(2) all_sent_ok empty_block_ready [OF this], of 7 silent]
  show ?thesis by (auto simp: sent_def small_head silent_def)
qed

text \<open>
  A request with any method other than GET ends the port with an exception: the result of
  \<open>processHttpRequest\<close> is dropped, and the table of status texts has no entry for the status
  nobody has set (the C server calls through NULL there).
\<close>

lemma port_other_methods_throw:
  assumes "buf_inv rb" and "contents rb = print_request m u v hs @ rest" and "readable_request m u v hs"
    and "\<not> strcasecmp_eq m ''get''"
  shows "parseHttpRequest_port F al K new_HttpRequest rb new_HttpResponse wb cfd s = Inl (Thrown ''out_of_range'')"
proof -
  obtain rb' where "parse_requests (answer_request F al K cfd) new_HttpRequest rb (new_HttpResponse, wb, s) True =
       answered (answer_request F al K cfd) (read_request m u v hs) rb' (new_HttpResponse, wb, s)"
    using parse_requests_complete [OF assms(1-3), of "answer_request F al K cfd" "(new_HttpResponse, wb, s)" True] by blast
  moreover have "answered (answer_request F al K cfd) (read_request m u v hs) rb' (new_HttpResponse, wb, s) =
      Some (Inl (Thrown ''out_of_range''))"
    by (rule answered_fault) (rule answer_other [OF assms(4)])
  ultimately show ?thesis by (simp add: parseHttpRequest_port_def)
qed

lemma port_other_methods_throw_witness:
  "parseHttpRequest_port small_files (\<lambda>_. True) all_sent new_HttpRequest
      (holding (print_request ''POST'' ''/d'' ''HTTP/1.1'' [])) new_HttpResponse (empty_block 4096) 7 silent =
     Inl (Thrown ''out_of_range'')"
proof -
  have "length (print_request ''POST'' ''/d'' ''HTTP/1.1'' []) \<le> 1000" by (simp add: print_request_def)
  moreover have "readable_request ''POST'' ''/d'' ''HTTP/1.1'' []" by (simp add: readable_request_def)
  moreover have "\<not> strcasecmp_eq ''POST'' ''get''" by (simp add: strcasecmp_eq_def)
  ultimately show ?thesis
    using port_other_methods_throw [OF holding_inv(1), of "print_request ''POST'' ''/d'' ''HTTP/1.1'' []" "''POST''" "''/d''" "''HTTP/1.1''" "[]" "[]"]
    by (simp add: holding_inv(2))
qed



end
