(* ===== verification/Port_Dispatch.thy ===== *)
theory Port_Dispatch
  imports Port_Loop Epoll_Dispatch Poll_Dispatch Select_Dispatch
begin

text \<open>
  The dispatchers of the C++ port: \<open>old/ReactorHttp_cpp/SelectDispatcher.cpp\<close>, which \<open>EventLoop\<close>
  makes, \<open>PollDispatcher.cpp\<close> and \<open>EpollDispatcher.cpp\<close>. Their members are those of the C
  server's dispatchers and the kernel is the same, so the records and the system calls are shared
  with the theories of those. The locale \<open>watch_set\<close> is what a loop expects of registering and
  removing a channel, \<open>rewatchable\<close> what it expects of changing one: epoll and poll of the port keep
  both, select keeps the first.
\<close>

section \<open>select\<close>

definition upd_bits :: "bool \<Rightarrow> pchannel \<Rightarrow> select_data \<Rightarrow> select_data result" where
  "upd_bits b ch d =
     rbind (if m_events ch AND ReadEvent \<noteq> 0
            then rbind (fd_upd (m_fd ch) b (readset d)) (\<lambda>S. Inr (d\<lparr>readset := S\<rparr>)) else Inr d) (\<lambda>d1.
     if m_events ch AND WriteEvent \<noteq> 0
     then rbind (fd_upd (m_fd ch) b (writeset d1)) (\<lambda>S. Inr (d1\<lparr>writeset := S\<rparr>)) else Inr d1)"

definition setFdSet_port :: "pchannel \<Rightarrow> select_data \<Rightarrow> select_data result" where
  "setFdSet_port ch d = upd_bits True ch d"

definition clearFdSet_port :: "pchannel \<Rightarrow> select_data \<Rightarrow> select_data result" where
  "clearFdSet_port ch d = upd_bits False ch d"

definition new_SelectDispatcher :: "select_data result" where
  "new_SelectDispatcher = Inr \<lparr>writeset = (\<lambda>_. False), readset = (\<lambda>_. False)\<rparr>"

definition SelectDispatcher_add :: "pchannel \<Rightarrow> select_data \<Rightarrow> (select_data \<times> int) result" where
  "SelectDispatcher_add ch d =
     (if SELECT_MAX \<le> m_fd ch then Inr (d, -1) else rbind (setFdSet_port ch d) (\<lambda>d'. Inr (d', 0)))"

definition SelectDispatcher_remove ::
  "(select_data, 'a) pcalls \<Rightarrow> pchannel \<Rightarrow> (select_data, 'a) ploop_scheme \<Rightarrow> ((select_data, 'a) ploop_scheme \<times> int) result" where
  "SelectDispatcher_remove cb ch l =
     rbind (clearFdSet_port ch (m_dispatcher l)) (\<lambda>d.
     rbind (call_function cb (destroyCallback ch) (m_arg ch) (l\<lparr>m_dispatcher := d\<rparr>)) (\<lambda>l'. Inr (l', 0)))"

definition SelectDispatcher_modify :: "pchannel \<Rightarrow> select_data \<Rightarrow> (select_data \<times> int) result" where
  "SelectDispatcher_modify ch d =
     rbind (setFdSet_port ch d) (\<lambda>d1. rbind (clearFdSet_port ch d1) (\<lambda>d2. Inr (d2, 0)))"

fun select_scan ::
  "(select_data, 'a) pcalls \<Rightarrow> fd_set \<Rightarrow> fd_set \<Rightarrow> int list \<Rightarrow> (select_data, 'a) ploop_scheme \<Rightarrow>
   (select_data, 'a) ploop_scheme result" where
  "select_scan call rdtmp wrtmp [] l = Inr l"
| "select_scan call rdtmp wrtmp (i # is) l =
     rbind (if rdtmp i then rbind (eventActive call l i ReadEvent) (\<lambda>(l', _). Inr l') else Inr l) (\<lambda>l1.
     rbind (if wrtmp i then rbind (eventActive call l1 i WriteEvent) (\<lambda>(l', _). Inr l') else Inr l1) (\<lambda>l2.
       select_scan call rdtmp wrtmp is l2))"

definition SelectDispatcher_dispatch ::
  "(select_data, 'a) pcalls \<Rightarrow> select_ready \<Rightarrow> (select_data, 'a) ploop_scheme \<Rightarrow> ((select_data, 'a) ploop_scheme \<times> int) result" where
  "SelectDispatcher_dispatch call r l =
     (case r of
        None \<Rightarrow> Inl (Exit ''select'')
      | Some ready \<Rightarrow>
          (case sys_select (readset (m_dispatcher l)) (writeset (m_dispatcher l)) ready of (rdtmp, wrtmp) \<Rightarrow>
             rbind (select_scan call rdtmp wrtmp [0..SELECT_MAX - 1] l) (\<lambda>l'. Inr (l', 0))))"

definition SelectDispatcher :: "(select_data, 'a, select_ready) virtuals" where
  "SelectDispatcher =
     \<lparr>v_add = SelectDispatcher_add, v_remove = SelectDispatcher_remove, v_modify = SelectDispatcher_modify,
      v_dispatch = SelectDispatcher_dispatch\<rparr>"

section \<open>poll\<close>

definition new_PollDispatcher :: "poll_data result" where
  "new_PollDispatcher = Inr \<lparr>Maxfd = 0, fds = replicate POLL_MAX \<lparr>pfd = -1, pevents = 0, revents = 0\<rparr>\<rparr>"

definition poll_events :: "pchannel \<Rightarrow> 16 word" where
  "poll_events ch =
     (let evs = (if m_events ch AND ReadEvent \<noteq> 0 then 0 OR POLLIN else 0)
      in if m_events ch AND WriteEvent \<noteq> 0 then evs OR POLLOUT else evs)"

definition PollDispatcher_add :: "pchannel \<Rightarrow> poll_data \<Rightarrow> (poll_data \<times> int) result" where
  "PollDispatcher_add ch d =
     (let i = search (\<lambda>p. pfd p = -1) (fds d) in
      Inr (if i < POLL_MAX
           then (d\<lparr>fds := (fds d)[i := (fds d ! i)\<lparr>pevents := poll_events ch, pfd := m_fd ch\<rparr>],
                   Maxfd := (if Maxfd d < i then i else Maxfd d)\<rparr>, 0)
           else (d, -1)))"

definition poll_forget :: "pchannel \<Rightarrow> poll_data \<Rightarrow> (poll_data \<times> int) result" where
  "poll_forget ch d =
     (let i = search (\<lambda>p. pfd p = m_fd ch) (fds d) in
      Inr (if i < POLL_MAX
           then (d\<lparr>fds := (fds d)[i := (fds d ! i)\<lparr>pevents := 0, revents := 0, pfd := -1\<rparr>]\<rparr>, 0)
           else (d, -1)))"

definition PollDispatcher_remove ::
  "(poll_data, 'a) pcalls \<Rightarrow> pchannel \<Rightarrow> (poll_data, 'a) ploop_scheme \<Rightarrow> ((poll_data, 'a) ploop_scheme \<times> int) result" where
  "PollDispatcher_remove cb ch l =
     rbind (poll_forget ch (m_dispatcher l)) (\<lambda>(d, ret).
     rbind (call_function cb (destroyCallback ch) (m_arg ch) (l\<lparr>m_dispatcher := d\<rparr>)) (\<lambda>l'. Inr (l', ret)))"

definition PollDispatcher_modify :: "pchannel \<Rightarrow> poll_data \<Rightarrow> (poll_data \<times> int) result" where
  "PollDispatcher_modify ch d =
     (let i = search (\<lambda>p. pfd p = m_fd ch) (fds d) in
      Inr (if i < POLL_MAX then (d\<lparr>fds := (fds d)[i := (fds d ! i)\<lparr>pevents := poll_events ch\<rparr>]\<rparr>, 0)
           else (d, -1)))"

text \<open>The loop over the slots; \<open>m_maxfd\<close> and the slots are read again in every round.\<close>

partial_function (option) poll_scan ::
  "(poll_data, 'a) pcalls \<Rightarrow> nat \<Rightarrow> (poll_data, 'a) ploop_scheme \<Rightarrow> (poll_data, 'a) ploop_scheme result option" where
  "poll_scan call i l =
     (if Maxfd (m_dispatcher l) < i then Some (Inr l)
      else
        (let p = fds (m_dispatcher l) ! i in
         if pfd p = -1 then poll_scan call (i + 1) l
         else
           case rbind (if revents p AND POLLIN \<noteq> 0
                       then rbind (eventActive call l (pfd p) ReadEvent) (\<lambda>(l', _). Inr l') else Inr l) (\<lambda>l1.
                let p1 = fds (m_dispatcher l1) ! i in
                if revents p1 AND POLLOUT \<noteq> 0
                then rbind (eventActive call l1 (pfd p1) WriteEvent) (\<lambda>(l', _). Inr l') else Inr l1) of
             Inl e \<Rightarrow> Some (Inl e)
           | Inr l2 \<Rightarrow> poll_scan call (i + 1) l2))"

definition PollDispatcher_dispatch ::
  "(poll_data, 'a) pcalls \<Rightarrow> poll_ready \<Rightarrow> (poll_data, 'a) ploop_scheme \<Rightarrow> ((poll_data, 'a) ploop_scheme \<times> int) result" where
  "PollDispatcher_dispatch call r l =
     (case r of
        None \<Rightarrow> Inl (Exit ''poll'')
      | Some ready \<Rightarrow>
          (case sys_poll ready (fds (m_dispatcher l)) (Maxfd (m_dispatcher l) + 1) of (ps, count) \<Rightarrow>
             rbind (returned (poll_scan call 0 (l\<lparr>m_dispatcher := (m_dispatcher l)\<lparr>fds := ps\<rparr>\<rparr>))) (\<lambda>l'. Inr (l', 0))))"

definition PollDispatcher :: "(poll_data, 'a, poll_ready) virtuals" where
  "PollDispatcher =
     \<lparr>v_add = PollDispatcher_add, v_remove = PollDispatcher_remove, v_modify = PollDispatcher_modify,
      v_dispatch = PollDispatcher_dispatch\<rparr>"

section \<open>epoll\<close>

definition new_EpollDispatcher :: "epoll_data option \<Rightarrow> epoll_data result" where
  "new_EpollDispatcher created = (case created of None \<Rightarrow> Inl (Exit ''epoll_create'') | Some d \<Rightarrow> Inr d)"

definition epollCtl_port :: "pchannel \<Rightarrow> epoll_data \<Rightarrow> ctl_op \<Rightarrow> epoll_data \<times> int" where
  "epollCtl_port ch d op =
     (let evs = (if m_events ch AND ReadEvent \<noteq> 0 then 0 OR EPOLLIN else 0);
          evs' = (if m_events ch AND WriteEvent \<noteq> 0 then evs OR EPOLLOUT else evs)
      in epoll_ctl d op (m_fd ch) evs')"

definition ctl_or_exit :: "string \<Rightarrow> epoll_data \<times> int \<Rightarrow> (epoll_data \<times> int) result" where
  "ctl_or_exit msg = (\<lambda>(d, ret). if ret = -1 then Inl (Exit msg) else Inr (d, ret))"

definition EpollDispatcher_add :: "pchannel \<Rightarrow> epoll_data \<Rightarrow> (epoll_data \<times> int) result" where
  "EpollDispatcher_add ch d = ctl_or_exit ''epoll_crl add'' (epollCtl_port ch d EPOLL_CTL_ADD)"

definition epoll_forget :: "pchannel \<Rightarrow> epoll_data \<Rightarrow> (epoll_data \<times> int) result" where
  "epoll_forget ch d = ctl_or_exit ''epoll_crl delete'' (epollCtl_port ch d EPOLL_CTL_DEL)"

definition EpollDispatcher_remove ::
  "(epoll_data, 'a) pcalls \<Rightarrow> pchannel \<Rightarrow> (epoll_data, 'a) ploop_scheme \<Rightarrow> ((epoll_data, 'a) ploop_scheme \<times> int) result" where
  "EpollDispatcher_remove cb ch l =
     rbind (epoll_forget ch (m_dispatcher l)) (\<lambda>(d, ret).
     rbind (call_function cb (destroyCallback ch) (m_arg ch) (l\<lparr>m_dispatcher := d\<rparr>)) (\<lambda>l'. Inr (l', ret)))"

definition EpollDispatcher_modify :: "pchannel \<Rightarrow> epoll_data \<Rightarrow> (epoll_data \<times> int) result" where
  "EpollDispatcher_modify ch d = ctl_or_exit ''epoll_crl modify'' (epollCtl_port ch d EPOLL_CTL_MOD)"

definition epoll_ready_event ::
  "(epoll_data, 'a) pcalls \<Rightarrow> (epoll_data, 'a) ploop_scheme \<Rightarrow> int \<times> 32 word \<Rightarrow> (epoll_data, 'a) ploop_scheme result" where
  "epoll_ready_event call l = (\<lambda>(f, evs).
     if evs AND EPOLLERR \<noteq> 0 \<or> evs AND EPOLLHUP \<noteq> 0 then Inr l
     else
       rbind (if evs AND EPOLLIN \<noteq> 0
              then rbind (eventActive call l f ReadEvent) (\<lambda>(l', _). Inr l') else Inr l) (\<lambda>l1.
       if evs AND EPOLLOUT \<noteq> 0
       then rbind (eventActive call l1 f WriteEvent) (\<lambda>(l', _). Inr l') else Inr l1))"

text \<open>A failed \<open>epoll_wait\<close> is a wait without events here.\<close>

definition EpollDispatcher_dispatch ::
  "(epoll_data, 'a) pcalls \<Rightarrow> epoll_ready \<Rightarrow> (epoll_data, 'a) ploop_scheme \<Rightarrow> ((epoll_data, 'a) ploop_scheme \<times> int) result" where
  "EpollDispatcher_dispatch call r l =
     rbind (put_all (epoll_ready_event call) l (case r of None \<Rightarrow> [] | Some evs \<Rightarrow> evs)) (\<lambda>l'. Inr (l', 0))"

definition EpollDispatcher :: "(epoll_data, 'a, epoll_ready) virtuals" where
  "EpollDispatcher =
     \<lparr>v_add = EpollDispatcher_add, v_remove = EpollDispatcher_remove, v_modify = EpollDispatcher_modify,
      v_dispatch = EpollDispatcher_dispatch\<rparr>"

section \<open>The set of watched descriptors\<close>

text \<open>
  \<open>room d n\<close>: there is room for \<open>n\<close> more registrations. Channels without an event are never
  registered.
\<close>

definition wanting :: "pchannel \<Rightarrow> bool" where
  "wanting ch \<longleftrightarrow> pwants ch \<noteq> (False, False)"

locale watch_set =
  fixes inv :: "'d \<Rightarrow> bool"
    and interest :: "'d \<Rightarrow> interest"
    and room :: "'d \<Rightarrow> nat \<Rightarrow> bool"
    and valid :: "int \<Rightarrow> bool"
    and add :: "pchannel \<Rightarrow> 'd \<Rightarrow> ('d \<times> int) result"
    and remove :: "pchannel \<Rightarrow> 'd \<Rightarrow> ('d \<times> int) result"
  assumes add_law: "inv d \<Longrightarrow> room d (Suc n) \<Longrightarrow> valid (m_fd ch) \<Longrightarrow> wanting ch \<Longrightarrow>
      interest d (m_fd ch) = (False, False) \<Longrightarrow>
      \<exists>d'. add ch d = Inr (d', 0) \<and> inv d' \<and> room d' n \<and> interest d' = (interest d)(m_fd ch := pwants ch)"
    and remove_law: "inv d \<Longrightarrow> room d n \<Longrightarrow> valid (m_fd ch) \<Longrightarrow> wanting ch \<Longrightarrow> interest d (m_fd ch) = pwants ch \<Longrightarrow>
      \<exists>d'. remove ch d = Inr (d', 0) \<and> inv d' \<and> room d' n \<and> interest d' = (interest d)(m_fd ch := (False, False))"
begin

text \<open>Registering a channel and removing it again leaves the watched set as it was.\<close>

lemma add_remove:
  assumes "inv d" and "room d (Suc n)" and "valid (m_fd ch)" and "wanting ch"
    and "interest d (m_fd ch) = (False, False)"
  shows "\<exists>d1 d2. add ch d = Inr (d1, 0) \<and> remove ch d1 = Inr (d2, 0) \<and> interest d2 = interest d"
proof -
  obtain d1 where d1: "add ch d = Inr (d1, 0)" "inv d1" "room d1 n" "interest d1 = (interest d)(m_fd ch := pwants ch)"
    using add_law [OF assms] by blast
  then obtain d2 where "remove ch d1 = Inr (d2, 0)" "interest d2 = (interest d1)(m_fd ch := (False, False))"
    using remove_law [OF d1(2,3) assms(3,4)] by auto
  moreover from this(2) have "interest d2 = interest d" using d1(4) assms(5) by auto
  ultimately show ?thesis using d1(1) by blast
qed

end

text \<open>Sequences of operations, what they do to the watched set, and when they make sense.\<close>

datatype watch_op = Watch pchannel | Unwatch pchannel | Rewatch pchannel

fun watch_do ::
  "(pchannel \<Rightarrow> 'd \<Rightarrow> ('d \<times> int) result) \<Rightarrow> (pchannel \<Rightarrow> 'd \<Rightarrow> ('d \<times> int) result) \<Rightarrow>
   (pchannel \<Rightarrow> 'd \<Rightarrow> ('d \<times> int) result) \<Rightarrow> 'd \<Rightarrow> watch_op \<Rightarrow> 'd result" where
  "watch_do add remove modify d (Watch ch) = rbind (add ch d) (\<lambda>(d', _). Inr d')"
| "watch_do add remove modify d (Unwatch ch) = rbind (remove ch d) (\<lambda>(d', _). Inr d')"
| "watch_do add remove modify d (Rewatch ch) = rbind (modify ch d) (\<lambda>(d', _). Inr d')"

fun watched :: "interest \<Rightarrow> watch_op \<Rightarrow> interest" where
  "watched w (Watch ch) = w(m_fd ch := pwants ch)"
| "watched w (Unwatch ch) = w(m_fd ch := (False, False))"
| "watched w (Rewatch ch) = w(m_fd ch := pwants ch)"

fun sensible :: "(int \<Rightarrow> bool) \<Rightarrow> interest \<Rightarrow> watch_op list \<Rightarrow> bool" where
  "sensible valid w [] \<longleftrightarrow> True"
| "sensible valid w (Watch ch # ops) \<longleftrightarrow> valid (m_fd ch) \<and> wanting ch \<and> w (m_fd ch) = (False, False) \<and>
     sensible valid (watched w (Watch ch)) ops"
| "sensible valid w (Unwatch ch # ops) \<longleftrightarrow> valid (m_fd ch) \<and> wanting ch \<and> w (m_fd ch) = pwants ch \<and>
     sensible valid (watched w (Unwatch ch)) ops"
| "sensible valid w (Rewatch ch # ops) \<longleftrightarrow> valid (m_fd ch) \<and> wanting ch \<and> w (m_fd ch) \<noteq> (False, False) \<and>
     sensible valid (watched w (Rewatch ch)) ops"

definition registrations :: "watch_op list \<Rightarrow> nat" where
  "registrations ops = length (filter (\<lambda>op. \<exists>ch. op = Watch ch) ops)"

lemma registrations_simps [simp]:
  "registrations [] = 0" "registrations (Watch ch # ops) = Suc (registrations ops)"
  "registrations (Unwatch ch # ops) = registrations ops" "registrations (Rewatch ch # ops) = registrations ops"
  by (simp_all add: registrations_def)

locale rewatchable = watch_set +
  fixes modify :: "pchannel \<Rightarrow> 'a \<Rightarrow> ('a \<times> int) result"
  assumes modify_law: "inv d \<Longrightarrow> room d n \<Longrightarrow> valid (m_fd ch) \<Longrightarrow> wanting ch \<Longrightarrow>
      interest d (m_fd ch) \<noteq> (False, False) \<Longrightarrow>
      \<exists>d'. modify ch d = Inr (d', 0) \<and> inv d' \<and> room d' n \<and> interest d' = (interest d)(m_fd ch := pwants ch)"
begin

lemma run_watches:
  "inv d \<Longrightarrow> room d (registrations ops) \<Longrightarrow> sensible valid (interest d) ops \<Longrightarrow>
   \<exists>d'. put_all (watch_do add remove modify) d ops = Inr d' \<and> inv d' \<and> interest d' = fold (\<lambda>op w. watched w op) ops (interest d)"
proof (induction ops arbitrary: d)
  case Nil
  then show ?case by simp
next
  case (Cons op ops)
  have "\<exists>d1. watch_do add remove modify d op = Inr d1 \<and> inv d1 \<and> room d1 (registrations ops) \<and>
      interest d1 = watched (interest d) op \<and> sensible valid (watched (interest d) op) ops"
  proof (cases op)
    case (Watch ch)
    with Cons.prems add_law [of d "registrations ops" ch] show ?thesis by auto
  next
    case (Unwatch ch)
    with Cons.prems remove_law [of d "registrations ops" ch] show ?thesis by auto
  next
    case (Rewatch ch)
    with Cons.prems modify_law [of d "registrations ops" ch] show ?thesis by auto
  qed
  then obtain d1 where d1: "watch_do add remove modify d op = Inr d1" "inv d1" "room d1 (registrations ops)"
      "interest d1 = watched (interest d) op" "sensible valid (interest d1) ops"
    by auto
  from Cons.IH [OF d1(2,3,5)] d1(1,4) show ?case by simp
qed

end

section \<open>select keeps the first part of the contract\<close>

definition select_forget :: "pchannel \<Rightarrow> select_data \<Rightarrow> (select_data \<times> int) result" where
  "select_forget ch d = rbind (clearFdSet_port ch d) (\<lambda>d'. Inr (d', 0))"

definition in_sets :: "int \<Rightarrow> bool" where
  "in_sets f \<longleftrightarrow> 0 \<le> f \<and> f < SELECT_MAX"

lemmas select_port_ops = SelectDispatcher_add_def SelectDispatcher_modify_def select_forget_def setFdSet_port_def
  clearFdSet_port_def upd_bits_def fd_upd_def select_interest_def in_sets_def pwants_def

interpretation select_watch: watch_set "\<lambda>_. True" select_interest "\<lambda>_ _. True" in_sets
    SelectDispatcher_add select_forget
  by unfold_locales (auto simp: select_port_ops fun_eq_iff)

text \<open>\<open>modify\<close> sets the bits of the channel and clears them again, as in the C server.\<close>

lemma select_modify_port:
  assumes "in_sets (m_fd ch)"
  shows "\<exists>d'. SelectDispatcher_modify ch d = Inr (d', 0) \<and>
     select_interest d' = (select_interest d)(m_fd ch :=
       (fst (select_interest d (m_fd ch)) \<and> \<not> fst (pwants ch),
        snd (select_interest d (m_fd ch)) \<and> \<not> snd (pwants ch)))"
  using assms by (auto simp: select_port_ops fun_eq_iff)

text \<open>A wait that finds one descriptor readable and none writable.\<close>

lemma select_scan_none:
  "\<forall>i\<in>set is. \<not> rdtmp i \<Longrightarrow> \<forall>i\<in>set is. \<not> wrtmp i \<Longrightarrow> select_scan call rdtmp wrtmp is l = Inr l"
  by (induction "is") simp_all

lemma select_scan_append:
  "select_scan call rdtmp wrtmp (is @ js) l = rbind (select_scan call rdtmp wrtmp is l) (select_scan call rdtmp wrtmp js)"
  by (induction "is" arbitrary: l) (simp_all add: rbind_assoc split_def)

lemma select_one_readable:
  assumes f: "in_sets f" and r: "\<forall>i. (readset (m_dispatcher l) i \<and> readable i) \<longleftrightarrow> i = f"
    and w: "\<forall>i. \<not> (writeset (m_dispatcher l) i \<and> writable i)"
  shows "SelectDispatcher_dispatch call (Some (readable, writable)) l =
     rbind (eventActive call l f ReadEvent) (\<lambda>(l', _). Inr (l', 0))"
proof -
  have sets: "sys_select (readset (m_dispatcher l)) (writeset (m_dispatcher l)) (readable, writable) = (\<lambda>i. i = f, \<lambda>_. False)"
    using r w by (simp add: sys_select_def fun_eq_iff)
  have split: "[0..SELECT_MAX - 1] = [0..f - 1] @ f # [f + 1..SELECT_MAX - 1]"
    using f by (intro upto_split3) (auto simp: in_sets_def)
  have "select_scan call (\<lambda>i. i = f) (\<lambda>_. False) [0..SELECT_MAX - 1] l =
      rbind (eventActive call l f ReadEvent) (\<lambda>(l', _). Inr l')"
    unfolding split select_scan_append
    by (simp add: select_scan_none rbind_assoc split_def)
  then show ?thesis by (simp add: SelectDispatcher_dispatch_def sets rbind_assoc split_def)
qed

lemma select_none_ready:
  assumes "\<forall>i. \<not> (readset (m_dispatcher l) i \<and> readable i)" and "\<forall>i. \<not> (writeset (m_dispatcher l) i \<and> writable i)"
  shows "SelectDispatcher_dispatch call (Some (readable, writable)) l = Inr (l, 0)"
  using assms by (simp add: SelectDispatcher_dispatch_def sys_select_def select_scan_none)

section \<open>epoll keeps the contract\<close>

definition epoll_sane :: "(int \<Rightarrow> bool) \<Rightarrow> epoll_data \<Rightarrow> bool" where
  "epoll_sane valid d \<longleftrightarrow> (\<forall>f. valid f \<longrightarrow> \<not> ep_refuses d f) \<and>
     (\<forall>f evs. ep_interest d f = Some evs \<longrightarrow> evs AND EPOLLIN \<noteq> 0 \<or> evs AND EPOLLOUT \<noteq> 0)"

lemmas epoll_port_ops = EpollDispatcher_add_def EpollDispatcher_modify_def epoll_forget_def epollCtl_port_def
  ctl_or_exit_def epoll_ctl_def Let_def

definition ctl_events :: "pchannel \<Rightarrow> 32 word" where
  "ctl_events ch =
     (let evs = (if m_events ch AND ReadEvent \<noteq> 0 then 0 OR EPOLLIN else 0)
      in if m_events ch AND WriteEvent \<noteq> 0 then evs OR EPOLLOUT else evs)"

lemma epollCtl_bits:
  "ctl_events ch AND EPOLLIN \<noteq> 0 \<longleftrightarrow> fst (pwants ch)"
  "ctl_events ch AND EPOLLOUT \<noteq> 0 \<longleftrightarrow> snd (pwants ch)"
  "epollCtl_port ch d op = epoll_ctl d op (m_fd ch) (ctl_events ch)"
  by (simp_all add: ctl_events_def pwants_def epoll_bits bit.conj_disj_distrib2 epollCtl_port_def)

lemma wanting_iff: "wanting ch \<longleftrightarrow> fst (pwants ch) \<or> snd (pwants ch)"
  by (auto simp: wanting_def prod_eq_iff)

interpretation epoll_watch: rewatchable "epoll_sane valid" epoll_interest "\<lambda>_ _. True" valid
    EpollDispatcher_add epoll_forget EpollDispatcher_modify
proof unfold_locales
  fix d ch
  assume a: "epoll_sane valid d" "valid (m_fd ch)" "wanting ch"
  then have ok: "\<not> ep_refuses d (m_fd ch)" by (simp add: epoll_sane_def)
  note bits = epollCtl_bits [of ch]
  note inter = epoll_interest_def [of d "m_fd ch"]
  have none: "ep_interest d (m_fd ch) = None" if "epoll_interest d (m_fd ch) = (False, False)"
    using that a(1) by (auto simp: inter epoll_sane_def split: option.splits)
  have some: "\<exists>evs. ep_interest d (m_fd ch) = Some evs" if "epoll_interest d (m_fd ch) \<noteq> (False, False)"
    using that by (auto simp: inter split: option.splits)
  show "\<exists>d'. EpollDispatcher_add ch d = Inr (d', 0) \<and> epoll_sane valid d' \<and> True \<and>
      epoll_interest d' = (epoll_interest d)(m_fd ch := pwants ch)"
    if "epoll_interest d (m_fd ch) = (False, False)"
    using a none [OF that] ok bits(1,2)
    by (auto simp: EpollDispatcher_add_def ctl_or_exit_def bits(3) epoll_ctl_def epoll_sane_def epoll_interest_def
        fun_eq_iff prod_eq_iff wanting_iff)
  show "\<exists>d'. epoll_forget ch d = Inr (d', 0) \<and> epoll_sane valid d' \<and> True \<and>
      epoll_interest d' = (epoll_interest d)(m_fd ch := (False, False))"
    if "epoll_interest d (m_fd ch) = pwants ch"
    using a some ok that
    by (auto simp: epoll_forget_def ctl_or_exit_def bits(3) epoll_ctl_def epoll_sane_def epoll_interest_def
        fun_eq_iff wanting_def)
  show "\<exists>d'. EpollDispatcher_modify ch d = Inr (d', 0) \<and> epoll_sane valid d' \<and> True \<and>
      epoll_interest d' = (epoll_interest d)(m_fd ch := pwants ch)"
    if "epoll_interest d (m_fd ch) \<noteq> (False, False)"
    using a some [OF that] ok bits(1,2)
    by (auto simp: EpollDispatcher_modify_def ctl_or_exit_def bits(3) epoll_ctl_def epoll_sane_def epoll_interest_def
        fun_eq_iff prod_eq_iff wanting_iff)
qed

section \<open>poll keeps the contract\<close>

definition used_fds :: "pollfd list \<Rightarrow> int list" where
  "used_fds ps = filter (\<lambda>f. f \<noteq> -1) (map pfd ps)"

definition spare_slots :: "pollfd list \<Rightarrow> nat" where
  "spare_slots ps = length (filter (\<lambda>p. pfd p = -1) ps)"

definition poll_sane :: "poll_data \<Rightarrow> bool" where
  "poll_sane d \<longleftrightarrow> length (fds d) = POLL_MAX \<and> distinct (used_fds (fds d)) \<and>
     (\<forall>p\<in>set (fds d). pfd p \<noteq> -1 \<longrightarrow> 0 \<le> pfd p \<and> (pevents p AND POLLIN \<noteq> 0 \<or> pevents p AND POLLOUT \<noteq> 0)) \<and>
     (\<forall>p\<in>set (drop (Suc (Maxfd d)) (fds d)). pfd p = -1)"

lemma search_split:
  assumes "search P ps < length ps"
  obtains ys p zs where "ps = ys @ p # zs" "search P ps = length ys" "P p" "\<forall>y\<in>set ys. \<not> P y"
proof -
  have "takeWhile (\<lambda>p. \<not> P p) ps \<noteq> ps" using assms by (metis search_def less_irrefl)
  then have "\<exists>x\<in>set ps. P x" by (metis takeWhile_eq_all_conv)
  then obtain ys p zs where s: "ps = ys @ p # zs" "P p" "\<forall>y\<in>set ys. \<not> P y" by (metis split_list_first_prop)
  have "takeWhile (\<lambda>p. \<not> P p) ps = ys" using s by (simp add: takeWhile_append2)
  with that s show thesis by (simp add: search_def)
qed

lemma search_found: "x \<in> set ps \<Longrightarrow> P x \<Longrightarrow> search P ps < length ps"
  by (induction ps) (auto simp: search_def)

lemma find_append: "find P (xs @ ys) = (case find P xs of None \<Rightarrow> find P ys | Some x \<Rightarrow> Some x)"
  by (induction xs) simp_all

lemma find_never [simp]: "find (\<lambda>_. False) xs = None"
  by (induction xs) simp_all

lemma find_slot: "distinct (used_fds ps) \<Longrightarrow> ps = ys @ p # zs \<Longrightarrow> pfd p = f \<Longrightarrow> 0 \<le> f \<Longrightarrow>
    find (\<lambda>q. pfd q = f \<and> 0 \<le> f) ps = Some p \<and> (\<forall>q\<in>set ys \<union> set zs. pfd q \<noteq> f)"
proof -
  assume a: "distinct (used_fds ps)" "ps = ys @ p # zs" "pfd p = f" "0 \<le> f"
  then have "f \<notin> pfd ` (set ys \<union> set zs)" by (auto simp: used_fds_def)
  then have n: "\<forall>q\<in>set ys \<union> set zs. pfd q \<noteq> f" by blast
  then have "find (\<lambda>q. pfd q = f \<and> 0 \<le> f) ys = None" by (auto simp: find_None_iff)
  with a n show ?thesis by (auto simp: find_append)
qed

text \<open>No registered descriptor is beyond the slots that \<open>poll\<close> is given.\<close>

lemma poll_interest_all:
  assumes "poll_sane d"
  shows "poll_interest d f = (case find (\<lambda>p. pfd p = f \<and> 0 \<le> f) (fds d) of
      None \<Rightarrow> (False, False) | Some p \<Rightarrow> (pevents p AND POLLIN \<noteq> 0, pevents p AND POLLOUT \<noteq> 0))"
proof -
  have "find (\<lambda>p. pfd p = f \<and> 0 \<le> f) (drop (Suc (Maxfd d)) (fds d)) = None"
    using assms by (auto simp: poll_sane_def find_None_iff)
  then show ?thesis
    using find_append [of _ "polled d" "drop (Suc (Maxfd d)) (fds d)"]
    by (simp add: poll_interest_def polled_def split: option.split)
qed

lemma poll_interest_slot:
  assumes "poll_sane d" and "fds d = ys @ p # zs" and "0 \<le> pfd p"
  shows "poll_interest d (pfd p) = (pevents p AND POLLIN \<noteq> 0, pevents p AND POLLOUT \<noteq> 0)"
    and "\<forall>q\<in>set ys \<union> set zs. pfd q \<noteq> pfd p"
  using assms find_slot [of "fds d" ys p zs "pfd p"] poll_interest_all [OF assms(1)] by (simp_all add: poll_sane_def)

lemma poll_interest_free:
  assumes "poll_sane d" and "poll_interest d f = (False, False)" and "0 \<le> f"
  shows "\<forall>q\<in>set (fds d). pfd q \<noteq> f"
proof (rule ccontr)
  assume "\<not> ?thesis"
  then obtain q where q: "q \<in> set (fds d)" "pfd q = f" by blast
  obtain ys zs where "fds d = ys @ q # zs" using q(1) by (metis split_list)
  from poll_interest_slot(1) [OF assms(1) this] q assms show False by (auto simp: poll_sane_def)
qed

lemma poll_interest_used:
  assumes "poll_interest d f \<noteq> (False, False)"
  shows "\<exists>q\<in>set (fds d). pfd q = f \<and> 0 \<le> f"
  using assms by (auto simp: poll_interest_def polled_def find_Some_iff split: option.splits)

text \<open>Changing one slot changes the interest of its old and its new descriptor only.\<close>

lemma poll_interest_other:
  assumes "poll_sane d" "poll_sane d'" and "fds d = ys @ p # zs" and "fds d' = ys @ p' # zs" and "pfd p \<noteq> f" and "pfd p' \<noteq> f"
  shows "poll_interest d' f = poll_interest d f"
  using assms by (simp add: poll_interest_all find_append split: option.split)

definition slot_interest :: "pollfd \<Rightarrow> bool \<times> bool" where
  "slot_interest p = (if pfd p = -1 then (False, False) else (pevents p AND POLLIN \<noteq> 0, pevents p AND POLLOUT \<noteq> 0))"

lemma set_drop_nth: "set (drop n xs) = {xs ! i | i. n \<le> i \<and> i < length xs}"
proof -
  have "\<exists>j < length xs - n. i = n + j" if "n \<le> i" "i < length xs" for i
    using that by (intro exI [of _ "i - n"]) simp
  then show ?thesis by (fastforce simp: set_conv_nth)
qed

lemma beyond_stays_free:
  assumes "\<forall>q\<in>set (drop (Suc k) ps). pfd q = -1" and "k \<le> k'" and "ps = ys @ p # zs" and "ps' = ys @ p' # zs"
    and "pfd p' \<noteq> -1 \<Longrightarrow> length ys \<le> k'"
  shows "\<forall>q\<in>set (drop (Suc k') ps'). pfd q = -1"
proof -
  have "pfd (ps' ! i) = -1" if i: "Suc k' \<le> i" "i < length ps'" for i
  proof (cases "i = length ys")
    case True
    then show ?thesis using i assms(4,5) by fastforce
  next
    case False
    then have same: "ps' ! i = ps ! i" unfolding assms(3,4) by (cases "i - length ys") (simp_all add: nth_append)
    have "i < length ps" "Suc k \<le> i" using i assms(2-4) by simp_all
    then have "ps ! i \<in> set (drop (Suc k) ps)" unfolding set_drop_nth by blast
    with same assms(1) show ?thesis by simp
  qed
  then show ?thesis unfolding set_drop_nth by blast
qed

lemma poll_slot_below:
  assumes "poll_sane d" and "fds d = ys @ p # zs" and "pfd p \<noteq> -1"
  shows "length ys \<le> Maxfd d"
proof (rule ccontr)
  assume "\<not> length ys \<le> Maxfd d"
  then have "p \<in> set (drop (Suc (Maxfd d)) (fds d))" using assms(2) by simp
  with assms(1,3) show False by (auto simp: poll_sane_def)
qed

lemma poll_change_slot:
  assumes s: "poll_sane d" and d: "fds d = ys @ p # zs" and d': "fds d' = ys @ p' # zs"
    and p': "pfd p' \<noteq> -1 \<Longrightarrow> 0 \<le> pfd p' \<and> slot_interest p' \<noteq> (False, False) \<and> (\<forall>q\<in>set ys \<union> set zs. pfd q \<noteq> pfd p') \<and> length ys \<le> Maxfd d'"
    and m: "Maxfd d \<le> Maxfd d'"
  shows "poll_sane d'" and "poll_interest d' = (poll_interest d)(pfd p := (False, False), pfd p' := slot_interest p')"
proof -
  have parts: "set (used_fds ys) \<inter> set (used_fds zs) = {}" "distinct (used_fds ys)" "distinct (used_fds zs)"
    using s d by (auto simp: poll_sane_def used_fds_def)
  have new: "pfd p' \<noteq> -1 \<Longrightarrow> pfd p' \<notin> set (used_fds ys) \<union> set (used_fds zs)"
    using p' by (auto simp: used_fds_def)
  have "distinct (used_fds (fds d'))"
    using parts new d' by (auto simp: used_fds_def)
  moreover have "\<forall>q\<in>set (drop (Suc (Maxfd d')) (fds d')). pfd q = -1"
    by (rule beyond_stays_free [OF _ m d d']) (use s p' in \<open>simp_all add: poll_sane_def\<close>)
  moreover have "\<forall>q\<in>set ys \<union> set zs. pfd q \<noteq> -1 \<longrightarrow> 0 \<le> pfd q \<and> (pevents q AND POLLIN \<noteq> 0 \<or> pevents q AND POLLOUT \<noteq> 0)"
    using s d by (auto simp: poll_sane_def)
  moreover have "pfd p' \<noteq> -1 \<longrightarrow> 0 \<le> pfd p' \<and> (pevents p' AND POLLIN \<noteq> 0 \<or> pevents p' AND POLLOUT \<noteq> 0)"
    using p' by (auto simp: slot_interest_def)
  moreover have "length (fds d') = POLL_MAX" using s d d' by (simp add: poll_sane_def)
  ultimately show s': "poll_sane d'"
    unfolding poll_sane_def by (intro conjI) (simp_all add: d' del: drop_append)
  show "poll_interest d' = (poll_interest d)(pfd p := (False, False), pfd p' := slot_interest p')"
  proof
    fix f
    have neg: "poll_interest e (-1) = (False, False)" for e by (simp add: poll_interest_def find_None_iff)
    consider "f = -1" | "f \<noteq> -1" "f = pfd p'" | "f \<noteq> -1" "f \<noteq> pfd p'" "f = pfd p" | "f \<noteq> pfd p'" "f \<noteq> pfd p" by blast
    then show "poll_interest d' f = ((poll_interest d)(pfd p := (False, False), pfd p' := slot_interest p')) f"
    proof cases
      case 1
      then show ?thesis by (simp add: neg slot_interest_def)
    next
      case 2
      with p' poll_interest_slot(1) [OF s' d'] show ?thesis by (simp add: slot_interest_def)
    next
      case 3
      then have "0 \<le> pfd p" using s d by (auto simp: poll_sane_def)
      from poll_interest_slot(2) [OF s d this] 3 d' have "\<forall>q\<in>set (fds d'). pfd q \<noteq> f" by auto
      with poll_interest_used [of d' f] 3 show ?thesis by auto
    next
      case 4
      with poll_interest_other [OF s s' d d'] show ?thesis by auto
    qed
  qed
qed

lemma poll_events_bits:
  "poll_events ch AND POLLIN \<noteq> 0 \<longleftrightarrow> fst (pwants ch)"
  "poll_events ch AND POLLOUT \<noteq> 0 \<longleftrightarrow> snd (pwants ch)"
  by (simp_all add: poll_events_def pwants_def poll_bits bit.conj_disj_distrib2)

lemma slot_interest_events: "pevents p = poll_events ch \<Longrightarrow> 0 \<le> pfd p \<Longrightarrow> slot_interest p = pwants ch"
  by (simp add: slot_interest_def poll_events_bits)

text \<open>The slot a search finds, and the list with that slot changed.\<close>

lemma poll_slot_found:
  assumes "poll_sane d" and "q \<in> set (fds d)" and "P q"
  obtains ys p zs where "fds d = ys @ p # zs" "search P (fds d) = length ys" "length ys < POLL_MAX" "P p"
    "fds d ! length ys = p" "\<forall>p'. (fds d)[length ys := p'] = ys @ p' # zs"
proof -
  from assms have "search P (fds d) < length (fds d)" by (intro search_found)
  from search_split [OF this] obtain ys p zs where s: "fds d = ys @ p # zs" "search P (fds d) = length ys" "P p" by metis
  moreover have "length ys < POLL_MAX" using s(1) assms(1) by (auto simp: poll_sane_def)
  ultimately show thesis using that by simp
qed

interpretation poll_watch: rewatchable poll_sane poll_interest "\<lambda>d n. n \<le> spare_slots (fds d)" "\<lambda>f. 0 \<le> f"
    PollDispatcher_add poll_forget PollDispatcher_modify
proof unfold_locales
  fix d n ch
  assume a: "poll_sane d" "0 \<le> m_fd ch" "wanting ch"
  note w = a(3) [unfolded wanting_def]
  have used: "\<exists>q\<in>set (fds d). pfd q = m_fd ch" if "poll_interest d (m_fd ch) \<noteq> (False, False)"
    using poll_interest_used [OF that] by blast
  show "\<exists>d'. PollDispatcher_add ch d = Inr (d', 0) \<and> poll_sane d' \<and> n \<le> spare_slots (fds d') \<and>
      poll_interest d' = (poll_interest d)(m_fd ch := pwants ch)"
    if room: "Suc n \<le> spare_slots (fds d)" and none: "poll_interest d (m_fd ch) = (False, False)"
  proof -
    from room have "filter (\<lambda>p. pfd p = -1) (fds d) \<noteq> []" by (auto simp: spare_slots_def)
    then obtain q where "q \<in> set (fds d)" "pfd q = -1" by (auto simp: filter_empty_conv)
    then obtain ys p zs where s: "fds d = ys @ p # zs" "search (\<lambda>p. pfd p = -1) (fds d) = length ys" "length ys < POLL_MAX"
        "pfd p = -1" "fds d ! length ys = p" "\<forall>p'. (fds d)[length ys := p'] = ys @ p' # zs"
      by (rule poll_slot_found [OF a(1)]) blast
    define p' where "p' = p\<lparr>pevents := poll_events ch, pfd := m_fd ch\<rparr>"
    define d' where "d' = d\<lparr>fds := ys @ p' # zs, Maxfd := (if Maxfd d < length ys then length ys else Maxfd d)\<rparr>"
    have p': "pfd p' = m_fd ch" "slot_interest p' = pwants ch"
      using a(2) slot_interest_events [of p' ch] by (simp_all add: p'_def)
    have d': "fds d' = ys @ p' # zs" "Maxfd d \<le> Maxfd d'" "length ys \<le> Maxfd d'" by (simp_all add: d'_def)
    have free: "\<forall>q\<in>set ys \<union> set zs. pfd q \<noteq> pfd p'"
      using poll_interest_free [OF a(1) none a(2)] s(1) p'(1) by simp
    have "PollDispatcher_add ch d = Inr (d', 0)"
      using s by (simp add: PollDispatcher_add_def d'_def p'_def)
    moreover have "n \<le> spare_slots (fds d')"
      using room s(1,4) d' p'(1) a(2) by (simp add: spare_slots_def)
    moreover have "poll_interest d (-1) = (False, False)" by (simp add: poll_interest_def find_None_iff)
    ultimately show ?thesis
      using poll_change_slot [OF a(1) s(1) d'(1) _ d'(2)] p' w a(2) s(4) free none d'(3) by (auto simp: fun_eq_iff)
  qed
  show "\<exists>d'. poll_forget ch d = Inr (d', 0) \<and> poll_sane d' \<and> n \<le> spare_slots (fds d') \<and>
      poll_interest d' = (poll_interest d)(m_fd ch := (False, False))"
    if room: "n \<le> spare_slots (fds d)" and on: "poll_interest d (m_fd ch) = pwants ch"
  proof -
    obtain q where "q \<in> set (fds d)" "pfd q = m_fd ch" using used on w by auto
    then obtain ys p zs where s: "fds d = ys @ p # zs" "search (\<lambda>p. pfd p = m_fd ch) (fds d) = length ys" "length ys < POLL_MAX"
        "pfd p = m_fd ch" "fds d ! length ys = p" "\<forall>p'. (fds d)[length ys := p'] = ys @ p' # zs"
      by (rule poll_slot_found [OF a(1)]) blast
    define p' where "p' = p\<lparr>pevents := 0, revents := 0, pfd := -1\<rparr>"
    define d' where "d' = d\<lparr>fds := ys @ p' # zs\<rparr>"
    have d': "fds d' = ys @ p' # zs" "Maxfd d \<le> Maxfd d'" and p': "pfd p' = -1" by (simp_all add: d'_def p'_def)
    have "poll_forget ch d = Inr (d', 0)" using s by (simp add: poll_forget_def d'_def p'_def)
    moreover have "n \<le> spare_slots (fds d')" using room s(1) d' p' by (simp add: spare_slots_def split: if_splits)
    ultimately show ?thesis
      using poll_change_slot [OF a(1) s(1) d'(1) _ d'(2)] p' s(4) by (auto simp: fun_eq_iff poll_interest_def slot_interest_def)
  qed
  show "\<exists>d'. PollDispatcher_modify ch d = Inr (d', 0) \<and> poll_sane d' \<and> n \<le> spare_slots (fds d') \<and>
      poll_interest d' = (poll_interest d)(m_fd ch := pwants ch)"
    if room: "n \<le> spare_slots (fds d)" and on: "poll_interest d (m_fd ch) \<noteq> (False, False)"
  proof -
    obtain q where "q \<in> set (fds d)" "pfd q = m_fd ch" using used on by auto
    then obtain ys p zs where s: "fds d = ys @ p # zs" "search (\<lambda>p. pfd p = m_fd ch) (fds d) = length ys" "length ys < POLL_MAX"
        "pfd p = m_fd ch" "fds d ! length ys = p" "\<forall>p'. (fds d)[length ys := p'] = ys @ p' # zs"
      by (rule poll_slot_found [OF a(1)]) blast
    define p' where "p' = p\<lparr>pevents := poll_events ch\<rparr>"
    define d' where "d' = d\<lparr>fds := ys @ p' # zs\<rparr>"
    have p': "pfd p' = m_fd ch" "slot_interest p' = pwants ch"
      using a(2) s(4) slot_interest_events [of p' ch] by (simp_all add: p'_def)
    have d': "fds d' = ys @ p' # zs" "Maxfd d \<le> Maxfd d'" by (simp_all add: d'_def)
    have below: "length ys \<le> Maxfd d'" using poll_slot_below [OF a(1) s(1)] s(4) a(2) by (simp add: d'_def)
    have others: "\<forall>q\<in>set ys \<union> set zs. pfd q \<noteq> pfd p'"
      using poll_interest_slot(2) [OF a(1) s(1)] s(4) p'(1) a(2) by simp
    have "PollDispatcher_modify ch d = Inr (d', 0)" using s by (simp add: PollDispatcher_modify_def d'_def p'_def)
    moreover have "n \<le> spare_slots (fds d')" using room s(1,4) d' p'(1) a(2) by (simp add: spare_slots_def)
    ultimately show ?thesis
      using poll_change_slot [OF a(1) s(1) d'(1) _ d'(2)] p' w a(2) s(4) others below by (auto simp: fun_eq_iff)
  qed
qed

lemma new_poll_port:
  assumes "new_PollDispatcher = Inr d"
  shows "poll_sane d" and "spare_slots (fds d) = POLL_MAX" and "poll_interest d = (\<lambda>_. (False, False))"
proof -
  have d: "d = \<lparr>Maxfd = 0, fds = replicate POLL_MAX \<lparr>pfd = -1, pevents = 0, revents = 0\<rparr>\<rparr>"
    using assms by (simp add: new_PollDispatcher_def)
  show "poll_sane d" by (auto simp: d poll_sane_def used_fds_def filter_replicate dest: in_set_dropD)
  show "spare_slots (fds d) = POLL_MAX" by (simp add: d spare_slots_def filter_replicate)
  have "find (\<lambda>p. pfd p = f \<and> 0 \<le> f) (polled d) = None" for f
    by (auto simp: d polled_def find_None_iff dest: in_set_takeD)
  then show "poll_interest d = (\<lambda>_. (False, False))" by (simp add: poll_interest_def fun_eq_iff)
qed

text \<open>
  C10: The port's poll dispatcher, unlike the C server's, keeps one slot per descriptor: from its
  constructor, any sequence of at most 1024 registrations, with removals and changes of registered
  descriptors between them, succeeds, and at its end the first \<open>m_maxfd + 1\<close> slots, which are what
  \<open>poll\<close> is given, ask for exactly the events of the abstract set of watched descriptors.
\<close>
theorem poll_port_refines:
  assumes new: "new_PollDispatcher = Inr d0" and n: "registrations ops \<le> 1024"
    and s: "sensible (\<lambda>f. 0 \<le> f) (\<lambda>_. (False, False)) ops"
  shows "\<exists>d. put_all (watch_do PollDispatcher_add poll_forget PollDispatcher_modify) d0 ops = Inr d \<and>
     poll_interest d = fold (\<lambda>op w. watched w op) ops (\<lambda>_. (False, False))"
  using poll_watch.run_watches [of d0 ops] new_poll_port [OF new] n s by (auto simp: POLL_MAX_def)

theorem poll_port_refines_witness:
  "\<exists>d. put_all (watch_do PollDispatcher_add poll_forget PollDispatcher_modify)
      \<lparr>Maxfd = 0, fds = replicate POLL_MAX \<lparr>pfd = -1, pevents = 0, revents = 0\<rparr>\<rparr>
      [Watch (new_pchannel 5 ReadEvent None None None LoopArg), Watch (new_pchannel 7 ReadEvent None None None LoopArg),
       Rewatch (new_pchannel 5 WriteEvent None None None LoopArg), Unwatch (new_pchannel 7 ReadEvent None None None LoopArg)]
      = Inr d \<and> poll_interest d 5 = (False, True) \<and> poll_interest d 7 = (False, False)"
proof -
  let ?ops = "[Watch (new_pchannel 5 ReadEvent None None None LoopArg), Watch (new_pchannel 7 ReadEvent None None None LoopArg),
       Rewatch (new_pchannel 5 WriteEvent None None None LoopArg), Unwatch (new_pchannel 7 ReadEvent None None None LoopArg)]"
  have "sensible (\<lambda>f. 0 \<le> f) (\<lambda>_. (False, False)) ?ops"
    by (simp add: wanting_def pwants_def new_pchannel_def ReadEvent_def WriteEvent_def)
  from poll_port_refines [OF new_PollDispatcher_def _ this] obtain d where
    d: "put_all (watch_do PollDispatcher_add poll_forget PollDispatcher_modify)
      \<lparr>Maxfd = 0, fds = replicate POLL_MAX \<lparr>pfd = -1, pevents = 0, revents = 0\<rparr>\<rparr> ?ops = Inr d"
    and i: "poll_interest d = fold (\<lambda>op w. watched w op) ?ops (\<lambda>_. (False, False))"
    by auto
  have "poll_interest d 5 = (False, True)" "poll_interest d 7 = (False, False)"
    unfolding i by (simp_all add: pwants_def new_pchannel_def ReadEvent_def WriteEvent_def)
  with d show ?thesis by blast
qed

end
