(* ===== verification/Port_Connection.thy ===== *)
theory Port_Connection
  imports Port_Serve Port_Dispatch Tcp_Connection
begin

text \<open>
  \<open>old/ReactorHttp_cpp/TcpConnection.cpp\<close>, compiled as the repository has it (\<open>MSG_SEND_AUTO\<close> is
  not defined). The record \<open>pconn\<close> is \<open>class TcpConnection\<close>; the connections live on a heap of
  their own in the loop that owns them (\<open>pconn_loop\<close>), next to the bytes sent and the number of
  reads made. The environment is the record \<open>world\<close> of the C server's connections; \<open>tmp\<close> is the
  temporary block of \<open>socketRead\<close>. The locale \<open>connections\<close> derives the life of a connection from
  the contracts of the queue (\<open>draining\<close>) and of a dispatcher (\<open>watch_set\<close>), and is interpreted
  on all three dispatchers.
\<close>

record pconn =
  pc_name :: string
  pc_channel :: nat
  pc_readBuf :: buffer
  pc_writeBuf :: buffer
  pc_request :: port_request
  pc_response :: port_response

record 'd pconn_loop = "'d ploop" +
  pconns :: "nat \<rightharpoonup> pconn"
  freshpconn :: nat
  pnet :: os
  preads :: nat

definition pconn_at :: "('d, 'a) pconn_loop_scheme \<Rightarrow> nat \<Rightarrow> pconn result" where
  "pconn_at l c = (case pconns l c of None \<Rightarrow> Inl UseAfterFree | Some x \<Rightarrow> Inr x)"

section \<open>The operations\<close>

text \<open>
  The destructor frees what the connection owns, and has the loop close the descriptor, only when
  both buffers are empty; the connection itself is gone in any case.
\<close>

definition delete_TcpConnection :: "nat \<Rightarrow> ('d, 'a) pconn_loop_scheme \<Rightarrow> ('d, 'a) pconn_loop_scheme result" where
  "delete_TcpConnection c l =
     rbind (pconn_at l c) (\<lambda>conn.
     rbind (if readableSize (pc_readBuf conn) = 0 \<and> readableSize (pc_writeBuf conn) = 0
            then rbind (freeChannel l (pc_channel conn)) (\<lambda>(l', _). Inr l') else Inr l) (\<lambda>l1.
       Inr (l1\<lparr>pconns := (pconns l1)(c := None)\<rparr>)))"

definition destroy_port :: "nat \<Rightarrow> ('d, 'a) pconn_loop_scheme \<Rightarrow> (('d, 'a) pconn_loop_scheme \<times> int) result" where
  "destroy_port c l = rbind (delete_TcpConnection c l) (\<lambda>l'. Inr (l', 0))"

text \<open>The only destroy callback ever stored, as the dispatchers call it.\<close>

definition destroy_handler :: "handler \<Rightarrow> cb_arg \<Rightarrow> ('d, 'a) pconn_loop_scheme \<Rightarrow> ('d, 'a) pconn_loop_scheme result" where
  "destroy_handler f x l =
     (case (f, x) of
        (Conn_destroy, ConnArg c) \<Rightarrow> rbind (destroy_port c l) (\<lambda>(l', _). Inr l')
      | _ \<Rightarrow> Inl WildPointer)"

definition new_TcpConnection_port ::
  "('d, 'a pconn_loop_ext, 'r) virtuals \<Rightarrow> world \<Rightarrow> nat \<Rightarrow> ('d, 'a) pconn_loop_scheme \<Rightarrow> int \<Rightarrow>
   (('d, 'a) pconn_loop_scheme \<times> nat) result" where
  "new_TcpConnection_port V W self l f =
     rbind (new_port_Buffer (w_al W) 10240) (\<lambda>rb.
     rbind (new_port_Buffer (w_al W) 10240) (\<lambda>wb.
       let c = freshpconn l;
           ch = new_pchannel f ReadEvent (Some Conn_processRead) (Some Conn_processWrite) (Some Conn_destroy) (ConnArg c);
           (l1, a) = new_pchan l ch;
           conn = \<lparr>pc_name = ''Connection-'' @ dec f, pc_channel = a, pc_readBuf = rb, pc_writeBuf = wb,
                   pc_request = new_HttpRequest, pc_response = new_HttpResponse\<rparr>;
           l2 = l1\<lparr>pconns := (pconns l1)(c \<mapsto> conn), freshpconn := Suc c\<rparr> in
       rbind (addTask V destroy_handler self l2 a ADD) (\<lambda>(l3, _). Inr (l3, c))))"

definition bad_request_port :: string where
  "bad_request_port = ''Http/1.1 400 Bad Request'' @ CRLF @ CRLF"

definition processRead_port ::
  "('d, 'a pconn_loop_ext, 'r) virtuals \<Rightarrow> world \<Rightarrow> char list option \<Rightarrow> nat \<Rightarrow> nat \<Rightarrow> ('d, 'a) pconn_loop_scheme \<Rightarrow>
   (('d, 'a) pconn_loop_scheme \<times> int) result" where
  "processRead_port V W tmp self c l =
     rbind (pconn_at l c) (\<lambda>conn.
     rbind (pchannel_at l (pc_channel conn)) (\<lambda>ch.
     rbind (socketRead (w_al W) tmp (pc_readBuf conn) (w_recv W (preads l) (m_fd ch))) (\<lambda>(rb1, count).
     rbind (print_unread W rb1) (\<lambda>_.
     rbind (if 0 < count then
              rbind (parseHttpRequest_port (w_files W) (w_al W) (w_send W) (pc_request conn) rb1 (pc_response conn)
                       (pc_writeBuf conn) (m_fd ch) (pnet l)) (\<lambda>(r, rb2, (resp, wb2, s), flag).
              rbind (if \<not> flag then rbind (appendStdString (w_al W) wb2 bad_request_port) (\<lambda>(wb3, _). Inr wb3)
                     else Inr wb2) (\<lambda>wb3.
                Inr (conn\<lparr>pc_readBuf := rb2, pc_writeBuf := wb3, pc_request := r, pc_response := resp\<rparr>, s)))
            else Inr (conn\<lparr>pc_readBuf := rb1\<rparr>, pnet l)) (\<lambda>(conn', s).
     rbind (addTask V destroy_handler self
              (l\<lparr>pconns := (pconns l)(c \<mapsto> conn'), pnet := s, preads := Suc (preads l)\<rparr>) (pc_channel conn) DELETE)
       (\<lambda>(l2, _). Inr (l2, 0)))))))"

definition processWrite_port ::
  "('d, 'a pconn_loop_ext, 'r) virtuals \<Rightarrow> world \<Rightarrow> nat \<Rightarrow> nat \<Rightarrow> ('d, 'a) pconn_loop_scheme \<Rightarrow>
   (('d, 'a) pconn_loop_scheme \<times> int) result" where
  "processWrite_port V W self c l =
     rbind (pconn_at l c) (\<lambda>conn.
     rbind (pchannel_at l (pc_channel conn)) (\<lambda>ch.
     rbind (sendData (w_send W) (pc_writeBuf conn) (m_fd ch) (pnet l)) (\<lambda>(wb1, s, count).
       let l1 = l\<lparr>pconns := (pconns l)(c \<mapsto> conn\<lparr>pc_writeBuf := wb1\<rparr>), pnet := s\<rparr> in
       if 0 < count \<and> readableSize wb1 = 0 then
         rbind (addTask V destroy_handler self
                  (l1\<lparr>pchans := (pchans l1)(pc_channel conn \<mapsto> writeEventEnable_port ch False)\<rparr>)
                  (pc_channel conn) MODIFY) (\<lambda>(l2, _).
         rbind (addTask V destroy_handler self l2 (pc_channel conn) DELETE) (\<lambda>(l3, _). Inr (l3, 0)))
       else Inr (l1, 0))))"

text \<open>The callbacks of a worker's loop.\<close>

definition port_call ::
  "('d, 'a pconn_loop_ext, 'r) virtuals \<Rightarrow> world \<Rightarrow> char list option \<Rightarrow> nat \<Rightarrow> handler \<Rightarrow> cb_arg \<Rightarrow>
   ('d, 'a) pconn_loop_scheme \<Rightarrow> ('d, 'a) pconn_loop_scheme result" where
  "port_call V W tmp self f x l =
     (case (f, x) of
        (Conn_processRead, ConnArg c) \<Rightarrow> rbind (processRead_port V W tmp self c l) (\<lambda>(l', _). Inr l')
      | (Conn_processWrite, ConnArg c) \<Rightarrow> rbind (processWrite_port V W self c l) (\<lambda>(l', _). Inr l')
      | (Conn_destroy, ConnArg c) \<Rightarrow> rbind (destroy_port c l) (\<lambda>(l', _). Inr l')
      | (Loop_readMessage, LoopArg) \<Rightarrow> rbind (readMessage l) (\<lambda>(l', _). Inr l')
      | _ \<Rightarrow> Inl WildPointer)"

section \<open>The destroy callback keeps to its frame\<close>

lemma destroy_handler_frame:
  "destroy_handler f x l = Inr l' \<Longrightarrow>
   m_taskQ l' = m_taskQ l \<and> m_threadID l' = m_threadID l \<and> m_dispatcher l' = m_dispatcher l \<and> pending l' = pending l"
  by (auto simp: destroy_handler_def destroy_port_def delete_TcpConnection_def freeChannel_def
      split: handler.splits cb_arg.splits if_splits)

interpretation port_select: draining SelectDispatcher select_forget destroy_handler
proof
  show "v_remove SelectDispatcher destroy_handler ch l =
      rbind (select_forget ch (m_dispatcher l)) (\<lambda>(d, ret).
      rbind (call_function destroy_handler (destroyCallback ch) (m_arg ch) (l\<lparr>m_dispatcher := d\<rparr>)) (\<lambda>l'. Inr (l', ret)))"
    for ch and l :: "(select_data, 'b) pconn_loop_scheme"
    by (simp add: SelectDispatcher_def SelectDispatcher_remove_def select_forget_def rbind_assoc)
qed (rule destroy_handler_frame)

interpretation poll_loop: draining PollDispatcher poll_forget destroy_handler
proof
  show "v_remove PollDispatcher destroy_handler ch l =
      rbind (poll_forget ch (m_dispatcher l)) (\<lambda>(d, ret).
      rbind (call_function destroy_handler (destroyCallback ch) (m_arg ch) (l\<lparr>m_dispatcher := d\<rparr>)) (\<lambda>l'. Inr (l', ret)))"
    for ch and l :: "(poll_data, 'b) pconn_loop_scheme"
    by (simp add: PollDispatcher_def PollDispatcher_remove_def)
qed (rule destroy_handler_frame)

interpretation epoll_loop: draining EpollDispatcher epoll_forget destroy_handler
proof
  show "v_remove EpollDispatcher destroy_handler ch l =
      rbind (epoll_forget ch (m_dispatcher l)) (\<lambda>(d, ret).
      rbind (call_function destroy_handler (destroyCallback ch) (m_arg ch) (l\<lparr>m_dispatcher := d\<rparr>)) (\<lambda>l'. Inr (l', ret)))"
    for ch and l :: "(epoll_data, 'b) pconn_loop_scheme"
    by (simp add: EpollDispatcher_def EpollDispatcher_remove_def)
qed (rule destroy_handler_frame)

section \<open>The life of a connection\<close>

text \<open>A loop with nothing queued, in its own thread, and a connection in its tables.\<close>

definition pidle :: "nat \<Rightarrow> ('d, 'a) ploop_scheme \<Rightarrow> bool" where
  "pidle self l \<longleftrightarrow> m_taskQ l = [] \<and> m_threadID l = self"

definition pconn_chan :: "nat \<Rightarrow> int \<Rightarrow> pchannel" where
  "pconn_chan c f =
     new_pchannel f ReadEvent (Some Conn_processRead) (Some Conn_processWrite) (Some Conn_destroy) (ConnArg c)"

definition pconnected :: "('d, 'a) pconn_loop_scheme \<Rightarrow> nat \<Rightarrow> pconn \<Rightarrow> int \<Rightarrow> bool" where
  "pconnected l c conn f \<longleftrightarrow> pconns l c = Some conn \<and> pchans l (pc_channel conn) = Some (pconn_chan c f) \<and>
     m_channelMap l f = Some (Some (pc_channel conn))"

definition pdrained :: "pconn \<Rightarrow> bool" where
  "pdrained conn \<longleftrightarrow> readableSize (pc_readBuf conn) = 0 \<and> readableSize (pc_writeBuf conn) = 0"

definition pfresh :: "pconn \<Rightarrow> bool" where
  "pfresh conn \<longleftrightarrow> pc_readBuf conn = empty_buffer \<and> pc_writeBuf conn = empty_buffer \<and>
     pc_request conn = new_HttpRequest \<and> pc_response conn = new_HttpResponse"

text \<open>The loop after a connection was deleted, \<open>d\<close> being the dispatcher that has forgotten it.\<close>

definition taken_down :: "'d \<Rightarrow> nat \<Rightarrow> pconn \<Rightarrow> int \<Rightarrow> ('d, 'a) pconn_loop_scheme \<Rightarrow> ('d, 'a) pconn_loop_scheme" where
  "taken_down d c conn f l =
     (if pdrained conn
      then l\<lparr>m_dispatcher := d, m_channelMap := (m_channelMap l)(f := None), pclosed := pclosed l @ [f],
             pchans := (pchans l)(pc_channel conn := None), pconns := (pconns l)(c := None)\<rparr>
      else l\<lparr>m_dispatcher := d, pconns := (pconns l)(c := None)\<rparr>)"

lemma pconn_chan_simps [simp]:
  "m_fd (pconn_chan c f) = f" "readCallback (pconn_chan c f) = Some Conn_processRead"
  "destroyCallback (pconn_chan c f) = Some Conn_destroy" "m_arg (pconn_chan c f) = ConnArg c"
  "pwants (pconn_chan c f) = (True, False)" "wanting (pconn_chan c f)"
  by (simp_all add: pconn_chan_def new_pchannel_def pwants_def wanting_def ReadEvent_def WriteEvent_def)

lemma destroy_handler_eq:
  assumes "pconnected l c conn f"
  shows "call_function destroy_handler (Some Conn_destroy) (ConnArg c) (l\<lparr>m_dispatcher := d\<rparr>) =
     Inr (taken_down d c conn f l)"
  using assms
  by (simp add: pconnected_def call_function_def destroy_handler_def destroy_port_def delete_TcpConnection_def
      pconn_at_def freeChannel_def pchannel_at_def taken_down_def pdrained_def)

lemma taken_down_fields [simp]:
  "m_taskQ (taken_down d c conn f l) = m_taskQ l" "m_threadID (taken_down d c conn f l) = m_threadID l"
  "m_dispatcher (taken_down d c conn f l) = d" "pconns (taken_down d c conn f l) c = None"
  "pnet (taken_down d c conn f l) = pnet l" "preads (taken_down d c conn f l) = preads l"
  "m_isQuit (taken_down d c conn f l) = m_isQuit l" "pending (taken_down d c conn f l) = pending l"
  "m_socketPair (taken_down d c conn f l) = m_socketPair l"
  by (simp_all add: taken_down_def)

text \<open>What a connection needs of the loop's dispatcher.\<close>

locale connections = draining V remove_data destroy_handler + watch_set inv interest room valid "v_add V" remove_data
  for V :: "('d, 'b pconn_loop_ext, 'r) virtuals"
    and remove_data :: "pchannel \<Rightarrow> 'd \<Rightarrow> ('d \<times> int) result"
    and inv :: "'d \<Rightarrow> bool"
    and interest :: "'d \<Rightarrow> interest"
    and room :: "'d \<Rightarrow> nat \<Rightarrow> bool"
    and valid :: "int \<Rightarrow> bool"
begin

lemma delete_connection:
  assumes idle: "pidle self l" and conn: "pconnected l c conn f" and d: "inv (m_dispatcher l)" "room (m_dispatcher l) n"
    and f: "valid f" "interest (m_dispatcher l) f = (True, False)"
  shows "\<exists>d'. addTask V destroy_handler self l (pc_channel conn) DELETE = Inr (taken_down d' c conn f l, 0) \<and>
     inv d' \<and> room d' n \<and> interest d' = (interest (m_dispatcher l))(f := (False, False))"
proof -
  let ?ch = "pconn_chan c f"
  have ch: "pchans l (pc_channel conn) = Some ?ch" "m_channelMap l f = Some (Some (pc_channel conn))"
    using conn by (simp_all add: pconnected_def)
  obtain d' where d': "remove_data ?ch (m_dispatcher l) = Inr (d', 0)" "inv d'" "room d' n"
      "interest d' = (interest (m_dispatcher l))(f := (False, False))"
    using remove_law [OF d, of ?ch] f by auto
  have "perform_task V destroy_handler l (DELETE, pc_channel conn) = Inr (taken_down d' c conn f l)"
    using ch d'(1) destroy_handler_eq [OF conn, of d']
    by (simp add: perform_task_def loop_remove_def pchannel_at_def remove_frame)
  with d'(2-4) idle show ?thesis by (auto simp: pidle_def add_task_here)
qed

text \<open>Registering a connection, in the loop's own thread or by its queue.\<close>

lemma perform_add:
  assumes ch: "pchans l a = Some ch" "wanting ch" and d: "inv (m_dispatcher l)" "room (m_dispatcher l) (Suc n)"
    and f: "valid (m_fd ch)" "interest (m_dispatcher l) (m_fd ch) = (False, False)" "m_channelMap l (m_fd ch) = None"
  shows "\<exists>d'. perform_task V destroy_handler l (ADD, a) =
      Inr (l\<lparr>m_channelMap := (m_channelMap l)(m_fd ch \<mapsto> Some a), m_dispatcher := d'\<rparr>) \<and>
     inv d' \<and> room d' n \<and> interest d' = (interest (m_dispatcher l))(m_fd ch := pwants ch)"
proof -
  obtain d' where "v_add V ch (m_dispatcher l) = Inr (d', 0)" "inv d'" "room d' n"
      "interest d' = (interest (m_dispatcher l))(m_fd ch := pwants ch)"
    using add_law [OF d f(1) ch(2) f(2)] by blast
  with ch(1) f(3) show ?thesis
    by (intro exI [of _ d']) (simp add: perform_task_def loop_add_def pchannel_at_def)
qed

end

section \<open>What arrives on a connection\<close>

lemma new_port_Buffer_empty: "granted W \<Longrightarrow> new_port_Buffer (w_al W) 10240 = Inr empty_buffer"
  by (simp add: new_port_Buffer_eq initBuffer_empty)

lemma port_receive_fresh:
  assumes "length bs < 10240"
  shows "\<exists>rb. socketRead al tmp empty_buffer (Some bs) = Inr (rb, int (length bs)) \<and> buf_inv rb \<and>
     contents rb = bs \<and> print_unread W rb = Inr ()"
proof -
  obtain rb where rb: "socketReadBuffer al empty_buffer (Some bs) = Inr (rb, int (length bs))" "print_unread W rb = Inr ()"
    using receive_fresh [OF assms] by blast
  have "int (length bs) \<le> writeableSize empty_buffer" using assms by (simp add: writeableSize_def empty_buffer_def)
  from socketRead_fits [OF empty_buffer_inv(1) this, of al tmp] rb empty_buffer_inv(2) show ?thesis by auto
qed

lemma decided_head_length: "servable F u body shut \<Longrightarrow> length (decided_head F u) \<le> 10240"
proof -
  assume "servable F u body shut"
  then have "length (dec (st_size st)) \<le> 19" if "fstat F (named_file u) = Some st" "\<not> st_isdir st" for st
    using that dec_length64 [of "st_size st"] by (simp add: servable_def)
  then show ?thesis
    using getFileType_length [of "named_file u"] by (fastforce simp: decided_head_def split: option.split)
qed

lemma drained_read:
  assumes "buf_inv rb" and "contents rb = []" and "drained wb cap"
  shows "pdrained (conn\<lparr>pc_readBuf := rb, pc_writeBuf := wb, pc_request := r, pc_response := resp\<rparr>)"
  using assms length_contents [of rb] length_contents [of wb] by (simp add: pdrained_def drained_def port_sizes)

text \<open>The first event on a fresh connection, by what the parser makes of the bytes.\<close>

lemma processRead_port_parsed:
  assumes conn: "pconnected l c conn f" and fr: "pfresh conn"
    and recv: "w_recv W (preads l) f = Some bs" "bs \<noteq> []" "length bs < 10240"
    and parse: "\<And>rb. buf_inv rb \<Longrightarrow> contents rb = bs \<Longrightarrow>
      \<exists>r rb' resp wb' s' flag wb'' conn'. parseHttpRequest_port (w_files W) (w_al W) (w_send W) new_HttpRequest rb new_HttpResponse
          empty_buffer f (pnet l) = Inr (r, rb', (resp, wb', s'), flag) \<and>
        (if flag then wb'' = wb' else rbind (appendStdString (w_al W) wb' bad_request_port) (\<lambda>(b, _). Inr b) = Inr wb'') \<and>
        conn' = conn\<lparr>pc_readBuf := rb', pc_writeBuf := wb'', pc_request := r, pc_response := resp\<rparr> \<and> Q conn' s'"
  shows "\<exists>conn' s'. pc_channel conn' = pc_channel conn \<and> Q conn' s' \<and>
     processRead_port V W tmp self c l =
       rbind (addTask V destroy_handler self (l\<lparr>pconns := (pconns l)(c \<mapsto> conn'), pnet := s', preads := Suc (preads l)\<rparr>)
         (pc_channel conn) DELETE) (\<lambda>(l2, _). Inr (l2, 0))"
proof -
  obtain rb where rb: "socketRead (w_al W) tmp empty_buffer (Some bs) = Inr (rb, int (length bs))"
      "buf_inv rb" "contents rb = bs" "print_unread W rb = Inr ()"
    using port_receive_fresh [OF recv(3)] by blast
  obtain r rb' resp wb' s' flag wb'' conn' where p: "parseHttpRequest_port (w_files W) (w_al W) (w_send W) new_HttpRequest rb
        new_HttpResponse empty_buffer f (pnet l) = Inr (r, rb', (resp, wb', s'), flag)"
      "if flag then wb'' = wb' else rbind (appendStdString (w_al W) wb' bad_request_port) (\<lambda>(b, _). Inr b) = Inr wb''"
      "conn' = conn\<lparr>pc_readBuf := rb', pc_writeBuf := wb'', pc_request := r, pc_response := resp\<rparr>" "Q conn' s'"
    using parse [OF rb(2,3)] by blast
  have "processRead_port V W tmp self c l =
       rbind (addTask V destroy_handler self (l\<lparr>pconns := (pconns l)(c \<mapsto> conn'), pnet := s', preads := Suc (preads l)\<rparr>)
         (pc_channel conn) DELETE) (\<lambda>(l2, _). Inr (l2, 0))"
    using conn fr recv(1,2) rb(1,4) p(1,2) unfolding p(3)
    by (cases flag) (auto simp: processRead_port_def pconnected_def pfresh_def pconn_at_def pchannel_at_def)
  with p(3,4) show ?thesis by (intro exI [of _ conn'] exI [of _ s']) simp
qed

lemma pconnected_update:
  "pconnected l c conn f \<Longrightarrow> pc_channel conn' = pc_channel conn \<Longrightarrow>
   pconnected (l\<lparr>pconns := (pconns l)(c \<mapsto> conn'), pnet := s, preads := n\<rparr>) c conn' f"
  by (simp add: pconnected_def)

text \<open>A fresh connection whose loop waits for it, and the answer to what arrives.\<close>

definition waits_for_request :: "('d \<Rightarrow> interest) \<Rightarrow> ('d, 'a) pconn_loop_scheme \<Rightarrow> nat \<Rightarrow> int \<Rightarrow> bool" where
  "waits_for_request interest l c f \<longleftrightarrow> m_taskQ l = [] \<and> interest (m_dispatcher l) f = (True, False) \<and>
     (\<exists>conn. pconnected l c conn f \<and> pfresh conn)"

definition answers ::
  "('d, 'a pconn_loop_ext, 'r) virtuals \<Rightarrow> ('d \<Rightarrow> interest) \<Rightarrow> world \<Rightarrow> char list option \<Rightarrow> ('d, 'a) pconn_loop_scheme \<Rightarrow>
   nat \<Rightarrow> int \<Rightarrow> char list \<Rightarrow> int list \<Rightarrow> bool" where
  "answers V interest W tmp l c f out shut \<longleftrightarrow>
     (\<exists>l'. processRead_port V W tmp (m_threadID l) c l = Inr (l', 0) \<and> sent (pnet l) f out shut (pnet l') \<and>
        pclosed l' = pclosed l @ [f] \<and> pconns l' c = None \<and> m_channelMap l' f = None \<and>
        interest (m_dispatcher l') = (interest (m_dispatcher l))(f := (False, False)))"

context connections
begin

lemma read_then_delete:
  assumes idle: "pidle self l" and conn: "pconnected l c conn f" and d: "inv (m_dispatcher l)" "room (m_dispatcher l) n"
    and f: "valid f" "interest (m_dispatcher l) f = (True, False)" and ch: "pc_channel conn' = pc_channel conn"
  shows "\<exists>d'. rbind (addTask V destroy_handler self (l\<lparr>pconns := (pconns l)(c \<mapsto> conn'), pnet := s, preads := k\<rparr>)
         (pc_channel conn) DELETE) (\<lambda>(l2, _). Inr (l2, 0 :: int)) =
       Inr (taken_down d' c conn' f (l\<lparr>pconns := (pconns l)(c \<mapsto> conn'), pnet := s, preads := k\<rparr>), 0) \<and>
     inv d' \<and> room d' n \<and> interest d' = (interest (m_dispatcher l))(f := (False, False))"
proof -
  let ?l = "l\<lparr>pconns := (pconns l)(c \<mapsto> conn'), pnet := s, preads := k\<rparr>"
  have "pidle self ?l" "inv (m_dispatcher ?l)" "room (m_dispatcher ?l) n" "interest (m_dispatcher ?l) f = (True, False)"
    using idle d f(2) by (simp_all add: pidle_def)
  from delete_connection [OF this(1) pconnected_update [OF conn ch] this(2,3) f(1) this(4)] ch
  show ?thesis by auto
qed

text \<open>A complete GET request is answered and the connection closed.\<close>

lemma read_get:
  assumes idle: "pidle self l" and conn: "pconnected l c conn f" and fr: "pfresh conn"
    and d: "inv (m_dispatcher l)" "room (m_dispatcher l) n" "valid f" "interest (m_dispatcher l) f = (True, False)"
    and W: "granted W" "accepts_all (w_send W)"
    and req: "readable_request m u v hs" "strcasecmp_eq m ''get''" "length (print_request m u v hs) < 10240"
    and recv: "w_recv W (preads l) f = Some (print_request m u v hs)" and srv: "servable (w_files W) u body shut"
  shows "\<exists>conn' d' l'. processRead_port V W tmp self c l = Inr (l', 0) \<and>
     l' = taken_down d' c conn' f (l\<lparr>pconns := (pconns l)(c \<mapsto> conn'), pnet := pnet l', preads := Suc (preads l)\<rparr>) \<and>
     pdrained conn' \<and> pc_channel conn' = pc_channel conn \<and> sent (pnet l) f (decided_head (w_files W) u @ body) shut (pnet l') \<and>
     inv d' \<and> room d' n \<and> interest d' = (interest (m_dispatcher l))(f := (False, False))"
proof -
  let ?Q = "\<lambda>conn' s'. pdrained conn' \<and> sent (pnet l) f (decided_head (w_files W) u @ body) shut s'"
  have "\<exists>r rb' resp wb' s' flag wb'' conn'. parseHttpRequest_port (w_files W) (w_al W) (w_send W) new_HttpRequest rb new_HttpResponse
          empty_buffer f (pnet l) = Inr (r, rb', (resp, wb', s'), flag) \<and>
        (if flag then wb'' = wb' else rbind (appendStdString (w_al W) wb' bad_request_port) (\<lambda>(b, _). Inr b) = Inr wb'') \<and>
        conn' = conn\<lparr>pc_readBuf := rb', pc_writeBuf := wb'', pc_request := r, pc_response := resp\<rparr> \<and> ?Q conn' s'"
    if rb: "buf_inv rb" "contents rb = print_request m u v hs" for rb
  proof -
    have ready: "ready (w_al W) empty_buffer 10240 (length (decided_head (w_files W) u))"
      using empty_buffer_ready [OF W(1) decided_head_length [OF srv]] .
    have "contents rb = print_request m u v hs @ []" using rb(2) by simp
    from serve_port [OF rb(1) this req(1,2) srv W(2) ready, of f "pnet l"]
    obtain r' rb' wb' s' where "parseHttpRequest_port (w_files W) (w_al W) (w_send W) new_HttpRequest rb new_HttpResponse
          empty_buffer f (pnet l) = Inr (r', rb', (decided (w_files W) u, wb', s'), True)" "buf_inv rb'" "contents rb' = []"
        "drained wb' 10240" "sent (pnet l) f (decided_head (w_files W) u @ body) shut s'"
      by auto
    with drained_read [where rb = rb' and wb = wb' and cap = 10240 and conn = conn and r = r' and resp = "decided (w_files W) u"] show ?thesis by fastforce
  qed
  from processRead_port_parsed [where Q = ?Q and V = V and tmp = tmp and self = self,
      OF conn fr recv print_request_nonempty req(3) this]
  obtain conn' s' where 1: "pc_channel conn' = pc_channel conn" "pdrained conn'"
      "sent (pnet l) f (decided_head (w_files W) u @ body) shut s'"
      "processRead_port V W tmp self c l =
       rbind (addTask V destroy_handler self (l\<lparr>pconns := (pconns l)(c \<mapsto> conn'), pnet := s', preads := Suc (preads l)\<rparr>)
         (pc_channel conn) DELETE) (\<lambda>(l2, _). Inr (l2, 0))"
    by blast
  let ?l = "l\<lparr>pconns := (pconns l)(c \<mapsto> conn'), pnet := s', preads := Suc (preads l)\<rparr>"
  obtain d' where 2: "processRead_port V W tmp self c l = Inr (taken_down d' c conn' f ?l, 0)"
      "inv d'" "room d' n" "interest d' = (interest (m_dispatcher l))(f := (False, False))"
    using read_then_delete [where s = s' and k = "Suc (preads l)", OF idle conn d 1(1)] unfolding 1(4) by blast
  with 1(1-3) show ?thesis
    by (intro exI [of _ conn'] exI [of _ d'] exI [of _ "taken_down d' c conn' f ?l"]) simp
qed

lemma answers_get:
  assumes w: "waits_for_request interest l c f" and d: "inv (m_dispatcher l)" "room (m_dispatcher l) n" "valid f"
    and W: "granted W" "accepts_all (w_send W)"
    and req: "readable_request m u v hs" "strcasecmp_eq m ''get''" "length (print_request m u v hs) < 10240"
    and recv: "\<forall>k. w_recv W k f = Some (print_request m u v hs)" and srv: "servable (w_files W) u body shut"
  shows "answers V interest W tmp l c f (decided_head (w_files W) u @ body) shut"
proof -
  obtain conn where conn: "pconnected l c conn f" "pfresh conn" "interest (m_dispatcher l) f = (True, False)"
      "pidle (m_threadID l) l"
    using w by (auto simp: waits_for_request_def pidle_def)
  obtain conn' d' l' where r: "processRead_port V W tmp (m_threadID l) c l = Inr (l', 0)"
      "l' = taken_down d' c conn' f (l\<lparr>pconns := (pconns l)(c \<mapsto> conn'), pnet := pnet l', preads := Suc (preads l)\<rparr>)"
      "pdrained conn'" "sent (pnet l) f (decided_head (w_files W) u @ body) shut (pnet l')"
      "interest d' = (interest (m_dispatcher l))(f := (False, False))"
    using read_get [OF conn(4,1,2) d conn(3) W req recv [rule_format] srv] by blast
  have "pclosed l' = pclosed l @ [f]" "pconns l' c = None" "m_channelMap l' f = None" "m_dispatcher l' = d'"
    by (subst r(2), use r(3) in \<open>simp add: taken_down_def\<close>)+
  with r(1,4,5) show ?thesis by (auto simp: answers_def)
qed

text \<open>A peer that closes, or a failed read: the connection is closed here, too.\<close>

lemma read_nothing:
  assumes idle: "pidle self l" and conn: "pconnected l c conn f" and fr: "pfresh conn"
    and d: "inv (m_dispatcher l)" "room (m_dispatcher l) n" "valid f" "interest (m_dispatcher l) f = (True, False)"
    and recv: "w_recv W (preads l) f = None \<or> w_recv W (preads l) f = Some []"
  shows "\<exists>d'. processRead_port V W tmp self c l = Inr (taken_down d' c conn f (l\<lparr>preads := Suc (preads l)\<rparr>), 0) \<and>
     pdrained conn \<and> inv d' \<and> room d' n \<and> interest d' = (interest (m_dispatcher l))(f := (False, False))"
proof -
  have "socketRead (w_al W) tmp empty_buffer (Some []) = Inr (empty_buffer, 0)"
    using socketRead_fits [OF empty_buffer_inv(1), of "[]" "w_al W" tmp]
    by (auto simp: socketRead_def empty_buffer_def writeableSize_def store_def blit_def)
  then obtain k where k: "socketRead (w_al W) tmp empty_buffer (w_recv W (preads l) f) = Inr (empty_buffer, k)" "k \<le> 0"
    using recv by (auto simp: socketRead_def)
  have p: "print_unread W empty_buffer = Inr ()" by (simp add: print_unread_def empty_buffer_def)
  have same: "conn\<lparr>pc_readBuf := empty_buffer\<rparr> = conn" "(pconns l)(c \<mapsto> conn) = pconns l"
    using conn fr by (auto simp: pconnected_def pfresh_def)
  have "processRead_port V W tmp self c l =
      rbind (addTask V destroy_handler self
        (l\<lparr>pconns := (pconns l)(c \<mapsto> conn\<lparr>pc_readBuf := empty_buffer\<rparr>), pnet := pnet l, preads := Suc (preads l)\<rparr>)
        (pc_channel conn) DELETE) (\<lambda>(l2, _). Inr (l2, 0))"
    using conn fr k p
    by (simp add: processRead_port_def pconnected_def pfresh_def pconn_at_def pchannel_at_def)
  note this [unfolded same(1)]
  moreover have "pdrained conn" using fr by (simp add: pdrained_def pfresh_def empty_buffer_def readableSize_def)
  moreover have "l\<lparr>pconns := (pconns l)(c \<mapsto> conn), pnet := pnet l, preads := Suc (preads l)\<rparr> = l\<lparr>preads := Suc (preads l)\<rparr>"
    unfolding same(2) by simp
  ultimately show ?thesis
    using read_then_delete [where s = "pnet l" and k = "Suc (preads l)", OF idle conn d refl] by auto
qed

text \<open>
  A request that is cut off in its header section: the answer is put into the write buffer of a
  connection that is then deleted.
\<close>

lemma read_cut:
  assumes idle: "pidle self l" and conn: "pconnected l c conn f" and fr: "pfresh conn"
    and d: "inv (m_dispatcher l)" "room (m_dispatcher l) n" "valid f" "interest (m_dispatcher l) f = (True, False)"
    and W: "granted W" and req: "readable_request m u v hs" "memmem tail CRLF = None"
    and bs: "bs = m @ '' '' @ u @ '' '' @ v @ CRLF @ concat (map print_header hs) @ tail" "length bs < 10240"
    and recv: "w_recv W (preads l) f = Some bs"
  shows "\<exists>conn' d'. processRead_port V W tmp self c l =
      Inr (taken_down d' c conn' f (l\<lparr>pconns := (pconns l)(c \<mapsto> conn'), pnet := pnet l, preads := Suc (preads l)\<rparr>), 0) \<and>
     contents (pc_writeBuf conn') = bad_request_port \<and> \<not> pdrained conn' \<and> pc_channel conn' = pc_channel conn \<and>
     inv d' \<and> room d' n \<and> interest d' = (interest (m_dispatcher l))(f := (False, False))"
proof -
  let ?Q = "\<lambda>conn' s'. contents (pc_writeBuf conn') = bad_request_port \<and> \<not> pdrained conn' \<and> s' = pnet l"
  have bad: "NUL \<notin> set bad_request_port" "int32 (int (length bad_request_port))" "bad_request_port \<noteq> []"
    by (simp_all add: bad_request_port_def int32_def)
  have "roomy (w_al W) empty_buffer (length bad_request_port + 0)"
    using empty_buffer_ready [OF W, of "length bad_request_port"] by (simp add: ready_def bad_request_port_def)
  then obtain wb where wb: "port_append (w_al W) empty_buffer bad_request_port = Inr wb" "buf_inv wb" "contents wb = bad_request_port"
    using port_buf.put_step [OF empty_buffer_inv(1), of "w_al W" bad_request_port 0] empty_buffer_inv(2) by auto
  then have app: "rbind (appendStdString (w_al W) empty_buffer bad_request_port) (\<lambda>(b, _). Inr b) = Inr wb"
    by (simp add: appendStdString_eq [OF bad(1,2)])
  have left: "readableSize wb \<noteq> 0" using length_contents [OF wb(2)] wb(3) by (auto simp: port_sizes bad_request_port_def)
  have "\<exists>r rb' resp wb' s' flag wb'' conn'. parseHttpRequest_port (w_files W) (w_al W) (w_send W) new_HttpRequest rb new_HttpResponse
          empty_buffer f (pnet l) = Inr (r, rb', (resp, wb', s'), flag) \<and>
        (if flag then wb'' = wb' else rbind (appendStdString (w_al W) wb' bad_request_port) (\<lambda>(b, _). Inr b) = Inr wb'') \<and>
        conn' = conn\<lparr>pc_readBuf := rb', pc_writeBuf := wb'', pc_request := r, pc_response := resp\<rparr> \<and> ?Q conn' s'"
    if rb: "buf_inv rb" "contents rb = bs" for rb
  proof -
    obtain rb' where "parse_requests (answer_request (w_files W) (w_al W) (w_send W) f) new_HttpRequest rb
        (new_HttpResponse, empty_buffer, pnet l) True =
      Some (Inr ((read_request m u v hs)\<lparr>m_curState := ParseReqHeaders'\<rparr>, rb', (new_HttpResponse, empty_buffer, pnet l), False))"
      using parse_requests_cut [OF rb(1) req rb(2) [unfolded bs(1)],
          where answer = "answer_request (w_files W) (w_al W) (w_send W) f"
            and s = "(new_HttpResponse, empty_buffer, pnet l)" and flag = True]
      by blast
    then show ?thesis
      using app wb(3) left
      by (intro exI [of _ "(read_request m u v hs)\<lparr>m_curState := ParseReqHeaders'\<rparr>"] exI [of _ rb']
          exI [of _ new_HttpResponse] exI [of _ empty_buffer] exI [of _ "pnet l"] exI [of _ False] exI [of _ wb])
        (simp add: parseHttpRequest_port_def pdrained_def)
  qed
  moreover have "bs \<noteq> []" by (simp add: bs(1))
  ultimately obtain conn' where 1: "pc_channel conn' = pc_channel conn" "contents (pc_writeBuf conn') = bad_request_port"
      "\<not> pdrained conn'"
      "processRead_port V W tmp self c l =
       rbind (addTask V destroy_handler self (l\<lparr>pconns := (pconns l)(c \<mapsto> conn'), pnet := pnet l, preads := Suc (preads l)\<rparr>)
         (pc_channel conn) DELETE) (\<lambda>(l2, _). Inr (l2, 0))"
    using processRead_port_parsed [where Q = ?Q and V = V and tmp = tmp and self = self, OF conn fr recv _ bs(2)] by blast
  with read_then_delete [where s = "pnet l" and k = "Suc (preads l)", OF idle conn d 1(1)] show ?thesis
    by (intro exI [of _ conn']) auto
qed

end

interpretation select_conns: connections SelectDispatcher select_forget "\<lambda>_. True" select_interest "\<lambda>_ _. True" in_sets
proof -
  have "v_add SelectDispatcher = SelectDispatcher_add" by (simp add: SelectDispatcher_def)
  then show "connections SelectDispatcher select_forget (\<lambda>_. True) select_interest (\<lambda>_ _. True) in_sets"
    using connections.intro [OF port_select.draining_axioms] select_watch.watch_set_axioms by metis
qed

interpretation poll_conns: connections PollDispatcher poll_forget poll_sane poll_interest
    "\<lambda>d n. n \<le> spare_slots (fds d)" "\<lambda>f. 0 \<le> f"
proof -
  have "v_add PollDispatcher = PollDispatcher_add" by (simp add: PollDispatcher_def)
  then show "connections PollDispatcher poll_forget poll_sane poll_interest (\<lambda>d n. n \<le> spare_slots (fds d)) (\<lambda>f. 0 \<le> f)"
    using connections.intro [OF poll_loop.draining_axioms] poll_watch.watch_set_axioms by metis
qed

interpretation epoll_conns: connections EpollDispatcher epoll_forget "epoll_sane valid" epoll_interest "\<lambda>_ _. True" valid
proof -
  have "v_add EpollDispatcher = EpollDispatcher_add" by (simp add: EpollDispatcher_def)
  then show "connections EpollDispatcher epoll_forget (epoll_sane valid) epoll_interest (\<lambda>_ _. True) valid"
    using connections.intro [OF epoll_loop.draining_axioms] epoll_watch.watch_set_axioms by metis
qed

end
