(* ===== verification/Port_Server.thy ===== *)
theory Port_Server
  imports Port_Connection Tcp_Server
begin

text \<open>
  \<open>ThreadPool.cpp\<close>, \<open>WorkerThread.cpp\<close> and \<open>TcpServer.cpp\<close> of \<open>old/ReactorHttp_cpp\<close>. The record
  \<open>port_pool\<close> is \<open>class ThreadPool\<close>: its workers are a vector that \<open>run\<close> fills; the loop of a worker
  is a value of type \<open>'l\<close>, and starting its thread an argument, as for the C server's pool (the
  handshake over the mutex and the condition variable has the steps of \<open>Worker_Thread\<close>).
  \<open>port_server\<close> is \<open>class TcpServer\<close>: the main loop extended by the pool and the listening
  descriptor, which \<open>setListen\<close> leaves behind whatever the socket calls return. Loops use
  \<open>SelectDispatcher\<close>, as \<open>EventLoop.cpp\<close> makes it.
\<close>

section \<open>The pool\<close>

record 'l pworker =
  pw_name :: string
  pw_loop :: "'l option"

record 'l port_pool =
  m_isStart :: bool
  m_threadNum :: int
  m_workerThreads :: "'l pworker list"
  m_index :: int

definition new_ThreadPool :: "int \<Rightarrow> 'l port_pool" where
  "new_ThreadPool count = \<lparr>m_isStart = False, m_threadNum = count, m_workerThreads = [], m_index = 0\<rparr>"

definition new_WorkerThread :: "int \<Rightarrow> 'l pworker" where
  "new_WorkerThread i = \<lparr>pw_name = ''SubThread-'' @ dec i, pw_loop = None\<rparr>"

definition add_worker :: "(nat \<Rightarrow> string \<Rightarrow> 'l result) \<Rightarrow> 'l port_pool \<Rightarrow> nat \<Rightarrow> 'l port_pool result" where
  "add_worker start p i =
     (let w = new_WorkerThread (int i) in
      rbind (start i (pw_name w)) (\<lambda>l. Inr (p\<lparr>m_workerThreads := m_workerThreads p @ [w\<lparr>pw_loop := Some l\<rparr>]\<rparr>)))"

definition run_ThreadPool :: "(nat \<Rightarrow> string \<Rightarrow> 'l result) \<Rightarrow> bool \<Rightarrow> 'l port_pool \<Rightarrow> 'l port_pool result" where
  "run_ThreadPool start own p =
     (if m_isStart p then Inl AssertFail
      else if \<not> own then Inl (Exit [])
      else
        (let p1 = p\<lparr>m_isStart := True\<rparr> in
         if 0 < m_threadNum p1 then put_all (add_worker start) p1 [0..<nat (m_threadNum p1)] else Inr p1))"

text \<open>\<open>operator[]\<close> does not check the index.\<close>

definition takeWorkerEventLoop :: "bool \<Rightarrow> 'l port_pool \<Rightarrow> ('l port_pool \<times> loop_ref) result" where
  "takeWorkerEventLoop own p =
     (if \<not> m_isStart p then Inl AssertFail
      else if \<not> own then Inl (Exit [])
      else if 0 < m_threadNum p then
        (if 0 \<le> m_index p \<and> nat (m_index p) < length (m_workerThreads p)
         then Inr (p\<lparr>m_index := (m_index p + 1) mod m_threadNum p\<rparr>, WorkerLoop (nat (m_index p)))
         else Inl OutOfBounds)
      else Inr (p, MainLoop))"

definition port_pool_inv :: "'l port_pool \<Rightarrow> bool" where
  "port_pool_inv p \<longleftrightarrow> m_isStart p \<and> 0 < m_threadNum p \<and> int (length (m_workerThreads p)) = m_threadNum p \<and>
     0 \<le> m_index p \<and> m_index p < m_threadNum p"

lemma takeWorkerEventLoop_ok:
  assumes "port_pool_inv p"
  shows "takeWorkerEventLoop True p = Inr (p\<lparr>m_index := (m_index p + 1) mod m_threadNum p\<rparr>, WorkerLoop (nat (m_index p)))"
    and "port_pool_inv (p\<lparr>m_index := (m_index p + 1) mod m_threadNum p\<rparr>)"
  using assms by (auto simp: takeWorkerEventLoop_def port_pool_inv_def nat_less_iff)

definition take_port_worker :: "'l port_pool \<Rightarrow> ('l port_pool \<times> nat) result" where
  "take_port_worker p = rbind (takeWorkerEventLoop True p) (\<lambda>(p', r).
     case r of MainLoop \<Rightarrow> Inl NullDeref | WorkerLoop i \<Rightarrow> Inr (p', i))"

interpretation port_turns: round_robin take_port_worker "\<lambda>p. nat (m_index p)" "\<lambda>p. nat (m_threadNum p)" port_pool_inv
proof
  fix p :: "'l port_pool"
  assume p: "port_pool_inv p"
  then show "nat (m_index p) < nat (m_threadNum p)" by (auto simp: port_pool_inv_def)
  have "nat ((m_index p + 1) mod m_threadNum p) = (nat (m_index p) + 1) mod nat (m_threadNum p)"
    using p by (simp add: port_pool_inv_def nat_mod_distrib nat_add_distrib)
  then show "\<exists>p'. take_port_worker p = Inr (p', nat (m_index p)) \<and> port_pool_inv p' \<and>
      nat (m_threadNum p') = nat (m_threadNum p) \<and> nat (m_index p') = (nat (m_index p) + 1) mod nat (m_threadNum p)"
    using takeWorkerEventLoop_ok [OF p] by (simp add: take_port_worker_def)
qed

lemma add_workers:
  assumes "\<forall>i<n. \<forall>name. start i name = Inr (ls i name)"
  shows "m \<le> n \<Longrightarrow> put_all (add_worker start) p [0..<m] =
     Inr (p\<lparr>m_workerThreads := m_workerThreads p @
       map (\<lambda>i. \<lparr>pw_name = ''SubThread-'' @ dec (int i), pw_loop = Some (ls i (''SubThread-'' @ dec (int i)))\<rparr>) [0..<m]\<rparr>)"
  using assms by (induction m) (simp_all add: put_all_append add_worker_def new_WorkerThread_def)

lemma run_port_pool:
  assumes "\<forall>i<nat count. \<forall>name. start i name = Inr (ls i name)" and "0 < count"
  shows "\<exists>p. run_ThreadPool start True (new_ThreadPool count) = Inr p \<and> port_pool_inv p \<and> m_threadNum p = count \<and> m_index p = 0 \<and>
     m_workerThreads p = map (\<lambda>i. \<lparr>pw_name = ''SubThread-'' @ dec (int i), pw_loop = Some (ls i (''SubThread-'' @ dec (int i)))\<rparr>)
       [0..<nat count]"
  using add_workers [OF assms(1) order_refl, of "(new_ThreadPool count)\<lparr>m_isStart := True\<rparr>"] assms(2)
  by (simp add: run_ThreadPool_def new_ThreadPool_def port_pool_inv_def)

section \<open>The server\<close>

type_synonym port_worker_loop = "select_data pconn_loop"

record port_server = "select_data pconn_loop" +
  sv_pool :: "port_worker_loop port_pool"
  sv_lfd :: int
  sv_port :: nat
  sv_listening :: bool

text \<open>\<open>setListen\<close>: the descriptor, and whether it is listening in the end.\<close>

definition setListen :: "listen_calls \<Rightarrow> int \<times> bool" where
  "setListen r =
     (let listenfd = r_socket r in
      if listenfd = -1 then (listenfd, False)
      else if r_setsockopt r = -1 then (listenfd, False)
      else if r_bind r = -1 then (listenfd, False)
      else if r_listen r = -1 then (listenfd, False)
      else (listenfd, True))"

text \<open>A worker's loop, as \<open>running\<close> makes it in its thread \<open>tid i\<close>.\<close>

definition running_loop :: "(nat \<Rightarrow> (int \<times> int) option) \<Rightarrow> (nat \<Rightarrow> nat) \<Rightarrow> nat \<Rightarrow> string \<Rightarrow> port_worker_loop result" where
  "running_loop sp tid i name =
     new_EventLoop_port SelectDispatcher destroy_handler (tid i) new_SelectDispatcher (sp i)
       (pconn_loop_ext Map.empty 0 \<lparr>wire = (\<lambda>_. []), sends = 0, os_closed = []\<rparr> 0 ()) name"

definition new_TcpServer_port :: "(int \<times> int) option \<Rightarrow> listen_calls \<Rightarrow> nat \<Rightarrow> nat \<Rightarrow> int \<Rightarrow> port_server result" where
  "new_TcpServer_port sp r self p n =
     (case setListen r of (listenfd, ok) \<Rightarrow>
        new_EventLoop_port SelectDispatcher destroy_handler self new_SelectDispatcher sp
          (pconn_loop_ext Map.empty 0 \<lparr>wire = (\<lambda>_. []), sends = 0, os_closed = []\<rparr> 0
            (port_server_ext (new_ThreadPool n) listenfd p ok ())) [])"

text \<open>\<open>acceptConnection\<close>: \<open>cfd\<close> is what \<open>accept\<close> returned, -1 included.\<close>

definition on_port_worker ::
  "nat \<Rightarrow> (port_worker_loop \<Rightarrow> port_worker_loop result) \<Rightarrow> port_worker_loop port_pool \<Rightarrow> port_worker_loop port_pool result" where
  "on_port_worker i f p =
     (let w = m_workerThreads p ! i in
      rbind (deref (pw_loop w)) (\<lambda>l.
      rbind (f l) (\<lambda>l'.
        Inr (p\<lparr>m_workerThreads := (m_workerThreads p)[i := w\<lparr>pw_loop := Some l'\<rparr>]\<rparr>))))"

definition acceptConnection_port :: "world \<Rightarrow> nat \<Rightarrow> int \<Rightarrow> port_server \<Rightarrow> (port_server \<times> int) result" where
  "acceptConnection_port W self cfd s =
     rbind (takeWorkerEventLoop (m_threadID s = self) (sv_pool s)) (\<lambda>(p, r).
       case r of
         MainLoop \<Rightarrow>
           rbind (new_TcpConnection_port SelectDispatcher W self (s\<lparr>sv_pool := p\<rparr>) cfd) (\<lambda>(s', _). Inr (s', 0))
       | WorkerLoop i \<Rightarrow>
           rbind (on_port_worker i (\<lambda>l. rbind (new_TcpConnection_port SelectDispatcher W self l cfd) (\<lambda>(l', _). Inr l')) p)
             (\<lambda>p'. Inr (s\<lparr>sv_pool := p'\<rparr>, 0)))"

text \<open>The callbacks of the main loop; \<open>cfd\<close> is what \<open>accept\<close> returns.\<close>

definition port_main_call ::
  "world \<Rightarrow> char list option \<Rightarrow> nat \<Rightarrow> int \<Rightarrow> handler \<Rightarrow> cb_arg \<Rightarrow> port_server \<Rightarrow> port_server result" where
  "port_main_call W tmp self cfd f x s =
     (case (f, x) of
        (Server_acceptConnection, ServerArg) \<Rightarrow> rbind (acceptConnection_port W self cfd s) (\<lambda>(s', _). Inr s')
      | _ \<Rightarrow> port_call SelectDispatcher W tmp self f x s)"

definition run_TcpServer ::
  "world \<Rightarrow> (nat \<Rightarrow> (int \<times> int) option) \<Rightarrow> (nat \<Rightarrow> nat) \<Rightarrow> char list option \<Rightarrow> nat \<Rightarrow> int \<Rightarrow> select_ready list \<Rightarrow>
   port_server \<Rightarrow> (port_server \<times> int) result" where
  "run_TcpServer W sp tid tmp self cfd waits s =
     rbind (run_ThreadPool (running_loop sp tid) (m_threadID s = self) (sv_pool s)) (\<lambda>p.
     let ch = new_pchannel (sv_lfd s) ReadEvent (Some Server_acceptConnection) None None ServerArg;
         (s1, a) = new_pchan (s\<lparr>sv_pool := p\<rparr>) ch in
     rbind (addTask SelectDispatcher destroy_handler self s1 a ADD) (\<lambda>(s2, _).
       port_run SelectDispatcher destroy_handler (port_main_call W tmp self cfd) self waits s2))"

section \<open>A worker's loop\<close>

text \<open>The loop watches the end \<open>e\<close> of its pair at which the wake-up bytes arrive.\<close>

definition plistens :: "(select_data, 'a) pconn_loop_scheme \<Rightarrow> int \<Rightarrow> bool" where
  "plistens l e \<longleftrightarrow> in_sets e \<and> select_interest (m_dispatcher l) e = (True, False) \<and>
     (\<exists>a < freshpchan l. m_channelMap l e = Some (Some a) \<and>
        pchans l a = Some (new_pchannel e ReadEvent (Some Loop_readMessage) None None LoopArg))"

definition port_worker :: "(select_data, 'a) pconn_loop_scheme \<Rightarrow> int \<Rightarrow> bool" where
  "port_worker l e \<longleftrightarrow> m_taskQ l = [] \<and> plistens l e \<and> (\<forall>f. \<not> writeset (m_dispatcher l) f)"

lemma v_dispatch_select: "v_dispatch SelectDispatcher = SelectDispatcher_dispatch"
  by (simp add: SelectDispatcher_def)

lemma activate_listener:
  assumes "plistens l e" and "0 < snd (pending l)"
  shows "eventActive (port_call V W tmp self) l e ReadEvent =
     Inr (l\<lparr>pending := (fst (pending l), snd (pending l) - min 256 (snd (pending l)))\<rparr>, 0)"
proof -
  obtain a where a: "m_channelMap l e = Some (Some a)"
      "pchans l a = Some (new_pchannel e ReadEvent (Some Loop_readMessage) None None LoopArg)" "0 \<le> e"
    using assms(1) by (auto simp: plistens_def in_sets_def)
  have bits: "ReadEvent AND ReadEvent \<noteq> 0" "ReadEvent AND WriteEvent = 0" by (simp_all add: ReadEvent_def WriteEvent_def)
  show ?thesis
    using a bits assms(2) by (simp add: eventActive_def pchannel_at_def new_pchannel_def port_call_def readMessage_def)
qed

lemma activate_connection:
  assumes "pconnected l c conn f" and "0 \<le> f"
  shows "eventActive (port_call V W tmp self) l f ReadEvent =
     rbind (processRead_port V W tmp self c l) (\<lambda>(l', _). Inr (l', 0))"
proof -
  have bits: "ReadEvent AND ReadEvent \<noteq> 0" "ReadEvent AND WriteEvent = 0" by (simp_all add: ReadEvent_def WriteEvent_def)
  show ?thesis
    using assms bits by (simp add: eventActive_def pconnected_def pchannel_at_def port_call_def rbind_assoc split_def)
qed

text \<open>What the constructor of a loop makes.\<close>

lemma running_loop_listens:
  assumes "sp i = Some (w, e)" and "in_sets e" and "name \<noteq> []"
  shows "\<exists>l. running_loop sp tid i name = Inr l \<and> port_worker l e \<and> m_threadID l = tid i \<and> m_threadName l = name \<and>
     pending l = (0, 0) \<and> (\<forall>f. f \<noteq> e \<longrightarrow> m_channelMap l f = None \<and> select_interest (m_dispatcher l) f = (False, False))"
proof -
  let ?ch = "new_pchannel e ReadEvent (Some Loop_readMessage) None None LoopArg"
  let ?d = "\<lparr>writeset = (\<lambda>_. False), readset = (\<lambda>_. False)\<rparr>"
  let ?l = "\<lparr>m_isQuit = True, m_dispatcher = ?d, m_taskQ = [], m_channelMap = Map.empty, m_threadID = tid i,
    m_threadName = name, m_socketPair = (w, e), pending = (0, 0), pchans = [0 \<mapsto> ?ch], freshpchan = 1, pclosed = [],
    pconns = Map.empty, freshpconn = 0, pnet = \<lparr>wire = (\<lambda>_. []), sends = 0, os_closed = []\<rparr>, preads = 0\<rparr> :: port_worker_loop"
  have ch: "m_fd ?ch = e" "pwants ?ch = (True, False)" "wanting ?ch"
    by (simp_all add: new_pchannel_def pwants_def wanting_def ReadEvent_def WriteEvent_def)
  have none: "select_interest ?d f = (False, False)" for f by (simp add: select_interest_def)
  obtain d' where d': "perform_task SelectDispatcher destroy_handler ?l (ADD, 0) =
        Inr (?l\<lparr>m_channelMap := [e \<mapsto> Some 0], m_dispatcher := d'\<rparr>)"
      "select_interest d' = (select_interest ?d)(e := (True, False))"
    using select_conns.perform_add [of ?l 0 ?ch] ch assms(2) none by auto
  have "addTask SelectDispatcher destroy_handler (tid i) ?l 0 ADD = Inr (?l\<lparr>m_channelMap := [e \<mapsto> Some 0], m_dispatcher := d'\<rparr>, 0)"
    using port_select.add_task_here [of ?l "tid i" 0 ADD] d'(1) by simp
  then have "running_loop sp tid i name = Inr (?l\<lparr>m_channelMap := [e \<mapsto> Some 0], m_dispatcher := d'\<rparr>)"
    using assms(1,3)
    by (simp add: running_loop_def new_EventLoop_port_def new_SelectDispatcher_def new_pchan_def pconn_loop.defs)
  moreover have "\<not> writeset d' f" for f using fun_cong [OF d'(2), of f] none [of f] by (cases "f = e") (simp_all add: select_interest_def)
  ultimately show ?thesis
    using d'(2) none assms(2) by (auto simp: port_worker_def plistens_def)
qed

text \<open>A connection made by another thread: queued, with the loop woken up.\<close>

definition padmitted :: "('d, 'a) pconn_loop_scheme \<Rightarrow> int \<Rightarrow> ('d, 'a) pconn_loop_scheme" where
  "padmitted l f = l\<lparr>pchans := (pchans l)(freshpchan l \<mapsto> pconn_chan (freshpconn l) f), freshpchan := Suc (freshpchan l),
     pconns := (pconns l)(freshpconn l \<mapsto>
       \<lparr>pc_name = ''Connection-'' @ dec f, pc_channel = freshpchan l, pc_readBuf = empty_buffer, pc_writeBuf = empty_buffer,
        pc_request = new_HttpRequest, pc_response = new_HttpResponse\<rparr>), freshpconn := Suc (freshpconn l)\<rparr>"

lemma new_connection_elsewhere:
  assumes "granted W" and "m_threadID l \<noteq> self"
  shows "new_TcpConnection_port V W self l f =
     Inr (taskWakeup_port ((padmitted l f)\<lparr>m_taskQ := m_taskQ l @ [(ADD, freshpchan l)]\<rparr>), freshpconn l)"
  using assms(2) new_port_Buffer_empty [OF assms(1)]
  by (simp add: new_TcpConnection_port_def new_pchan_def padmitted_def pconn_chan_def addTask_def Let_def)

text \<open>Two rounds of the worker: the wake-up with the queued connection, and the request.\<close>

definition quiet_wait :: "select_data \<Rightarrow> int \<Rightarrow> select_ready \<Rightarrow> bool" where
  "quiet_wait d f r \<longleftrightarrow> (\<exists>rd wr. r = Some (rd, wr) \<and> (\<forall>i. readset d i \<and> rd i \<longleftrightarrow> i = f))"

lemma wake_up_round:
  assumes w: "plistens l e" "\<forall>f. \<not> writeset (m_dispatcher l) f" "0 < snd (pending l)" and q: "m_taskQ l = xs"
    and r: "quiet_wait (m_dispatcher l) e r" and run: "\<not> m_isQuit l"
  shows "port_rounds SelectDispatcher destroy_handler (port_call V W tmp self) (r # rs) l =
     rbind (drain SelectDispatcher destroy_handler xs
       (l\<lparr>pending := (fst (pending l), snd (pending l) - min 256 (snd (pending l)))\<rparr>))
       (port_rounds SelectDispatcher destroy_handler (port_call V W tmp self) rs)"
proof -
  obtain rd wr where rd: "r = Some (rd, wr)" "\<forall>i. readset (m_dispatcher l) i \<and> rd i \<longleftrightarrow> i = e"
    using r by (auto simp: quiet_wait_def)
  have "in_sets e" using w(1) by (simp add: plistens_def)
  from select_one_readable [OF this rd(2), of wr] w(2) activate_listener [OF w(1,3), of V W tmp self]
  have "SelectDispatcher_dispatch (port_call V W tmp self) r l =
      Inr (l\<lparr>pending := (fst (pending l), snd (pending l) - min 256 (snd (pending l)))\<rparr>, 0)"
    by (simp add: rd(1))
  then show ?thesis
    using run q by (simp add: v_dispatch_select port_select.processTaskQ_drains rbind_assoc)
qed

text \<open>The server hands a connection to the worker whose turn it is.\<close>

definition next_port_worker :: "port_server \<Rightarrow> port_worker_loop pworker \<Rightarrow> port_worker_loop \<Rightarrow> bool" where
  "next_port_worker s w l \<longleftrightarrow> port_pool_inv (sv_pool s) \<and> m_workerThreads (sv_pool s) ! nat (m_index (sv_pool s)) = w \<and>
     pw_loop w = Some l \<and> m_threadID l \<noteq> m_threadID s"

text \<open>The server after that: the turn advanced, the worker's loop replaced.\<close>

definition handed_over :: "port_server \<Rightarrow> port_worker_loop pworker \<Rightarrow> port_worker_loop \<Rightarrow> port_server" where
  "handed_over s w l1 = s\<lparr>sv_pool := (sv_pool s)\<lparr>m_index := (m_index (sv_pool s) + 1) mod m_threadNum (sv_pool s),
     m_workerThreads := (m_workerThreads (sv_pool s))[nat (m_index (sv_pool s)) := w\<lparr>pw_loop := Some l1\<rparr>]\<rparr>\<rparr>"

definition queued_connection :: "port_worker_loop \<Rightarrow> int \<Rightarrow> port_worker_loop" where
  "queued_connection l f = taskWakeup_port ((padmitted l f)\<lparr>m_taskQ := m_taskQ l @ [(ADD, freshpchan l)]\<rparr>)"

lemma queued_listens:
  assumes "port_worker l e"
  shows "plistens (queued_connection l f) e"
proof -
  obtain a where "a < freshpchan l" "m_channelMap l e = Some (Some a)" "in_sets e"
      "pchans l a = Some (new_pchannel e ReadEvent (Some Loop_readMessage) None None LoopArg)"
      "select_interest (m_dispatcher l) e = (True, False)"
    using assms by (auto simp: port_worker_def plistens_def)
  then show ?thesis
    unfolding plistens_def by (intro conjI exI [of _ a]) (simp_all add: queued_connection_def taskWakeup_port_def padmitted_def)
qed

lemma accept_port:
  assumes "next_port_worker s w l" and "granted W"
  shows "acceptConnection_port W (m_threadID s) f s = Inr (handed_over s w (queued_connection l f), 0)"
proof -
  have s: "port_pool_inv (sv_pool s)" "m_workerThreads (sv_pool s) ! nat (m_index (sv_pool s)) = w" "pw_loop w = Some l"
      "m_threadID l \<noteq> m_threadID s"
    using assms(1) by (simp_all add: next_port_worker_def)
  show ?thesis
    using s takeWorkerEventLoop_ok(1) [OF s(1)] new_connection_elsewhere [OF assms(2) s(4), of SelectDispatcher f]
    by (simp add: acceptConnection_port_def on_port_worker_def handed_over_def queued_connection_def)
qed

text \<open>The worker's next round: the bytes of the wake-up are read and the connection is registered.\<close>

lemma connection_registered:
  assumes w: "port_worker l e" and run: "\<not> m_isQuit l" and f: "in_sets f" "f \<noteq> e" "m_channelMap l f = None"
      "select_interest (m_dispatcher l) f = (False, False)"
    and r: "quiet_wait (m_dispatcher l) e r"
  shows "\<exists>l2 conn. (\<forall>rs. port_rounds SelectDispatcher destroy_handler (port_call SelectDispatcher W tmp self) (r # rs) (queued_connection l f) =
       port_rounds SelectDispatcher destroy_handler (port_call SelectDispatcher W tmp self) rs l2) \<and>
     pconnected l2 (freshpconn l) conn f \<and> pfresh conn \<and> pidle (m_threadID l) l2 \<and> port_worker l2 e \<and> \<not> m_isQuit l2 \<and>
     select_interest (m_dispatcher l2) = (select_interest (m_dispatcher l))(f := (True, False)) \<and>
     m_channelMap l2 = (m_channelMap l)(f \<mapsto> Some (freshpchan l)) \<and>
     pnet l2 = pnet l \<and> preads l2 = preads l \<and> pclosed l2 = pclosed l \<and>
     snd (pending l2) = snd (pending l) + 36 - min 256 (snd (pending l) + 36)"
proof -
  let ?l1 = "queued_connection l f" and ?ch = "pconn_chan (freshpconn l) f"
  let ?l1' = "?l1\<lparr>pending := (fst (pending ?l1), snd (pending ?l1) - min 256 (snd (pending ?l1))), m_taskQ := []\<rparr>"
  have eqs: "m_dispatcher ?l1 = m_dispatcher l" "m_channelMap ?l1 = m_channelMap l" "m_taskQ ?l1 = [(ADD, freshpchan l)]"
      "0 < snd (pending ?l1)" "\<not> m_isQuit ?l1"
    using w run by (simp_all add: queued_connection_def taskWakeup_port_def padmitted_def port_worker_def)
  have lis: "plistens l' e"
    if "m_channelMap l' = (m_channelMap l)(f \<mapsto> a)"
      "select_interest (m_dispatcher l') e = (True, False)" "pchans l' = pchans ?l1" "freshpchan l' = freshpchan ?l1"
    for l' :: port_worker_loop and a
  proof -
    obtain b where "b < freshpchan l" "m_channelMap l e = Some (Some b)" "in_sets e"
        "pchans l b = Some (new_pchannel e ReadEvent (Some Loop_readMessage) None None LoopArg)"
      using w by (auto simp: port_worker_def plistens_def)
    then have "b < freshpchan l'" "m_channelMap l' e = Some (Some b)" "in_sets e"
        "pchans l' b = Some (new_pchannel e ReadEvent (Some Loop_readMessage) None None LoopArg)"
      using that f(2) by (auto simp: queued_connection_def taskWakeup_port_def padmitted_def)
    with that(2) show ?thesis by (auto simp: plistens_def)
  qed
  have on: "select_interest (m_dispatcher l) e = (True, False)" "\<forall>f. \<not> writeset (m_dispatcher l) f"
    using w by (simp_all add: port_worker_def plistens_def)
  have ch: "pchans ?l1' (freshpchan l) = Some ?ch"
    by (simp add: queued_connection_def taskWakeup_port_def padmitted_def)
  obtain d' where d': "perform_task SelectDispatcher destroy_handler ?l1' (ADD, freshpchan l) =
        Inr (?l1'\<lparr>m_channelMap := (m_channelMap l)(f \<mapsto> Some (freshpchan l)), m_dispatcher := d'\<rparr>)"
      "select_interest d' = (select_interest (m_dispatcher l))(f := (True, False))"
    using select_conns.perform_add [OF ch] f eqs(1,2) by auto
  let ?l2 = "?l1'\<lparr>m_channelMap := (m_channelMap l)(f \<mapsto> Some (freshpchan l)), m_dispatcher := d'\<rparr>"
  have nw: "\<not> writeset d' i" for i
    using fun_cong [OF d'(2), of i] on(2) by (cases "i = f") (simp_all add: select_interest_def)
  note l1 = queued_listens [OF w, of f]
  have round: "port_rounds SelectDispatcher destroy_handler (port_call SelectDispatcher W tmp self) (r # rs) ?l1 =
       port_rounds SelectDispatcher destroy_handler (port_call SelectDispatcher W tmp self) rs ?l2" for rs
    using wake_up_round [where l = ?l1 and V = SelectDispatcher and W = W and tmp = tmp and self = self and rs = rs,
        OF l1 _ eqs(4,3) _ eqs(5)] on(2) r d'(1)
    by (simp add: eqs(1))
  have "plistens ?l2 e" by (rule lis [where a = "Some (freshpchan l)"]) (simp_all add: d'(2) f(2) [symmetric] on(1))
  moreover have "pconnected ?l2 (freshpconn l) (the (pconns ?l1 (freshpconn l))) f" "pfresh (the (pconns ?l1 (freshpconn l)))"
    by (simp_all add: pconnected_def queued_connection_def taskWakeup_port_def padmitted_def pfresh_def)
  moreover have "pidle (m_threadID l) ?l2" "\<not> m_isQuit ?l2" "pnet ?l2 = pnet l" "preads ?l2 = preads l" "pclosed ?l2 = pclosed l"
      "snd (pending ?l2) = snd (pending l) + 36 - min 256 (snd (pending l) + 36)" "m_taskQ ?l2 = []"
    using run by (simp_all add: pidle_def queued_connection_def taskWakeup_port_def padmitted_def)
  ultimately show ?thesis
    using round nw d'(2) by (intro exI [of _ ?l2] exI [of _ "the (pconns ?l1 (freshpconn l))"])
      (simp add: port_worker_def del: port_rounds.simps)
qed

text \<open>A round in which the connection's descriptor is readable, and the loop after it.\<close>

lemma request_round:
  assumes w: "\<forall>f. \<not> writeset (m_dispatcher l) f" and conn: "pconnected l c conn f" and f: "in_sets f"
    and r: "quiet_wait (m_dispatcher l) f r" and run: "\<not> m_isQuit l"
    and read: "processRead_port SelectDispatcher W tmp self c l = Inr (l', 0)" and idle: "m_taskQ l' = []"
  shows "port_rounds SelectDispatcher destroy_handler (port_call SelectDispatcher W tmp self) (r # rs) l =
     port_rounds SelectDispatcher destroy_handler (port_call SelectDispatcher W tmp self) rs l'"
proof -
  obtain rd wr where rd: "r = Some (rd, wr)" "\<forall>i. readset (m_dispatcher l) i \<and> rd i \<longleftrightarrow> i = f"
    using r by (auto simp: quiet_wait_def)
  have "0 \<le> f" using f by (simp add: in_sets_def)
  have "SelectDispatcher_dispatch (port_call SelectDispatcher W tmp self) r l = Inr (l', 0)"
    using select_one_readable [OF f rd(2), of wr] w activate_connection [OF conn \<open>0 \<le> f\<close>, of SelectDispatcher W tmp self] read
    by (simp add: rd(1))
  then show ?thesis
    using run port_select.processTaskQ_idle [OF idle] by (simp add: v_dispatch_select)
qed

lemma taken_down_worker:
  assumes w: "port_worker l e" and conn: "pconnected l c conn f" and ch: "pc_channel conn' = pc_channel conn" and e: "f \<noteq> e"
    and d: "select_interest d' = (select_interest (m_dispatcher l))(f := (False, False))"
  shows "port_worker (taken_down d' c conn' f (l\<lparr>pconns := (pconns l)(c \<mapsto> conn'), pnet := s, preads := k\<rparr>)) e"
proof -
  obtain a where a: "a < freshpchan l" "m_channelMap l e = Some (Some a)"
      "pchans l a = Some (new_pchannel e ReadEvent (Some Loop_readMessage) None None LoopArg)"
    and on: "in_sets e" "select_interest (m_dispatcher l) e = (True, False)" "m_taskQ l = []" "\<forall>f. \<not> writeset (m_dispatcher l) f"
    using w by (auto simp: port_worker_def plistens_def)
  have "pchans l a \<noteq> pchans l (pc_channel conn)"
    using a(3) conn by (auto simp: pconnected_def pconn_chan_def new_pchannel_def)
  then have "a \<noteq> pc_channel conn'" using ch by auto
  moreover have "\<not> writeset d' i" for i
    using fun_cong [OF d, of i] on(4) by (cases "i = f") (simp_all add: select_interest_def)
  ultimately show ?thesis
    using a on e d by (auto simp: port_worker_def plistens_def taken_down_def)
qed

lemma queued_interest:
  assumes "select_interest d' = (select_interest d)(f := (True, False))"
  shows "quiet_wait d' i r = quiet_wait (d\<lparr>readset := (readset d)(f := True)\<rparr>) i r"
proof -
  have "readset d' j = ((readset d)(f := True)) j" for j
    using fun_cong [OF assms, of j] by (auto simp: select_interest_def)
  then show ?thesis by (simp add: quiet_wait_def)
qed

section \<open>Requests on a worker\<close>

text \<open>
  A connection and the request it brings: \<open>a_wake\<close> is the wait in which the wake-up arrives,
  \<open>a_ready\<close> the one in which the request does; \<open>a_body\<close> is the body it asks for and \<open>a_shut\<close> the
  files that are opened and closed for it.
\<close>

record arrival =
  a_fd :: int
  a_method :: string
  a_url :: string
  a_version :: string
  a_headers :: "(string \<times> string) list"
  a_body :: "char list"
  a_shut :: "int list"
  a_wake :: select_ready
  a_ready :: select_ready

definition a_bytes :: "arrival \<Rightarrow> string" where
  "a_bytes x = print_request (a_method x) (a_url x) (a_version x) (a_headers x)"

definition a_reply :: "files \<Rightarrow> arrival \<Rightarrow> char list" where
  "a_reply F x = decided_head F (a_url x) @ a_body x"

text \<open>A GET request for something servable, on a new descriptor, which the \<open>n\<close>-th read delivers.\<close>

definition arrives :: "world \<Rightarrow> port_worker_loop \<Rightarrow> int \<Rightarrow> nat \<Rightarrow> arrival \<Rightarrow> bool" where
  "arrives W l e n x \<longleftrightarrow> in_sets (a_fd x) \<and> a_fd x \<noteq> e \<and> m_channelMap l (a_fd x) = None \<and>
     select_interest (m_dispatcher l) (a_fd x) = (False, False) \<and>
     quiet_wait (m_dispatcher l) e (a_wake x) \<and>
     quiet_wait ((m_dispatcher l)\<lparr>readset := (readset (m_dispatcher l))(a_fd x := True)\<rparr>) (a_fd x) (a_ready x) \<and>
     readable_request (a_method x) (a_url x) (a_version x) (a_headers x) \<and> strcasecmp_eq (a_method x) ''get'' \<and>
     length (a_bytes x) < 10240 \<and> w_recv W n (a_fd x) = Some (a_bytes x) \<and>
     servable (w_files W) (a_url x) (a_body x) (a_shut x)"

lemma arrives_cong:
  assumes "m_channelMap l' = m_channelMap l" and "select_interest (m_dispatcher l') = select_interest (m_dispatcher l)"
  shows "arrives W l' e n x = arrives W l e n x"
proof -
  have "readset (m_dispatcher l') i = readset (m_dispatcher l) i" for i
    using fun_cong [OF assms(2), of i] by (simp add: select_interest_def)
  then show ?thesis using assms by (simp add: arrives_def quiet_wait_def)
qed

lemma one_request:
  assumes w: "port_worker l e" and run: "\<not> m_isQuit l" and W: "granted W" "accepts_all (w_send W)"
    and x: "arrives W l e (preads l) x"
  shows "\<exists>l2. port_rounds SelectDispatcher destroy_handler (port_call SelectDispatcher W tmp (m_threadID l)) [a_wake x, a_ready x]
        (queued_connection l (a_fd x)) = Inr l2 \<and>
     sent (pnet l) (a_fd x) (a_reply (w_files W) x) (a_shut x) (pnet l2) \<and> pclosed l2 = pclosed l @ [a_fd x] \<and>
     pconns l2 (freshpconn l) = None \<and> m_channelMap l2 = m_channelMap l \<and>
     select_interest (m_dispatcher l2) = select_interest (m_dispatcher l) \<and> port_worker l2 e \<and>
     \<not> m_isQuit l2 \<and> preads l2 = Suc (preads l) \<and> m_threadID l2 = m_threadID l"
proof -
  let ?f = "a_fd x"
  note x = x [unfolded arrives_def]
  obtain l2 conn where 2: "\<And>rs. port_rounds SelectDispatcher destroy_handler (port_call SelectDispatcher W tmp (m_threadID l)) (a_wake x # rs)
        (queued_connection l ?f) =
       port_rounds SelectDispatcher destroy_handler (port_call SelectDispatcher W tmp (m_threadID l)) rs l2"
      "pconnected l2 (freshpconn l) conn ?f" "pfresh conn" "pidle (m_threadID l) l2" "port_worker l2 e" "\<not> m_isQuit l2"
      "select_interest (m_dispatcher l2) = (select_interest (m_dispatcher l))(?f := (True, False))"
      "m_channelMap l2 = (m_channelMap l)(?f \<mapsto> Some (freshpchan l))" "pnet l2 = pnet l" "preads l2 = preads l" "pclosed l2 = pclosed l"
    using connection_registered [OF w run, of ?f "a_wake x" W tmp "m_threadID l"] x by auto
  have on: "select_interest (m_dispatcher l2) ?f = (True, False)" by (simp add: 2(7))
  have req: "in_sets ?f" "readable_request (a_method x) (a_url x) (a_version x) (a_headers x)" "strcasecmp_eq (a_method x) ''get''"
      "length (print_request (a_method x) (a_url x) (a_version x) (a_headers x)) < 10240"
      "w_recv W (preads l2) ?f = Some (print_request (a_method x) (a_url x) (a_version x) (a_headers x))"
      "servable (w_files W) (a_url x) (a_body x) (a_shut x)"
    using x by (simp_all add: 2(10) a_bytes_def)
  obtain conn' d' l' where 3: "processRead_port SelectDispatcher W tmp (m_threadID l) (freshpconn l) l2 = Inr (l', 0)"
      "l' = taken_down d' (freshpconn l) conn' ?f
        (l2\<lparr>pconns := (pconns l2)(freshpconn l \<mapsto> conn'), pnet := pnet l', preads := Suc (preads l2)\<rparr>)"
      "pdrained conn'" "pc_channel conn' = pc_channel conn"
      "sent (pnet l2) ?f (decided_head (w_files W) (a_url x) @ a_body x) (a_shut x) (pnet l')"
      "select_interest d' = (select_interest (m_dispatcher l2))(?f := (False, False))"
    using select_conns.read_get [OF 2(4,2,3) TrueI TrueI req(1) on W req(2-6), of tmp] by blast
  have "m_taskQ l2 = []" using 2(4) by (simp add: pidle_def)
  then have "m_taskQ l' = []" by (subst 3(2)) simp
  have nw: "\<forall>f. \<not> writeset (m_dispatcher l2) f" using 2(5) by (simp add: port_worker_def)
  have "quiet_wait (m_dispatcher l2) ?f (a_ready x)" using x queued_interest [OF 2(7)] by simp
  from request_round [OF nw 2(2) req(1) this 2(6) 3(1) \<open>m_taskQ l' = []\<close>, of "[]"] 2(1) [of "[a_ready x]"]
  have run: "port_rounds SelectDispatcher destroy_handler (port_call SelectDispatcher W tmp (m_threadID l)) [a_wake x, a_ready x]
      (queued_connection l ?f) = Inr l'"
    by (simp del: port_rounds.simps(2))
  have down: "pclosed l' = pclosed l @ [?f]" "pconns l' (freshpconn l) = None" "m_channelMap l' = m_channelMap l"
    by (subst 3(2), use 3(3) 2(8,11) x in \<open>simp add: taken_down_def fun_upd_idem\<close>)+
  have "\<not> m_isQuit l'" "preads l' = Suc (preads l)" "m_threadID l' = m_threadID l"
    by (subst 3(2), use 2(4,6,10) in \<open>simp add: pidle_def\<close>)+
  have "m_dispatcher l' = d'" by (subst 3(2)) simp
  then have same: "select_interest (m_dispatcher l') = select_interest (m_dispatcher l)"
    using 3(6) 2(7) x by (simp add: fun_upd_idem)
  have "port_worker l' e" by (subst 3(2)) (rule taken_down_worker [OF 2(5,2) 3(4) _ 3(6)], use x in simp)
  with run down same 3(5) 2(9) \<open>\<not> m_isQuit l'\<close> \<open>preads l' = Suc (preads l)\<close> \<open>m_threadID l' = m_threadID l\<close> show ?thesis
    by (intro exI [of _ l']) (simp add: a_reply_def del: port_rounds.simps)
qed

section \<open>Properties\<close>


text \<open>A small worker and server.\<close>

definition small_port_worker :: port_worker_loop where
  "small_port_worker =
     \<lparr>m_isQuit = False, m_dispatcher = \<lparr>writeset = (\<lambda>_. False), readset = (\<lambda>i. i = 4)\<rparr>, m_taskQ = [],
      m_channelMap = [4 \<mapsto> Some 0], m_threadID = 2, m_threadName = ''SubThread-0'', m_socketPair = (3, 4), pending = (0, 0),
      pchans = [0 \<mapsto> new_pchannel 4 ReadEvent (Some Loop_readMessage) None None LoopArg], freshpchan = 1, pclosed = [],
      pconns = Map.empty, freshpconn = 0, pnet = silent, preads = 0\<rparr>"

definition small_port_server :: port_server where
  "small_port_server =
     \<lparr>m_isQuit = False, m_dispatcher = \<lparr>writeset = (\<lambda>_. False), readset = (\<lambda>_. False)\<rparr>, m_taskQ = [],
      m_channelMap = Map.empty, m_threadID = 1, m_threadName = ''MainThread'', m_socketPair = (5, 6), pending = (0, 0),
      pchans = Map.empty, freshpchan = 0, pclosed = [],
      pconns = Map.empty, freshpconn = 0, pnet = silent, preads = 0,
      sv_pool = \<lparr>m_isStart = True, m_threadNum = 1,
        m_workerThreads = [\<lparr>pw_name = ''SubThread-0'', pw_loop = Some small_port_worker\<rparr>], m_index = 0\<rparr>,
      sv_lfd = 7, sv_port = 8080, sv_listening = True\<rparr>"

lemma small_port:
  "next_port_worker small_port_server \<lparr>pw_name = ''SubThread-0'', pw_loop = Some small_port_worker\<rparr> small_port_worker"
  "port_worker small_port_worker 4" "\<not> m_isQuit small_port_worker" "in_sets 9" "m_channelMap small_port_worker 9 = None"
  "select_interest (m_dispatcher small_port_worker) 9 = (False, False)" "m_threadID small_port_server = 1"
  "quiet_wait (m_dispatcher small_port_worker) 4 (Some (\<lambda>i. i = 4, \<lambda>_. False))"
  by (simp_all add: next_port_worker_def small_port_server_def small_port_worker_def port_pool_inv_def port_worker_def plistens_def
      in_sets_def SELECT_MAX_def select_interest_def quiet_wait_def)

definition small_arrival :: "int \<Rightarrow> arrival" where
  "small_arrival f = \<lparr>a_fd = f, a_method = ''GET'', a_url = ''/d/a.txt'', a_version = ''HTTP/1.1'', a_headers = [],
     a_body = ''hello'', a_shut = [9], a_wake = Some (\<lambda>i. i = 4, \<lambda>_. False), a_ready = Some (\<lambda>i. i = f, \<lambda>_. False)\<rparr>"

lemma small_arrives:
  assumes "in_sets f" and "f \<noteq> 4"
  shows "arrives (small_world True (Some (plain_get ''/d/a.txt''))) small_port_worker 4 n (small_arrival f)"
proof -
  have len: "length (print_request ''GET'' ''/d/a.txt'' ''HTTP/1.1'' []) < 10240" by (simp add: print_request_def)
  have req: "readable_request ''GET'' ''/d/a.txt'' ''HTTP/1.1'' []" by (simp add: readable_request_def)
  have get: "strcasecmp_eq ''GET'' ''get''"
    by (simp add: strcasecmp_eq_def tolower_def char_of_def bit_0 cstr_def)
  have "m_channelMap small_port_worker f = None" "select_interest (m_dispatcher small_port_worker) f = (False, False)"
    "quiet_wait ((m_dispatcher small_port_worker)\<lparr>readset := (readset (m_dispatcher small_port_worker))(f := True)\<rparr>) f
      (Some (\<lambda>i. i = f, \<lambda>_. False))"
    using assms(2) by (auto simp: small_port_worker_def select_interest_def quiet_wait_def)
  then show ?thesis
    using assms small_port(8) small_file_served(2) len req get
    by (simp add: arrives_def small_arrival_def a_bytes_def plain_get_def)
qed


text \<open>
  What the port does not check: when \<open>accept\<close> fails, -1 is handed to the worker like a
  descriptor, and the worker, woken up for it, sets a bit before the beginning of an \<open>fd_set\<close>.
  A descriptor of 1024 or more is accepted, never watched and never closed; nobody is told.
\<close>

lemma port_unwatchable_descriptors:
  assumes "next_port_worker s w l" and "port_worker l e" and "\<not> m_isQuit l" and "granted W"
    and "m_channelMap l f = None" and "f = -1 \<or> SELECT_MAX \<le> f" and "quiet_wait (m_dispatcher l) e r1"
  shows "\<exists>l1. acceptConnection_port W (m_threadID s) f s = Inr (handed_over s w l1, 0) \<and>
     (let round = port_rounds SelectDispatcher destroy_handler (port_call SelectDispatcher W tmp (m_threadID l)) [r1] l1 in
      if f = -1 then round = Inl OutOfBounds
      else \<exists>l2. round = Inr l2 \<and> select_interest (m_dispatcher l2) = select_interest (m_dispatcher l) \<and>
        pconns l2 (freshpconn l) \<noteq> None \<and> pclosed l2 = pclosed l \<and> m_taskQ l2 = [])"
proof -
  let ?l1 = "queued_connection l f"
  have l1: "plistens ?l1 e" "\<forall>f. \<not> writeset (m_dispatcher ?l1) f" "0 < snd (pending ?l1)" "m_taskQ ?l1 = [(ADD, freshpchan l)]"
      "quiet_wait (m_dispatcher ?l1) e r1" "\<not> m_isQuit ?l1"
    using queued_listens [OF assms(2)] assms(2,3,7)
    by (auto simp: port_worker_def queued_connection_def taskWakeup_port_def padmitted_def)
  note round = wake_up_round [OF l1, of SelectDispatcher W tmp "m_threadID l" "[]"]
  let ?l2 = "?l1\<lparr>pending := (fst (pending ?l1), snd (pending ?l1) - min 256 (snd (pending ?l1))), m_taskQ := []\<rparr>"
  have ch: "pchannel_at ?l2 (freshpchan l) = Inr (pconn_chan (freshpconn l) f)"
    by (simp add: pchannel_at_def queued_connection_def taskWakeup_port_def padmitted_def)
  have map: "m_channelMap ?l2 f = None" "m_dispatcher ?l2 = m_dispatcher l"
    using assms(5) by (simp_all add: queued_connection_def taskWakeup_port_def padmitted_def)
  have v: "v_add SelectDispatcher = SelectDispatcher_add" by (simp add: SelectDispatcher_def)
  have evs: "m_events (pconn_chan c f) AND ReadEvent \<noteq> 0" for c by (simp add: pconn_chan_def new_pchannel_def ReadEvent_def)
  have "acceptConnection_port W (m_threadID s) f s = Inr (handed_over s w ?l1, 0)" using accept_port [OF assms(1,4)] .
  moreover have "port_rounds SelectDispatcher destroy_handler (port_call SelectDispatcher W tmp (m_threadID l)) [r1] ?l1 = Inl OutOfBounds"
    if "f = -1"
  proof -
    have "perform_task SelectDispatcher destroy_handler ?l2 (ADD, freshpchan l) = Inl OutOfBounds"
      using ch map evs that
      by (simp add: perform_task_def loop_add_def v SelectDispatcher_add_def setFdSet_port_def upd_bits_def fd_upd_def SELECT_MAX_def)
    then show ?thesis by (simp add: round del: port_rounds.simps(2))
  qed
  moreover have "\<exists>l2. port_rounds SelectDispatcher destroy_handler (port_call SelectDispatcher W tmp (m_threadID l)) [r1] ?l1 = Inr l2 \<and>
      select_interest (m_dispatcher l2) = select_interest (m_dispatcher l) \<and>
        pconns l2 (freshpconn l) \<noteq> None \<and> pclosed l2 = pclosed l \<and> m_taskQ l2 = []"
    if "SELECT_MAX \<le> f"
  proof -
    have "perform_task SelectDispatcher destroy_handler ?l2 (ADD, freshpchan l) =
        Inr (?l2\<lparr>m_channelMap := (m_channelMap ?l2)(f \<mapsto> Some (freshpchan l))\<rparr>)"
      using ch map that by (simp add: perform_task_def loop_add_def v SelectDispatcher_add_def)
    then have "port_rounds SelectDispatcher destroy_handler (port_call SelectDispatcher W tmp (m_threadID l)) [r1] ?l1 =
        Inr (?l2\<lparr>m_channelMap := (m_channelMap ?l2)(f \<mapsto> Some (freshpchan l))\<rparr>)"
      by (simp add: round del: port_rounds.simps(2))
    moreover have "m_dispatcher ?l1 = m_dispatcher l" "pconns ?l1 (freshpconn l) \<noteq> None" "pclosed ?l1 = pclosed l"
      by (simp_all add: queued_connection_def taskWakeup_port_def padmitted_def)
    ultimately show ?thesis
      by (intro exI [of _ "?l2\<lparr>m_channelMap := (m_channelMap ?l2)(f \<mapsto> Some (freshpchan l))\<rparr>"])
        (simp del: port_rounds.simps)
  qed
  ultimately show ?thesis
    using assms(6) by (intro exI [of _ ?l1]) (auto simp: SELECT_MAX_def Let_def simp del: port_rounds.simps)
qed

lemma port_unwatchable_descriptors_witness:
  "\<exists>s' (l1 :: port_worker_loop). acceptConnection_port (small_world True None) 1 (-1) small_port_server = Inr (s', 0) \<and>
     port_rounds SelectDispatcher destroy_handler
       (port_call SelectDispatcher (small_world True None) None (m_threadID small_port_worker))
       [Some (\<lambda>i. i = 4, \<lambda>_. False)] l1 = Inl OutOfBounds"
proof -
  have none: "m_channelMap small_port_worker (-1) = None" by (simp add: small_port_worker_def)
  have "-1 = (-1 :: int) \<or> SELECT_MAX \<le> -1" by simp
  from port_unwatchable_descriptors [OF small_port(1-3) small_world_simps(1) none this small_port(8), of True None None] small_port(7)
  show ?thesis by (auto simp: Let_def simp del: port_rounds.simps)
qed

text \<open>A connection of the small worker.\<close>

lemma small_port_connection:
  "\<exists>(l :: port_worker_loop) conn. pidle 2 l \<and> pconnected l 0 conn 9 \<and> pfresh conn \<and> pnet l = silent \<and> pclosed l = [] \<and>
     select_interest (m_dispatcher l) 9 = (True, False)"
proof -
  have "(9 :: int) \<noteq> 4" by simp
  from connection_registered [OF small_port(2-4) this small_port(5,6,8), of undefined None 2]
  obtain l :: port_worker_loop and conn where "pconnected l (freshpconn small_port_worker) conn 9" "pfresh conn"
      "pidle (m_threadID small_port_worker) l" "pnet l = pnet small_port_worker" "pclosed l = pclosed small_port_worker"
      "select_interest (m_dispatcher l) = (select_interest (m_dispatcher small_port_worker))(9 := (True, False))"
    by blast
  then show ?thesis by (intro exI [of _ l] exI [of _ conn]) (simp add: small_port_worker_def)
qed

text \<open>
  C26: A request that is cut off in its header section is taken as a bad one (the C server's parser
  loops for ever): the port writes its 400 answer into the connection's buffer and deletes the
  connection without sending it. As the buffer is then not empty, the descriptor is not closed and
  the channel and its entry in the map stay, while the dispatcher has forgotten them.
\<close>

theorem port_cut_request_leaks:
  assumes "pidle self l" and "pconnected l c conn f" and "pfresh conn" and "in_sets f"
    and "select_interest (m_dispatcher l) f = (True, False)" and "granted W"
    and "readable_request m u v hs" and "memmem tail CRLF = None"
    and "bs = m @ '' '' @ u @ '' '' @ v @ CRLF @ concat (map print_header hs) @ tail" and "length bs < 10240"
    and "w_recv W (preads l) f = Some bs"
  shows "\<exists>l'. processRead_port SelectDispatcher W tmp self c l = Inr (l', 0) \<and>
     wire (pnet l') = wire (pnet l) \<and> pclosed l' = pclosed l \<and> pconns l' c = None \<and> pchans l' = pchans l \<and>
     m_channelMap l' f = Some (Some (pc_channel conn)) \<and> select_interest (m_dispatcher l') f = (False, False)"
proof -
  obtain conn' d' where 1: "processRead_port SelectDispatcher W tmp self c l =
      Inr (taken_down d' c conn' f (l\<lparr>pconns := (pconns l)(c \<mapsto> conn'), pnet := pnet l, preads := Suc (preads l)\<rparr>), 0)"
      "\<not> pdrained conn'" "select_interest d' = (select_interest (m_dispatcher l))(f := (False, False))"
    using select_conns.read_cut [OF assms(1-3) TrueI TrueI assms(4-11), of tmp] by blast
  then show ?thesis using assms(2) by (simp add: taken_down_def pconnected_def)
qed

theorem port_cut_request_leaks_witness:
  "\<exists>(l :: port_worker_loop) l'. pconns l 0 \<noteq> None \<and>
     processRead_port SelectDispatcher (small_world True (Some (''GET / HTTP/1.1'' @ CRLF @ ''Host: a''))) None 2 0 l = Inr (l', 0) \<and>
     wire (pnet l') 9 = [] \<and> pclosed l' = [] \<and> pconns l' 0 = None \<and> m_channelMap l' 9 \<noteq> None"
proof -
  let ?bs = "''GET / HTTP/1.1'' @ CRLF @ ''Host: a''"
  obtain l :: port_worker_loop and conn where l: "pidle 2 l" "pconnected l 0 conn 9" "pfresh conn" "pnet l = silent" "pclosed l = []"
      "select_interest (m_dispatcher l) 9 = (True, False)"
    using small_port_connection by blast
  have req: "readable_request ''GET'' ''/'' ''HTTP/1.1'' []" by (simp add: readable_request_def)
  have tail: "memmem ''Host: a'' CRLF = None" by simp
  have bs: "?bs = ''GET'' @ '' '' @ ''/'' @ '' '' @ ''HTTP/1.1'' @ CRLF @ concat (map print_header []) @ ''Host: a''" by simp
  have recv: "w_recv (small_world True (Some ?bs)) (preads l) 9 = Some ?bs" by simp
  have len: "length ?bs < 10240" by simp
  obtain l' where "processRead_port SelectDispatcher (small_world True (Some ?bs)) None 2 0 l = Inr (l', 0)"
      "wire (pnet l') = wire (pnet l)" "pclosed l' = pclosed l" "pconns l' 0 = None"
      "m_channelMap l' 9 = Some (Some (pc_channel conn))"
    using port_cut_request_leaks [OF l(1-3) small_port(4) l(6) small_world_simps(1) req tail bs len recv, of None] by blast
  moreover have "pconns l 0 \<noteq> None" using l(2) by (simp add: pconnected_def)
  ultimately show ?thesis using l(4,5) by (intro exI [of _ l] exI [of _ l']) (simp add: silent_def)
qed

text \<open>
  When the peer closes before it has sent anything, or reading fails, the port closes the
  connection (the C server keeps it): the descriptor is forgotten by the dispatcher and closed, the
  channel, its entry in the map and the connection are gone, and nothing is sent.
\<close>

lemma port_closes_with_peer:
  assumes "pidle self l" and "pconnected l c conn f" and "pfresh conn" and "in_sets f"
    and "select_interest (m_dispatcher l) f = (True, False)"
    and "w_recv W (preads l) f = None \<or> w_recv W (preads l) f = Some []"
  shows "\<exists>l'. processRead_port SelectDispatcher W tmp self c l = Inr (l', 0) \<and>
     pclosed l' = pclosed l @ [f] \<and> pconns l' c = None \<and> pchans l' (pc_channel conn) = None \<and> m_channelMap l' f = None \<and>
     select_interest (m_dispatcher l') = (select_interest (m_dispatcher l))(f := (False, False)) \<and>
     pnet l' = pnet l \<and> pidle self l'"
proof -
  obtain d' where "processRead_port SelectDispatcher W tmp self c l = Inr (taken_down d' c conn f (l\<lparr>preads := Suc (preads l)\<rparr>), 0)"
      "pdrained conn" "select_interest d' = (select_interest (m_dispatcher l))(f := (False, False))"
    using select_conns.read_nothing [OF assms(1-3) TrueI TrueI assms(4-6), of tmp] by blast
  then show ?thesis using assms(1) by (simp add: taken_down_def pidle_def)
qed

lemma port_closes_with_peer_witness:
  "\<exists>(l :: port_worker_loop) l'. processRead_port SelectDispatcher (small_world True (Some [])) None 2 0 l = Inr (l', 0) \<and>
     pclosed l' = [9] \<and> pconns l' 0 = None"
proof -
  obtain l :: port_worker_loop and conn where l: "pidle 2 l" "pconnected l 0 conn 9" "pfresh conn" "pclosed l = []"
      "select_interest (m_dispatcher l) 9 = (True, False)"
    using small_port_connection by blast
  have "w_recv (small_world True (Some [])) (preads l) 9 = None \<or> w_recv (small_world True (Some [])) (preads l) 9 = Some []"
    by simp
  from port_closes_with_peer [OF l(1-3) small_port(4) l(5) this, of None] l(4) show ?thesis by auto
qed

text \<open>
  C22: The connection does not depend on the dispatcher: on select, on poll and on epoll, a GET
  request that arrives on a fresh connection is answered with the same bytes, after which the
  connection is closed and the dispatcher no longer watches its descriptor.
\<close>

theorem port_get_on_every_dispatcher:
  assumes "granted W" and "accepts_all (w_send W)" and "in_sets f"
    and "readable_request m u v hs" and "strcasecmp_eq m ''get''" and "length (print_request m u v hs) < 10240"
    and "\<forall>n. w_recv W n f = Some (print_request m u v hs)" and "servable (w_files W) u body shut"
  shows "(\<forall>l :: select_data pconn_loop. waits_for_request select_interest l c f \<longrightarrow>
       answers SelectDispatcher select_interest W tmp l c f (decided_head (w_files W) u @ body) shut) \<and>
     (\<forall>l :: poll_data pconn_loop. waits_for_request poll_interest l c f \<and> poll_sane (m_dispatcher l) \<longrightarrow>
       answers PollDispatcher poll_interest W tmp l c f (decided_head (w_files W) u @ body) shut) \<and>
     (\<forall>l :: epoll_data pconn_loop. waits_for_request epoll_interest l c f \<and> epoll_sane in_sets (m_dispatcher l) \<longrightarrow>
       answers EpollDispatcher epoll_interest W tmp l c f (decided_head (w_files W) u @ body) shut)"
proof -
  have "0 \<le> f" using assms(3) by (simp add: in_sets_def)
  then show ?thesis
    using select_conns.answers_get [OF _ TrueI TrueI assms(3,1,2,4-8)]
      poll_conns.answers_get [OF _ _ le0 _ assms(1,2,4-8)]
      epoll_conns.answers_get [where valid = in_sets, OF _ _ TrueI assms(3,1,2,4-8)]
    by blast
qed

theorem port_get_on_every_dispatcher_witness:
  "\<exists>(l :: port_worker_loop) l'. processRead_port SelectDispatcher (small_world True (Some (plain_get ''/d/a.txt''))) None 2 0 l = Inr (l', 0) \<and>
     wire (pnet l') 9 = decided_head small_files ''/d/a.txt'' @ ''hello'' \<and> pconns l' 0 = None"
proof -
  let ?W = "small_world True (Some (plain_get ''/d/a.txt''))"
  have req: "readable_request ''GET'' ''/d/a.txt'' ''HTTP/1.1'' []" "strcasecmp_eq ''GET'' ''get''"
      "length (print_request ''GET'' ''/d/a.txt'' ''HTTP/1.1'' []) < 10240"
      "\<forall>n. w_recv ?W n 9 = Some (print_request ''GET'' ''/d/a.txt'' ''HTTP/1.1'' [])"
    by (simp_all add: readable_request_def strcasecmp_eq_def tolower_def char_of_def bit_0 cstr_def print_request_def plain_get_def)
  have srv: "servable (w_files ?W) ''/d/a.txt'' ''hello'' [9]" using small_file_served(2) by simp
  obtain l :: port_worker_loop and conn where l: "pidle 2 l" "pconnected l 0 conn 9" "pfresh conn" "pnet l = silent"
      "select_interest (m_dispatcher l) 9 = (True, False)"
    using small_port_connection by blast
  have "waits_for_request select_interest l 0 9" using l by (auto simp: waits_for_request_def pidle_def)
  from port_get_on_every_dispatcher [OF small_world_simps(1,2) small_port(4) req srv, of 0 None] this
  have "answers SelectDispatcher select_interest ?W None l 0 9 (decided_head small_files ''/d/a.txt'' @ ''hello'') [9]"
    by simp
  then obtain l' where "processRead_port SelectDispatcher ?W None 2 0 l = Inr (l', 0)" "pconns l' 0 = None"
      "sent silent 9 (decided_head small_files ''/d/a.txt'' @ ''hello'') [9] (pnet l')"
    using l(1,4) by (auto simp: answers_def pidle_def)
  then show ?thesis by (intro exI [of _ l] exI [of _ l']) (simp add: sent_def silent_def)
qed

text \<open>Connections that come to a worker one after the other, each with its request.\<close>

fun serve_each :: "world \<Rightarrow> char list option \<Rightarrow> arrival list \<Rightarrow> port_worker_loop \<Rightarrow> port_worker_loop result" where
  "serve_each W tmp [] l = Inr l"
| "serve_each W tmp (x # xs) l =
     rbind (port_rounds SelectDispatcher destroy_handler (port_call SelectDispatcher W tmp (m_threadID l))
       [a_wake x, a_ready x] (queued_connection l (a_fd x))) (serve_each W tmp xs)"

text \<open>
  C5: A worker of the port answers any number of requests, one after the other, on new or reused
  descriptors: each descriptor has been sent the responses to its own requests, in their order, and
  nothing else; the descriptors were closed in order; and the worker's tables and watched
  descriptors are what they were.
\<close>

theorem port_serves_requests:
  assumes "port_worker l e" and "\<not> m_isQuit l" and "granted W" and "accepts_all (w_send W)"
    and "\<forall>k<length xs. arrives W l e (preads l + k) (xs ! k)"
  shows "\<exists>l'. serve_each W tmp xs l = Inr l' \<and>
     (\<forall>f. wire (pnet l') f = wire (pnet l) f @ concat (map (a_reply (w_files W)) (filter (\<lambda>x. a_fd x = f) xs))) \<and>
     pclosed l' = pclosed l @ map a_fd xs \<and> m_channelMap l' = m_channelMap l \<and>
     select_interest (m_dispatcher l') = select_interest (m_dispatcher l) \<and> port_worker l' e"
  using assms
proof (induction xs arbitrary: l)
  case Nil
  then show ?case by simp
next
  case (Cons x xs)
  have x: "arrives W l e (preads l) x" using Cons.prems(5) by force
  from one_request [OF Cons.prems(1-4) x, of tmp]
  obtain l2 where 2: "port_rounds SelectDispatcher destroy_handler (port_call SelectDispatcher W tmp (m_threadID l)) [a_wake x, a_ready x]
        (queued_connection l (a_fd x)) = Inr l2"
      "sent (pnet l) (a_fd x) (a_reply (w_files W) x) (a_shut x) (pnet l2)" "pclosed l2 = pclosed l @ [a_fd x]"
      "m_channelMap l2 = m_channelMap l" "select_interest (m_dispatcher l2) = select_interest (m_dispatcher l)"
      "port_worker l2 e" "\<not> m_isQuit l2" "preads l2 = Suc (preads l)"
    by blast
  have "\<forall>k<length xs. arrives W l2 e (preads l2 + k) (xs ! k)"
    using Cons.prems(5) unfolding arrives_cong [OF 2(4,5)] 2(8) by auto
  from Cons.IH [OF 2(6,7) Cons.prems(3,4) this]
  obtain l' where l': "serve_each W tmp xs l2 = Inr l'"
      "\<forall>f. wire (pnet l') f = wire (pnet l2) f @ concat (map (a_reply (w_files W)) (filter (\<lambda>x. a_fd x = f) xs))"
      "pclosed l' = pclosed l2 @ map a_fd xs" "m_channelMap l' = m_channelMap l2"
      "select_interest (m_dispatcher l') = select_interest (m_dispatcher l2)" "port_worker l' e"
    by blast
  then show ?case using 2(1-5) by (simp add: sent_def del: port_rounds.simps)
qed

theorem port_serves_requests_witness:
  "\<exists>l'. serve_each (small_world True (Some (plain_get ''/d/a.txt''))) None (map small_arrival [9, 12, 9]) small_port_worker = Inr l' \<and>
     pclosed l' = [9, 12, 9] \<and> wire (pnet l') 12 = decided_head small_files ''/d/a.txt'' @ ''hello''"
proof -
  let ?W = "small_world True (Some (plain_get ''/d/a.txt''))" and ?xs = "map small_arrival [9, 12, 9]"
  have "arrives ?W small_port_worker 4 n (small_arrival f)" if "f \<in> {9, 12}" for f n
    using that by (intro small_arrives) (auto simp: in_sets_def SELECT_MAX_def)
  then have "\<forall>k<length ?xs. arrives ?W small_port_worker 4 (preads small_port_worker + k) (?xs ! k)"
    by (auto simp: less_Suc_eq)
  from port_serves_requests [OF small_port(2,3) small_world_simps(1,2) this, of None]
  obtain l' where "serve_each ?W None ?xs small_port_worker = Inr l'" "pclosed l' = pclosed small_port_worker @ map a_fd ?xs"
      "wire (pnet l') 12 = wire (pnet small_port_worker) 12 @ concat (map (a_reply (w_files ?W)) (filter (\<lambda>x. a_fd x = 12) ?xs))"
    by blast
  then show ?thesis
    by (intro exI [of _ l']) (simp add: small_port_worker_def small_arrival_def a_reply_def silent_def del: serve_each.simps)
qed

end
