(* ===== verification/Port_Handshake.thy ===== *)
theory Port_Handshake
  imports Worker_Thread Byte_Queue
begin

text \<open>
  \<open>run\<close>, \<open>running\<close> and the destructor of \<open>old/ReactorHttp_cpp/WorkerThread.cpp\<close>, and the destructor
  of \<open>ThreadPool.cpp\<close>. A step is one call or assignment of one thread, as in \<open>Worker_Thread\<close>; the
  condition variable's \<open>wait\<close> releases the lock, blocks, and takes it again; \<open>locker\<close> unlocks when
  \<open>run\<close> returns. The object is simulated by the C server's handshake.
\<close>

datatype run_pc = RNew | RLocker | RLoop | RBlocked | RAwake | RReturn | RDone

datatype running_pc = SubNone | SubLock | SubNew | SubUnlock | SubNotify | SubLoop

record 'l worker_object =
  m_thread :: bool
  m_mutex :: owner
  m_evLoop :: "'l option"
  run_at :: run_pc
  running_at :: running_pc

text \<open>\<open>m_thread\<close> says whether the pointer is set; nothing ever joins or detaches the thread.\<close>

definition new_worker_object :: "'l worker_object" where
  "new_worker_object = \<lparr>m_thread = False, m_mutex = Free, m_evLoop = None, run_at = RNew, running_at = SubNone\<rparr>"

fun run_next :: "'l worker_object \<Rightarrow> 'l worker_object option" where
  "run_next s = (case run_at s of
       RNew \<Rightarrow> Some (s\<lparr>m_thread := True, run_at := RLocker, running_at := SubLock\<rparr>)
     | RLocker \<Rightarrow> if m_mutex s = Free then Some (s\<lparr>m_mutex := Main, run_at := RLoop\<rparr>) else None
     | RLoop \<Rightarrow> if m_evLoop s = None then Some (s\<lparr>m_mutex := Free, run_at := RBlocked\<rparr>) else Some (s\<lparr>run_at := RReturn\<rparr>)
     | RBlocked \<Rightarrow> None
     | RAwake \<Rightarrow> if m_mutex s = Free then Some (s\<lparr>m_mutex := Main, run_at := RLoop\<rparr>) else None
     | RReturn \<Rightarrow> Some (s\<lparr>m_mutex := Free, run_at := RDone\<rparr>)
     | RDone \<Rightarrow> None)"

fun running_next :: "'l \<Rightarrow> 'l worker_object \<Rightarrow> 'l worker_object option" where
  "running_next x s = (case running_at s of
       SubLock \<Rightarrow> if m_mutex s = Free then Some (s\<lparr>m_mutex := Sub, running_at := SubNew\<rparr>) else None
     | SubNew \<Rightarrow> Some (s\<lparr>m_evLoop := Some x, running_at := SubUnlock\<rparr>)
     | SubUnlock \<Rightarrow> Some (s\<lparr>m_mutex := Free, running_at := SubNotify\<rparr>)
     | SubNotify \<Rightarrow> Some (s\<lparr>running_at := SubLoop, run_at := (if run_at s = RBlocked then RAwake else run_at s)\<rparr>)
     | _ \<Rightarrow> None)"

text \<open>\<open>wait\<close> may also return for no reason.\<close>

inductive object_step :: "'l \<Rightarrow> 'l worker_object \<Rightarrow> 'l worker_object \<Rightarrow> bool" for x where
  run: "run_next s = Some t \<Longrightarrow> object_step x s t"
| running: "running_next x s = Some t \<Longrightarrow> object_step x s t"
| awake: "run_at s = RBlocked \<Longrightarrow> object_step x s (s\<lparr>run_at := RAwake\<rparr>)"

text \<open>
  Deleting a \<open>std::thread\<close> that can still be joined calls \<open>std::terminate\<close>. The pool's destructor
  deletes its workers in order.
\<close>

definition delete_WorkerThread :: "'l worker_object \<Rightarrow> unit result" where
  "delete_WorkerThread s = (if m_thread s then Inl (Exit ''terminate'') else Inr ())"

definition delete_ThreadPool :: "'l worker_object list \<Rightarrow> unit result" where
  "delete_ThreadPool ws = put_all (\<lambda>_ w. delete_WorkerThread w) () ws"

section \<open>The object is the handshake\<close>

fun as_mpc :: "run_pc \<Rightarrow> main_pc" where
  "as_mpc RNew = MCreate" | "as_mpc RLocker = MLock" | "as_mpc RLoop = MTest" | "as_mpc RBlocked = MWait"
| "as_mpc RAwake = MWoken" | "as_mpc RReturn = MUnlock" | "as_mpc RDone = MDone"

fun as_spc :: "running_pc \<Rightarrow> sub_pc" where
  "as_spc SubNone = SNone" | "as_spc SubLock = SLock" | "as_spc SubNew = SInit" | "as_spc SubUnlock = SUnlock"
| "as_spc SubNotify = SSignal" | "as_spc SubLoop = SRun"

definition as_handshake :: "'l worker_object \<Rightarrow> 'l handshake" where
  "as_handshake s = \<lparr>mpc = as_mpc (run_at s), spc = as_spc (running_at s), owner = m_mutex s, evloop = m_evLoop s\<rparr>"

lemma as_handshake_simps [simp]:
  "mpc (as_handshake s) = as_mpc (run_at s)" "spc (as_handshake s) = as_spc (running_at s)"
  "owner (as_handshake s) = m_mutex s" "evloop (as_handshake s) = m_evLoop s"
  by (simp_all add: as_handshake_def)

lemma run_simulated: "run_next s = Some t \<Longrightarrow> main_step (as_handshake s) (as_handshake t)"
  by (cases "run_at s") (auto simp: as_handshake_def main_blocked split: if_splits)

lemma running_simulated: "running_next x s = Some t \<Longrightarrow> sub_step x (as_handshake s) (as_handshake t)"
  by (cases "running_at s"; cases "run_at s") (auto simp: as_handshake_def sub_blocked split: if_splits)

lemma object_simulated: "object_step x s t \<Longrightarrow> step x (as_handshake s) (as_handshake t)"
proof (induction rule: object_step.induct)
  case (run s t)
  then show ?case using run_simulated [OF run] by (simp add: step_def progress_def del: run_next.simps)
next
  case (running s t)
  then show ?case using running_simulated [OF running] by (simp add: step_def progress_def del: running_next.simps)
next
  case (awake s)
  then show ?case by (simp add: step_def spurious_def as_handshake_def)
qed

lemma object_begins: "as_handshake new_worker_object = start_handshake"
  by (simp add: as_handshake_def new_worker_object_def start_handshake_def)

lemma object_reachable: "(object_step x)\<^sup>*\<^sup>* new_worker_object s \<Longrightarrow> reachable x (as_handshake s)"
proof (induction rule: rtranclp_induct)
  case base
  then show ?case unfolding object_begins by (rule reachable.start)
next
  case (step s t)
  from reachable.step [OF step.IH object_simulated [OF step.hyps(2)]] show ?case .
qed

text \<open>Where the handshake can move, the object can.\<close>

lemma object_moves: "progress x (as_handshake s) u \<Longrightarrow> \<exists>t. object_step x s t \<and> as_handshake t = u"
  unfolding progress_def
proof (elim disjE)
  assume "main_step (as_handshake s) u"
  then have "\<exists>t. run_next s = Some t \<and> as_handshake t = u"
    by (cases "run_at s") (auto simp: main_blocked as_handshake_def)
  then show ?thesis by (blast intro: object_step.run)
next
  assume "sub_step x (as_handshake s) u"
  then have "\<exists>t. running_next x s = Some t \<and> as_handshake t = u"
    by (cases "running_at s"; cases "run_at s") (auto simp: sub_blocked as_handshake_def)
  then show ?thesis by (blast intro: object_step.running)
qed

lemma object_runs: "(progress x)\<^sup>*\<^sup>* (as_handshake s) u \<Longrightarrow> \<exists>t. (object_step x)\<^sup>*\<^sup>* s t \<and> as_handshake t = u"
proof (induction rule: rtranclp_induct)
  case base
  then show ?case by blast
next
  case (step u v)
  then obtain t where "(object_step x)\<^sup>*\<^sup>* s t" "as_handshake t = u" by blast
  with object_moves [of x t v] step.hyps(2) show ?case by (meson rtranclp.rtrancl_into_rtrancl)
qed

lemma thread_set: "(object_step x)\<^sup>*\<^sup>* new_worker_object s \<Longrightarrow> run_at s \<noteq> RNew \<Longrightarrow> m_thread s"
proof (induction rule: rtranclp_induct)
  case base
  then show ?case by (simp add: new_worker_object_def)
next
  case (step s t)
  from step.hyps(2) show ?case
  proof cases
    case run
    then show ?thesis using step.IH by (cases "run_at s") (auto split: if_splits)
  next
    case running
    then show ?thesis using step by (cases "running_at s") (auto split: if_splits)
  next
    case awake
    then show ?thesis using step.IH by simp
  qed
qed

section \<open>Properties\<close>

text \<open>
  C23: Starting a worker of the port: every step of its threads is one of the C server's handshake;
  \<open>run\<close> returns only when the worker has published its loop, the two
  threads are never both in their critical sections, a blocked \<open>run\<close> still has its notification to
  come, and from every state \<open>run\<close> can still return. Once it has been called, deleting the worker,
  or a pool that begins with it, ends the program: the thread is never joined.
\<close>

theorem port_worker_starts:
  assumes "(object_step x)\<^sup>*\<^sup>* new_worker_object s"
  shows "(\<forall>t. object_step x s t \<longrightarrow> step x (as_handshake s) (as_handshake t)) \<and> (run_at s = RDone \<longrightarrow> m_evLoop s = Some x) \<and>
     \<not> (run_at s \<in> {RLoop, RReturn} \<and> running_at s \<in> {SubNew, SubUnlock}) \<and>
     \<not> (run_at s = RBlocked \<and> running_at s = SubLoop) \<and>
     (\<exists>t. (object_step x)\<^sup>*\<^sup>* s t \<and> run_at t = RDone \<and> running_at t = SubLoop) \<and>
     (run_at s \<noteq> RNew \<longrightarrow> delete_WorkerThread s = Inl (Exit ''terminate'') \<and> delete_ThreadPool (s # ws) = Inl (Exit ''terminate''))"
proof -
  have inv: "hs_inv x (as_handshake s)" using object_reachable [OF assms] by (rule reachable_inv)
  obtain u where u: "(progress x)\<^sup>*\<^sup>* (as_handshake s) u" "finished u" using reaches_end [OF inv] by blast
  obtain t where t: "(object_step x)\<^sup>*\<^sup>* s t" "as_handshake t = u" using object_runs [OF u(1)] by blast
  have "as_mpc (run_at t) = MDone" "as_spc (running_at t) = SRun" using u(2) t(2) by (auto simp: finished_def)
  then have "run_at t = RDone" "running_at t = SubLoop"
    by (cases "run_at t"; simp) (use \<open>as_spc (running_at t) = SRun\<close> in \<open>cases "running_at t"; simp\<close>)
  with t(1) have ends: "\<exists>t. (object_step x)\<^sup>*\<^sup>* s t \<and> run_at t = RDone \<and> running_at t = SubLoop" by blast
  have del: "run_at s \<noteq> RNew \<longrightarrow> delete_WorkerThread s = Inl (Exit ''terminate'') \<and> delete_ThreadPool (s # ws) = Inl (Exit ''terminate'')"
    using thread_set [OF assms] by (simp add: delete_WorkerThread_def delete_ThreadPool_def)
  have sim: "\<forall>t. object_step x s t \<longrightarrow> step x (as_handshake s) (as_handshake t)"
    by (intro allI impI) (rule object_simulated)
  have safe: "(run_at s = RDone \<longrightarrow> m_evLoop s = Some x) \<and> \<not> (run_at s \<in> {RLoop, RReturn} \<and> running_at s \<in> {SubNew, SubUnlock}) \<and>
      \<not> (run_at s = RBlocked \<and> running_at s = SubLoop)"
    using inv by (cases "run_at s"; cases "running_at s"; simp add: hs_inv_def)
  show ?thesis using safe by (intro conjI sim ends del) (elim conjE, assumption)+
qed

lemma object_started: "(object_step x)\<^sup>*\<^sup>* new_worker_object (new_worker_object\<lparr>m_thread := True, run_at := RLocker, running_at := SubLock\<rparr>)"
  by (intro r_into_rtranclp object_step.run) (simp add: new_worker_object_def)

theorem port_worker_starts_witness:
  "delete_ThreadPool [new_worker_object\<lparr>m_thread := True, run_at := RLocker, running_at := SubLock\<rparr> :: nat worker_object] = Inl (Exit ''terminate'')"
  using port_worker_starts [OF object_started [of "7 :: nat"], of "[]"] by simp

end
