(* ===== verification/Spec2Isabelle.thy ===== *)
theory Spec2Isabelle
  imports C_Buffer Epoll_Dispatch Poll_Dispatch Select_Dispatch Worker_Thread Task_Wake Tcp_Session Simple_Threads Cxx_Session Cxx_Logger Port_Wake Port_Server Port_Handshake
begin

text \<open>
  A verification development for the reactor servers of this repository. It models the C++
  library at the top level with its echo server, and the C servers under \<open>old/\<close> it grew out of:
  \<open>old/ReactorHttp_c\<close>, a multi-threaded HTTP server on reactors, and
  \<open>old/SimpleHttp/server.c\<close>, a single-file server, together with \<open>old/ReactorHttp_cpp\<close>, the port
  of the former to C++.

  \<^bold>\<open>The library.\<close> \<open>TcpServer.cc\<close> runs in a base loop; its acceptor (\<open>Acceprot.cc\<close>) accepts
  connections, which are handed to the loops of \<open>EventLoopThreadPool.cc\<close> in turn, each started
  in a thread of its own by \<open>EventLoopThread.cc\<close> and \<open>Thread.cc\<close>. A loop (\<open>EventLoop.cc\<close>)
  waits in \<open>EpollPoller.cc\<close>, runs the callbacks of the ready channels (\<open>Channel.cc\<close>) and
  then the functors other code has queued; a write to an eventfd wakes it up for these. A
  connection (\<open>TcpConnection.cc\<close>) reads into one buffer and writes from another
  (\<open>Buffer.cc\<close>), calls the callbacks of the user, and goes through the states of \<open>StateE\<close>;
  when its peer closes, it is removed by functors that pass from its loop to the base loop.
  \<open>EchoServer.cc\<close> sets callbacks that answer each connection's first message with \<open>OK\<close>.

  \<^bold>\<open>The C server.\<close> \<open>TcpServer.c\<close> runs a main loop that accepts connections and hands each to
  one of the loops of \<open>ThreadPool.c\<close> in turn; each loop runs in a thread started by
  \<open>WorkerThread.c\<close>. A loop (\<open>EventLoop.c\<close>) waits through a dispatcher (\<open>EpollDispatche.c\<close>,
  \<open>PollDispatch.c\<close> or \<open>SelectDispatch.c\<close>), calls the callbacks of the ready channels
  (\<open>Channel.c\<close>, found by descriptor in the table of \<open>ChannelMap.c\<close>), and then performs the
  tasks other code has queued: add, delete or modify a channel. A connection
  (\<open>TcpConnection.c\<close>) reads into a growable buffer (\<open>Buffer.c\<close>), parses the request and
  decides on the response (\<open>HttpRequest.c\<close>), sends it (\<open>HttpResponse.c\<close> and the sending
  functions of \<open>HttpRequest.c\<close>), and asks its loop to delete it, which destroys it.

  \<^bold>\<open>The port.\<close> \<open>old/ReactorHttp_cpp\<close> has the parts of the C server under the same names, as
  classes: the table of channels is a \<open>std::map\<close>, the list of tasks a \<open>std::queue\<close>, headers are
  kept in a \<open>std::map\<close>, the dispatchers are subclasses of \<open>Dispatcher\<close>, and loops use select. Its
  buffer, request line and bodies are compared with the C server's; where it repaired something
  (the slots of poll, the direction of the wake-up, cut-off requests, a closing peer) and where it
  broke something (the second vector of \<open>readv\<close>) are properties of their own.

  \<^bold>\<open>The theories.\<close>
  \<^item> \<open>Prelude\<close>: errors as values (\<open>error\<close>, \<open>result\<close>, \<open>rbind\<close>), C's integers
    (\<open>chk\<close> for signed overflow, \<open>wrap32\<close>, \<open>size_t\<close>), blocks of memory with checked access,
    C strings, \<open>memmem\<close>, the decimal text of \<open>sprintf\<close>, and the locale \<open>lowering\<close> of a
    relation whose runs come to an end, which both thread handshakes instantiate.
  \<^item> \<open>Byte_Queue\<close>: the locale of a byte queue (append, receive, send on a state with
    contents). \<open>C_Buffer\<close>: \<open>Buffer.c\<close>, with the conditions of every failure, and its
    interpretation of the locale: the buffer is a FIFO over any run.
  \<^item> \<open>Channel\<close> and \<open>Channel_Map\<close>: channels and the table, whose slots may be uninitialised
    (\<open>Wild\<close>); the doubling loop is a partial function.
  \<^item> \<open>Task_Queue\<close>: the linked list of tasks on a heap, refining a list (\<open>queue_rep\<close>).
    \<open>Event_Loop\<close>: the record \<open>eloop\<close> and \<open>EventLoop.c\<close>; the dispatcher is a record of
    functions as in \<open>Dispatcher.h\<close>, callbacks are an argument, and \<open>loop_contract\<close> is what
    the loop relies on.
  \<^item> \<open>Dispatcher_Contract\<close>: the locale of a dispatcher (what add, modify and remove do to the
    set of watched events). \<open>Epoll_Dispatch\<close>, \<open>Poll_Dispatch\<close>, \<open>Select_Dispatch\<close>: the three
    dispatchers. epoll keeps the contract; poll keeps it for one descriptor; select's modify
    breaks it, and its wait mixes up the two sets.
  \<^item> \<open>Http_Text\<close>: URL decoding in place and its refinement to percent-decoding, media types,
    C's case-insensitive comparison. \<open>Http_Request\<close>: the parser on the buffer, its round trip
    with a printed request, and where it fails. \<open>Http_Response\<close>: the response and the two
    body functions. \<open>Http_Serve\<close>: \<open>parseHttpRequest\<close> as a whole, by kind of request.
  \<^item> \<open>Tcp_Connection\<close>: a loop extended by its connections and the wire (\<open>tcp_loop\<close>), the
    callbacks of \<open>TcpConnection.c\<close>, and the life of a connection in a loop. \<open>Task_Wake\<close>: its
    loop's task list between several threads at the level of the mutex (\<open>tasks_step\<close>), which
    \<open>AddTaskEventLoop\<close> and \<open>processTaskEventLoop\<close> simulate.
  \<^item> \<open>Thread_Pool\<close>: the pool, and the locale \<open>round_robin\<close> it provides. \<open>Worker_Thread\<close>: the
    handshake of \<open>runWorkThread\<close> as a step relation, its safety and its progress.
    \<open>Tcp_Server\<close>: the listener, the server and accepting a connection. \<open>Tcp_Session\<close>: any number
    of clients, distributed over the workers in turn (\<open>serve_all\<close>); \<open>only_at\<close> and \<open>gone_from\<close> say
    that a visit leaves no trace in a worker's tables.
  \<^item> \<open>Simple_Http\<close>: the functions of \<open>old/SimpleHttp/server.c\<close>. \<open>Simple_Threads\<close>: the threads its
    loop starts, as a step relation with the clients and the kernel's edges (\<open>simple_step\<close>); no
    edge is lost (\<open>edges_ok\<close>), but accepting threads pile up and a descriptor can be closed twice.
  \<^item> \<open>Cxx_Buffer\<close>: \<open>Buffer.h\<close> and \<open>Buffer.cc\<close>, a second provider of \<open>Byte_Queue\<close>'s
    contract, a FIFO also over failing sends, and equivalent to \<open>C_Buffer\<close> where that survives.
  \<^item> \<open>Cxx_Poller\<close>: channels and the epoll poller (\<open>reactor\<close>); the channel, the map and the
    kernel agree in every reachable state (\<open>reactor_inv\<close>, kept by \<open>reactor_step\<close>), and the
    callbacks of a channel run in a fixed order.
  \<^item> \<open>Cxx_Loop\<close>: \<open>EventLoop.cc\<close> on the record \<open>cloop\<close>; the locale \<open>loop_functors\<close> of what
    a loop relies on when it runs functors; and \<open>wake_step\<close>, the protocol by which several
    threads hand functors to a loop, with its invariant.
  \<^item> \<open>Cxx_Connection\<close>: \<open>TcpConnection.cc\<close> on a loop extended by its connections
    (\<open>conn_loop\<close>). \<open>open_conn\<close> is the invariant of an open connection; the locales
    \<open>conn_relation\<close> and \<open>conn_callbacks\<close> prove once, for any relation the elementary changes
    respect, that every operation respects it; the relations are \<open>advances\<close> (states only move
    forward) and \<open>keeps_queue\<close> (functors are only added).
  \<^item> \<open>Cxx_Pool\<close>: threads, the pool as a second provider of \<open>round_robin\<close>, and \<open>startLoop\<close>
    with \<open>threadFunc\<close> as a step relation.
  \<^item> \<open>Cxx_Server\<close>: addresses, the acceptor, the server and the echo server: its answer, the
    end of a connection, the names of connections, and the instances of the locales above on the
    echo server's callbacks. \<open>Cxx_Session\<close>: the server from its start (\<open>bare\<close> loops,
    \<open>waiting\<close> is the invariant of a loop between two rounds), and a client's visit through the
    rounds of both loops, each round one \<open>epoll_wait\<close>, the callbacks and the functors.
  \<^item> \<open>Cxx_Logger\<close>: the text of a time (\<open>localtime\<close> on the Gregorian calendar, proved to be undone
    by \<open>day_number\<close>), the logger and its macros, and several threads that log (\<open>log_step\<close>).
  \<^item> \<open>Port_Buffer\<close>: the port's buffer, on the record of \<open>C_Buffer\<close>, compared with it and a third
    provider of \<open>Byte_Queue\<close>'s contract. \<open>Port_Request\<close>: its parser, for which a
    \<open>std::map\<close> is a list in the order of its keys (\<open>first_entry\<close>), with termination, the round
    trip with printed requests and the comparison with the C server's parser. \<open>Port_Response\<close>: its
    response and body functions. \<open>Port_Serve\<close>: \<open>parseHttpRequest\<close> as a whole, and the bodies
    compared with the C server's (\<open>carried\<close>: whatever the C function returns, the port's returns).
  \<^item> \<open>Port_Loop\<close>: channels and the loop on the record \<open>ploop\<close>; \<open>draining\<close> is what the queue
    relies on. \<open>Port_Wake\<close>: the queue between several threads as a step relation, which the loop's
    operations simulate. \<open>Port_Dispatch\<close>: the three dispatchers and what a loop expects of them, \<open>watch_set\<close>
    and \<open>rewatchable\<close> (poll and epoll keep both, select the first).
  \<^item> \<open>Port_Connection\<close>: connections on \<open>pconn_loop\<close>; the locale \<open>connections\<close> joins \<open>draining\<close>
    and \<open>watch_set\<close> and is interpreted on all three dispatchers. \<open>Port_Server\<close>: the pool, a third
    \<open>round_robin\<close>, the server, a request through both, and the sequences of requests a worker
    serves. \<open>Port_Handshake\<close>: the start of a worker, which refines \<open>Worker_Thread\<close>'s handshake.
  \<^item> This theory: a request through the whole C server.

  \<^bold>\<open>How the code is read.\<close> A struct is a record, a pointer to a heap object an address in a map
  (\<open>chans\<close>, \<open>conns\<close>, the task list's heap) or, where it is owned by one object, an option.
  Every operation returns \<open>Inl\<close> an error or \<open>Inr\<close> its result. Undefined behaviour (access
  outside a block, NULL, use after free, signed overflow, overlapping \<open>memcpy\<close>, reading
  uninitialised memory), a failed assertion, \<open>exit\<close>, an exception (\<open>Thrown\<close>) and not
  returning (\<open>Hang\<close>) are errors, so a theorem that ends in \<open>Inr\<close> excludes them all. The statements of a function are taken in
  the order of the code, early returns included. Callers see the results the code returns; a
  function that falls off its end without a value returns \<open>None\<close> for it.

  \<^bold>\<open>What is an argument.\<close> The kernel: what \<open>readv\<close>, \<open>send\<close>, \<open>accept\<close> and the waits
  return (\<open>w_recv\<close>, \<open>w_send\<close>, the list of waits), the file system (\<open>files\<close>), the allocator
  for buffers and tables (\<open>al\<close>), the contents of fresh memory (\<open>junk\<close>), the socket pair, and
  thread identifiers. The contracts on them (\<open>granted\<close>, \<open>accepts_all\<close>, \<open>reads_from\<close>,
  \<open>admissible\<close>, \<open>makes_progress\<close>) are satisfiable; every theorem with hypotheses has
  a witness on concrete values. The \<open>DEBUG\<close> switch of \<open>Log.h\<close> is \<open>w_debug\<close>: with it,
  destroying a connection reads its name after freeing it.

  \<^bold>\<open>Loops and bounds.\<close> The loops that may not end are partial functions whose undefinedness is
  \<open>Hang\<close>: the doubling of the table, the parser's loop, the read loop of \<open>sendFile\<close> and
  SimpleHttp's \<open>sendfile\<close> loop, and the port's parser, queue, file and poll loops; returning is
  proved, never assumed. \<open>process_nodes\<close> follows the task list with as much fuel as nodes were ever
  allocated, which a list without cycles cannot use up; \<open>tasks_performed_in_order\<close> shows that it
  reaches the end. The event loop is run along a given finite sequence of waits.

  \<^bold>\<open>What is not modelled.\<close> The interleaving of different loops' threads, beyond the
  handshakes, the task list (\<open>Task_Wake\<close>), the port's queue (\<open>Port_Wake\<close>) and the library's
  (\<open>wake_step\<close>): in the theorems on whole requests, an operation on another thread's loop is one
  step between two waits of that loop. Allocation of the control structures (loops, channels,
  nodes, connections, the server and its pool) is taken to succeed; \<open>destroyBuffer\<close>,
  \<open>destroyHttpRequest\<close> and \<open>destroyHttpResponse\<close> appear in the destruction of the
  connection; the dispatchers' clear functions only free memory and are never called. Output on
  the terminal is left out, except where a log line itself goes wrong. Of the library: the
  interleaving of a worker's event handling with the base loop (\<open>connectDestroy\<close> runs in the base
  thread between two handlers of the worker), except for the queue of functors
  (\<open>wake_step\<close>), the start of a thread and the logger; the time a wait returned, which is only
  passed on; the addresses a connection stores; and the destruction of a connection that a waiting functor still holds when it
  is removed. Of the port: the destructors of loops and dispatchers, which nothing
  runs; the reading of \<open>m_taskQ.empty()\<close> outside the mutex; and its log lines, except
  for the one that prints the buffer. A pointer difference with a null pointer
  (\<open>parseRequestLine\<close> without a line end, in both servers) is taken as the error it is in the language.
  In SimpleHttp's run an answering thread takes one step, and connections are not reset.
  The start-up programs (\<open>main\<close>), \<open>Log.h\<close> and the generated build files are left out.
\<close>

section \<open>Properties that span components\<close>

text \<open>
  C1: A request through the whole server. The main loop accepts a connection and hands it to the
  next worker; the worker's wait times out, it registers the connection, and the next wait
  reports the descriptor, on which a complete GET request for an existing file has arrived. Then
  the client has been sent the 200 response with the file's media type, size and bytes, and
  nothing else; the descriptor is closed and no longer watched, the connection is freed, and the
  worker's loop is idle. With \<open>DEBUG\<close> set, the worker instead ends in a use after free.
\<close>

theorem request_through_server:
  assumes w: "next_worker s w l" "\<not> isQuite l" and al: "granted W" and f: "admissible l client"
    and K: "accepts_all (w_send W)"
    and req: "request_ok m u v hs" "length hs \<le> HeaderSize" "strcasecmp_eq m ''get''"
    and recv: "w_recv W (recvs l) client = Some (print_request m u v hs)" "length (print_request m u v hs) < 10240"
    and url: "names_file u file" "length file < 128"
    and info: "fstat (w_files W) file = Some st" "\<not> st_isdir st"
      "0 < fopen (w_files W) file" "reads_from (w_files W) file 0 cs"
  shows "\<exists>s' l1 l3. acceptConnection W created (threadID s) client s = Inr (s', 0) \<and>
     workthreads (pool s') ! nat (index (pool s)) = Some (w\<lparr>wloop := Some l1\<rparr>) \<and>
     RunEventLoop (Epolldispatch created) (w_al W) (w_junk W) (destroy_call W)
       (worker_call (Epolldispatch created) W (threadID l)) (threadID l) [Some [], Some [(client, EPOLLIN)]] l1 =
       (if w_debug W then Inl UseAfterFree else Inr (l3, None)) \<and>
     idle (threadID l) l3 \<and> closed l3 = closed l @ [client] \<and> conns l3 (freshconn l) = None \<and>
     epoll_interest (disepatherData l3) client = (False, False) \<and>
     sent (net l) client (''HTTP/1.1 200 OK'' @ CRLF @ ''Content-type: '' @ getFileType file @ CRLF @
       ''Content-length: '' @ dec (wrap32 (st_size st)) @ CRLF @ CRLF @ concat cs) [fopen (w_files W) file] (net l3)"
proof -
  let ?D = "Epolldispatch created :: (epoll_data, unit tcp_loop_ext, epoll_ready) Dispatcher"
  obtain l1 l2 conn where 1: "acceptConnection W created (threadID s) client s =
      Inr (s\<lparr>pool := (pool s)\<lparr>index := (index (pool s) + 1) mod threadNum (pool s),
         workthreads := (workthreads (pool s))[nat (index (pool s)) := Some (w\<lparr>wloop := Some l1\<rparr>)]\<rparr>\<rparr>, 0)"
      "threadID l1 = threadID l" "isQuite l1 = isQuite l"
    and 2: "processTaskEventLoop ?D (w_al W) (w_junk W) (destroy_call W) l1 = Inr l2"
      "idle (threadID l) l2" "connected l2 (freshconn l) conn client" "fresh conn" "same_io l l2"
    using accept_ok [OF w(1) al f, of created] by blast
  have io: "isQuite l2 = isQuite l" "recvs l2 = recvs l" "net l2 = net l" "closed l2 = closed l"
    using 2(5) by (simp_all add: same_io_def)
  obtain l3 where 3: "processRead ?D W (threadID l) (freshconn l) l2 =
      (if w_debug W then Inl UseAfterFree else Inr (l3, None))"
     "disconnected l3 (freshconn l) conn client" "closed l3 = closed l @ [client]" "idle (threadID l) l3"
     "sent (net l) client (response_head (file_response file (st_size st)) @ concat cs) [fopen (w_files W) file] (net l3)"
    using processRead_file [OF 2(2-4) al K req _ recv(2) url info, of created] recv(1) io by auto
  obtain q where q: "queue_rep q []"
      "run_rounds ?D (w_al W) (w_junk W) (destroy_call W) (worker_call ?D W (threadID l)) [Some [], Some [(client, EPOLLIN)]] l1 =
       (if w_debug W then Inl UseAfterFree else Inr (l3\<lparr>tasks := q, mutex := False\<rparr>))"
    using worker_rounds [OF _ 2(1) _ 2(3) 3(1,4)] w(2) 1(3) io(1) by auto
  have slot: "nat (index (pool s)) < length (workthreads (pool s))"
    using w(1) by (auto simp: next_worker_def pool_inv_def nat_less_iff)
  show ?thesis
    using 1 3 q slot
    by (intro exI [of _ "s\<lparr>pool := (pool s)\<lparr>index := (index (pool s) + 1) mod threadNum (pool s),
         workthreads := (workthreads (pool s))[nat (index (pool s)) := Some (w\<lparr>wloop := Some l1\<rparr>)]\<rparr>\<rparr>"]
        exI [of _ l1] exI [of _ "l3\<lparr>tasks := q, mutex := False\<rparr>"])
      (simp add: RunEventLoop_def idle_def disconnected_def head_file)
qed

theorem request_through_server_witness:
  "\<exists>s' l1 l3. acceptConnection (small_world False (Some (print_request ''GET'' ''/d/a.txt'' ''HTTP/1.1'' []))) None 1 5 small_server = Inr (s', 0) \<and>
     workthreads (pool s') ! 0 = Some \<lparr>wname = ''Subthread--0'', wloop = Some l1\<rparr> \<and>
     closed (l3 :: epoll_data tcp_loop) = [5] \<and>
     (\<exists>head. wire (net l3) 5 = ''HTTP/1.1 200 OK'' @ CRLF @ head @ ''hello'')"
proof -
  let ?W = "small_world False (Some (print_request ''GET'' ''/d/a.txt'' ''HTTP/1.1'' []))"
  let ?l = Tcp_Connection.worker_loop
  have st: "fstat small_files ''d/a.txt'' = Some \<lparr>st_isdir = False, st_size = 5\<rparr>" "0 < fopen small_files ''d/a.txt''"
    "reads_from small_files ''d/a.txt'' 0 [''hello'']"
    by (simp_all add: small_files_def)
  note req = get_txt_ok
  have "\<exists>s' l1 l3. acceptConnection ?W None (threadID small_server) 5 small_server = Inr (s', 0) \<and>
     workthreads (pool s') ! nat (index (pool small_server)) = Some (\<lparr>wname = ''Subthread--0'', wloop = Some ?l\<rparr>\<lparr>wloop := Some l1\<rparr>) \<and>
     RunEventLoop (Epolldispatch None) (w_al ?W) (w_junk ?W) (destroy_call ?W)
       (worker_call (Epolldispatch None) ?W (threadID ?l)) (threadID ?l) [Some [], Some [(5, EPOLLIN)]] l1 =
       (if w_debug ?W then Inl UseAfterFree else Inr (l3, None)) \<and>
     idle (threadID ?l) l3 \<and> closed l3 = closed ?l @ [5] \<and> conns l3 (freshconn ?l) = None \<and>
     epoll_interest (disepatherData l3) 5 = (False, False) \<and>
     sent (net ?l) 5 (''HTTP/1.1 200 OK'' @ CRLF @ ''Content-type: '' @ getFileType ''d/a.txt'' @ CRLF @
       ''Content-length: '' @ dec (wrap32 (st_size \<lparr>st_isdir = False, st_size = 5\<rparr>)) @ CRLF @ CRLF @ concat [''hello''])
       [fopen (w_files ?W) ''d/a.txt''] (net l3)"
    by (rule request_through_server [OF small_server_next _ small_world_simps(1) worker_loop_admits small_world_simps(2) req(1) _ req(2) _ req(3,4)])
      (use st(3) in \<open>simp_all add: st(1,2) HeaderSize_def Tcp_Connection.worker_loop_def\<close>)
  then obtain s' l1 l3 where r: "acceptConnection ?W None (threadID small_server) 5 small_server = Inr (s', 0)"
     "workthreads (pool s') ! nat (index (pool small_server)) = Some \<lparr>wname = ''Subthread--0'', wloop = Some l1\<rparr>"
     "closed (l3 :: epoll_data tcp_loop) = closed ?l @ [5]"
     "wire (net l3) 5 = wire (net ?l) 5 @ ''HTTP/1.1 200 OK'' @ CRLF @ (''Content-type: '' @ getFileType ''d/a.txt'' @ CRLF @
       ''Content-length: '' @ dec (wrap32 5) @ CRLF @ CRLF) @ ''hello''"
    by (auto simp: sent_def)
  have "threadID small_server = 1" "nat (index (pool small_server)) = 0" "closed ?l = []" "wire (net ?l) 5 = []"
    by (simp_all add: small_server_def Tcp_Connection.worker_loop_def silent_def)
  with r show ?thesis by (metis append_Nil)
qed

end
